(* ===== verification/Prelude.thy ===== *)
theory Prelude
  imports Main "HOL-Library.AList" "HOL-Library.Char_ord" "HOL-Library.List_Lexorder"
begin

section \<open>Go values the components share\<close>

text \<open>
  The vocabulary of the development: Go maps, the string functions of Go's standard library
  that the source calls, and the generic lemmas on them.

  A Go map is an association list. Looking a key up, storing and deleting go through
  \<^term>\<open>map_of\<close>, \<^term>\<open>AList.update\<close> and \<^term>\<open>AList.delete\<close>, which keep at most one entry
  for a key; a \<^verbatim>\<open>range\<close> loop visits the entries in list order. Go does not fix that order, so
  a property of a loop over a map is stated for every list, that is for every order.
  Strings are byte strings, compared byte by byte, as Go compares them.
\<close>

type_synonym ('k, 'v) gomap = "('k \<times> 'v) list"

abbreviation mget :: "('k, 'v) gomap \<Rightarrow> 'k \<Rightarrow> 'v option" where
  "mget \<equiv> map_of"

abbreviation mput :: "'k \<Rightarrow> 'v \<Rightarrow> ('k, 'v) gomap \<Rightarrow> ('k, 'v) gomap" where
  "mput \<equiv> AList.update"

abbreviation mdel :: "'k \<Rightarrow> ('k, 'v) gomap \<Rightarrow> ('k, 'v) gomap" where
  "mdel \<equiv> AList.delete"

text \<open>\<^verbatim>\<open>m[k]\<close> with one result: the zero value \<open>d\<close> of the element type where \<open>k\<close> is missing.\<close>

definition mgetd :: "'v \<Rightarrow> ('k, 'v) gomap \<Rightarrow> 'k \<Rightarrow> 'v" where
  "mgetd d m k = (case mget m k of None \<Rightarrow> d | Some v \<Rightarrow> v)"

definition mhas :: "('k, 'v) gomap \<Rightarrow> 'k \<Rightarrow> bool" where
  "mhas m k \<longleftrightarrow> mget m k \<noteq> None"

text \<open>Every Go map has one entry for a key; the constructors below keep it so.\<close>

definition mwf :: "('k, 'v) gomap \<Rightarrow> bool" where
  "mwf m \<longleftrightarrow> distinct (map fst m)"

named_theorems gomap \<open>lookup and well-formedness laws of Go maps\<close>

lemma mget_mput [gomap]: "mget (mput k v m) k' = (if k' = k then Some v else mget m k')"
  by (simp add: update_conv')

lemma mget_mdel [gomap]: "mget (mdel k m) k' = (if k' = k then None else mget m k')"
  by (simp add: delete_conv')

lemma mwf_Nil [simp, gomap]: "mwf []"
  by (simp add: mwf_def)

lemma mwf_mput [gomap, intro]: "mwf m \<Longrightarrow> mwf (mput k v m)"
  by (simp add: mwf_def distinct_update)

lemma mwf_mdel [gomap, intro]: "mwf m \<Longrightarrow> mwf (mdel k m)"
  by (simp add: mwf_def distinct_delete)

lemma mgetd_mput [gomap]: "mgetd d (mput k v m) k' = (if k' = k then v else mgetd d m k')"
  by (simp add: mgetd_def mget_mput)

lemma mhas_mput [gomap]: "mhas (mput k v m) k' \<longleftrightarrow> k' = k \<or> mhas m k'"
  by (simp add: mhas_def mget_mput)

lemma mhas_mdel [gomap]: "mhas (mdel k m) k' \<longleftrightarrow> k' \<noteq> k \<and> mhas m k'"
  by (simp add: mhas_def mget_mdel)

lemma mhas_keys: "mhas m k \<longleftrightarrow> k \<in> set (map fst m)"
  by (simp add: mhas_def map_of_eq_None_iff)

lemma keys_mput: "set (map fst (mput k v m)) = insert k (set (map fst m))"
  using dom_update [of k v m] by simp

lemma mwf_mget_iff: "mwf m \<Longrightarrow> mget m k = Some v \<longleftrightarrow> (k, v) \<in> set m"
  by (simp add: mwf_def)

lemma mget_in_set: "mget m k = Some v \<Longrightarrow> (k, v) \<in> set m"
  by (rule map_of_SomeD)

text \<open>\<^verbatim>\<open>for k, v := range src { dst[k] = v }\<close>\<close>

definition mcopy :: "('k, 'v) gomap \<Rightarrow> ('k, 'v) gomap \<Rightarrow> ('k, 'v) gomap" where
  "mcopy src dst = fold (\<lambda>(k, v) m. mput k v m) src dst"

lemma mcopy_Nil [simp]: "mcopy [] dst = dst"
  by (simp add: mcopy_def)

lemma mcopy_Cons [simp]: "mcopy ((k, v) # src) dst = mcopy src (mput k v dst)"
  by (simp add: mcopy_def)

lemma mcopy_wf [gomap, intro]: "mwf dst \<Longrightarrow> mwf (mcopy src dst)"
  by (induction src arbitrary: dst) (simp_all add: mwf_mput split_paired_all)

lemma mcopy_keys: "set (map fst (mcopy src dst)) = set (map fst src) \<union> set (map fst dst)"
proof (induction src arbitrary: dst)
  case Nil
  then show ?case by simp
next
  case (Cons p src)
  obtain k v where p: "p = (k, v)" by (cases p)
  have "set (map fst (mcopy (p # src) dst)) = set (map fst src) \<union> set (map fst (mput k v dst))"
    using Cons.IH [of "mput k v dst"] p by simp
  also have "\<dots> = set (map fst (p # src)) \<union> set (map fst dst)"
    by (simp only: keys_mput) (simp add: p)
  finally show ?case .
qed

lemma mget_mcopy_notin: "k \<notin> set (map fst src) \<Longrightarrow> mget (mcopy src dst) k = mget dst k"
  by (induction src arbitrary: dst) (auto simp: mget_mput)

lemma mget_mcopy:
  "mwf src \<Longrightarrow> mget (mcopy src dst) k = (case mget src k of None \<Rightarrow> mget dst k | Some v \<Rightarrow> Some v)"
proof (induction src arbitrary: dst)
  case Nil
  then show ?case by simp
next
  case (Cons p src)
  obtain k0 v0 where p: "p = (k0, v0)" by (cases p)
  from Cons.prems p have wf: "mwf src" and new: "k0 \<notin> set (map fst src)"
    by (auto simp: mwf_def)
  from new have "mget src k0 = None" by (simp add: map_of_eq_None_iff)
  then show ?case
    using Cons.IH [OF wf] p by (auto simp: mget_mput split: option.splits)
qed

subsection \<open>Strings\<close>

definition has_prefix :: "string \<Rightarrow> string \<Rightarrow> bool" where
  "has_prefix p s \<longleftrightarrow> take (length p) s = p"

definition has_suffix :: "string \<Rightarrow> string \<Rightarrow> bool" where
  "has_suffix p s \<longleftrightarrow> has_prefix (rev p) (rev s)"

definition trim_prefix :: "string \<Rightarrow> string \<Rightarrow> string" where
  "trim_prefix p s = (if has_prefix p s then drop (length p) s else s)"

fun str_contains :: "string \<Rightarrow> string \<Rightarrow> bool" where
  "str_contains [] sub = has_prefix sub []"
| "str_contains (c # cs) sub = (has_prefix sub (c # cs) \<or> str_contains cs sub)"

text \<open>\<^verbatim>\<open>strings.Cut\<close> at a one-byte separator: before, after, found.\<close>

fun str_cut :: "char \<Rightarrow> string \<Rightarrow> string \<times> string \<times> bool" where
  "str_cut sep [] = ([], [], False)"
| "str_cut sep (c # cs) =
     (if c = sep then ([], cs, True)
      else (case str_cut sep cs of (b, a, found) \<Rightarrow> (c # b, a, found)))"

text \<open>\<^verbatim>\<open>strings.ToLower\<close> on ASCII bytes; other bytes are left as they are.\<close>

definition lower_char :: "char \<Rightarrow> char" where
  "lower_char c = (let n = of_char c :: nat in if 65 \<le> n \<and> n \<le> 90 then char_of (n + 32) else c)"

definition to_lower :: "string \<Rightarrow> string" where
  "to_lower s = map lower_char s"

lemma lower_char_idem: "lower_char (lower_char c) = lower_char c"
  by (simp add: lower_char_def Let_def of_char_of)

lemma to_lower_idem [simp]: "to_lower (to_lower s) = to_lower s"
  by (simp add: to_lower_def lower_char_idem)

lemma to_lower_append [simp]: "to_lower (a @ b) = to_lower a @ to_lower b"
  by (simp add: to_lower_def)

lemma to_lower_Nil_iff [simp]: "to_lower s = [] \<longleftrightarrow> s = []"
  by (simp add: to_lower_def)

lemma has_prefix_append [simp]: "has_prefix p (p @ s)"
  by (simp add: has_prefix_def)

lemma has_prefix_iff: "has_prefix p s \<longleftrightarrow> (\<exists>t. s = p @ t)"
  by (metis append_eq_conv_conj append_take_drop_id has_prefix_def)

lemma trim_prefix_append [simp]: "trim_prefix p (p @ s) = s"
  by (simp add: trim_prefix_def)

lemma str_cut_found: "str_cut sep s = (b, a, True) \<Longrightarrow> s = b @ sep # a \<and> sep \<notin> set b"
  by (induction s arbitrary: b) (auto split: if_splits prod.splits)

lemma str_cut_absent: "sep \<notin> set s \<Longrightarrow> str_cut sep s = (s, [], False)"
  by (induction s) auto

lemma str_cut_present: "snd (snd (str_cut sep s)) \<longleftrightarrow> sep \<in> set s"
  by (induction s) (auto split: prod.splits)

lemma str_cut_not_found: "str_cut sep s = (b, a, False) \<longleftrightarrow> b = s \<and> a = [] \<and> sep \<notin> set s"
  using str_cut_present [of sep s] str_cut_absent [of sep s] by auto

lemma str_cut_join: "sep \<notin> set b \<Longrightarrow> str_cut sep (b @ sep # a) = (b, a, True)"
  by (induction b) auto

end
