(* ===== verification/Access_Set.thy ===== *)
theory Access_Set
  imports Prelude
begin

section \<open>Access sets: pkg/accesscontrol/access\_set.go\<close>

text \<open>
  The permissions of one subject. An \<open>AccessSet\<close> maps a key (verb, group, resource) to the set of
  accesses granted under it; an access names a namespace and a resource name, and \<open>*\<close> stands for
  any value in each of the five positions. An \<open>AccessListByVerb\<close> is the part of an access set
  about one resource, indexed by verb.

  The nil map of Go is \<open>None\<close> in the field \<open>set\<close> of the access set; reading it is reading an
  empty map, and \<open>Add\<close> and \<open>Merge\<close> allocate before they write, as the code does.
  The interface the role indexes use (an empty store, adding a grant, merging, asking) is the locale
  \<open>grant_store\<close> and its extension \<open>mergeable_grants\<close>, interpreted here on the operations of the
  code.
\<close>

definition all_star :: string where
  "all_star = ''*''"

record access =
  acc_Namespace :: string
  acc_ResourceName :: string

record group_resource =
  gr_Group :: string
  gr_Resource :: string

record akey =
  key_verb :: string
  key_gr :: group_resource

type_synonym resourceAccessSet = "(access, bool) gomap"

record access_set =
  as_ID :: string
  as_set :: "(akey, resourceAccessSet) gomap option"

definition empty_access_set :: access_set where
  "empty_access_set = \<lparr>as_ID = [], as_set = None\<rparr>"

subsection \<open>One access\<close>

definition nsOK :: "access \<Rightarrow> string \<Rightarrow> bool" where
  "nsOK a ns \<longleftrightarrow> acc_Namespace a = all_star \<or> acc_Namespace a = ns"

definition nameOK :: "access \<Rightarrow> string \<Rightarrow> bool" where
  "nameOK a nm \<longleftrightarrow> acc_ResourceName a = all_star \<or> acc_ResourceName a = nm"

definition Access_Grants :: "access \<Rightarrow> string \<Rightarrow> string \<Rightarrow> bool" where
  "Access_Grants a ns nm \<longleftrightarrow> nsOK a ns \<and> nameOK a nm"

type_synonym AccessList = "access list"

fun AccessList_Grants :: "AccessList \<Rightarrow> string \<Rightarrow> string \<Rightarrow> bool" where
  "AccessList_Grants [] ns nm = False"
| "AccessList_Grants (a # as) ns nm =
     (if Access_Grants a ns nm then True else AccessList_Grants as ns nm)"

subsection \<open>The access set\<close>

definition set_of :: "access_set \<Rightarrow> (akey, resourceAccessSet) gomap" where
  "set_of a = (case as_set a of None \<Rightarrow> [] | Some s \<Rightarrow> s)"

definition mk_key :: "string \<Rightarrow> string \<Rightarrow> string \<Rightarrow> akey" where
  "mk_key v g r = \<lparr>key_verb = v, key_gr = \<lparr>gr_Group = g, gr_Resource = r\<rparr>\<rparr>"

text \<open>The keys the three nested loops of \<open>Grants\<close> and \<open>AccessListFor\<close> visit, in their order.\<close>

definition wild_keys :: "string \<Rightarrow> group_resource \<Rightarrow> akey list" where
  "wild_keys verb gr =
     [mk_key v g r. v \<leftarrow> [all_star, verb], g \<leftarrow> [all_star, gr_Group gr], r \<leftarrow> [all_star, gr_Resource gr]]"

definition AccessSet_Grants :: "access_set \<Rightarrow> string \<Rightarrow> group_resource \<Rightarrow> string \<Rightarrow> string \<Rightarrow> bool" where
  "AccessSet_Grants a verb gr ns nm =
     list_ex (\<lambda>k. list_ex (\<lambda>(ac, _). Access_Grants ac ns nm) (mgetd [] (set_of a) k)) (wild_keys verb gr)"

definition AccessListFor :: "access_set \<Rightarrow> string \<Rightarrow> group_resource \<Rightarrow> AccessList" where
  "AccessListFor a verb gr =
     map fst (fold (\<lambda>k dedup. fold (\<lambda>(ac, _) d. mput ac True d) (mgetd [] (set_of a) k) dedup)
       (wild_keys verb gr) [])"

definition AccessSet_Add :: "access_set \<Rightarrow> string \<Rightarrow> group_resource \<Rightarrow> access \<Rightarrow> access_set" where
  "AccessSet_Add a verb gr acc =
     (let s = set_of a;
          k = \<lparr>key_verb = verb, key_gr = gr\<rparr>
      in case mget s k of
           Some m \<Rightarrow> a\<lparr>as_set := Some (mput k (mput acc True m) s)\<rparr>
         | None \<Rightarrow> a\<lparr>as_set := Some (mput k (mput acc True []) s)\<rparr>)"

fun merge_loop ::
  "(akey, resourceAccessSet) gomap \<Rightarrow> (akey, resourceAccessSet) gomap option
   \<Rightarrow> (akey, resourceAccessSet) gomap option" where
  "merge_loop [] s = s"
| "merge_loop ((k, accessMap) # rest) s =
     (let s0 = (case s of None \<Rightarrow> [] | Some m \<Rightarrow> m);
          m = (case mget s0 k of None \<Rightarrow> [] | Some m \<Rightarrow> m)
      in merge_loop rest (Some (mput k (mcopy accessMap m) s0)))"

definition AccessSet_Merge :: "access_set \<Rightarrow> access_set \<Rightarrow> access_set" where
  "AccessSet_Merge a right = a\<lparr>as_set := merge_loop (set_of right) (as_set a)\<rparr>"

definition AccessSet_Namespaces :: "access_set \<Rightarrow> string list" where
  "AccessSet_Namespaces a =
     sort (map fst
       (fold (\<lambda>(k, as) acc.
          if key_verb k \<noteq> ''get'' \<and> key_verb k \<noteq> ''list'' then acc
          else fold (\<lambda>(ac, _) acc.
                 if acc_Namespace ac = all_star then acc
                 else mput (acc_Namespace ac) True acc) as acc)
        (set_of a) []))"

subsection \<open>Access lists by verb\<close>

type_synonym AccessListByVerb = "(string, AccessList) gomap"

definition ByVerb_Grants :: "AccessListByVerb \<Rightarrow> string \<Rightarrow> string \<Rightarrow> string \<Rightarrow> bool" where
  "ByVerb_Grants a verb ns nm = AccessList_Grants (mgetd [] a verb) ns nm"

definition ByVerb_All :: "AccessListByVerb \<Rightarrow> string \<Rightarrow> bool" where
  "ByVerb_All a verb = ByVerb_Grants a verb all_star all_star"

text \<open>\<^verbatim>\<open>sets.String\<close> is a list without repetitions; nil and the empty set read the same.\<close>

record resources =
  res_All :: bool
  res_Names :: "string list"

definition zero_resources :: resources where
  "zero_resources = \<lparr>res_All = False, res_Names = []\<rparr>"

definition granted_step :: "access \<Rightarrow> (string, resources) gomap \<Rightarrow> (string, resources) gomap" where
  "granted_step acc result =
     (let res = mgetd zero_resources result (acc_Namespace acc);
          res' = (if acc_ResourceName acc = all_star then res\<lparr>res_All := True\<rparr>
                  else res\<lparr>res_Names := List.insert (acc_ResourceName acc) (res_Names res)\<rparr>)
      in mput (acc_Namespace acc) res' result)"

definition granted_get_step :: "access \<Rightarrow> (string, resources) gomap \<Rightarrow> (string, resources) gomap" where
  "granted_get_step acc result =
     (let res = mgetd zero_resources result (acc_Namespace acc)
      in if acc_ResourceName acc = all_star then result
         else if length (acc_ResourceName acc) > 0
         then mput (acc_Namespace acc)
                (res\<lparr>res_Names := List.insert (acc_ResourceName acc) (res_Names res)\<rparr>) result
         else result)"

definition ByVerb_Granted :: "AccessListByVerb \<Rightarrow> string \<Rightarrow> (string, resources) gomap" where
  "ByVerb_Granted a verb =
     (let result = fold granted_step (mgetd [] a verb) []
      in if verb = ''list'' then fold granted_get_step (mgetd [] a ''get'') result else result)"

fun ByVerb_AnyVerb :: "AccessListByVerb \<Rightarrow> string list \<Rightarrow> bool" where
  "ByVerb_AnyVerb a [] = False"
| "ByVerb_AnyVerb a (v # vs) = (if length (mgetd [] a v) > 0 then True else ByVerb_AnyVerb a vs)"


section \<open>What an access set holds\<close>

text \<open>
  The specification side: an access set as the relation between keys and accesses it stores, and
  the wildcard reading of a pattern.
\<close>

definition has_access :: "access_set \<Rightarrow> akey \<Rightarrow> access \<Rightarrow> bool" where
  "has_access a k ac \<longleftrightarrow> mhas (mgetd [] (set_of a) k) ac"

definition wild :: "string \<Rightarrow> string \<Rightarrow> bool" where
  "wild p s \<longleftrightarrow> p = all_star \<or> p = s"

definition access_set_wf :: "access_set \<Rightarrow> bool" where
  "access_set_wf a \<longleftrightarrow> mwf (set_of a) \<and> (\<forall>(k, m) \<in> set (set_of a). mwf m)"

text \<open>The interface of a store of grants, and what a client may conclude from its laws.\<close>

locale grant_store =
  fixes empty :: "'s"
    and add :: "'k \<Rightarrow> 'a \<Rightarrow> 's \<Rightarrow> 's"
    and holds :: "'s \<Rightarrow> 'k \<Rightarrow> 'a \<Rightarrow> bool"
    and ok :: "'s \<Rightarrow> bool"
  assumes ok_empty: "ok empty"
    and ok_add: "ok s \<Longrightarrow> ok (add k a s)"
    and holds_empty: "\<not> holds empty k a"
    and holds_add: "ok s \<Longrightarrow> holds (add k a s) k' a' \<longleftrightarrow> (k' = k \<and> a' = a) \<or> holds s k' a'"
begin

lemma ok_fold: "ok s \<Longrightarrow> ok (fold (\<lambda>(k, a). add k a) es s)"
  by (induction es arbitrary: s) (auto intro: ok_add)

lemma holds_fold:
  "ok s \<Longrightarrow> holds (fold (\<lambda>(k, a). add k a) es s) k' a' \<longleftrightarrow> (k', a') \<in> set es \<or> holds s k' a'"
proof (induction es arbitrary: s)
  case Nil
  then show ?case by simp
next
  case (Cons e es)
  obtain k a where e: "e = (k, a)" by (cases e)
  show ?case
    using Cons.IH [OF ok_add [OF Cons.prems]] holds_add [OF Cons.prems] e by auto
qed

lemma holds_fold_empty: "holds (fold (\<lambda>(k, a). add k a) es empty) k a \<longleftrightarrow> (k, a) \<in> set es"
  using holds_fold [OF ok_empty] holds_empty by simp

end

locale mergeable_grants = grant_store +
  fixes merge :: "'s \<Rightarrow> 's \<Rightarrow> 's"
  assumes ok_merge: "ok s \<Longrightarrow> ok t \<Longrightarrow> ok (merge s t)"
    and holds_merge: "ok s \<Longrightarrow> ok t \<Longrightarrow> holds (merge s t) k a \<longleftrightarrow> holds s k a \<or> holds t k a"
begin

lemma ok_foldl_merge: "ok s \<Longrightarrow> (\<And>t. t \<in> set ts \<Longrightarrow> ok t) \<Longrightarrow> ok (foldl merge s ts)"
  by (induction ts arbitrary: s) (auto intro: ok_merge)

lemma holds_foldl_merge:
  "ok s \<Longrightarrow> (\<And>t. t \<in> set ts \<Longrightarrow> ok t) \<Longrightarrow>
   holds (foldl merge s ts) k a \<longleftrightarrow> holds s k a \<or> (\<exists>t \<in> set ts. holds t k a)"
proof (induction ts arbitrary: s)
  case Nil
  then show ?case by simp
next
  case (Cons t ts)
  have "ok (merge s t)" and "ok t" using Cons.prems by (auto intro: ok_merge)
  with Cons.IH [OF this(1)] Cons.prems show ?case by (auto simp: holds_merge)
qed

end

subsection \<open>The operations satisfy the interface\<close>

lemma set_of_simps [simp]:
  "set_of (a\<lparr>as_set := Some s\<rparr>) = s"
  "set_of (a\<lparr>as_ID := i\<rparr>) = set_of a"
  "set_of empty_access_set = []"
  by (simp_all add: set_of_def empty_access_set_def)

lemma set_of_Add:
  "set_of (AccessSet_Add a verb gr acc) =
     mput \<lparr>key_verb = verb, key_gr = gr\<rparr>
       (mput acc True (mgetd [] (set_of a) \<lparr>key_verb = verb, key_gr = gr\<rparr>)) (set_of a)"
  by (simp add: AccessSet_Add_def Let_def mgetd_def split: option.splits)

lemma has_access_Add:
  "has_access (AccessSet_Add a verb gr acc) k ac \<longleftrightarrow>
     (k = \<lparr>key_verb = verb, key_gr = gr\<rparr> \<and> ac = acc) \<or> has_access a k ac"
  by (auto simp: has_access_def set_of_Add gomap)

text \<open>With one entry for a key, a property of all entries is a property of all lookups.\<close>

lemma all_entries_iff:
  assumes "mwf s" and "P d"
  shows "(\<forall>(k, m) \<in> set s. P m) \<longleftrightarrow> (\<forall>k. P (mgetd d s k))"
  using assms by (fastforce simp: mgetd_def mwf_mget_iff split: option.splits)

lemma access_set_wf_iff:
  "access_set_wf a \<longleftrightarrow> mwf (set_of a) \<and> (\<forall>k. mwf (mgetd [] (set_of a) k))"
  using all_entries_iff [of "set_of a" mwf "[]"] by (auto simp: access_set_wf_def)

lemma access_set_wf_Add: "access_set_wf a \<Longrightarrow> access_set_wf (AccessSet_Add a verb gr acc)"
  by (simp add: access_set_wf_iff set_of_Add mwf_mput mgetd_mput)

definition opt_map :: "('k, 'v) gomap option \<Rightarrow> ('k, 'v) gomap" where
  "opt_map s = (case s of None \<Rightarrow> [] | Some m \<Rightarrow> m)"

lemma opt_map_simps [simp]: "opt_map None = []" "opt_map (Some m) = m"
  by (simp_all add: opt_map_def)

lemma merge_loop_Cons:
  "merge_loop ((k, m) # rest) s =
     merge_loop rest (Some (mput k (mcopy m (mgetd [] (opt_map s) k)) (opt_map s)))"
  by (simp add: opt_map_def mgetd_def Let_def)

lemma merge_loop_lookup:
  assumes "mwf r"
  shows "mgetd [] (opt_map (merge_loop r s)) k = mcopy (mgetd [] r k) (mgetd [] (opt_map s) k)"
  using assms
proof (induction r arbitrary: s)
  case Nil
  then show ?case by (simp add: mgetd_def)
next
  case (Cons e r)
  obtain k0 m0 where e: "e = (k0, m0)" by (cases e)
  from Cons.prems e have wf: "mwf r" and "mget r k0 = None"
    by (auto simp: mwf_def map_of_eq_None_iff)
  then have new: "mgetd [] r k0 = []" by (simp add: mgetd_def)
  let ?s' = "Some (mput k0 (mcopy m0 (mgetd [] (opt_map s) k0)) (opt_map s))"
  have "mgetd [] (opt_map (merge_loop (e # r) s)) k = mgetd [] (opt_map (merge_loop r ?s')) k"
    by (simp only: e merge_loop_Cons)
  then show ?case
    using Cons.IH [OF wf, of ?s'] new e by (auto simp: mgetd_mput) (simp_all add: mgetd_def)
qed

lemma merge_loop_mwf: "mwf (opt_map s) \<Longrightarrow> mwf (opt_map (merge_loop r s))"
proof (induction r arbitrary: s)
  case Nil
  then show ?case by simp
next
  case (Cons e r)
  then show ?case by (cases e) (simp only: merge_loop_Cons opt_map_simps mwf_mput)
qed

lemma set_of_Merge: "set_of (AccessSet_Merge a right) = opt_map (merge_loop (set_of right) (as_set a))"
  by (simp add: set_of_def opt_map_def AccessSet_Merge_def)

lemma set_of_opt_map: "opt_map (as_set a) = set_of a"
  by (simp add: set_of_def opt_map_def)

lemma access_set_wf_Merge:
  "access_set_wf a \<Longrightarrow> access_set_wf right \<Longrightarrow> access_set_wf (AccessSet_Merge a right)"
  by (simp add: access_set_wf_iff set_of_Merge merge_loop_lookup merge_loop_mwf set_of_opt_map mcopy_wf)

lemma mhas_mcopy: "mhas (mcopy m d) x \<longleftrightarrow> mhas m x \<or> mhas d x"
  using mcopy_keys [of m d] by (simp only: mhas_keys Un_iff)

lemma has_access_Merge:
  assumes "access_set_wf right"
  shows "has_access (AccessSet_Merge a right) k ac \<longleftrightarrow> has_access a k ac \<or> has_access right k ac"
  using assms
  by (auto simp: has_access_def set_of_Merge merge_loop_lookup access_set_wf_def set_of_opt_map
      mhas_mcopy)

interpretation access_sets: mergeable_grants
  empty_access_set
  "\<lambda>k ac a. AccessSet_Add a (key_verb k) (key_gr k) ac"
  has_access access_set_wf AccessSet_Merge
proof (unfold_locales, goal_cases)
  case 1
  show ?case by (simp add: access_set_wf_def)
next
  case (2 s k a)
  then show ?case by (rule access_set_wf_Add)
next
  case (3 k a)
  show ?case by (simp add: has_access_def mgetd_def mhas_def)
next
  case (4 s k a k' a')
  show ?case by (cases k) (simp add: has_access_Add)
next
  case (5 s t)
  then show ?case by (blast intro: access_set_wf_Merge)
next
  case (6 s t k a)
  then show ?case by (simp add: has_access_Merge)
qed


subsection \<open>Asking an access set\<close>

lemma AccessList_Grants_iff: "AccessList_Grants as ns nm \<longleftrightarrow> (\<exists>a \<in> set as. Access_Grants a ns nm)"
  by (induction as) auto

lemma Access_Grants_wild: "Access_Grants a ns nm \<longleftrightarrow> wild (acc_Namespace a) ns \<and> wild (acc_ResourceName a) nm"
  by (auto simp: Access_Grants_def nsOK_def nameOK_def wild_def)

lemma set_wild_keys:
  "k \<in> set (wild_keys verb gr) \<longleftrightarrow>
     wild (key_verb k) verb \<and> wild (gr_Group (key_gr k)) (gr_Group gr) \<and>
     wild (gr_Resource (key_gr k)) (gr_Resource gr)"
proof -
  obtain v g r where k: "k = mk_key v g r"
    by (cases k, cases "key_gr k") (auto simp: mk_key_def)
  show ?thesis by (auto simp: k wild_keys_def wild_def mk_key_def)
qed

lemma list_ex_mhas: "list_ex (\<lambda>(ac, _). P ac) m \<longleftrightarrow> (\<exists>ac. mhas m ac \<and> P ac)"
  by (auto simp: list_ex_iff mhas_keys) force

lemma Grants_wild_keys:
  "AccessSet_Grants a verb gr ns nm \<longleftrightarrow>
     (\<exists>k \<in> set (wild_keys verb gr). \<exists>ac. has_access a k ac \<and> Access_Grants ac ns nm)"
  by (simp add: AccessSet_Grants_def list_ex_mhas has_access_def list_ex_iff [of _ "wild_keys verb gr"])

lemma fold_dedup_inner: "mwf d \<Longrightarrow>
   mwf (fold (\<lambda>(ac, _) d. mput ac True d) m d) \<and>
   set (map fst (fold (\<lambda>(ac, _) d. mput ac True d) m d)) = set (map fst m) \<union> set (map fst d)"
proof (induction m arbitrary: d)
  case Nil
  then show ?case by simp
next
  case (Cons e m)
  show ?case
    using Cons.IH [OF mwf_mput [OF Cons.prems, of "fst e" True]] keys_mput [of "fst e" True d]
    by (cases e) auto
qed

lemma fold_dedup_outer: "mwf d \<Longrightarrow>
   mwf (fold (\<lambda>k dedup. fold (\<lambda>(ac, _) d. mput ac True d) (f k) dedup) ks d) \<and>
   set (map fst (fold (\<lambda>k dedup. fold (\<lambda>(ac, _) d. mput ac True d) (f k) dedup) ks d)) =
     (\<Union>k \<in> set ks. set (map fst (f k))) \<union> set (map fst d)"
proof (induction ks arbitrary: d)
  case Nil
  then show ?case by simp
next
  case (Cons k ks)
  note step = fold_dedup_inner [OF Cons.prems, of "f k"]
  from Cons.IH [of "fold (\<lambda>(ac, _) d. mput ac True d) (f k) d"] step
  show ?case by (simp del: set_map) blast
qed

lemma AccessListFor_distinct: "distinct (AccessListFor a verb gr)"
  using fold_dedup_outer [of "[]" "mgetd [] (set_of a)" "wild_keys verb gr"]
  by (simp add: AccessListFor_def mwf_def)

lemma AccessListFor_set:
  "set (AccessListFor a verb gr) = {ac. \<exists>k \<in> set (wild_keys verb gr). has_access a k ac}"
  using fold_dedup_outer [of "[]" "mgetd [] (set_of a)" "wild_keys verb gr"]
  by (auto simp: AccessListFor_def has_access_def mhas_keys simp del: set_map)

lemmas access_query = Grants_wild_keys AccessListFor_set AccessList_Grants_iff Access_Grants_wild
  set_wild_keys

text \<open>
  C3. \<open>AccessSet.Grants\<close> allows a request exactly when some stored grant covers it: verb, group,
  resource, namespace and name each equal the stored one or the stored one is \<open>*\<close>. The three nested
  loops with their early return are complete and sound for the wildcard reading, whatever the
  iteration order of the inner maps.
\<close>

theorem grants_iff_wildcard_match:
  "AccessSet_Grants a verb gr ns nm \<longleftrightarrow>
     (\<exists>k ac. has_access a k ac \<and> wild (key_verb k) verb \<and>
        wild (gr_Group (key_gr k)) (gr_Group gr) \<and> wild (gr_Resource (key_gr k)) (gr_Resource gr) \<and>
        wild (acc_Namespace ac) ns \<and> wild (acc_ResourceName ac) nm)"
  unfolding access_query Bex_def by blast

text \<open>
  C38. \<open>AccessListFor\<close> is the access set cut down to one verb and resource: it has no duplicates, and
  asking it (\<open>AccessList.Grants\<close>) gives the same answer as asking the whole set.
\<close>

theorem access_list_for_agrees:
  "distinct (AccessListFor a verb gr) \<and>
   AccessList_Grants (AccessListFor a verb gr) ns nm = AccessSet_Grants a verb gr ns nm"
  using AccessListFor_distinct by (auto simp: access_query)

text \<open>
  \<open>AccessSet.Merge\<close> grants what either side granted and nothing else, and keeps the access set
  well formed.
\<close>

theorem merge_grants_union:
  assumes "access_set_wf a" and "access_set_wf b"
  shows "access_set_wf (AccessSet_Merge a b) \<and>
    (AccessSet_Grants (AccessSet_Merge a b) verb gr ns nm \<longleftrightarrow>
       AccessSet_Grants a verb gr ns nm \<or> AccessSet_Grants b verb gr ns nm)"
  using assms access_sets.ok_merge [OF assms] access_sets.holds_merge [OF assms]
  by (auto simp: Grants_wild_keys)

definition ex_pods :: group_resource where
  "ex_pods = \<lparr>gr_Group = [], gr_Resource = ''pods''\<rparr>"

definition ex_set1 :: access_set where
  "ex_set1 = AccessSet_Add empty_access_set ''get'' ex_pods \<lparr>acc_Namespace = ''a'', acc_ResourceName = all_star\<rparr>"

definition ex_set2 :: access_set where
  "ex_set2 = AccessSet_Add empty_access_set ''list'' ex_pods \<lparr>acc_Namespace = ''b'', acc_ResourceName = ''x''\<rparr>"

lemma ex_set_wf: "access_set_wf ex_set1" "access_set_wf ex_set2"
  by (simp_all add: ex_set1_def ex_set2_def access_set_wf_Add access_sets.ok_empty)

lemma merge_grants_union_witness:
  "AccessSet_Grants (AccessSet_Merge ex_set1 ex_set2) ''list'' ex_pods ''b'' ''x'' \<and>
   \<not> AccessSet_Grants (AccessSet_Merge ex_set1 ex_set2) ''list'' ex_pods ''a'' ''x''"
proof -
  have "AccessSet_Grants ex_set2 ''list'' ex_pods ''b'' ''x''" by code_simp
  moreover have "\<not> AccessSet_Grants ex_set1 ''list'' ex_pods ''a'' ''x''" by code_simp
  moreover have "\<not> AccessSet_Grants ex_set2 ''list'' ex_pods ''a'' ''x''" by code_simp
  ultimately show ?thesis using merge_grants_union [OF ex_set_wf] by blast
qed


subsection \<open>The namespaces of an access set\<close>

text \<open>The keys a loop stores, however the loop filters and maps what it stores.\<close>

lemma fold_store_keys:
  assumes "\<And>x d. mwf d \<Longrightarrow> mwf (f x d) \<and> set (map fst (f x d)) = S x \<union> set (map fst d)"
  shows "mwf d \<Longrightarrow> mwf (fold f xs d) \<and> set (map fst (fold f xs d)) = (\<Union>x \<in> set xs. S x) \<union> set (map fst d)"
proof (induction xs arbitrary: d)
  case Nil
  then show ?case by simp
next
  case (Cons x xs)
  note step = assms [OF Cons.prems, of x]
  from Cons.IH [of "f x d"] step show ?case by (simp del: set_map) blast
qed

definition listed_namespaces :: "akey \<times> resourceAccessSet \<Rightarrow> string set" where
  "listed_namespaces e =
     (if key_verb (fst e) = ''get'' \<or> key_verb (fst e) = ''list''
      then {acc_Namespace ac | ac. mhas (snd e) ac \<and> acc_Namespace ac \<noteq> all_star} else {})"

lemma in_listed_namespaces:
  "ns \<in> (\<Union>e \<in> set s. listed_namespaces e) \<longleftrightarrow>
     (\<exists>k m ac. (k, m) \<in> set s \<and> key_verb k \<in> {''get'', ''list''} \<and> mhas m ac \<and>
        acc_Namespace ac = ns \<and> ns \<noteq> all_star)"
  by (simp add: listed_namespaces_def Bex_def split_paired_Ex) blast

lemma namespaces_inner:
  "mwf d \<Longrightarrow>
   mwf (fold (\<lambda>(ac, _) acc. if acc_Namespace ac = all_star then acc else mput (acc_Namespace ac) True acc) as d) \<and>
   set (map fst (fold (\<lambda>(ac, _) acc. if acc_Namespace ac = all_star then acc else mput (acc_Namespace ac) True acc) as d)) =
     (\<Union>(ac, _) \<in> set as. if acc_Namespace ac = all_star then {} else {acc_Namespace ac}) \<union> set (map fst d)"
proof (rule fold_store_keys, goal_cases)
  case (1 e d)
  then show ?case
    using keys_mput [of "acc_Namespace (fst e)" True d] by (cases e) (auto intro: mwf_mput simp del: set_map)
qed

lemma namespaces_outer:
  "mwf (fold (\<lambda>(k, as) acc.
          if key_verb k \<noteq> ''get'' \<and> key_verb k \<noteq> ''list'' then acc
          else fold (\<lambda>(ac, _) acc.
                 if acc_Namespace ac = all_star then acc
                 else mput (acc_Namespace ac) True acc) as acc) s ([] :: (string, bool) gomap)) \<and>
   set (map fst (fold (\<lambda>(k, as) acc.
          if key_verb k \<noteq> ''get'' \<and> key_verb k \<noteq> ''list'' then acc
          else fold (\<lambda>(ac, _) acc.
                 if acc_Namespace ac = all_star then acc
                 else mput (acc_Namespace ac) True acc) as acc) s ([] :: (string, bool) gomap))) =
     (\<Union>e \<in> set s. listed_namespaces e) \<union> set (map fst ([] :: (string, bool) gomap))"
proof (rule fold_store_keys, goal_cases)
  case (1 e d)
  obtain k as where e: "e = (k, as)" by (cases e)
  have "(\<Union>(ac, _) \<in> set as. if acc_Namespace ac = all_star then {} else {acc_Namespace ac}) =
    {acc_Namespace ac | ac. mhas as ac \<and> acc_Namespace ac \<noteq> all_star}"
    unfolding mhas_keys set_map image_def
    by (rule set_eqI) (simp add: Bex_def split_paired_Ex, blast)
  with namespaces_inner [OF 1, of as] 1 show ?case
    by (simp add: e listed_namespaces_def del: set_map)
qed simp

text \<open>
  \<open>AccessSet.Namespaces\<close> returns, sorted and without duplicates, exactly the concrete namespaces
  in which the subject holds some get or list grant; \<open>*\<close> is left out and other verbs do not count.
\<close>

theorem namespaces_spec:
  assumes "access_set_wf a"
  shows "sorted (AccessSet_Namespaces a) \<and> distinct (AccessSet_Namespaces a) \<and>
    set (AccessSet_Namespaces a) =
      {ns. ns \<noteq> all_star \<and> (\<exists>k ac. has_access a k ac \<and> key_verb k \<in> {''get'', ''list''} \<and> acc_Namespace ac = ns)}"
proof -
  have "has_access a k ac \<longleftrightarrow> (\<exists>m. (k, m) \<in> set (set_of a) \<and> mhas m ac)" for k ac
    using assms by (auto simp: has_access_def mgetd_def access_set_wf_def mwf_mget_iff [symmetric]
        split: option.splits) (simp add: mhas_def)
  then have "(\<Union>e \<in> set (set_of a). listed_namespaces e) =
      {ns. ns \<noteq> all_star \<and> (\<exists>k ac. has_access a k ac \<and> key_verb k \<in> {''get'', ''list''} \<and> acc_Namespace ac = ns)}"
    by (intro set_eqI) (simp only: in_listed_namespaces, blast)
  with namespaces_outer [of "set_of a"] show ?thesis
    by (simp add: AccessSet_Namespaces_def mwf_def)
qed

lemma namespaces_spec_witness: "AccessSet_Namespaces ex_set1 = [''a''] \<and> sorted (AccessSet_Namespaces ex_set1)"
proof -
  have "AccessSet_Namespaces ex_set1 = [''a'']" by code_simp
  with namespaces_spec [OF ex_set_wf(1)] show ?thesis by simp
qed

subsection \<open>What an access list grants, namespace by namespace\<close>

definition res_covers :: "resources \<Rightarrow> string \<Rightarrow> bool" where
  "res_covers r nm \<longleftrightarrow> res_All r \<or> nm \<in> set (res_Names r)"

abbreviation acc :: "string \<Rightarrow> string \<Rightarrow> access" where
  "acc ns nm \<equiv> \<lparr>acc_Namespace = ns, acc_ResourceName = nm\<rparr>"

lemma granted_step_lookup:
  "mgetd zero_resources (granted_step a m) ns =
     (let r = mgetd zero_resources m ns in
      if ns \<noteq> acc_Namespace a then r
      else if acc_ResourceName a = all_star then r\<lparr>res_All := True\<rparr>
      else r\<lparr>res_Names := List.insert (acc_ResourceName a) (res_Names r)\<rparr>)"
  by (simp add: granted_step_def Let_def mgetd_mput)

lemma granted_get_step_lookup:
  "mgetd zero_resources (granted_get_step a m) ns =
     (let r = mgetd zero_resources m ns in
      if ns \<noteq> acc_Namespace a \<or> acc_ResourceName a = all_star \<or> acc_ResourceName a = [] then r
      else r\<lparr>res_Names := List.insert (acc_ResourceName a) (res_Names r)\<rparr>)"
  by (simp add: granted_get_step_def Let_def mgetd_mput)

lemma fold_granted_step:
  "res_All (mgetd zero_resources (fold granted_step as m) ns) \<longleftrightarrow>
     acc ns all_star \<in> set as \<or> res_All (mgetd zero_resources m ns)"
  "nm \<in> set (res_Names (mgetd zero_resources (fold granted_step as m) ns)) \<longleftrightarrow>
     (nm \<noteq> all_star \<and> acc ns nm \<in> set as) \<or> nm \<in> set (res_Names (mgetd zero_resources m ns))"
proof (induction as arbitrary: m)
  case (Cons a as)
  case 1
  show ?case using Cons.IH(1) [of "granted_step a m"]
    by (cases a) (auto simp: granted_step_lookup Let_def)
next
  case (Cons a as)
  case 2
  show ?case using Cons.IH(2) [of "granted_step a m"]
    by (cases a) (auto simp: granted_step_lookup Let_def)
qed simp_all

lemma fold_granted_get_step:
  "res_All (mgetd zero_resources (fold granted_get_step as m) ns) \<longleftrightarrow>
     res_All (mgetd zero_resources m ns)"
  "nm \<in> set (res_Names (mgetd zero_resources (fold granted_get_step as m) ns)) \<longleftrightarrow>
     (nm \<noteq> all_star \<and> nm \<noteq> [] \<and> acc ns nm \<in> set as) \<or> nm \<in> set (res_Names (mgetd zero_resources m ns))"
proof (induction as arbitrary: m)
  case (Cons a as)
  case 1
  show ?case using Cons.IH(1) [of "granted_get_step a m"]
    by (cases a) (auto simp: granted_get_step_lookup Let_def)
next
  case (Cons a as)
  case 2
  show ?case using Cons.IH(2) [of "granted_get_step a m"]
    by (cases a) (auto simp: granted_get_step_lookup Let_def)
qed simp_all

lemma granted_keys:
  "mwf m \<Longrightarrow> mwf (fold granted_step as m)"
  "mwf m \<Longrightarrow> mwf (fold granted_get_step as m)"
  by (induction as arbitrary: m) (auto simp: granted_step_def granted_get_step_def Let_def mwf_mput)

lemma ByVerb_Granted_wf: "mwf (ByVerb_Granted a verb)"
  by (simp add: ByVerb_Granted_def Let_def granted_keys)

lemma granted_lookup:
  "res_All (mgetd zero_resources (ByVerb_Granted a verb) ns) = (acc ns all_star \<in> set (mgetd [] a verb)) \<and>
   set (res_Names (mgetd zero_resources (ByVerb_Granted a verb) ns)) =
     {nm. nm \<noteq> all_star \<and> (acc ns nm \<in> set (mgetd [] a verb) \<or>
        verb = ''list'' \<and> nm \<noteq> [] \<and> acc ns nm \<in> set (mgetd [] a ''get''))}"
proof -
  have z: "\<not> res_All (mgetd zero_resources [] ns)" "res_Names (mgetd zero_resources [] ns) = []"
    by (simp_all add: mgetd_def zero_resources_def)
  show ?thesis
    by (auto simp: ByVerb_Granted_def Let_def fold_granted_step fold_granted_get_step z)
qed

text \<open>
  \<open>AccessListByVerb.Granted\<close> reads an access list namespace by namespace: a namespace is granted
  whole exactly when the verb's list has \<open>*\<close> in it, and a name is granted exactly when the verb's
  list names it there or, for list alone, the get list does with a non-empty name.
\<close>

theorem granted_spec:
  "res_All (mgetd zero_resources (ByVerb_Granted a verb) ns) = (acc ns all_star \<in> set (mgetd [] a verb)) \<and>
   set (res_Names (mgetd zero_resources (ByVerb_Granted a verb) ns)) =
     {nm. nm \<noteq> all_star \<and> (acc ns nm \<in> set (mgetd [] a verb) \<or>
        verb = ''list'' \<and> nm \<noteq> [] \<and> acc ns nm \<in> set (mgetd [] a ''get''))}"
  using granted_lookup by blast

end
