(* ===== verification/Api_Types.thy ===== *)
theory Api_Types
  imports Access_Set
begin

section \<open>Schemas, attributes, errors: pkg/types, pkg/attributes, pkg/apierror\<close>

text \<open>
  The data every other component passes around: API schemas with their attributes, the collection
  \<open>APISchemas\<close> with its case-insensitive index, and the error values.

  Code outside the repository appears as follows. The struct \<open>schemas.Schema\<close> of the schemer package
  is the record \<open>schema\<close> with the fields the source reads or writes. The conversions of
  \<open>data/convert\<close> are an argument of type \<open>convert\<close>. The package's own collection
  \<open>schemas.Schemas\<close> is represented by what its method \<open>Schema(id)\<close> returns, and its method
  \<open>AddSchema\<close> is an argument. A Go function value (a handler, a modifier, a store) is a number that
  names it; a component that runs one takes its behaviour as an argument.
\<close>

subsection \<open>Errors\<close>

text \<open>The codes of schemer's validation package by name, or built from a status and a code.\<close>

datatype error_code =
    NotFound
  | PermissionDenied
  | MethodNotAllowed
  | InvalidBodyContent
  | InvalidAction
  | InvalidCSRFToken
  | ServerError
  | Unauthorized
  | MkCode (code_Status: int) (code_Code: string)

text \<open>
  The dynamic types an \<^verbatim>\<open>error\<close> has in the source: an \<open>APIError\<close> (code, message, cause, field
  name), a bare \<open>ErrorCode\<close>, the marker \<open>ErrComplete\<close>, a Kubernetes status error, any other error
  by its text, and a run-time panic.
\<close>

datatype go_err =
    APIError error_code string "go_err option" string
  | CodeError error_code
  | ErrComplete
  | StatusError int string string
  | OtherError string
  | Panic string

definition NewAPIError :: "error_code \<Rightarrow> string \<Rightarrow> go_err" where
  "NewAPIError code message = APIError code message None []"

definition WrapAPIError :: "go_err \<Rightarrow> error_code \<Rightarrow> string \<Rightarrow> go_err" where
  "WrapAPIError err code message = APIError code message (Some err) []"

fun is_api_error :: "error_code \<Rightarrow> go_err \<Rightarrow> bool" where
  "is_api_error c (APIError c' _ _ _) = (c' = c)"
| "is_api_error c _ = False"

lemma is_api_error_New [simp]: "is_api_error c (NewAPIError c' m) \<longleftrightarrow> c' = c"
  by (simp add: NewAPIError_def)

subsection \<open>Schemas and their attributes\<close>

type_synonym func = nat

datatype aval =
    ANil
  | AStr string
  | ABool bool
  | AStrs "string list"
  | AAccess AccessListByVerb
  | AAccessSet access_set
  | AColumns "(string \<times> string) list"

text \<open>A field as the converter of OpenAPI models fills it, but for its description.\<close>

record field =
  f_Type :: string
  f_Required :: bool
  f_Create :: bool
  f_Update :: bool

definition typed_field :: "string \<Rightarrow> field" where
  "typed_field t = \<lparr>f_Type = t, f_Required = False, f_Create = False, f_Update = False\<rparr>"

lemma typed_field_type [simp]: "f_Type (typed_field t) = t"
  by (simp add: typed_field_def)

record action =
  act_Input :: string
  act_Output :: string

record schema =
  ID :: string
  PluralName :: string
  CollectionMethods :: "string list"
  ResourceMethods :: "string list"
  ResourceFields :: "(string, field) gomap"
  ResourceActions :: "(string, action) gomap"
  CollectionActions :: "(string, action) gomap"
  Attributes :: "(string, aval) gomap"

text \<open>A formatter is a function value or the composition \<open>FormatterChain\<close> builds.\<close>

datatype formatter = Fmt func | Chain formatter formatter

definition FormatterChain :: "formatter \<Rightarrow> formatter \<Rightarrow> formatter" where
  "FormatterChain f nxt = Chain f nxt"

fun run_formatter :: "(func \<Rightarrow> 'r \<Rightarrow> 'r) \<Rightarrow> formatter \<Rightarrow> 'r \<Rightarrow> 'r" where
  "run_formatter env (Fmt f) r = env f r"
| "run_formatter env (Chain f nxt) r = run_formatter env nxt (run_formatter env f r)"

record api_schema = schema +
  ActionHandlers :: "(string, func) gomap option"
  LinkHandlers :: "(string, func) gomap option"
  ListHandler :: "func option"
  ByIDHandler :: "func option"
  CreateHandler :: "func option"
  DeleteHandler :: "func option"
  UpdateHandler :: "func option"
  Formatter :: "formatter option"
  RequestModifier :: "func option"
  CollectionFormatter :: "func option"
  ErrorHandler :: "func option"
  Store :: "func option"

definition empty_schema :: schema where
  "empty_schema = \<lparr>ID = [], PluralName = [], CollectionMethods = [], ResourceMethods = [],
     ResourceFields = [], ResourceActions = [], CollectionActions = [], Attributes = []\<rparr>"

text \<open>\<^verbatim>\<open>APISchema{Schema: s}\<close>: every other field is its zero value.\<close>

definition mk_api_schema :: "schema \<Rightarrow> api_schema" where
  "mk_api_schema s = schema.extend s
     \<lparr>ActionHandlers = None, LinkHandlers = None, ListHandler = None, ByIDHandler = None,
      CreateHandler = None, DeleteHandler = None, UpdateHandler = None, Formatter = None,
      RequestModifier = None, CollectionFormatter = None, ErrorHandler = None, Store = None\<rparr>"

text \<open>\<^verbatim>\<open>schema.Schema = s\<close>: the embedded pointer is replaced, the other fields stay.\<close>

definition set_embedded :: "api_schema \<Rightarrow> schema \<Rightarrow> api_schema" where
  "set_embedded a s = schema.extend s (schema.more a)"

definition copyHandlers :: "(string, func) gomap option \<Rightarrow> (string, func) gomap option" where
  "copyHandlers m = (case m of None \<Rightarrow> None | Some h \<Rightarrow> Some (mcopy h []))"

definition DeepCopy :: "api_schema \<Rightarrow> api_schema" where
  "DeepCopy a = a\<lparr>ActionHandlers := copyHandlers (ActionHandlers a), LinkHandlers := copyHandlers (LinkHandlers a)\<rparr>"

record convert =
  ToString :: "aval \<Rightarrow> string"
  ToBool :: "aval \<Rightarrow> bool"
  ToStringSlice :: "aval \<Rightarrow> string list"

text \<open>What the source relies on of \<open>data/convert\<close>: values of the wanted type and nil.\<close>

definition convert_ok :: "convert \<Rightarrow> bool" where
  "convert_ok C \<longleftrightarrow>
     (\<forall>s. ToString C (AStr s) = s) \<and> ToString C ANil = [] \<and>
     (\<forall>b. ToBool C (ABool b) = b) \<and> \<not> ToBool C ANil \<and>
     (\<forall>l. ToStringSlice C (AStrs l) = l) \<and> ToStringSlice C ANil = []"

record gvk =
  gvk_Group :: string
  gvk_Version :: string
  gvk_Kind :: string

record gvr =
  gvr_Group :: string
  gvr_Version :: string
  gvr_Resource :: string

definition get_attr :: "'a schema_scheme \<Rightarrow> string \<Rightarrow> aval" where
  "get_attr s key = mgetd ANil (Attributes s) key"

definition str_attr :: "convert \<Rightarrow> 'a schema_scheme \<Rightarrow> string \<Rightarrow> string" where
  "str_attr C s key = ToString C (get_attr s key)"

definition setVal :: "string \<Rightarrow> aval \<Rightarrow> 'a schema_scheme \<Rightarrow> 'a schema_scheme" where
  "setVal key value s = s\<lparr>Attributes := mput key value (Attributes s)\<rparr>"

definition Namespaced :: "convert \<Rightarrow> 'a schema_scheme option \<Rightarrow> bool" where
  "Namespaced C s = (case s of None \<Rightarrow> False | Some s \<Rightarrow> ToBool C (get_attr s ''namespaced''))"

definition SetNamespaced :: "bool \<Rightarrow> 'a schema_scheme \<Rightarrow> 'a schema_scheme" where
  "SetNamespaced value = setVal ''namespaced'' (ABool value)"

definition Group :: "convert \<Rightarrow> 'a schema_scheme \<Rightarrow> string" where
  "Group C s = str_attr C s ''group''"

definition SetGroup :: "string \<Rightarrow> 'a schema_scheme \<Rightarrow> 'a schema_scheme" where
  "SetGroup value = setVal ''group'' (AStr value)"

definition Version :: "convert \<Rightarrow> 'a schema_scheme \<Rightarrow> string" where
  "Version C s = str_attr C s ''version''"

definition SetVersion :: "string \<Rightarrow> 'a schema_scheme \<Rightarrow> 'a schema_scheme" where
  "SetVersion value = setVal ''version'' (AStr value)"

definition Resource :: "convert \<Rightarrow> 'a schema_scheme \<Rightarrow> string" where
  "Resource C s = str_attr C s ''resource''"

definition SetResource :: "string \<Rightarrow> 'a schema_scheme \<Rightarrow> 'a schema_scheme" where
  "SetResource value = setVal ''resource'' (AStr value)"

definition Kind :: "convert \<Rightarrow> 'a schema_scheme \<Rightarrow> string" where
  "Kind C s = str_attr C s ''kind''"

definition SetKind :: "string \<Rightarrow> 'a schema_scheme \<Rightarrow> 'a schema_scheme" where
  "SetKind value = setVal ''kind'' (AStr value)"

definition GVK :: "convert \<Rightarrow> 'a schema_scheme \<Rightarrow> gvk" where
  "GVK C s = \<lparr>gvk_Group = Group C s, gvk_Version = Version C s, gvk_Kind = Kind C s\<rparr>"

definition SetGVK :: "gvk \<Rightarrow> 'a schema_scheme \<Rightarrow> 'a schema_scheme" where
  "SetGVK g s = SetKind (gvk_Kind g) (SetVersion (gvk_Version g) (SetGroup (gvk_Group g) s))"

definition Table :: "convert \<Rightarrow> 'a schema_scheme \<Rightarrow> bool" where
  "Table C s \<longleftrightarrow> str_attr C s ''table'' \<noteq> ''false''"

text \<open>\<^verbatim>\<open>fmt.Sprint\<close> of a boolean.\<close>

definition SetTable :: "bool \<Rightarrow> 'a schema_scheme \<Rightarrow> 'a schema_scheme" where
  "SetTable value = setVal ''table'' (AStr (if value then ''true'' else ''false''))"

definition GVR :: "convert \<Rightarrow> 'a schema_scheme \<Rightarrow> gvr" where
  "GVR C s = \<lparr>gvr_Group = Group C s, gvr_Version = Version C s, gvr_Resource = Resource C s\<rparr>"

definition Verbs :: "convert \<Rightarrow> 'a schema_scheme \<Rightarrow> string list" where
  "Verbs C s = ToStringSlice C (get_attr s ''verbs'')"

definition SetVerbs :: "string list \<Rightarrow> 'a schema_scheme \<Rightarrow> 'a schema_scheme" where
  "SetVerbs verbs = setVal ''verbs'' (AStrs verbs)"

definition GR :: "convert \<Rightarrow> 'a schema_scheme \<Rightarrow> group_resource" where
  "GR C s = \<lparr>gr_Group = Group C s, gr_Resource = Resource C s\<rparr>"

definition SetAccess :: "AccessListByVerb \<Rightarrow> 'a schema_scheme \<Rightarrow> 'a schema_scheme" where
  "SetAccess access = setVal ''access'' (AAccess access)"

definition Access :: "'a schema_scheme \<Rightarrow> aval" where
  "Access s = get_attr s ''access''"

record api_resource =
  ar_Name :: string
  ar_Verbs :: "string list"
  ar_Namespaced :: bool
  ar_Kind :: string

definition SetAPIResource :: "api_resource \<Rightarrow> 'a schema_scheme \<Rightarrow> 'a schema_scheme" where
  "SetAPIResource r s = SetNamespaced (ar_Namespaced r) (SetVerbs (ar_Verbs r) (SetResource (ar_Name r) s))"

definition SetColumns :: "(string \<times> string) list \<Rightarrow> 'a schema_scheme \<Rightarrow> 'a schema_scheme" where
  "SetColumns columns = setVal ''columns'' (AColumns columns)"

definition Columns :: "'a schema_scheme \<Rightarrow> aval" where
  "Columns s = get_attr s ''columns''"

definition PreferredVersion :: "convert \<Rightarrow> 'a schema_scheme \<Rightarrow> string" where
  "PreferredVersion C s = str_attr C s ''preferredVersion''"

definition SetPreferredVersion :: "string \<Rightarrow> 'a schema_scheme \<Rightarrow> 'a schema_scheme" where
  "SetPreferredVersion ver = setVal ''preferredVersion'' (AStr ver)"

definition PreferredGroup :: "convert \<Rightarrow> 'a schema_scheme \<Rightarrow> string" where
  "PreferredGroup C s = str_attr C s ''preferredGroup''"

definition SetPreferredGroup :: "string \<Rightarrow> 'a schema_scheme \<Rightarrow> 'a schema_scheme" where
  "SetPreferredGroup ver = setVal ''preferredGroup'' (AStr ver)"

text \<open>
  \<open>GetAccessListMap\<close> of the access control package: the attribute \<open>access\<close> read back at its type;
  any other dynamic type reads as the nil map.
\<close>

definition GetAccessListMap :: "'a schema_scheme option \<Rightarrow> AccessListByVerb" where
  "GetAccessListMap s =
     (case s of None \<Rightarrow> [] | Some s \<Rightarrow> (case Access s of AAccess m \<Rightarrow> m | _ \<Rightarrow> []))"

subsection \<open>Laws of the attributes\<close>

named_theorems attr \<open>reading an attribute after writing one\<close>

lemma get_attr_setVal [attr]: "get_attr (setVal k v s) k' = (if k' = k then v else get_attr s k')"
  by (simp add: get_attr_def setVal_def mgetd_mput)

lemma setVal_frame [simp, attr]:
  "ID (setVal k v s) = ID s" "PluralName (setVal k v s) = PluralName s"
  "CollectionMethods (setVal k v s) = CollectionMethods s"
  "ResourceMethods (setVal k v s) = ResourceMethods s"
  "ResourceFields (setVal k v s) = ResourceFields s"
  by (simp_all add: setVal_def)

lemmas attr_defs = str_attr_def Namespaced_def SetNamespaced_def Group_def SetGroup_def Version_def
  SetVersion_def Resource_def SetResource_def Kind_def SetKind_def GVK_def SetGVK_def Table_def
  SetTable_def GVR_def Verbs_def SetVerbs_def GR_def SetAccess_def Access_def SetAPIResource_def
  SetColumns_def Columns_def PreferredVersion_def SetPreferredVersion_def PreferredGroup_def
  SetPreferredGroup_def GetAccessListMap_def

definition convert_std :: convert where
  "convert_std = \<lparr>
     ToString = (\<lambda>v. case v of AStr s \<Rightarrow> s | ABool b \<Rightarrow> (if b then ''true'' else ''false'') | _ \<Rightarrow> []),
     ToBool = (\<lambda>v. case v of ABool b \<Rightarrow> b | AStr s \<Rightarrow> s = ''true'' | _ \<Rightarrow> False),
     ToStringSlice = (\<lambda>v. case v of AStrs l \<Rightarrow> l | AStr s \<Rightarrow> [s] | _ \<Rightarrow> [])\<rparr>"

lemma convert_std_ok: "convert_ok convert_std"
  by (simp add: convert_ok_def convert_std_def)

text \<open>
  What discovery writes into a schema is what the rest of the server reads back: after
  \<open>SetGVK\<close> and \<open>SetAPIResource\<close>, \<open>GVK\<close>, \<open>GVR\<close>, \<open>GR\<close>, \<open>Verbs\<close> and \<open>Namespaced\<close> return
  the group, version, kind, resource, verbs and scope that were set; \<open>SetTable\<close> is read back by
  \<open>Table\<close>, and a schema on which it was never set is a table.
\<close>

theorem attributes_roundtrip:
  fixes s :: "'a schema_scheme"
  assumes "convert_ok C"
  shows "let t = SetAPIResource r (SetGVK g s) in GVK C t = g \<and> GR C t = \<lparr>gr_Group = gvk_Group g, gr_Resource = ar_Name r\<rparr> \<and>
    GVR C t = \<lparr>gvr_Group = gvk_Group g, gvr_Version = gvk_Version g, gvr_Resource = ar_Name r\<rparr> \<and>
    Verbs C t = ar_Verbs r \<and> Namespaced C (Some t) = ar_Namespaced r \<and>
    Table C (SetTable b s) = b \<and> (get_attr s ''table'' = ANil \<longrightarrow> Table C s)"
  using assms by (simp add: attr_defs attr convert_ok_def Let_def)

lemma attributes_roundtrip_witness:
  "GVK convert_std (SetAPIResource \<lparr>ar_Name = ''pods'', ar_Verbs = [''list''], ar_Namespaced = True, ar_Kind = ''Pod''\<rparr>
      (SetGVK \<lparr>gvk_Group = [], gvk_Version = ''v1'', gvk_Kind = ''Pod''\<rparr> empty_schema)) =
   \<lparr>gvk_Group = [], gvk_Version = ''v1'', gvk_Kind = ''Pod''\<rparr> \<and> Table convert_std empty_schema"
  using attributes_roundtrip [OF convert_std_ok, of
      "\<lparr>ar_Name = ''pods'', ar_Verbs = [''list''], ar_Namespaced = True, ar_Kind = ''Pod''\<rparr>"
      "\<lparr>gvk_Group = [], gvk_Version = ''v1'', gvk_Kind = ''Pod''\<rparr>" empty_schema]
  by (simp add: get_attr_def empty_schema_def mgetd_def Let_def)

lemma mput_new: "k \<notin> set (map fst d) \<Longrightarrow> mput k v d = d @ [(k, v)]"
  by (induction d) auto

lemma mcopy_disjoint: "mwf m \<Longrightarrow> set (map fst m) \<inter> set (map fst d) = {} \<Longrightarrow> mcopy m d = d @ m"
proof (induction m arbitrary: d)
  case Nil
  then show ?case by simp
next
  case (Cons e m)
  obtain k v where e: "e = (k, v)" by (cases e)
  from Cons.prems e have "mput k v d = d @ [(k, v)]" by (intro mput_new) auto
  then show ?case using Cons.IH [of "d @ [(k, v)]"] Cons.prems e by (auto simp: mwf_def)
qed

lemma DeepCopy_id:
  assumes "\<And>h. ActionHandlers s = Some h \<Longrightarrow> mwf h" and "\<And>h. LinkHandlers s = Some h \<Longrightarrow> mwf h"
  shows "DeepCopy s = s"
  using assms by (simp add: DeepCopy_def copyHandlers_def mcopy_disjoint split: option.splits)

lemma DeepCopy_frame [simp]:
  "ID (DeepCopy s) = ID s" "PluralName (DeepCopy s) = PluralName s"
  "CollectionMethods (DeepCopy s) = CollectionMethods s" "ResourceMethods (DeepCopy s) = ResourceMethods s"
  "Attributes (DeepCopy s) = Attributes s" "Store (DeepCopy s) = Store s"
  by (simp_all add: DeepCopy_def)

subsection \<open>APISchemas\<close>

type_synonym internal_schemas = "(string, schema) gomap"

type_synonym add_internal = "internal_schemas \<Rightarrow> schema \<Rightarrow> go_err + internal_schemas"

record api_schemas =
  InternalSchemas :: internal_schemas
  Schemas :: "(string, api_schema) gomap"
  index :: "(string, api_schema) gomap"
  schemas_Attributes :: "(string, aval) gomap"

definition EmptyAPISchemas :: api_schemas where
  "EmptyAPISchemas = \<lparr>InternalSchemas = [], Schemas = [], index = [], schemas_Attributes = []\<rparr>"

definition ShallowCopy :: "api_schemas \<Rightarrow> api_schemas" where
  "ShallowCopy a =
     \<lparr>InternalSchemas = InternalSchemas a, Schemas = mcopy (Schemas a) [], index = mcopy (index a) [],
      schemas_Attributes = []\<rparr>"

definition addToIndex :: "api_schema \<Rightarrow> api_schemas \<Rightarrow> api_schemas" where
  "addToIndex s a = a\<lparr>index := mput (to_lower (PluralName s)) s (mput (to_lower (ID s)) s (index a))\<rparr>"

text \<open>
  \<open>AddSchema\<close>: the schemer package takes the embedded schema first and its own copy replaces it; a
  schema it does not return is a nil pointer whose field \<open>ID\<close> is read.
\<close>

definition AddSchema :: "add_internal \<Rightarrow> api_schemas \<Rightarrow> api_schema \<Rightarrow> go_err + api_schemas" where
  "AddSchema add a s =
     (case add (InternalSchemas a) (schema.truncate s) of
        Inl err \<Rightarrow> Inl err
      | Inr ints \<Rightarrow>
          (case mget ints (ID s) of
             None \<Rightarrow> Inl (Panic ''nil pointer dereference'')
           | Some sc \<Rightarrow>
               let s' = set_embedded s sc
               in Inr (addToIndex s' (a\<lparr>InternalSchemas := ints, Schemas := mput (ID s') s' (Schemas a)\<rparr>))))"

fun AddSchemas_loop :: "add_internal \<Rightarrow> api_schemas \<Rightarrow> (string, api_schema) gomap \<Rightarrow> go_err + api_schemas" where
  "AddSchemas_loop add a [] = Inr a"
| "AddSchemas_loop add a ((_, s) # rest) =
     (case AddSchema add a s of Inl err \<Rightarrow> Inl err | Inr a' \<Rightarrow> AddSchemas_loop add a' rest)"

definition AddSchemas :: "add_internal \<Rightarrow> api_schemas \<Rightarrow> api_schemas \<Rightarrow> go_err + api_schemas" where
  "AddSchemas add a other = AddSchemas_loop add a (Schemas other)"

definition LookupSchema :: "api_schemas \<Rightarrow> string \<Rightarrow> api_schema option" where
  "LookupSchema a nm =
     (case mget (Schemas a) nm of
        Some s \<Rightarrow> Some s
      | None \<Rightarrow>
          (case mget (index a) (to_lower nm) of
             Some s \<Rightarrow> mget (Schemas a) (ID s)
           | None \<Rightarrow> None))"


subsection \<open>Lookup after add\<close>

lemma set_embedded_simps [simp]:
  "ID (set_embedded a s) = ID s" "PluralName (set_embedded a s) = PluralName s"
  "CollectionMethods (set_embedded a s) = CollectionMethods s"
  "ResourceMethods (set_embedded a s) = ResourceMethods s" "Attributes (set_embedded a s) = Attributes s"
  "Store (set_embedded a s) = Store a" "Formatter (set_embedded a s) = Formatter a"
  "ListHandler (set_embedded a s) = ListHandler a"
  by (cases a; cases s; simp add: set_embedded_def schema.defs)+

lemma AddSchema_Inr:
  assumes "AddSchema add a s = Inr a'"
  obtains ints sc where "add (InternalSchemas a) (schema.truncate s) = Inr ints"
    and "mget ints (ID s) = Some sc"
    and "a' = addToIndex (set_embedded s sc)
           (a\<lparr>InternalSchemas := ints, Schemas := mput (ID sc) (set_embedded s sc) (Schemas a)\<rparr>)"
  using assms by (auto simp: AddSchema_def Let_def split: sum.splits option.splits)

lemma LookupSchema_in_Schemas: "LookupSchema a nm = Some s \<Longrightarrow> \<exists>k. mget (Schemas a) k = Some s"
  by (auto simp: LookupSchema_def split: option.splits)

text \<open>
  \<open>LookupSchema\<close> after \<open>AddSchema\<close>: the added schema is found by its exact id, and
  case-insensitively by its id and by its plural name wherever no schema has that very name as its
  id; a name that neither matches nor resolves to the replaced id is looked up as before; and whatever is added or removed, a lookup only ever
  returns a schema that is still in the collection.
\<close>

theorem lookup_after_add:
  assumes "AddSchema add a s = Inr a'"
  shows "\<exists>sc. mget (Schemas a') (ID sc) = Some (set_embedded s sc) \<and>
    LookupSchema a' (ID sc) = Some (set_embedded s sc) \<and>
    (\<forall>nm. to_lower nm \<in> {to_lower (ID sc), to_lower (PluralName sc)} \<and> \<not> mhas (Schemas a') nm \<longrightarrow>
       LookupSchema a' nm = Some (set_embedded s sc)) \<and>
    (\<forall>nm. to_lower nm \<notin> {to_lower (ID sc), to_lower (PluralName sc)} \<longrightarrow>
       (\<forall>s0. mget (index a) (to_lower nm) = Some s0 \<longrightarrow> ID s0 \<noteq> ID sc) \<longrightarrow>
       LookupSchema a' nm = LookupSchema a nm) \<and>
    (\<forall>nm s0. LookupSchema a' nm = Some s0 \<longrightarrow> (\<exists>k. mget (Schemas a') k = Some s0))"
proof -
  from assms obtain ints sc where a': "a' = addToIndex (set_embedded s sc)
      (a\<lparr>InternalSchemas := ints, Schemas := mput (ID sc) (set_embedded s sc) (Schemas a)\<rparr>)"
    by (rule AddSchema_Inr)
  have same: "nm = ID sc \<Longrightarrow> to_lower nm = to_lower (ID sc)" for nm by simp
  have "LookupSchema a' nm = LookupSchema a nm"
    if "to_lower nm \<notin> {to_lower (ID sc), to_lower (PluralName sc)}"
      and "\<And>s0. mget (index a) (to_lower nm) = Some s0 \<Longrightarrow> ID s0 \<noteq> ID sc" for nm
    using that same [of nm]
    by (auto simp: a' addToIndex_def LookupSchema_def mget_mput split: option.splits)
  moreover have "LookupSchema a' nm = Some (set_embedded s sc)"
    if "to_lower nm \<in> {to_lower (ID sc), to_lower (PluralName sc)}" and "\<not> mhas (Schemas a') nm" for nm
    using that by (auto simp: a' addToIndex_def LookupSchema_def mget_mput mhas_def split: option.splits if_splits)
  moreover have "mget (Schemas a') (ID sc) = Some (set_embedded s sc)"
    by (simp add: a' addToIndex_def mget_mput)
  moreover have "LookupSchema a' (ID sc) = Some (set_embedded s sc)"
    by (simp add: a' addToIndex_def mget_mput LookupSchema_def)
  ultimately show ?thesis using LookupSchema_in_Schemas by blast
qed

definition add_plain :: add_internal where
  "add_plain ints s = Inr (mput (ID s) s ints)"

definition ex_schema :: "string \<Rightarrow> string \<Rightarrow> api_schema" where
  "ex_schema i p = mk_api_schema (empty_schema\<lparr>ID := i, PluralName := p\<rparr>)"

lemma lookup_after_add_witness:
  "\<exists>a'. AddSchema add_plain EmptyAPISchemas (ex_schema ''pod'' ''pods'') = Inr a' \<and>
     (\<exists>sc. LookupSchema a' (ID sc) = Some (set_embedded (ex_schema ''pod'' ''pods'') sc))"
proof -
  obtain a' where "AddSchema add_plain EmptyAPISchemas (ex_schema ''pod'' ''pods'') = Inr a'"
    by (simp add: AddSchema_def add_plain_def EmptyAPISchemas_def ex_schema_def mk_api_schema_def
        empty_schema_def schema.defs Let_def)
  with lookup_after_add [OF this] show ?thesis by blast
qed

definition ex_pod_schema :: api_schema where
  "ex_pod_schema = SetAPIResource \<lparr>ar_Name = ''pods'', ar_Verbs = [''get'', ''list''], ar_Namespaced = True, ar_Kind = ''Pod''\<rparr>
     (SetGVK \<lparr>gvk_Group = [], gvk_Version = ''v1'', gvk_Kind = ''Pod''\<rparr> (ex_schema ''pod'' ''pods''))"

end
