(* ===== verification/Http.thy ===== *)
theory Http
  imports Prelude
begin

section \<open>HTTP requests and responses as the source uses them\<close>

text \<open>
  What the repository reads of Go's \<open>net/http\<close>, \<open>net/url\<close> and \<open>fmt\<close>: requests with their
  headers, query, cookies and context values, header maps with canonical keys, and
  \<^verbatim>\<open>fmt.Sprintf\<close> on strings. Values that the code stores in the request's context (the user, the
  route variables of mux, the namespace filter) are fields of the request.
\<close>

definition MethodGet :: string where "MethodGet = ''GET''"
definition MethodPost :: string where "MethodPost = ''POST''"
definition MethodPut :: string where "MethodPut = ''PUT''"
definition MethodPatch :: string where "MethodPatch = ''PATCH''"
definition MethodDelete :: string where "MethodDelete = ''DELETE''"

lemmas methods = MethodGet_def MethodPost_def MethodPut_def MethodPatch_def MethodDelete_def

record user =
  u_Name :: string
  u_UID :: string
  u_Groups :: "string list"
  u_Extra :: "(string, string list) gomap"

type_synonym header = "(string, string list) gomap"

type_synonym url_values = "(string, string list) gomap"

record http_request =
  rq_Method :: string
  rq_Path :: string
  rq_Query :: url_values
  rq_Header :: header
  rq_Host :: string
  rq_TLS :: bool
  rq_Cookies :: "(string, string) gomap"
  rq_User :: "user option"
  rq_Vars :: "(string, string) gomap"
  rq_Namespaces :: "string list option"

text \<open>\<^verbatim>\<open>http.NewRequest("GET", "/", nil)\<close>\<close>

definition new_request :: http_request where
  "new_request = \<lparr>rq_Method = MethodGet, rq_Path = ''/'', rq_Query = [], rq_Header = [], rq_Host = [],
     rq_TLS = False, rq_Cookies = [], rq_User = None, rq_Vars = [], rq_Namespaces = None\<rparr>"

text \<open>\<^verbatim>\<open>Values.Get\<close>: the first value, or the empty string.\<close>

definition values_get :: "url_values \<Rightarrow> string \<Rightarrow> string" where
  "values_get vs k = (case mget vs k of Some (v # _) \<Rightarrow> v | _ \<Rightarrow> [])"

subsection \<open>Header maps\<close>

definition upper_char :: "char \<Rightarrow> char" where
  "upper_char c = (let n = of_char c :: nat in if 97 \<le> n \<and> n \<le> 122 then char_of (n - 32) else c)"

text \<open>
  \<^verbatim>\<open>CanonicalMIMEHeaderKey\<close> on a key of token characters: a letter is upper case at the start and
  after a hyphen, lower case elsewhere.
\<close>

fun canon_from :: "bool \<Rightarrow> string \<Rightarrow> string" where
  "canon_from up [] = []"
| "canon_from up (c # cs) = (if up then upper_char c else lower_char c) # canon_from (c = CHR ''-'') cs"

definition canon_key :: "string \<Rightarrow> string" where
  "canon_key k = canon_from True k"

definition header_get :: "header \<Rightarrow> string \<Rightarrow> string" where
  "header_get h k = (case mget h (canon_key k) of Some (v # _) \<Rightarrow> v | _ \<Rightarrow> [])"

definition header_set :: "string \<Rightarrow> string \<Rightarrow> header \<Rightarrow> header" where
  "header_set k v h = mput (canon_key k) [v] h"

definition header_del :: "string \<Rightarrow> header \<Rightarrow> header" where
  "header_del k h = mdel (canon_key k) h"

lemma header_get_set: "header_get (header_set k v h) k' = (if canon_key k' = canon_key k then v else header_get h k')"
  by (simp add: header_get_def header_set_def mget_mput)

lemma header_get_del: "header_get (header_del k h) k' = (if canon_key k' = canon_key k then [] else header_get h k')"
  by (simp add: header_get_def header_del_def mget_mdel)

subsection \<open>fmt.Sprintf with string arguments\<close>

text \<open>
  Each \<^verbatim>\<open>%s\<close> takes the next argument, or prints \<^verbatim>\<open>%!s(MISSING)\<close> when there is none left. Other
  characters are copied.
\<close>

fun sprintf :: "string \<Rightarrow> string list \<Rightarrow> string" where
  "sprintf [] args = []"
| "sprintf [c] args = [c]"
| "sprintf (c # d # cs) args =
     (if c = CHR ''%'' \<and> d = CHR ''s''
      then (case args of [] \<Rightarrow> ''%!s(MISSING)'' @ sprintf cs [] | a # rest \<Rightarrow> a @ sprintf cs rest)
      else c # sprintf (d # cs) args)"

lemma sprintf_example: "sprintf ''Method %s not supported'' [''FOO''] = ''Method FOO not supported''"
  by code_simp

lemma sprintf_missing: "sprintf ''%s/%s'' [''a''] = ''a/%!s(MISSING)''"
  by code_simp

subsection \<open>strconv.Atoi\<close>

text \<open>An optional sign and at least one decimal digit, within the range of a 64-bit \<^verbatim>\<open>int\<close>.\<close>

fun digits_val :: "nat \<Rightarrow> string \<Rightarrow> nat option" where
  "digits_val n [] = Some n"
| "digits_val n (c # cs) =
     (let d = of_char c :: nat in
      if 48 \<le> d \<and> d \<le> 57 then digits_val (10 * n + (d - 48)) cs else None)"

definition in_int64 :: "int \<Rightarrow> bool" where
  "in_int64 i \<longleftrightarrow> - (2 ^ 63) \<le> i \<and> i < 2 ^ 63"

definition atoi :: "string \<Rightarrow> int option" where
  "atoi s =
     (let (neg, ds) = (case s of [] \<Rightarrow> (False, [])
         | c # cs \<Rightarrow> if c = CHR ''-'' then (True, cs) else if c = CHR ''+'' then (False, cs) else (False, s))
      in if ds = [] then None
         else (case digits_val 0 ds of
             None \<Rightarrow> None
           | Some n \<Rightarrow> let i = (if neg then - int n else int n) in if in_int64 i then Some i else None))"

lemma atoi_example: "atoi ''-12'' = Some (- 12) \<and> atoi ''1x'' = None"
  by code_simp

subsection \<open>strconv.Itoa\<close>

text \<open>The decimal digits of a number, as \<^verbatim>\<open>Itoa\<close> and the verb \<^verbatim>\<open>%d\<close> print them.\<close>

definition nat_digit :: "nat \<Rightarrow> char" where
  "nat_digit n = char_of (48 + n)"

fun nat_string :: "nat \<Rightarrow> string" where
  "nat_string n = (if n < 10 then [nat_digit n] else nat_string (n div 10) @ [nat_digit (n mod 10)])"

declare nat_string.simps [simp del]

definition int_string :: "int \<Rightarrow> string" where
  "int_string i = (if i < 0 then CHR ''-'' # nat_string (nat (- i)) else nat_string (nat i))"

lemma digits_val_append: "digits_val n (xs @ ys) = (case digits_val n xs of None \<Rightarrow> None | Some m \<Rightarrow> digits_val m ys)"
  by (induction n xs rule: digits_val.induct) (auto simp: Let_def)

lemma nat_digit_value: "d < 10 \<Longrightarrow> of_char (nat_digit d) = 48 + d"
  by (simp add: nat_digit_def)

lemma digits_val_nat_string: "digits_val 0 (nat_string n) = Some n"
proof (induction n rule: nat_string.induct)
  case (1 n)
  show ?case
  proof (cases "n < 10")
    case True
    then show ?thesis by (subst nat_string.simps) (simp add: nat_digit_value Let_def)
  next
    case False
    with 1 show ?thesis by (subst nat_string.simps) (simp add: digits_val_append nat_digit_value Let_def)
  qed
qed

lemma nat_string_first: "\<exists>d ds. nat_string n = nat_digit d # ds \<and> d < 10"
proof (induction n rule: nat_string.induct)
  case (1 n)
  show ?case
  proof (cases "n < 10")
    case False
    with 1 obtain d ds where "nat_string (n div 10) = nat_digit d # ds" "d < 10" by auto
    with False show ?thesis by (subst nat_string.simps) auto
  qed (subst nat_string.simps, auto)
qed

text \<open>What is printed is read back, within the range of a 64-bit \<^verbatim>\<open>int\<close>.\<close>

lemma atoi_int_string: "in_int64 i \<Longrightarrow> atoi (int_string i) = Some i"
proof -
  assume i: "in_int64 i"
  have sign: "nat_digit d \<noteq> CHR ''-''" "nat_digit d \<noteq> CHR ''+''" if "d < 10" for d
    using nat_digit_value [OF that] by auto
  obtain d ds where s: "nat_string (nat \<bar>i\<bar>) = nat_digit d # ds" "d < 10" using nat_string_first by blast
  have v: "digits_val 0 (nat_digit d # ds) = Some (nat \<bar>i\<bar>)" using digits_val_nat_string [of "nat \<bar>i\<bar>"] s(1) by simp
  show ?thesis
  proof (cases "i < 0")
    case True
    then have "nat \<bar>i\<bar> = nat (- i)" by simp
    with True s v i show ?thesis by (simp add: atoi_def int_string_def Let_def)
  next
    case False
    then have "nat \<bar>i\<bar> = nat i" by simp
    with False s v i sign [OF s(2)] show ?thesis by (simp add: atoi_def int_string_def Let_def)
  qed
qed

end
