(* ===== verification/Url_Builder.thy ===== *)
theory Url_Builder
  imports Http Api_Types
begin

section \<open>URLs of a response: pkg/urlbuilder\<close>

text \<open>
  How the server finds the base of the URLs it hands out (\<open>base.go\<close>) and builds the links to
  schemas, resources and actions (\<open>url.go\<close>). Of the standard library, \<^verbatim>\<open>path.Join\<close> with its
  lexical cleaning, \<^verbatim>\<open>url.QueryEscape\<close>, \<^verbatim>\<open>strings.LastIndex\<close> and \<^verbatim>\<open>Values.Encode\<close> are
  modelled here; \<^verbatim>\<open>url.Parse\<close>, which only the fallback of \<open>ParseResponseURLBase\<close> calls, is an
  argument that returns a scheme and a host.
\<close>

subsection \<open>Library functions\<close>

text \<open>\<^verbatim>\<open>strings.LastIndex\<close>: the offset of the last occurrence, or \<open>None\<close> for \<open>-1\<close>.\<close>

fun last_index :: "string \<Rightarrow> string \<Rightarrow> nat option" where
  "last_index [] sub = (if sub = [] then Some 0 else None)"
| "last_index (c # cs) sub =
     (case last_index cs sub of
        Some i \<Rightarrow> Some (Suc i)
      | None \<Rightarrow> if has_prefix sub (c # cs) then Some 0 else None)"

fun split_on :: "char \<Rightarrow> string \<Rightarrow> string list" where
  "split_on sep [] = [[]]"
| "split_on sep (c # cs) =
     (if c = sep then [] # split_on sep cs
      else (case split_on sep cs of [] \<Rightarrow> [[c]] | p # ps \<Rightarrow> (c # p) # ps))"

fun join_with :: "string \<Rightarrow> string list \<Rightarrow> string" where
  "join_with sep [] = []"
| "join_with sep [p] = p"
| "join_with sep (p # q # ps) = p @ sep @ join_with sep (q # ps)"

text \<open>
  \<^verbatim>\<open>path.Clean\<close> over the elements of a path, the output kept reversed: empty elements and \<open>.\<close> go,
  \<open>..\<close> removes the element before it, and stays only at the front of a relative path.
\<close>

fun clean_elems :: "bool \<Rightarrow> string list \<Rightarrow> string list \<Rightarrow> string list" where
  "clean_elems rooted out [] = out"
| "clean_elems rooted out (e # es) =
     (if e = [] \<or> e = ''.'' then clean_elems rooted out es
      else if e = ''..'' then
        (case out of
           [] \<Rightarrow> clean_elems rooted (if rooted then [] else [''..'']) es
         | o1 # os \<Rightarrow> if o1 = ''..'' then clean_elems rooted (''..'' # out) es
                     else clean_elems rooted os es)
      else clean_elems rooted (e # out) es)"

definition path_clean :: "string \<Rightarrow> string" where
  "path_clean p =
     (if p = [] then ''.''
      else let rooted = has_prefix ''/'' p;
               body = join_with ''/'' (rev (clean_elems rooted [] (split_on CHR ''/'' p)))
           in if rooted then ''/'' @ body else if body = [] then ''.'' else body)"

definition path_join :: "string list \<Rightarrow> string" where
  "path_join ps =
     (let qs = filter (\<lambda>p. p \<noteq> []) ps in if qs = [] then [] else path_clean (join_with ''/'' qs))"

definition hex_digit :: "nat \<Rightarrow> char" where
  "hex_digit n = (if n < 10 then char_of (48 + n) else char_of (55 + n))"

definition unreserved :: "char \<Rightarrow> bool" where
  "unreserved c =
     (let n = of_char c :: nat in
      (48 \<le> n \<and> n \<le> 57) \<or> (65 \<le> n \<and> n \<le> 90) \<or> (97 \<le> n \<and> n \<le> 122) \<or> c \<in> set ''-_.~'')"

fun QueryEscape :: "string \<Rightarrow> string" where
  "QueryEscape [] = []"
| "QueryEscape (c # cs) =
     (if unreserved c then [c]
      else if c = CHR '' '' then ''+''
      else let n = of_char c :: nat in [CHR ''%'', hex_digit (n div 16), hex_digit (n mod 16)]) @ QueryEscape cs"

text \<open>\<^verbatim>\<open>Values.Encode\<close>: the keys sorted, the values of a key in their order.\<close>

definition values_encode :: "url_values \<Rightarrow> string" where
  "values_encode vs = join_with ''&''
     [QueryEscape k @ ''='' @ QueryEscape v. k \<leftarrow> sort (map fst vs), v \<leftarrow> mgetd [] vs k]"

subsection \<open>base.go\<close>

definition PrefixHeader :: string where "PrefixHeader = ''X-API-URL-Prefix''"
definition ForwardedAPIHostHeader :: string where "ForwardedAPIHostHeader = ''X-API-Host''"
definition ForwardedHostHeader :: string where "ForwardedHostHeader = ''X-Forwarded-Host''"
definition ForwardedProtoHeader :: string where "ForwardedProtoHeader = ''X-Forwarded-Proto''"

definition GetHost :: "http_request \<Rightarrow> string" where
  "GetHost r =
     (let host = header_get (rq_Header r) ForwardedAPIHostHeader in
      if host \<noteq> [] then host
      else let host = hd (split_on CHR '','' (header_get (rq_Header r) ForwardedHostHeader)) in
        if host \<noteq> [] then host else rq_Host r)"

definition GetScheme :: "http_request \<Rightarrow> string" where
  "GetScheme r =
     (let scheme = header_get (rq_Header r) ForwardedProtoHeader in
      if scheme \<noteq> [] then
        (if scheme = ''ws'' then ''http'' else if scheme = ''wss'' then ''https'' else scheme)
      else if rq_TLS r then ''https'' else ''http'')"

definition ParseRequestURL :: "http_request \<Rightarrow> string" where
  "ParseRequestURL r =
     sprintf ''%s://%s%s%s'' [GetScheme r, GetHost r, header_get (rq_Header r) PrefixHeader, rq_Path r]"

type_synonym parse_url = "string \<Rightarrow> go_err + string \<times> string"

definition ParseResponseURLBase :: "parse_url \<Rightarrow> string \<Rightarrow> http_request \<Rightarrow> go_err + string" where
  "ParseResponseURLBase parse currentURL r =
     (case last_index currentURL (rq_Path r) of
        None \<Rightarrow>
          (case parse currentURL of
             Inl err \<Rightarrow> Inl err
           | Inr (scheme, host) \<Rightarrow> Inr (scheme @ ''://'' @ host))
      | Some i \<Rightarrow> Inr (take i currentURL))"

subsection \<open>url.go\<close>

record url_builder =
  ub_Prefix :: string
  ub_currentURL :: string
  ub_responseURLBase :: string
  ub_query :: url_values

definition NewURLBuilder :: "parse_url \<Rightarrow> http_request \<Rightarrow> string \<Rightarrow> go_err + url_builder" where
  "NewURLBuilder parse r prefix =
     (let requestURL = ParseRequestURL r in
      case ParseResponseURLBase parse requestURL r of
        Inl err \<Rightarrow> Inl err
      | Inr base \<Rightarrow>
          Inr \<lparr>ub_Prefix = prefix, ub_currentURL = requestURL, ub_responseURLBase = base,
               ub_query = rq_Query r\<rparr>)"

definition ConstructBasicURL :: "string list \<Rightarrow> string" where
  "ConstructBasicURL parts =
     (case parts of
        [] \<Rightarrow> []
      | [p] \<Rightarrow> p
      | base # ps \<Rightarrow>
          (let rest = path_join ps in
           if \<not> has_suffix ''/'' base \<and> \<not> has_prefix ''/'' rest then base @ ''/'' @ rest
           else base @ rest))"

definition schemaURL :: "url_builder \<Rightarrow> 'a schema_scheme \<Rightarrow> string list \<Rightarrow> string" where
  "schemaURL u s parts =
     ConstructBasicURL (ConstructBasicURL [ub_responseURLBase u, ub_Prefix u, PluralName s] # parts)"

definition Current :: "url_builder \<Rightarrow> string" where
  "Current u = ub_currentURL u"

definition Marker :: "url_builder \<Rightarrow> string \<Rightarrow> string" where
  "Marker u marker =
     Current u @ ''?'' @ values_encode (mput ''continue'' [marker] (mcopy (ub_query u) []))"

definition Link :: "url_builder \<Rightarrow> 'a schema_scheme \<Rightarrow> string \<Rightarrow> string \<Rightarrow> string" where
  "Link u s i linkName =
     (if str_contains i ''/'' then schemaURL u s [i, linkName]
      else schemaURL u s [i] @ ''?link='' @ QueryEscape linkName)"

definition ResourceLink :: "url_builder \<Rightarrow> 'a schema_scheme \<Rightarrow> string \<Rightarrow> string" where
  "ResourceLink u s i = schemaURL u s [i]"

definition RelativeToRoot :: "url_builder \<Rightarrow> string \<Rightarrow> string" where
  "RelativeToRoot u p =
     (if length p > 0 \<and> p ! 0 \<noteq> CHR ''/'' then ub_responseURLBase u @ ''/'' @ p
      else ub_responseURLBase u @ p)"

definition CollectionURL :: "url_builder \<Rightarrow> 'a schema_scheme \<Rightarrow> string" where
  "CollectionURL u s = schemaURL u s []"

definition ActionURL :: "url_builder \<Rightarrow> 'a schema_scheme \<Rightarrow> string \<Rightarrow> string \<Rightarrow> string" where
  "ActionURL u s i act = schemaURL u s [i] @ ''?action='' @ QueryEscape act"

definition CollectionAction :: "url_builder \<Rightarrow> 'a schema_scheme \<Rightarrow> string \<Rightarrow> string" where
  "CollectionAction u s act = schemaURL u s [] @ ''?action='' @ QueryEscape act"

subsection \<open>The base of the response URLs\<close>

lemma has_prefix_self [simp]: "has_prefix s s"
  by (simp add: has_prefix_def)

lemma last_index_suffix: "last_index (p @ s) s = Some (length p)"
proof (induction p)
  case Nil
  have long: "last_index t sub = None" if "length t < length sub" for t sub :: string
    using that by (induction t) (auto simp: has_prefix_def)
  show ?case by (cases s) (auto simp: long)
next
  case (Cons c p)
  then show ?case by simp
qed

lemma sprintf_url: "sprintf ''%s://%s%s%s'' [a, b, c, d] = a @ ''://'' @ b @ c @ d"
  by simp

lemma response_base_of_suffix: "ParseResponseURLBase parse (b @ rq_Path r) r = Inr b"
  by (simp add: ParseResponseURLBase_def last_index_suffix)

text \<open>
  \<open>urlbuilder.New\<close> never takes the fallback of \<open>ParseResponseURLBase\<close> and never fails: the
  request path is always a suffix of the request URL, so the base of all response URLs is
  scheme, host and the \<open>X-API-URL-Prefix\<close> header, whatever the path holds and however often
  it occurs in the URL.
\<close>

theorem response_base_is_prefix:
  "\<exists>u. NewURLBuilder parse r prefix = Inr u \<and>
     ub_responseURLBase u =
       GetScheme r @ ''://'' @ GetHost r @ header_get (rq_Header r) PrefixHeader \<and>
     Current u = ub_responseURLBase u @ rq_Path r"
proof -
  let ?b = "GetScheme r @ ''://'' @ GetHost r @ header_get (rq_Header r) PrefixHeader"
  have url: "ParseRequestURL r = ?b @ rq_Path r"
    unfolding ParseRequestURL_def sprintf_url by simp
  show ?thesis
    unfolding NewURLBuilder_def Let_def url response_base_of_suffix Current_def by simp
qed

subsection \<open>The shape of a link\<close>

text \<open>A path segment that cleaning leaves alone.\<close>

definition plain_seg :: "string \<Rightarrow> bool" where
  "plain_seg s \<longleftrightarrow> s \<noteq> [] \<and> CHR ''/'' \<notin> set s \<and> s \<noteq> ''.'' \<and> s \<noteq> ''..''"

lemma split_on_absent: "sep \<notin> set s \<Longrightarrow> split_on sep s = [s]"
  by (induction s) auto

lemma split_on_append: "sep \<notin> set s \<Longrightarrow> split_on sep (s @ sep # t) = s # split_on sep t"
  by (induction s) auto

lemma split_on_join:
  "ps \<noteq> [] \<Longrightarrow> list_all (\<lambda>p. sep \<notin> set p) ps \<Longrightarrow> split_on sep (join_with [sep] ps) = ps"
proof (induction "[sep]" ps rule: join_with.induct)
  case 1
  then show ?case by simp
next
  case (2 p)
  then show ?case by (simp add: split_on_absent)
next
  case (3 p q ps)
  then show ?case by (simp add: split_on_append)
qed

lemma clean_plain: "list_all plain_seg ps \<Longrightarrow> clean_elems rooted out ps = rev ps @ out"
  by (induction ps arbitrary: out) (auto simp: plain_seg_def)

lemma join_first_char:
  "list_all plain_seg ps \<Longrightarrow> ps \<noteq> [] \<Longrightarrow> \<exists>c cs. join_with sep ps = c # cs \<and> c \<noteq> CHR ''/''"
  by (cases ps; cases "tl ps") (auto simp: plain_seg_def neq_Nil_conv)

lemma path_clean_plain:
  assumes "list_all plain_seg ps" and "ps \<noteq> []"
  shows "path_clean (join_with ''/'' ps) = join_with ''/'' ps \<and> \<not> has_prefix ''/'' (join_with ''/'' ps)"
proof -
  obtain c cs where j: "join_with ''/'' ps = c # cs" and "c \<noteq> CHR ''/''"
    using join_first_char [OF assms] by blast
  then have nr: "\<not> has_prefix ''/'' (join_with ''/'' ps)" by (simp add: has_prefix_def)
  have "list_all (\<lambda>p. CHR ''/'' \<notin> set p) ps" using assms(1) by (auto simp: plain_seg_def list_all_iff)
  with assms(2) have "split_on CHR ''/'' (join_with ''/'' ps) = ps" by (intro split_on_join)
  moreover have "join_with ''/'' ps \<noteq> []" using j by simp
  ultimately show ?thesis using nr by (simp add: path_clean_def clean_plain [OF assms(1)] Let_def)
qed

lemma join_with_append:
  "ps \<noteq> [] \<Longrightarrow> qs \<noteq> [] \<Longrightarrow> join_with sep (ps @ qs) = join_with sep ps @ sep @ join_with sep qs"
proof (induction sep ps rule: join_with.induct)
  case (2 sep p)
  then show ?case by (cases qs) auto
qed simp_all

lemma construct_plain:
  assumes "list_all plain_seg ps" and "ps \<noteq> []" and "\<not> has_suffix ''/'' base"
  shows "ConstructBasicURL [base, join_with ''/'' ps] = base @ ''/'' @ join_with ''/'' ps"
proof -
  obtain c cs where "join_with ''/'' ps = c # cs" using join_first_char [OF assms(1,2)] by blast
  with path_clean_plain [OF assms(1,2)] assms(3) show ?thesis
    by (simp add: ConstructBasicURL_def path_join_def)
qed

lemma join_last: "ps \<noteq> [] \<Longrightarrow> last ps \<noteq> [] \<Longrightarrow> join_with sep ps \<noteq> [] \<and> last (join_with sep ps) = last (last ps)"
  by (induction sep ps rule: join_with.induct) auto

lemma no_suffix_last: "s \<noteq> [] \<Longrightarrow> last s \<noteq> c \<Longrightarrow> \<not> has_suffix [c] s"
  by (cases s rule: rev_cases) (simp_all add: has_suffix_def has_prefix_def)

lemma not_suffix_after_plain:
  assumes "list_all plain_seg ps" and "ps \<noteq> []"
  shows "\<not> has_suffix ''/'' (b @ join_with ''/'' ps)"
proof -
  have "plain_seg (last ps)" using assms by (simp add: list_all_iff)
  then have "last ps \<noteq> []" and "last (last ps) \<noteq> CHR ''/''"
    unfolding plain_seg_def by (blast, metis last_in_set)
  with join_last [OF assms(2)] show ?thesis by (intro no_suffix_last) simp_all
qed

text \<open>
  The URL of a resource: for a prefix, plural name and id made of ordinary path segments, the id
  being one segment or namespace and name, the link is the base followed by prefix, plural name and
  id, each separated by one slash, and the action and link URLs extend it by one query parameter or
  one segment.
\<close>

theorem resource_link_shape:
  assumes "plain_seg (ub_Prefix u)" and "plain_seg (PluralName s)"
    and "list_all plain_seg ps" and "ps \<noteq> []"
    and "\<not> has_suffix ''/'' (ub_responseURLBase u)"
  shows "ResourceLink u s (join_with ''/'' ps) =
      ub_responseURLBase u @ ''/'' @ ub_Prefix u @ ''/'' @ PluralName s @ ''/'' @ join_with ''/'' ps \<and>
    CollectionURL u s = ub_responseURLBase u @ ''/'' @ ub_Prefix u @ ''/'' @ PluralName s \<and>
    ActionURL u s (join_with ''/'' ps) act =
      ResourceLink u s (join_with ''/'' ps) @ ''?action='' @ QueryEscape act"
proof -
  let ?q = "[ub_Prefix u, PluralName s]"
  have q: "list_all plain_seg ?q" using assms by simp
  have c: "ConstructBasicURL [ub_responseURLBase u, ub_Prefix u, PluralName s] =
      ub_responseURLBase u @ ''/'' @ join_with ''/'' ?q"
    using assms(1,2,5) path_clean_plain [OF q]
    by (simp add: ConstructBasicURL_def path_join_def plain_seg_def)
  have "\<not> has_suffix ''/'' (ub_responseURLBase u @ ''/'' @ join_with ''/'' ?q)"
    using not_suffix_after_plain [OF q, of "ub_responseURLBase u @ ''/''"] by simp
  from construct_plain [OF assms(3,4) this] c show ?thesis
    by (simp add: ResourceLink_def CollectionURL_def ActionURL_def schemaURL_def) (simp add: ConstructBasicURL_def)
qed

lemma resource_link_shape_witness:
  "ResourceLink \<lparr>ub_Prefix = ''v1'', ub_currentURL = [], ub_responseURLBase = ''http://h'', ub_query = []\<rparr>
     (empty_schema\<lparr>PluralName := ''pods''\<rparr>) (join_with ''/'' [''ns'', ''a'']) = ''http://h/v1/pods/ns/a''"
proof -
  let ?u = "\<lparr>ub_Prefix = ''v1'', ub_currentURL = [], ub_responseURLBase = ''http://h'', ub_query = []\<rparr>"
  have "\<not> has_suffix ''/'' ''http://h''" by code_simp
  then show ?thesis
    using resource_link_shape [of ?u "empty_schema\<lparr>PluralName := ''pods''\<rparr>" "[''ns'', ''a'']" "[]"]
    by (simp add: plain_seg_def)
qed

end
