(* ===== verification/Requests.thy ===== *)
theory Requests
  imports Url_Builder
begin

section \<open>API requests, objects and events: pkg/types/server\_types.go\<close>

text \<open>
  The request that travels through parsing, access control, handlers and stores, the objects and
  lists a store returns, and the store interface's own error and lookup behaviour. The payload of an
  object is a parameter type \<open>'o\<close>: the components that look inside it say how.
\<close>

record api_request =
  op_Action :: string
  op_Name :: string
  op_Type :: string
  op_Link :: string
  op_Method :: string
  op_Namespace :: string
  op_Schema :: "api_schema option"
  op_Schemas :: "api_schemas option"
  op_Query :: "url_values option"
  op_ResponseFormat :: string
  op_ResponseWriter :: "string option"
  op_ErrorHandler :: "func option"
  op_URLPrefix :: string
  op_URLBuilder :: "url_builder option"
  op_Request :: "http_request option"

definition empty_request :: api_request where
  "empty_request = \<lparr>op_Action = [], op_Name = [], op_Type = [], op_Link = [], op_Method = [],
     op_Namespace = [], op_Schema = None, op_Schemas = None, op_Query = None, op_ResponseFormat = [],
     op_ResponseWriter = None, op_ErrorHandler = None, op_URLPrefix = [], op_URLBuilder = None,
     op_Request = None\<rparr>"

text \<open>\<^verbatim>\<open>r.Request.Context()\<close> holds the user the authentication middleware stored.\<close>

definition GetUser :: "api_request \<Rightarrow> string" where
  "GetUser op = (case op_Request op of
       None \<Rightarrow> []
     | Some r \<Rightarrow> (case rq_User r of None \<Rightarrow> [] | Some u \<Rightarrow> u_Name u))"

definition Option :: "api_request \<Rightarrow> string \<Rightarrow> string" where
  "Option op key = values_get (case op_Query op of None \<Rightarrow> [] | Some q \<Rightarrow> q) (''_'' @ key)"

record 'o api_object =
  obj_Type :: string
  obj_ID :: string
  obj_Object :: "'o option"

record 'o api_object_list =
  list_Revision :: string
  list_Continue :: string
  list_Objects :: "'o api_object list"

definition empty_object :: "'o api_object" where
  "empty_object = \<lparr>obj_Type = [], obj_ID = [], obj_Object = None\<rparr>"

definition empty_list :: "'o api_object_list" where
  "empty_list = \<lparr>list_Revision = [], list_Continue = [], list_Objects = []\<rparr>"

definition ChangeAPIEvent :: string where "ChangeAPIEvent = ''resource.change''"
definition RemoveAPIEvent :: string where "RemoveAPIEvent = ''resource.remove''"
definition CreateAPIEvent :: string where "CreateAPIEvent = ''resource.create''"

record 'o api_event =
  ev_Name :: string
  ev_Namespace :: string
  ev_ResourceType :: string
  ev_ID :: string
  ev_Selector :: string
  ev_Revision :: string
  ev_Object :: "'o api_object"
  ev_Error :: "go_err option"

definition empty_event :: "'o api_event" where
  "empty_event = \<lparr>ev_Name = [], ev_Namespace = [], ev_ResourceType = [], ev_ID = [], ev_Selector = [],
     ev_Revision = [], ev_Object = empty_object, ev_Error = None\<rparr>"

text \<open>\<open>APIChan\<close>: every event of the source channel, in order, with its object mapped.\<close>

definition APIChan :: "'o api_event list option \<Rightarrow> ('o api_object \<Rightarrow> 'o api_object) \<Rightarrow> 'o api_event list option" where
  "APIChan c f = map_option (map (\<lambda>e. e\<lparr>ev_Object := f (ev_Object e)\<rparr>)) c"

subsection \<open>DefaultByID\<close>

fun find_by_id :: "'o api_object list \<Rightarrow> string \<Rightarrow> 'o api_object option" where
  "find_by_id [] i = None"
| "find_by_id (x # xs) i = (if obj_ID x = i then Some x else find_by_id xs i)"

definition DefaultByID :: "(go_err + 'o api_object_list) \<Rightarrow> string \<Rightarrow> go_err + 'o api_object" where
  "DefaultByID listed i =
     (case listed of
        Inl err \<Rightarrow> Inl err
      | Inr l \<Rightarrow> (case find_by_id (list_Objects l) i of
            Some item \<Rightarrow> Inr item
          | None \<Rightarrow> Inl (CodeError NotFound)))"

lemma find_by_id_Some: "find_by_id xs i = Some x \<Longrightarrow> x \<in> set xs \<and> obj_ID x = i"
  by (induction xs) (auto split: if_splits)

lemma find_by_id_None: "find_by_id xs i = None \<longleftrightarrow> (\<forall>x \<in> set xs. obj_ID x \<noteq> i)"
  by (induction xs) auto

text \<open>
  The contract between listing and looking up by id that stores built on \<open>DefaultByID\<close> share.
\<close>

locale listed_store =
  fixes store_list :: "'s \<Rightarrow> go_err + 'o api_object_list"
    and store_byID :: "'s \<Rightarrow> string \<Rightarrow> go_err + 'o api_object"
  assumes byID_listed: "store_byID s i = DefaultByID (store_list s) i"
begin

lemma byID_found: "store_byID s i = Inr x \<Longrightarrow> obj_ID x = i \<and> (\<exists>l. store_list s = Inr l \<and> x \<in> set (list_Objects l))"
  by (auto simp: byID_listed DefaultByID_def split: sum.splits option.splits dest: find_by_id_Some)

lemma byID_complete:
  "store_list s = Inr l \<Longrightarrow> x \<in> set (list_Objects l) \<Longrightarrow> \<exists>y. store_byID s (obj_ID x) = Inr y"
  by (auto simp: byID_listed DefaultByID_def find_by_id_None split: option.splits)

lemma byID_missing:
  "store_list s = Inr l \<Longrightarrow> (\<forall>x \<in> set (list_Objects l). obj_ID x \<noteq> i) \<longleftrightarrow> store_byID s i = Inl (CodeError NotFound)"
  by (auto simp: byID_listed DefaultByID_def find_by_id_None [symmetric] split: option.splits)

lemma byID_error: "store_list s = Inl e \<Longrightarrow> store_byID s i = Inl e"
  by (simp add: byID_listed DefaultByID_def)

end

end
