(* ===== verification/Access_Control.thy ===== *)
theory Access_Control
  imports Requests
begin

section \<open>Permission checks: schemabasedaccess.go, access\_control.go\<close>

text \<open>
  The two implementations of the interface \<open>AccessControl\<close>. \<open>SchemaBasedAccess\<close> reads the methods
  a schema allows; \<open>AccessControl\<close> embeds it and overrides \<open>CanDo\<close> and \<open>CanWatch\<close> to consult the
  access list of the schema and the access set of the user first. A check returns \<open>None\<close> for the nil
  error, or the error. What the callers of the interface rely on is the locale \<open>access_control\<close>.
\<close>

definition denied :: "string \<Rightarrow> go_err option" where
  "denied message = Some (NewAPIError PermissionDenied message)"

definition CanCreate :: "'a schema_scheme \<Rightarrow> go_err option" where
  "CanCreate s = (if MethodPost \<in> set (CollectionMethods s) then None
     else denied (''can not create '' @ ID s))"

definition CanGet :: "'a schema_scheme \<Rightarrow> go_err option" where
  "CanGet s = (if MethodGet \<in> set (ResourceMethods s) then None
     else denied (''can not get '' @ ID s))"

definition CanList :: "'a schema_scheme \<Rightarrow> go_err option" where
  "CanList s = (if MethodGet \<in> set (CollectionMethods s) \<or> MethodPost \<in> set (CollectionMethods s) then None
     else denied (''can not list '' @ ID s))"

definition CanUpdate :: "'a schema_scheme \<Rightarrow> go_err option" where
  "CanUpdate s = (if MethodPut \<in> set (ResourceMethods s) then None
     else denied (''can not update '' @ ID s))"

definition CanDelete :: "'a schema_scheme \<Rightarrow> go_err option" where
  "CanDelete s = (if MethodDelete \<in> set (ResourceMethods s) then None
     else denied (''can not delete '' @ ID s))"

definition Schema_CanWatch :: "'a schema_scheme \<Rightarrow> go_err option" where
  "Schema_CanWatch s = CanList s"

definition Schema_CanDo :: "api_request \<Rightarrow> string \<Rightarrow> string \<Rightarrow> string \<Rightarrow> string \<Rightarrow> go_err option" where
  "Schema_CanDo op resource verb ns nm =
     (case op_Schemas op of
        None \<Rightarrow> Some (Panic ''nil pointer dereference'')
      | Some schemas \<Rightarrow>
          (case LookupSchema schemas resource of
             None \<Rightarrow> denied (sprintf (''can not %s %s %s/%s'' @ verb) [resource, ns, nm])
           | Some s \<Rightarrow>
               if verb = MethodGet then CanList s
               else if verb = MethodDelete then CanDelete s
               else if verb = MethodPut then CanUpdate s
               else if verb = MethodPost then CanCreate s
               else denied (sprintf (''can not %s %s %s/%s'' @ verb) [ID s, ns, nm])))"

definition CanAction :: "api_schema \<Rightarrow> string \<Rightarrow> go_err option" where
  "CanAction s nm =
     (if mhas (case ActionHandlers s of None \<Rightarrow> [] | Some h \<Rightarrow> h) nm then None
      else denied (''no such action '' @ nm))"

text \<open>
  \<open>AccessControl.CanDo\<close>. After the cut, \<open>resource\<close> is the part behind the slash, also in the call of
  the embedded method; an attribute \<open>accessSet\<close> of another type, or none, is a failed type assertion.
\<close>

definition CanDo :: "convert \<Rightarrow> api_request \<Rightarrow> string \<Rightarrow> string \<Rightarrow> string \<Rightarrow> string \<Rightarrow> go_err option" where
  "CanDo C op resource verb ns nm =
     (case op_Schemas op of
        None \<Rightarrow> Some (Panic ''nil pointer dereference'')
      | Some schemas \<Rightarrow>
          let apiSchema = LookupSchema schemas resource in
          if (case apiSchema of None \<Rightarrow> False
              | Some s \<Rightarrow> gvk_Kind (GVK C s) \<noteq> [] \<and>
                  AccessList_Grants (mgetd [] (GetAccessListMap (Some s)) verb) ns nm)
          then None
          else (case str_cut CHR ''/'' resource of (grp, resource', _) \<Rightarrow>
             (case mgetd ANil (schemas_Attributes schemas) ''accessSet'' of
                AAccessSet accessSet \<Rightarrow>
                  if AccessSet_Grants accessSet verb \<lparr>gr_Group = grp, gr_Resource = resource'\<rparr> ns nm
                  then None
                  else Schema_CanDo op resource' verb ns nm
              | _ \<Rightarrow> Some (Panic ''interface conversion''))))"

definition CanWatch :: "convert \<Rightarrow> 'a schema_scheme \<Rightarrow> go_err option" where
  "CanWatch C s =
     (if gvk_Kind (GVK C s) \<noteq> [] \<and> mhas (GetAccessListMap (Some s)) ''watch'' then None
      else Schema_CanWatch s)"

subsection \<open>The interface its callers use\<close>

text \<open>
  A denial of any of the schema checks is an \<open>APIError\<close> with the code \<open>PermissionDenied\<close>: callers
  return it as it is, so no caller turns a denial into anything but a permission error.
\<close>

locale access_control =
  fixes can_create can_get can_list can_update can_delete can_watch :: "'s \<Rightarrow> go_err option"
  assumes create_denied: "can_create s = Some e \<Longrightarrow> is_api_error PermissionDenied e"
    and get_denied: "can_get s = Some e \<Longrightarrow> is_api_error PermissionDenied e"
    and list_denied: "can_list s = Some e \<Longrightarrow> is_api_error PermissionDenied e"
    and update_denied: "can_update s = Some e \<Longrightarrow> is_api_error PermissionDenied e"
    and delete_denied: "can_delete s = Some e \<Longrightarrow> is_api_error PermissionDenied e"
    and watch_denied: "can_watch s = Some e \<Longrightarrow> is_api_error PermissionDenied e"
    and list_watch: "can_list s = None \<Longrightarrow> can_watch s = None"
begin

lemma denial_code:
  "can s = Some e \<Longrightarrow> can \<in> {can_create, can_get, can_list, can_update, can_delete, can_watch} \<Longrightarrow>
   is_api_error PermissionDenied e"
  using create_denied get_denied list_denied update_denied delete_denied watch_denied by blast

lemma denial_not_panic:
  "can s = Some e \<Longrightarrow> can \<in> {can_create, can_get, can_list, can_update, can_delete, can_watch} \<Longrightarrow>
   e \<noteq> Panic m \<and> e \<noteq> ErrComplete"
  using denial_code [of can s e] by (cases e) auto

end

lemmas can_defs = CanCreate_def CanGet_def CanList_def CanUpdate_def CanDelete_def Schema_CanWatch_def
  CanWatch_def denied_def

interpretation schema_based: access_control CanCreate CanGet CanList CanUpdate CanDelete Schema_CanWatch
  by unfold_locales (auto simp: can_defs split: if_splits)

interpretation full_access: access_control CanCreate CanGet CanList CanUpdate CanDelete "CanWatch C"
  by unfold_locales (auto simp: can_defs split: if_splits)

subsection \<open>CanDo\<close>

text \<open>
  \<open>AccessControl.CanDo\<close> lets a request through only for one of three reasons: the access list
  of the named schema grants the verb, namespace and name; the user's access set grants it on the
  group and resource before and behind the slash; or the schema behind the slash allows the HTTP
  method itself. No other path ends in a nil error.
\<close>

theorem can_do_sound:
  assumes "CanDo C op resource verb ns nm = None" and "op_Schemas op = Some schemas"
  shows "(\<exists>s. LookupSchema schemas resource = Some s \<and> Kind C s \<noteq> [] \<and>
            ByVerb_Grants (GetAccessListMap (Some s)) verb ns nm) \<or>
    (\<exists>a grp res found. str_cut CHR ''/'' resource = (grp, res, found) \<and>
       mgetd ANil (schemas_Attributes schemas) ''accessSet'' = AAccessSet a \<and>
       (AccessSet_Grants a verb \<lparr>gr_Group = grp, gr_Resource = res\<rparr> ns nm \<or>
        (\<exists>s. LookupSchema schemas res = Some s \<and>
           (verb = MethodGet \<and> CanList s = None \<or> verb = MethodDelete \<and> CanDelete s = None \<or>
            verb = MethodPut \<and> CanUpdate s = None \<or> verb = MethodPost \<and> CanCreate s = None))))"
  using assms
  by (auto simp: CanDo_def Schema_CanDo_def Let_def ByVerb_Grants_def GVK_def denied_def
      split: option.splits if_splits prod.splits aval.splits)

definition ex_schemas :: api_schemas where
  "ex_schemas = EmptyAPISchemas\<lparr>schemas_Attributes := [(''accessSet'', AAccessSet ex_set2)]\<rparr>"

lemma can_do_sound_witness:
  "CanDo convert_std (empty_request\<lparr>op_Schemas := Some ex_schemas\<rparr>) ''/pods'' ''list'' ''b'' ''x'' = None \<and>
   (\<exists>a grp res found. str_cut CHR ''/'' ''/pods'' = (grp, res, found) \<and>
      mgetd ANil (schemas_Attributes ex_schemas) ''accessSet'' = AAccessSet a)"
proof -
  have none: "CanDo convert_std (empty_request\<lparr>op_Schemas := Some ex_schemas\<rparr>) ''/pods'' ''list'' ''b'' ''x'' = None"
    by code_simp
  have "LookupSchema ex_schemas ''/pods'' = None" by code_simp
  with can_do_sound [OF none, of ex_schemas] none show ?thesis by auto
qed

text \<open>
  On a resource named without a slash, the two later stages of \<open>CanDo\<close> ask about something
  else: the access set is asked for the group of that name and the empty resource, and the methods
  consulted are those of the schema found under the empty name, not of the named schema.
\<close>

theorem can_do_without_slash:
  assumes "CHR ''/'' \<notin> set resource" and "op_Schemas op = Some schemas"
    and "mgetd ANil (schemas_Attributes schemas) ''accessSet'' = AAccessSet a"
    and "\<And>s. LookupSchema schemas resource = Some s \<Longrightarrow> \<not> ByVerb_Grants (GetAccessListMap (Some s)) verb ns nm"
  shows "CanDo C op resource verb ns nm =
    (if AccessSet_Grants a verb \<lparr>gr_Group = resource, gr_Resource = []\<rparr> ns nm then None
     else Schema_CanDo op [] verb ns nm)"
  using assms
  by (auto simp: CanDo_def Let_def str_cut_absent ByVerb_Grants_def split: option.splits)

lemma can_do_without_slash_witness:
  "CanDo convert_std (empty_request\<lparr>op_Schemas := Some ex_schemas\<rparr>) ''pods'' ''list'' ''b'' ''x'' =
     Schema_CanDo (empty_request\<lparr>op_Schemas := Some ex_schemas\<rparr>) [] ''list'' ''b'' ''x''"
proof -
  let ?op = "empty_request\<lparr>op_Schemas := Some ex_schemas\<rparr>"
  have "mgetd ANil (schemas_Attributes ex_schemas) ''accessSet'' = AAccessSet ex_set2" by code_simp
  moreover have "LookupSchema ex_schemas ''pods'' = None" by code_simp
  moreover have "\<not> AccessSet_Grants ex_set2 ''list'' \<lparr>gr_Group = ''pods'', gr_Resource = []\<rparr> ''b'' ''x''"
    by code_simp
  ultimately show ?thesis using can_do_without_slash [of "''pods''" ?op ex_schemas ex_set2] by simp
qed

text \<open>
  The copy of the schemas that the server makes for request modifiers loses the attribute
  \<open>accessSet\<close>: on a request that carries such a copy, \<open>CanDo\<close> ends in a panic unless the access list
  of the named schema itself grants the request.
\<close>

theorem can_do_after_shallow_copy:
  assumes "op_Schemas op = Some (ShallowCopy schemas)"
  shows "CanDo C op resource verb ns nm =
    (if \<exists>s. LookupSchema (ShallowCopy schemas) resource = Some s \<and> Kind C s \<noteq> [] \<and>
          ByVerb_Grants (GetAccessListMap (Some s)) verb ns nm
     then None else Some (Panic ''interface conversion''))"
  using assms
  by (auto simp: CanDo_def Let_def mgetd_def ByVerb_Grants_def GVK_def
      ShallowCopy_def [of schemas, THEN arg_cong [of _ _ schemas_Attributes], simplified]
      split: option.splits prod.splits)

lemma can_do_after_shallow_copy_witness:
  "CanDo convert_std (empty_request\<lparr>op_Schemas := Some (ShallowCopy ex_schemas)\<rparr>) ''/pods'' ''list'' ''b'' ''x'' =
     Some (Panic ''interface conversion'')"
proof -
  let ?op = "empty_request\<lparr>op_Schemas := Some (ShallowCopy ex_schemas)\<rparr>"
  have "LookupSchema (ShallowCopy ex_schemas) ''/pods'' = None" by code_simp
  then show ?thesis
    using can_do_after_shallow_copy [of ?op ex_schemas convert_std "''/pods''"] by simp
qed

end
