(* ===== verification/Lru.thy ===== *)
theory Lru
  imports Prelude
begin

section \<open>The expiring LRU cache of apimachinery\<close>

text \<open>
  \<open>cache.LRUExpireCache\<close> is code outside the repository. The components that use it take its
  operations as an argument; what they rely on is its documented behaviour: an entry read was added
  under that key and not replaced since, though entries may be evicted or expire at any time, and a
  removed key is not found.
\<close>

record ('c, 'v) lru =
  lru_get :: "'c \<Rightarrow> string \<Rightarrow> 'v option"
  lru_add :: "'c \<Rightarrow> string \<Rightarrow> 'v \<Rightarrow> 'c"
  lru_keys :: "'c \<Rightarrow> string list"
  lru_remove :: "'c \<Rightarrow> string \<Rightarrow> 'c"

definition lru_ok :: "('c, 'v) lru \<Rightarrow> bool" where
  "lru_ok L \<longleftrightarrow>
     (\<forall>c k v k' w. lru_get L (lru_add L c k v) k' = Some w \<longrightarrow>
        (if k' = k then w = v else lru_get L c k' = Some w)) \<and>
     (\<forall>c k k'. lru_get L (lru_remove L c k) k' = (if k' = k then None else lru_get L c k')) \<and>
     (\<forall>c k. lru_get L c k \<noteq> None \<longrightarrow> k \<in> set (lru_keys L c))"

definition lru_clear :: "('c, 'v) lru \<Rightarrow> 'c \<Rightarrow> 'c" where
  "lru_clear L c = fold (\<lambda>k c. lru_remove L c k) (lru_keys L c) c"

text \<open>An unbounded cache satisfies the laws.\<close>

definition map_lru :: "((string, 'v) gomap, 'v) lru" where
  "map_lru = \<lparr>lru_get = mget, lru_add = (\<lambda>c k v. mput k v c), lru_keys = map fst,
     lru_remove = (\<lambda>c k. mdel k c)\<rparr>"

lemma map_lru_ok: "lru_ok map_lru"
proof -
  have "mget c k = Some y \<Longrightarrow> k \<in> fst ` set c" for c :: "(string, 'v) gomap" and k y
    by (force dest: map_of_SomeD)
  then show ?thesis by (auto simp: lru_ok_def map_lru_def mget_mput mget_mdel)
qed

lemma lru_add_law:
  "lru_ok L \<Longrightarrow> lru_get L (lru_add L c k v) k' = Some w \<Longrightarrow> (if k' = k then w = v else lru_get L c k' = Some w)"
  by (rule lru_ok_def [THEN iffD1, THEN conjunct1, rule_format])

lemma lru_get_remove:
  "lru_ok L \<Longrightarrow> lru_get L (lru_remove L c k) k' = (if k' = k then None else lru_get L c k')"
  by (rule lru_ok_def [THEN iffD1, THEN conjunct2, THEN conjunct1, rule_format])

lemma lru_in_keys: "lru_ok L \<Longrightarrow> lru_get L c k \<noteq> None \<Longrightarrow> k \<in> set (lru_keys L c)"
  by (rule lru_ok_def [THEN iffD1, THEN conjunct2, THEN conjunct2, rule_format])

lemma fold_remove:
  assumes "lru_ok L"
  shows "lru_get L (fold (\<lambda>k c. lru_remove L c k) ks c) k' = (if k' \<in> set ks then None else lru_get L c k')"
proof (induction ks arbitrary: c)
  case Nil
  then show ?case by simp
next
  case (Cons k ks)
  then show ?case by (simp add: lru_get_remove [OF assms])
qed

lemma lru_clear_empty:
  assumes "lru_ok L"
  shows "lru_get L (lru_clear L c) k = None"
proof (cases "k \<in> set (lru_keys L c)")
  case True
  then show ?thesis by (simp add: lru_clear_def fold_remove [OF assms])
next
  case False
  then have "lru_get L c k = None" using lru_in_keys [OF assms, of c k] by blast
  then show ?thesis by (simp add: lru_clear_def fold_remove [OF assms])
qed

end
