(* ===== verification/Policy_Rules.thy ===== *)
theory Policy_Rules
  imports Api_Types Http Lru
begin

section \<open>From role bindings to access sets: policy\_rule\_index.go, role\_revision\_index.go, access\_store.go\<close>

text \<open>
  How the server learns what a user may do. Two \<open>policyRuleIndex\<close> values, one for users and one for
  groups, read role bindings and roles through a Kubernetes client; \<open>AccessStore\<close> merges what they
  find for a user and the user's groups, and caches the result under a digest of the roles and the
  revisions the \<open>roleRevisionIndex\<close> has seen.

  The Kubernetes client is code outside the repository: a record \<open>cluster\<close> of its operations, whose
  lists depend on the field indexes registered so far. A role or binding is the record of the fields
  the source reads. The digest SHA-256 in hexadecimal is an argument.
\<close>

subsection \<open>Kubernetes objects\<close>

record subject =
  sub_APIGroup :: string
  sub_Kind :: string
  sub_Namespace :: string
  sub_Name :: string

record role_ref =
  ref_Kind :: string
  ref_Name :: string

record cluster_role_binding =
  crb_Name :: string
  crb_Subjects :: "subject list"
  crb_RoleRef :: role_ref

record role_binding =
  rb_Namespace :: string
  rb_UID :: string
  rb_Subjects :: "subject list"
  rb_RoleRef :: role_ref

record policy_rule =
  pr_APIGroups :: "string list"
  pr_Resources :: "string list"
  pr_ResourceNames :: "string list"
  pr_Verbs :: "string list"

text \<open>The field indexes registered with the client: a name and the function that lists an object's values.\<close>

record indexes =
  ix_ClusterRoleBinding :: "(string, cluster_role_binding \<Rightarrow> string list) gomap"
  ix_RoleBinding :: "(string, role_binding \<Rightarrow> string list) gomap"

record cluster =
  IndexClusterRoleBinding ::
    "indexes \<Rightarrow> string \<Rightarrow> (cluster_role_binding \<Rightarrow> string list) \<Rightarrow> go_err + indexes"
  IndexRoleBinding :: "indexes \<Rightarrow> string \<Rightarrow> (role_binding \<Rightarrow> string list) \<Rightarrow> go_err + indexes"
  ListClusterRoleBindings :: "indexes \<Rightarrow> string \<Rightarrow> string \<Rightarrow> go_err + cluster_role_binding list"
  ListRoleBindings :: "indexes \<Rightarrow> string \<Rightarrow> string \<Rightarrow> go_err + role_binding list"
  GetClusterRole :: "string \<Rightarrow> go_err + policy_rule list"
  GetRole :: "string \<Rightarrow> string \<Rightarrow> go_err + policy_rule list"

subsection \<open>Role revisions\<close>

record role_key =
  rk_namespace :: string
  rk_name :: string

type_synonym role_revisions = "(role_key, string) gomap"

text \<open>A request of the controller runtime; the object is nil once it is removed.\<close>

record role_event =
  re_Key :: string
  re_Namespace :: string
  re_Name :: string
  re_ResourceVersion :: "string option"

definition roleRevision :: "role_revisions \<Rightarrow> string \<Rightarrow> string \<Rightarrow> string" where
  "roleRevision r ns nm = mgetd [] r \<lparr>rk_namespace = ns, rk_name = nm\<rparr>"

definition onClusterRoleChanged :: "role_event \<Rightarrow> role_revisions \<Rightarrow> role_revisions" where
  "onClusterRoleChanged req r =
     (case re_ResourceVersion req of
        None \<Rightarrow> mdel \<lparr>rk_namespace = [], rk_name = re_Key req\<rparr> r
      | Some v \<Rightarrow> mput \<lparr>rk_namespace = [], rk_name = re_Key req\<rparr> v r)"

definition onRoleChanged :: "role_event \<Rightarrow> role_revisions \<Rightarrow> role_revisions" where
  "onRoleChanged req r =
     (case re_ResourceVersion req of
        None \<Rightarrow> (case str_cut CHR ''/'' (re_Key req) of (ns, nm, _) \<Rightarrow>
                   mdel \<lparr>rk_namespace = ns, rk_name = nm\<rparr> r)
      | Some v \<Rightarrow> mput \<lparr>rk_namespace = re_Namespace req, rk_name = re_Name req\<rparr> v r)"

subsection \<open>The index\<close>

definition rbacGroup :: string where
  "rbacGroup = ''rbac.authorization.k8s.io''"

record policyRuleIndex =
  pi_kind :: string
  pi_roleIndexKey :: string
  pi_clusterRoleIndexKey :: string

text \<open>What the index reads from: the client, the registered field indexes, the role revisions.\<close>

record rbac_world =
  w_client :: cluster
  w_indexes :: indexes
  w_revisions :: role_revisions

definition service_account_name :: "subject \<Rightarrow> string" where
  "service_account_name s = sprintf ''serviceaccount:%s:%s'' [sub_Namespace s, sub_Name s]"

definition clusterRoleBindingBySubjectIndexer :: "policyRuleIndex \<Rightarrow> cluster_role_binding \<Rightarrow> string list" where
  "clusterRoleBindingBySubjectIndexer p crb =
     concat (map (\<lambda>s.
       if sub_APIGroup s = rbacGroup \<and> sub_Kind s = pi_kind p \<and> ref_Kind (crb_RoleRef crb) = ''ClusterRole''
       then [sub_Name s]
       else if sub_APIGroup s = [] \<and> pi_kind p = ''User'' \<and> sub_Kind s = ''ServiceAccount'' \<and>
         sub_Namespace s \<noteq> [] \<and> ref_Kind (crb_RoleRef crb) = ''ClusterRole''
       then [service_account_name s]
       else []) (crb_Subjects crb))"

definition roleBindingBySubject :: "policyRuleIndex \<Rightarrow> role_binding \<Rightarrow> string list" where
  "roleBindingBySubject p rb =
     concat (map (\<lambda>s.
       if sub_APIGroup s = rbacGroup \<and> sub_Kind s = pi_kind p then [sub_Name s]
       else if sub_APIGroup s = [] \<and> pi_kind p = ''User'' \<and> sub_Kind s = ''ServiceAccount'' \<and>
         sub_Namespace s \<noteq> []
       then [service_account_name s]
       else []) (rb_Subjects rb))"

text \<open>
  \<open>newPolicyRuleIndex\<close>: both indexes are registered under \<open>clusterRoleIndexKey\<close>; a failed
  registration ends the function early, without an error.
\<close>

definition newPolicyRuleIndex :: "cluster \<Rightarrow> bool \<Rightarrow> indexes \<Rightarrow> policyRuleIndex \<times> indexes" where
  "newPolicyRuleIndex cl user idx =
     (let key = (if user then ''User'' else ''Group'');
          pi = \<lparr>pi_kind = key, pi_roleIndexKey = ''rb'' @ key, pi_clusterRoleIndexKey = ''crb'' @ key\<rparr>
      in case IndexClusterRoleBinding cl idx (pi_clusterRoleIndexKey pi)
                (clusterRoleBindingBySubjectIndexer pi) of
           Inl _ \<Rightarrow> (pi, idx)
         | Inr idx1 \<Rightarrow>
             (case IndexRoleBinding cl idx1 (pi_clusterRoleIndexKey pi) (roleBindingBySubject pi) of
                Inl _ \<Rightarrow> (pi, idx1)
              | Inr idx2 \<Rightarrow> (pi, idx2)))"

definition getClusterRoleBindings :: "rbac_world \<Rightarrow> policyRuleIndex \<Rightarrow> string \<Rightarrow> cluster_role_binding list" where
  "getClusterRoleBindings w p subjectName =
     (case ListClusterRoleBindings (w_client w) (w_indexes w) (pi_clusterRoleIndexKey p) subjectName of
        Inl _ \<Rightarrow> []
      | Inr items \<Rightarrow> sort_key crb_Name items)"

definition getRoleBindings :: "rbac_world \<Rightarrow> policyRuleIndex \<Rightarrow> string \<Rightarrow> role_binding list" where
  "getRoleBindings w p subjectName =
     (case ListRoleBindings (w_client w) (w_indexes w) (pi_roleIndexKey p) subjectName of
        Inl _ \<Rightarrow> []
      | Inr items \<Rightarrow> sort_key rb_UID items)"

definition getRules :: "rbac_world \<Rightarrow> string \<Rightarrow> role_ref \<Rightarrow> policy_rule list" where
  "getRules w ns ref =
     (if ref_Kind ref = ''ClusterRole'' then
        (case GetClusterRole (w_client w) (ref_Name ref) of Inl _ \<Rightarrow> [] | Inr rules \<Rightarrow> rules)
      else if ref_Kind ref = ''Role'' then
        (case GetRole (w_client w) ns (ref_Name ref) of Inl _ \<Rightarrow> [] | Inr rules \<Rightarrow> rules)
      else [])"

text \<open>The calls of \<open>Add\<close> the four nested loops make for one rule, in their order.\<close>

definition rule_adds :: "string \<Rightarrow> policy_rule \<Rightarrow> (akey \<times> access) list" where
  "rule_adds ns rule =
     [(mk_key verb grp resource, \<lparr>acc_Namespace = ns, acc_ResourceName = resourceName\<rparr>).
        grp \<leftarrow> pr_APIGroups rule,
        resource \<leftarrow> pr_Resources rule,
        resourceName \<leftarrow> (if length (pr_ResourceNames rule) = 0 then [all_star] else pr_ResourceNames rule),
        verb \<leftarrow> pr_Verbs rule]"

definition addAccess :: "rbac_world \<Rightarrow> string \<Rightarrow> role_ref \<Rightarrow> access_set \<Rightarrow> access_set" where
  "addAccess w ns ref accessSet =
     fold (\<lambda>rule a. fold (\<lambda>(k, ac) a. AccessSet_Add a (key_verb k) (key_gr k) ac) (rule_adds ns rule) a)
       (getRules w ns ref) accessSet"

definition index_get :: "rbac_world \<Rightarrow> policyRuleIndex \<Rightarrow> string \<Rightarrow> access_set" where
  "index_get w p subjectName =
     (let result = empty_access_set;
          result = fold (\<lambda>b a. addAccess w (rb_Namespace b) (rb_RoleRef b) a) (getRoleBindings w p subjectName) result;
          result = fold (\<lambda>b a. addAccess w all_star (crb_RoleRef b) a) (getClusterRoleBindings w p subjectName) result
      in result)"

definition null :: string where
  "null = [char_of (0 :: nat)]"

text \<open>The bytes \<open>addRolesToHash\<close> writes into the digest.\<close>

definition addRolesToHash :: "rbac_world \<Rightarrow> policyRuleIndex \<Rightarrow> string \<Rightarrow> string" where
  "addRolesToHash w p subjectName =
     concat (map (\<lambda>b. ref_Name (crb_RoleRef b) @ null @
         roleRevision (w_revisions w) [] (ref_Name (crb_RoleRef b)) @ null)
       (getClusterRoleBindings w p subjectName)) @
     concat (map (\<lambda>b.
         if ref_Kind (rb_RoleRef b) = ''Role'' then
           ref_Name (rb_RoleRef b) @ null @ rb_Namespace b @ null @
           roleRevision (w_revisions w) (rb_Namespace b) (ref_Name (rb_RoleRef b)) @ null
         else if ref_Kind (rb_RoleRef b) = ''ClusterRole'' then
           ref_Name (rb_RoleRef b) @ null @ rb_Namespace b @ null @
           roleRevision (w_revisions w) [] (ref_Name (rb_RoleRef b)) @ null
         else [])
       (getRoleBindings w p subjectName))"

subsection \<open>The access store\<close>

record 'c access_store =
  st_users :: policyRuleIndex
  st_groups :: policyRuleIndex
  st_cache :: "'c option"

text \<open>
  \<open>CacheKey\<close>: the copy of the groups goes into a slice of length zero, which receives nothing; the
  loop that hashes reads the groups in the order the user info has them.
\<close>

definition digest_input :: "rbac_world \<Rightarrow> 'c access_store \<Rightarrow> user \<Rightarrow> string" where
  "digest_input w l u =
     addRolesToHash w (st_users l) (u_Name u) @
     concat (map (addRolesToHash w (st_groups l)) (u_Groups u))"

definition CacheKey :: "(string \<Rightarrow> string) \<Rightarrow> rbac_world \<Rightarrow> 'c access_store \<Rightarrow> user \<Rightarrow> string" where
  "CacheKey sha w l u = sha (digest_input w l u)"

definition compute_access :: "rbac_world \<Rightarrow> 'c access_store \<Rightarrow> user \<Rightarrow> access_set" where
  "compute_access w l u =
     foldl AccessSet_Merge (index_get w (st_users l) (u_Name u))
       (map (index_get w (st_groups l)) (u_Groups u))"

definition AccessFor ::
  "('c, access_set) lru \<Rightarrow> (string \<Rightarrow> string) \<Rightarrow> rbac_world \<Rightarrow> 'c access_store \<Rightarrow> user
   \<Rightarrow> access_set \<times> 'c access_store" where
  "AccessFor L sha w l u =
     (case st_cache l of
        None \<Rightarrow> (compute_access w l u, l)
      | Some c \<Rightarrow>
          let cacheKey = CacheKey sha w l u in
          (case lru_get L c cacheKey of
             Some as \<Rightarrow> (as, l)
           | None \<Rightarrow>
               let result = (compute_access w l u)\<lparr>as_ID := cacheKey\<rparr>
               in (result, l\<lparr>st_cache := Some (lru_add L c cacheKey result)\<rparr>)))"

definition NewAccessStore :: "cluster \<Rightarrow> indexes \<Rightarrow> 'c option \<Rightarrow> 'c access_store \<times> indexes" where
  "NewAccessStore cl idx cacheResults =
     (let (users, idx1) = newPolicyRuleIndex cl True idx;
          (groups, idx2) = newPolicyRuleIndex cl False idx1
      in (\<lparr>st_users = users, st_groups = groups, st_cache = cacheResults\<rparr>, idx2))"

subsection \<open>What a binding contributes\<close>

text \<open>The RBAC reading of a rule, and of a binding that applies in the namespaces \<open>scope\<close>.\<close>

definition rule_allows :: "policy_rule \<Rightarrow> string \<Rightarrow> group_resource \<Rightarrow> string \<Rightarrow> bool" where
  "rule_allows rule verb gr nm \<longleftrightarrow>
     list_ex (\<lambda>v. wild v verb) (pr_Verbs rule) \<and>
     list_ex (\<lambda>g. wild g (gr_Group gr)) (pr_APIGroups rule) \<and>
     list_ex (\<lambda>r. wild r (gr_Resource gr)) (pr_Resources rule) \<and>
     (pr_ResourceNames rule = [] \<or> list_ex (\<lambda>n. wild n nm) (pr_ResourceNames rule))"

definition binding_allows ::
  "rbac_world \<Rightarrow> string \<Rightarrow> role_ref \<Rightarrow> string \<Rightarrow> group_resource \<Rightarrow> string \<Rightarrow> string \<Rightarrow> bool" where
  "binding_allows w scope ref verb gr ns nm \<longleftrightarrow>
     wild scope ns \<and> list_ex (\<lambda>rule. rule_allows rule verb gr nm) (getRules w scope ref)"

lemma in_rule_adds:
  "(k, ac) \<in> set (rule_adds ns rule) \<longleftrightarrow>
     key_verb k \<in> set (pr_Verbs rule) \<and> gr_Group (key_gr k) \<in> set (pr_APIGroups rule) \<and>
     gr_Resource (key_gr k) \<in> set (pr_Resources rule) \<and> acc_Namespace ac = ns \<and>
     acc_ResourceName ac \<in> set (if pr_ResourceNames rule = [] then [all_star] else pr_ResourceNames rule)"
  by (cases k, cases "key_gr k", cases ac) (auto simp: rule_adds_def mk_key_def)

lemma rule_adds_allow:
  "(\<exists>k ac. (k, ac) \<in> set (rule_adds scope rule) \<and> k \<in> set (wild_keys verb gr) \<and> Access_Grants ac ns nm) \<longleftrightarrow>
     wild scope ns \<and> rule_allows rule verb gr nm"
proof (rule iffI, goal_cases)
  case 1
  then show ?case
    unfolding in_rule_adds set_wild_keys Access_Grants_wild rule_allows_def list_ex_iff
    by (auto simp: wild_def split: if_splits)
next
  case 2
  then obtain v g r where m: "v \<in> set (pr_Verbs rule)" "wild v verb" "g \<in> set (pr_APIGroups rule)"
    "wild g (gr_Group gr)" "r \<in> set (pr_Resources rule)" "wild r (gr_Resource gr)"
    by (auto simp: rule_allows_def list_ex_iff)
  obtain n where n: "n \<in> set (if pr_ResourceNames rule = [] then [all_star] else pr_ResourceNames rule)" "wild n nm"
    using 2 by (cases "pr_ResourceNames rule = []") (auto simp: rule_allows_def list_ex_iff wild_def)
  have "(mk_key v g r, acc scope n) \<in> set (rule_adds scope rule)"
    using m n by (simp only: in_rule_adds) (simp add: mk_key_def)
  moreover have "mk_key v g r \<in> set (wild_keys verb gr)" using m by (simp add: set_wild_keys mk_key_def)
  moreover have "Access_Grants (acc scope n) ns nm" using 2 n by (simp add: Access_Grants_wild)
  ultimately show ?case by blast
qed

text \<open>All adds of a role reference, as one list, so that the laws of the grant store apply.\<close>

definition ref_adds :: "rbac_world \<Rightarrow> string \<Rightarrow> role_ref \<Rightarrow> (akey \<times> access) list" where
  "ref_adds w ns ref = concat (map (rule_adds ns) (getRules w ns ref))"

abbreviation add_all :: "(akey \<times> access) list \<Rightarrow> access_set \<Rightarrow> access_set" where
  "add_all \<equiv> fold (\<lambda>(k, ac) a. AccessSet_Add a (key_verb k) (key_gr k) ac)"

lemma fold_map_concat: "fold (\<lambda>x. fold f (g x)) xs s = fold f (concat (map g xs)) s"
  by (induction xs arbitrary: s) auto

lemma addAccess_adds: "addAccess w ns ref a = add_all (ref_adds w ns ref) a"
  by (simp add: addAccess_def ref_adds_def fold_map_concat)

definition index_adds :: "rbac_world \<Rightarrow> policyRuleIndex \<Rightarrow> string \<Rightarrow> (akey \<times> access) list" where
  "index_adds w p subj =
     concat (map (\<lambda>b. ref_adds w (rb_Namespace b) (rb_RoleRef b)) (getRoleBindings w p subj)) @
     concat (map (\<lambda>b. ref_adds w all_star (crb_RoleRef b)) (getClusterRoleBindings w p subj))"

lemma index_get_adds: "index_get w p subj = add_all (index_adds w p subj) empty_access_set"
  by (simp add: index_get_def index_adds_def addAccess_adds fold_map_concat)

lemma index_get_ok: "access_set_wf (index_get w p subj)"
  using access_sets.ok_fold [OF access_sets.ok_empty] by (simp add: index_get_adds)

lemma index_get_holds: "has_access (index_get w p subj) k ac \<longleftrightarrow> (k, ac) \<in> set (index_adds w p subj)"
  using access_sets.holds_fold_empty by (simp add: index_get_adds)

lemma index_adds_allow:
  "(\<exists>k ac. (k, ac) \<in> set (index_adds w p subj) \<and> k \<in> set (wild_keys verb gr) \<and> Access_Grants ac ns nm) \<longleftrightarrow>
     (\<exists>b \<in> set (getRoleBindings w p subj). binding_allows w (rb_Namespace b) (rb_RoleRef b) verb gr ns nm) \<or>
     (\<exists>b \<in> set (getClusterRoleBindings w p subj). binding_allows w all_star (crb_RoleRef b) verb gr ns nm)"
  (is "?l \<longleftrightarrow> ?r")
proof -
  have "(\<exists>k ac. (k, ac) \<in> set (ref_adds w scope ref) \<and> k \<in> set (wild_keys verb gr) \<and> Access_Grants ac ns nm) \<longleftrightarrow>
      binding_allows w scope ref verb gr ns nm" for scope ref
    using rule_adds_allow [of scope _ verb gr ns nm]
    by (simp add: ref_adds_def binding_allows_def list_ex_iff) blast
  then show ?thesis unfolding index_adds_def by (simp add: Bex_def) blast
qed

lemma index_get_grants:
  "AccessSet_Grants (index_get w p subj) verb gr ns nm \<longleftrightarrow>
     (\<exists>b \<in> set (getRoleBindings w p subj). binding_allows w (rb_Namespace b) (rb_RoleRef b) verb gr ns nm) \<or>
     (\<exists>b \<in> set (getClusterRoleBindings w p subj). binding_allows w all_star (crb_RoleRef b) verb gr ns nm)"
  unfolding index_adds_allow [symmetric] Grants_wild_keys index_get_holds by blast

lemma compute_access_ok: "access_set_wf (compute_access w l u)"
  unfolding compute_access_def by (rule access_sets.ok_foldl_merge) (auto simp: index_get_ok)

lemma compute_access_holds:
  "has_access (compute_access w l u) k ac \<longleftrightarrow>
     (k, ac) \<in> set (index_adds w (st_users l) (u_Name u)) \<or>
     (\<exists>g \<in> set (u_Groups u). (k, ac) \<in> set (index_adds w (st_groups l) g))"
proof -
  have "has_access (compute_access w l u) k ac \<longleftrightarrow> has_access (index_get w (st_users l) (u_Name u)) k ac \<or>
      (\<exists>t \<in> set (map (index_get w (st_groups l)) (u_Groups u)). has_access t k ac)"
    unfolding compute_access_def
    by (rule access_sets.holds_foldl_merge) (auto simp: index_get_ok)
  then show ?thesis by (simp add: index_get_holds)
qed

lemma compute_access_grants:
  "AccessSet_Grants (compute_access w l u) verb gr ns nm \<longleftrightarrow>
     (\<exists>p s. (p = st_users l \<and> s = u_Name u \<or> p = st_groups l \<and> s \<in> set (u_Groups u)) \<and>
        ((\<exists>b \<in> set (getRoleBindings w p s). binding_allows w (rb_Namespace b) (rb_RoleRef b) verb gr ns nm) \<or>
         (\<exists>b \<in> set (getClusterRoleBindings w p s). binding_allows w all_star (crb_RoleRef b) verb gr ns nm)))"
proof -
  have "AccessSet_Grants (compute_access w l u) verb gr ns nm \<longleftrightarrow>
      AccessSet_Grants (index_get w (st_users l) (u_Name u)) verb gr ns nm \<or>
      (\<exists>g \<in> set (u_Groups u). AccessSet_Grants (index_get w (st_groups l) g) verb gr ns nm)"
    unfolding Grants_wild_keys compute_access_holds index_get_holds by blast
  then show ?thesis by (simp only: index_get_grants) blast
qed

text \<open>
  C4. The access set computed for a user is the RBAC reading of what the indexes find: it grants a
  request exactly when some role binding or cluster role binding found for the user's name or for
  one of the user's groups refers to a role with a rule that allows it, a role binding only within
  its own namespace, a cluster role binding in every namespace. The access set is well formed.
\<close>

theorem access_for_is_rbac:
  "access_set_wf (compute_access w l u) \<and>
   (AccessSet_Grants (compute_access w l u) verb gr ns nm \<longleftrightarrow>
     (\<exists>(p, s) \<in> insert (st_users l, u_Name u) ((\<lambda>g. (st_groups l, g)) ` set (u_Groups u)).
        (\<exists>b \<in> set (getRoleBindings w p s). binding_allows w (rb_Namespace b) (rb_RoleRef b) verb gr ns nm) \<or>
        (\<exists>b \<in> set (getClusterRoleBindings w p s). binding_allows w all_star (crb_RoleRef b) verb gr ns nm)))"
  using compute_access_ok [of w l u] compute_access_grants [of w l u verb gr ns nm] by auto

subsection \<open>Which bindings the indexes find\<close>

text \<open>
  What the source relies on of the client: registering a field index makes its values available
  under its name, and listing by a field returns the objects with that value, or fails if no
  index of that name was registered for the kind.
\<close>

definition client_ok :: "cluster \<Rightarrow> cluster_role_binding list \<Rightarrow> role_binding list \<Rightarrow> bool" where
  "client_ok cl crbs rbs \<longleftrightarrow>
     (\<forall>idx k f. IndexClusterRoleBinding cl idx k f =
        Inr (idx\<lparr>ix_ClusterRoleBinding := mput k f (ix_ClusterRoleBinding idx)\<rparr>)) \<and>
     (\<forall>idx k f. IndexRoleBinding cl idx k f = Inr (idx\<lparr>ix_RoleBinding := mput k f (ix_RoleBinding idx)\<rparr>)) \<and>
     (\<forall>idx k s. case mget (ix_ClusterRoleBinding idx) k of
        None \<Rightarrow> \<exists>e. ListClusterRoleBindings cl idx k s = Inl e
      | Some f \<Rightarrow> ListClusterRoleBindings cl idx k s = Inr (filter (\<lambda>b. s \<in> set (f b)) crbs)) \<and>
     (\<forall>idx k s. case mget (ix_RoleBinding idx) k of
        None \<Rightarrow> \<exists>e. ListRoleBindings cl idx k s = Inl e
      | Some f \<Rightarrow> ListRoleBindings cl idx k s = Inr (filter (\<lambda>b. s \<in> set (f b)) rbs))"

definition no_indexes :: indexes where
  "no_indexes = \<lparr>ix_ClusterRoleBinding = [], ix_RoleBinding = []\<rparr>"

text \<open>A subject that stands for the user or the group of a name.\<close>

definition subject_is :: "string \<Rightarrow> string \<Rightarrow> subject \<Rightarrow> bool" where
  "subject_is kind nm s \<longleftrightarrow>
     (sub_APIGroup s = rbacGroup \<and> sub_Kind s = kind \<and> sub_Name s = nm) \<or>
     (kind = ''User'' \<and> sub_APIGroup s = [] \<and> sub_Kind s = ''ServiceAccount'' \<and> sub_Namespace s \<noteq> [] \<and>
      nm = ''serviceaccount:'' @ sub_Namespace s @ '':'' @ sub_Name s)"

lemma service_account_name_eq:
  "service_account_name s = ''serviceaccount:'' @ sub_Namespace s @ '':'' @ sub_Name s"
  by (simp add: service_account_name_def)

lemma in_crb_indexer:
  "nm \<in> set (clusterRoleBindingBySubjectIndexer p b) \<longleftrightarrow>
     ref_Kind (crb_RoleRef b) = ''ClusterRole'' \<and> (\<exists>s \<in> set (crb_Subjects b). subject_is (pi_kind p) nm s)"
proof -
  have "rbacGroup \<noteq> []" by (simp add: rbacGroup_def)
  then show ?thesis
    unfolding clusterRoleBindingBySubjectIndexer_def subject_is_def service_account_name_eq
    by (fastforce split: if_splits)
qed

text \<open>What the store registers: every index for cluster role bindings, none that role bindings are asked by.\<close>

lemma NewAccessStore_registers:
  assumes "client_ok cl crbs rbs" and "NewAccessStore cl no_indexes cache = (l, idx)"
  shows "mget (ix_ClusterRoleBinding idx) (pi_clusterRoleIndexKey (st_users l)) =
      Some (clusterRoleBindingBySubjectIndexer (st_users l))"
    and "mget (ix_ClusterRoleBinding idx) (pi_clusterRoleIndexKey (st_groups l)) =
      Some (clusterRoleBindingBySubjectIndexer (st_groups l))"
    and "mget (ix_RoleBinding idx) (pi_roleIndexKey (st_users l)) = None"
    and "mget (ix_RoleBinding idx) (pi_roleIndexKey (st_groups l)) = None"
    and "pi_kind (st_users l) = ''User''" and "pi_kind (st_groups l) = ''Group''"
  using assms
  by (auto simp: NewAccessStore_def newPolicyRuleIndex_def client_ok_def Let_def no_indexes_def mget_mput)

lemma listed_crbs:
  assumes "client_ok cl crbs rbs" and "w_client w = cl"
    and "mget (ix_ClusterRoleBinding (w_indexes w)) (pi_clusterRoleIndexKey p) = Some f"
  shows "set (getClusterRoleBindings w p s) = {b \<in> set crbs. s \<in> set (f b)}"
proof -
  have "case mget (ix_ClusterRoleBinding (w_indexes w)) (pi_clusterRoleIndexKey p) of
      None \<Rightarrow> \<exists>e. ListClusterRoleBindings cl (w_indexes w) (pi_clusterRoleIndexKey p) s = Inl e
    | Some f \<Rightarrow> ListClusterRoleBindings cl (w_indexes w) (pi_clusterRoleIndexKey p) s =
        Inr (filter (\<lambda>b. s \<in> set (f b)) crbs)"
    using assms(1) unfolding client_ok_def by blast
  then show ?thesis using assms(2,3) by (simp add: getClusterRoleBindings_def)
qed

lemma listed_rbs_none:
  assumes "client_ok cl crbs rbs" and "w_client w = cl"
    and "mget (ix_RoleBinding (w_indexes w)) (pi_roleIndexKey p) = None"
  shows "getRoleBindings w p s = []"
proof -
  have "case mget (ix_RoleBinding (w_indexes w)) (pi_roleIndexKey p) of
      None \<Rightarrow> \<exists>e. ListRoleBindings cl (w_indexes w) (pi_roleIndexKey p) s = Inl e
    | Some f \<Rightarrow> ListRoleBindings cl (w_indexes w) (pi_roleIndexKey p) s = Inr (filter (\<lambda>b. s \<in> set (f b)) rbs)"
    using assms(1) unfolding client_ok_def by blast
  then show ?thesis using assms(2,3) by (auto simp: getRoleBindings_def)
qed

lemma found_bindings:
  assumes "client_ok cl crbs rbs" and "NewAccessStore cl no_indexes cache = (l, idx)"
    and "w_client w = cl" and "w_indexes w = idx"
  shows "(\<exists>p s. (p = st_users l \<and> s = u_Name u \<or> p = st_groups l \<and> s \<in> set (u_Groups u)) \<and>
      ((\<exists>b \<in> set (getRoleBindings w p s). binding_allows w (rb_Namespace b) (rb_RoleRef b) verb gr ns nm) \<or>
       (\<exists>b \<in> set (getClusterRoleBindings w p s). binding_allows w all_star (crb_RoleRef b) verb gr ns nm))) \<longleftrightarrow>
    (\<exists>b \<in> set crbs. ref_Kind (crb_RoleRef b) = ''ClusterRole'' \<and>
       (\<exists>s \<in> set (crb_Subjects b). subject_is ''User'' (u_Name u) s \<or>
          (\<exists>g \<in> set (u_Groups u). subject_is ''Group'' g s)) \<and>
       binding_allows w all_star (crb_RoleRef b) verb gr ns nm)"
proof -
  note reg = NewAccessStore_registers [OF assms(1,2), folded assms(4)]
  define P where "P b = binding_allows w all_star (crb_RoleRef b) verb gr ns nm" for b :: cluster_role_binding
  have u: "set (getClusterRoleBindings w (st_users l) s) = {b \<in> set crbs.
      ref_Kind (crb_RoleRef b) = ''ClusterRole'' \<and> (\<exists>x \<in> set (crb_Subjects b). subject_is ''User'' s x)}" for s
    using listed_crbs [OF assms(1,3) reg(1)] by (simp add: in_crb_indexer reg(5))
  have g: "set (getClusterRoleBindings w (st_groups l) s) = {b \<in> set crbs.
      ref_Kind (crb_RoleRef b) = ''ClusterRole'' \<and> (\<exists>x \<in> set (crb_Subjects b). subject_is ''Group'' s x)}" for s
    using listed_crbs [OF assms(1,3) reg(2)] by (simp add: in_crb_indexer reg(6))
  have rb: "getRoleBindings w (st_users l) s = []" "getRoleBindings w (st_groups l) s = []" for s
    using listed_rbs_none [OF assms(1,3) reg(3)] listed_rbs_none [OF assms(1,3) reg(4)] by simp_all
  have "(\<exists>p s. (p = st_users l \<and> s = u_Name u \<or> p = st_groups l \<and> s \<in> set (u_Groups u)) \<and>
      ((\<exists>b \<in> set (getRoleBindings w p s). binding_allows w (rb_Namespace b) (rb_RoleRef b) verb gr ns nm) \<or>
       (\<exists>b \<in> set (getClusterRoleBindings w p s). P b))) \<longleftrightarrow>
      (\<exists>b \<in> set (getClusterRoleBindings w (st_users l) (u_Name u)). P b) \<or>
      (\<exists>x \<in> set (u_Groups u). \<exists>b \<in> set (getClusterRoleBindings w (st_groups l) x). P b)"
    by (auto simp: rb)
  then show ?thesis unfolding u g P_def [symmetric] by blast
qed

text \<open>A world that a store made by \<open>NewAccessStore\<close> reads, over a cluster with these bindings.\<close>

definition store_reads :: "cluster_role_binding list \<Rightarrow> role_binding list \<Rightarrow> 'c access_store \<Rightarrow> rbac_world \<Rightarrow> bool" where
  "store_reads crbs rbs l w \<longleftrightarrow>
     (\<exists>cache. client_ok (w_client w) crbs rbs \<and> NewAccessStore (w_client w) no_indexes cache = (l, w_indexes w))"

text \<open>
  The part of Kubernetes RBAC that the store implements: some cluster role binding that names the user, or one of the user's groups, binds a
  cluster role with a rule for the verb, the resource and the name.
\<close>

definition cluster_allows :: "cluster \<Rightarrow> cluster_role_binding list \<Rightarrow> user \<Rightarrow> string \<Rightarrow> group_resource \<Rightarrow> string \<Rightarrow> bool" where
  "cluster_allows cl crbs u verb gr nm \<longleftrightarrow>
     (\<exists>b \<in> set crbs. ref_Kind (crb_RoleRef b) = ''ClusterRole'' \<and>
        (\<exists>s \<in> set (crb_Subjects b). subject_is ''User'' (u_Name u) s \<or> (\<exists>g \<in> set (u_Groups u). subject_is ''Group'' g s)) \<and>
        (\<exists>rules. GetClusterRole cl (ref_Name (crb_RoleRef b)) = Inr rules \<and> (\<exists>rule \<in> set rules. rule_allows rule verb gr nm)))"

lemma compute_access_cluster:
  assumes "store_reads crbs rbs l w"
  shows "AccessSet_Grants (compute_access w l u) verb gr ns nm \<longleftrightarrow> cluster_allows (w_client w) crbs u verb gr nm"
proof -
  obtain cache where c: "client_ok (w_client w) crbs rbs" "NewAccessStore (w_client w) no_indexes cache = (l, w_indexes w)"
    using assms by (auto simp: store_reads_def)
  have "binding_allows w all_star ref verb gr ns nm \<longleftrightarrow>
      (\<exists>rules. GetClusterRole (w_client w) (ref_Name ref) = Inr rules \<and> (\<exists>rule \<in> set rules. rule_allows rule verb gr nm))"
    if "ref_Kind ref = ''ClusterRole''" for ref
    using that by (cases "GetClusterRole (w_client w) (ref_Name ref)") (auto simp: binding_allows_def wild_def getRules_def list_ex_iff)
  then show ?thesis
    unfolding compute_access_grants found_bindings [OF c refl refl] cluster_allows_def by (intro bex_cong refl) blast
qed

text \<open>Every grant of such a store is one for all namespaces.\<close>

lemma compute_access_everywhere:
  assumes "store_reads crbs rbs l w" and "has_access (compute_access w l u) k ac"
  shows "acc_Namespace ac = all_star"
proof -
  obtain cache where c: "client_ok (w_client w) crbs rbs" "NewAccessStore (w_client w) no_indexes cache = (l, w_indexes w)"
    using assms by (auto simp: store_reads_def)
  note reg = NewAccessStore_registers [OF c]
  have rb: "getRoleBindings w (st_users l) s = []" "getRoleBindings w (st_groups l) s = []" for s
    using listed_rbs_none [OF c(1) refl reg(3)] listed_rbs_none [OF c(1) refl reg(4)] by simp_all
  have "acc_Namespace ac = all_star" if "(k, ac) \<in> set (index_adds w p s)" "p \<in> {st_users l, st_groups l}" for p s
    using that rb by (auto simp: index_adds_def ref_adds_def in_rule_adds)
  with assms(2) show ?thesis by (auto simp: compute_access_holds)
qed

text \<open>
  C39. After \<open>NewAccessStore\<close>, role bindings grant nothing. Both field indexes are registered under
  the cluster role key, so the lookup of role bindings by their own key always fails and the failure
  is swallowed: a user's access set grants exactly what the cluster role bindings that name the user
  or one of the groups allow, whatever role bindings the cluster holds.
\<close>

theorem role_bindings_grant_nothing:
  assumes "client_ok cl crbs rbs" and "NewAccessStore cl no_indexes cache = (l, idx)"
    and "w_client w = cl" and "w_indexes w = idx"
  shows "AccessSet_Grants (compute_access w l u) verb gr ns nm \<longleftrightarrow>
    (\<exists>b \<in> set crbs. ref_Kind (crb_RoleRef b) = ''ClusterRole'' \<and>
       (\<exists>s \<in> set (crb_Subjects b). subject_is ''User'' (u_Name u) s \<or>
          (\<exists>g \<in> set (u_Groups u). subject_is ''Group'' g s)) \<and>
       binding_allows w all_star (crb_RoleRef b) verb gr ns nm)"
  unfolding compute_access_grants by (rule found_bindings [OF assms])

text \<open>A client over fixed objects, for concrete instances.\<close>

definition fixed_client ::
  "cluster_role_binding list \<Rightarrow> role_binding list \<Rightarrow> (string, policy_rule list) gomap
   \<Rightarrow> (string \<times> string, policy_rule list) gomap \<Rightarrow> cluster" where
  "fixed_client crbs rbs clusterRoles roles = \<lparr>
     IndexClusterRoleBinding = (\<lambda>idx k f. Inr (idx\<lparr>ix_ClusterRoleBinding := mput k f (ix_ClusterRoleBinding idx)\<rparr>)),
     IndexRoleBinding = (\<lambda>idx k f. Inr (idx\<lparr>ix_RoleBinding := mput k f (ix_RoleBinding idx)\<rparr>)),
     ListClusterRoleBindings = (\<lambda>idx k s. case mget (ix_ClusterRoleBinding idx) k of
        None \<Rightarrow> Inl (OtherError ''index does not exist'') | Some f \<Rightarrow> Inr (filter (\<lambda>b. s \<in> set (f b)) crbs)),
     ListRoleBindings = (\<lambda>idx k s. case mget (ix_RoleBinding idx) k of
        None \<Rightarrow> Inl (OtherError ''index does not exist'') | Some f \<Rightarrow> Inr (filter (\<lambda>b. s \<in> set (f b)) rbs)),
     GetClusterRole = (\<lambda>nm. case mget clusterRoles nm of
        None \<Rightarrow> Inl (OtherError ''not found'') | Some r \<Rightarrow> Inr r),
     GetRole = (\<lambda>ns nm. case mget roles (ns, nm) of
        None \<Rightarrow> Inl (OtherError ''not found'') | Some r \<Rightarrow> Inr r)\<rparr>"

lemma fixed_client_ok: "client_ok (fixed_client crbs rbs cr r) crbs rbs"
  by (simp add: client_ok_def fixed_client_def split: option.splits)

definition ex_rule :: policy_rule where
  "ex_rule = \<lparr>pr_APIGroups = [[]], pr_Resources = [''pods''], pr_ResourceNames = [], pr_Verbs = [''get'']\<rparr>"

definition ex_user :: user where
  "ex_user = \<lparr>u_Name = ''alice'', u_UID = [], u_Groups = [''dev''], u_Extra = []\<rparr>"

definition user_subject :: "string \<Rightarrow> string \<Rightarrow> subject" where
  "user_subject kind nm = \<lparr>sub_APIGroup = rbacGroup, sub_Kind = kind, sub_Namespace = [], sub_Name = nm\<rparr>"

text \<open>One role binding for the user, and optionally a cluster role binding for the user's group.\<close>

definition ex_rb :: role_binding where
  "ex_rb = \<lparr>rb_Namespace = ''a'', rb_UID = ''1'', rb_Subjects = [user_subject ''User'' ''alice''],
     rb_RoleRef = \<lparr>ref_Kind = ''ClusterRole'', ref_Name = ''view''\<rparr>\<rparr>"

definition ex_crb :: cluster_role_binding where
  "ex_crb = \<lparr>crb_Name = ''b'', crb_Subjects = [user_subject ''Group'' ''dev''],
     crb_RoleRef = \<lparr>ref_Kind = ''ClusterRole'', ref_Name = ''view''\<rparr>\<rparr>"

definition ex_world :: "cluster_role_binding list \<Rightarrow> unit access_store \<times> rbac_world" where
  "ex_world crbs =
     (let cl = fixed_client crbs [ex_rb] [(''view'', [ex_rule])] [];
          (l, idx) = NewAccessStore cl no_indexes None
      in (l, \<lparr>w_client = cl, w_indexes = idx, w_revisions = []\<rparr>))"

lemma ex_world_store:
  "NewAccessStore (fixed_client crbs [ex_rb] [(''view'', [ex_rule])] []) no_indexes None =
     (fst (ex_world crbs), w_indexes (snd (ex_world crbs)))"
  "w_client (snd (ex_world crbs)) = fixed_client crbs [ex_rb] [(''view'', [ex_rule])] []"
  by (simp_all add: ex_world_def Let_def split_beta)

lemma role_bindings_grant_nothing_witness:
  "\<not> AccessSet_Grants (compute_access (snd (ex_world [])) (fst (ex_world [])) ex_user) ''get'' ex_pods ''a'' ''x'' \<and>
   AccessSet_Grants (compute_access (snd (ex_world [ex_crb])) (fst (ex_world [ex_crb])) ex_user) ''get'' ex_pods ''a'' ''x''"
proof -
  have app: "AccessSet_Grants (compute_access (snd (ex_world crbs)) (fst (ex_world crbs)) ex_user) ''get'' ex_pods ''a'' ''x'' \<longleftrightarrow>
    (\<exists>b \<in> set crbs. ref_Kind (crb_RoleRef b) = ''ClusterRole'' \<and>
       (\<exists>s \<in> set (crb_Subjects b). subject_is ''User'' (u_Name ex_user) s \<or>
          (\<exists>g \<in> set (u_Groups ex_user). subject_is ''Group'' g s)) \<and>
       binding_allows (snd (ex_world crbs)) all_star (crb_RoleRef b) ''get'' ex_pods ''a'' ''x'')" for crbs
    by (rule role_bindings_grant_nothing [OF fixed_client_ok ex_world_store refl])
  have "binding_allows (snd (ex_world [ex_crb])) all_star (crb_RoleRef ex_crb) ''get'' ex_pods ''a'' ''x''"
    by code_simp
  then show ?thesis unfolding app
    by (simp add: ex_crb_def ex_user_def user_subject_def subject_is_def)
qed

text \<open>
  A cluster role binding that names a service account is indexed under
  \<open>serviceaccount:namespace:name\<close>, never under \<open>system:serviceaccount:namespace:name\<close>, the name
  Kubernetes authenticates a service account with: bindings to service accounts alone never answer a
  lookup by an authenticated service account.
\<close>

theorem service_account_index_name:
  assumes "\<And>s. s \<in> set (crb_Subjects b) \<Longrightarrow> sub_Kind s = ''ServiceAccount'' \<and> sub_APIGroup s = []"
    and "nm \<in> set (clusterRoleBindingBySubjectIndexer p b)"
  shows "(\<exists>s \<in> set (crb_Subjects b). nm = ''serviceaccount:'' @ sub_Namespace s @ '':'' @ sub_Name s) \<and>
    nm \<noteq> ''system:serviceaccount:'' @ sa"
  using assms by (auto simp: in_crb_indexer subject_is_def rbacGroup_def)

definition ex_sa_crb :: cluster_role_binding where
  "ex_sa_crb = \<lparr>crb_Name = ''b'',
     crb_Subjects = [\<lparr>sub_APIGroup = [], sub_Kind = ''ServiceAccount'', sub_Namespace = ''a'', sub_Name = ''bot''\<rparr>],
     crb_RoleRef = \<lparr>ref_Kind = ''ClusterRole'', ref_Name = ''view''\<rparr>\<rparr>"

lemma service_account_index_name_witness:
  "clusterRoleBindingBySubjectIndexer (st_users (fst (ex_world []))) ex_sa_crb = [''serviceaccount:a:bot''] \<and>
   ''serviceaccount:a:bot'' \<noteq> ''system:serviceaccount:'' @ ''a:bot''"
proof -
  let ?p = "st_users (fst (ex_world []))"
  have i: "clusterRoleBindingBySubjectIndexer ?p ex_sa_crb = [''serviceaccount:a:bot'']" by code_simp
  moreover have "''serviceaccount:a:bot'' \<noteq> ''system:serviceaccount:'' @ ''a:bot''"
    by (rule service_account_index_name [THEN conjunct2, of ex_sa_crb _ ?p])
      (auto simp: i ex_sa_crb_def [THEN arg_cong [of _ _ crb_Subjects]])
  ultimately show ?thesis by blast
qed

subsection \<open>The cache\<close>

definition null_free :: "string \<Rightarrow> bool" where
  "null_free s \<longleftrightarrow> char_of (0 :: nat) \<notin> set s"

lemma cut_unique: "x \<notin> set a \<Longrightarrow> x \<notin> set b \<Longrightarrow> a @ x # s = b @ x # t \<longleftrightarrow> a = b \<and> s = t"
proof (induction a arbitrary: b)
  case Nil
  then show ?case by (cases b) auto
next
  case (Cons c a)
  then show ?case by (cases b) auto
qed

definition enc_pair :: "string \<times> string \<Rightarrow> string" where
  "enc_pair p = fst p @ null @ snd p @ null"

lemma enc_pair_unique:
  assumes "null_free (fst p)" "null_free (snd p)" "null_free (fst q)" "null_free (snd q)"
  shows "enc_pair p @ s = enc_pair q @ t \<longleftrightarrow> p = q \<and> s = t"
  using assms by (cases p; cases q) (simp add: enc_pair_def null_def null_free_def cut_unique)

lemma enc_pairs_unique:
  "\<forall>p \<in> set ps \<union> set qs. null_free (fst p) \<and> null_free (snd p) \<Longrightarrow>
   concat (map enc_pair ps) = concat (map enc_pair qs) \<Longrightarrow> ps = qs"
proof (induction ps arbitrary: qs)
  case Nil
  then show ?case by (cases qs) (auto simp: enc_pair_def null_def)
next
  case (Cons p ps)
  then obtain q qs' where "qs = q # qs'" by (cases qs) (auto simp: enc_pair_def null_def)
  with Cons show ?case by (auto simp: enc_pair_unique)
qed

text \<open>
  A world a store made by \<open>NewAccessStore\<close> reads from. The objects may differ from world to world;
  names and revisions have no zero byte.
\<close>

definition serves :: "'c access_store \<Rightarrow> rbac_world \<Rightarrow> bool" where
  "serves l w \<longleftrightarrow>
     (\<exists>crbs rbs cache. client_ok (w_client w) crbs rbs \<and> (\<forall>b \<in> set crbs. null_free (ref_Name (crb_RoleRef b))) \<and>
        NewAccessStore (w_client w) no_indexes cache = (l\<lparr>st_cache := cache\<rparr>, w_indexes w)) \<and>
     (\<forall>n. null_free (roleRevision (w_revisions w) [] n))"

definition cluster_role_adds :: "rbac_world \<Rightarrow> string \<Rightarrow> (akey \<times> access) list" where
  "cluster_role_adds w n = ref_adds w all_star \<lparr>ref_Kind = ''ClusterRole'', ref_Name = n\<rparr>"

text \<open>The roles a user is bound to with their revisions, in the order the digest visits them.\<close>

definition bound_roles :: "rbac_world \<Rightarrow> 'c access_store \<Rightarrow> user \<Rightarrow> (string \<times> string) list" where
  "bound_roles w l u =
     map (\<lambda>b. (ref_Name (crb_RoleRef b), roleRevision (w_revisions w) [] (ref_Name (crb_RoleRef b))))
       (getClusterRoleBindings w (st_users l) (u_Name u) @
        concat (map (getClusterRoleBindings w (st_groups l)) (u_Groups u)))"

lemma serves_lists:
  assumes "serves l w" and "p \<in> {st_users l, st_groups l}"
  shows "getRoleBindings w p s = []"
    and "\<And>b. b \<in> set (getClusterRoleBindings w p s) \<Longrightarrow>
      null_free (ref_Name (crb_RoleRef b)) \<and> ref_Kind (crb_RoleRef b) = ''ClusterRole''"
proof -
  from assms(1) obtain crbs rbs cache where c: "client_ok (w_client w) crbs rbs"
    and n: "\<forall>b \<in> set crbs. null_free (ref_Name (crb_RoleRef b))"
    and s: "NewAccessStore (w_client w) no_indexes cache = (l\<lparr>st_cache := cache\<rparr>, w_indexes w)"
    by (auto simp: serves_def)
  note reg = NewAccessStore_registers [OF c s, simplified]
  show "getRoleBindings w p s = []"
    using assms(2) listed_rbs_none [OF c refl reg(3)] listed_rbs_none [OF c refl reg(4)] by auto
  show "null_free (ref_Name (crb_RoleRef b)) \<and> ref_Kind (crb_RoleRef b) = ''ClusterRole''"
    if "b \<in> set (getClusterRoleBindings w p s)" for b
    using assms(2) that n listed_crbs [OF c refl reg(1)] listed_crbs [OF c refl reg(2)]
    by (auto simp: in_crb_indexer)
qed

lemma concat_nested: "concat (map (\<lambda>g. concat (map e (G g))) gs) = concat (map e (concat (map G gs)))"
  by (induction gs) simp_all

lemma digest_of_bound_roles:
  assumes "serves l w"
  shows "digest_input w l u = concat (map enc_pair (bound_roles w l u))"
proof -
  let ?pair = "\<lambda>b. (ref_Name (crb_RoleRef b), roleRevision (w_revisions w) [] (ref_Name (crb_RoleRef b)))"
  have "addRolesToHash w p = (\<lambda>s. concat (map (\<lambda>b. enc_pair (?pair b)) (getClusterRoleBindings w p s)))"
    if "p \<in> {st_users l, st_groups l}" for p
    by (rule ext) (simp add: serves_lists(1) [OF assms that] addRolesToHash_def enc_pair_def)
  then show ?thesis
    by (simp add: digest_input_def bound_roles_def concat_nested [of "\<lambda>b. enc_pair (?pair b)"] comp_def)
qed

lemma access_of_bound_roles:
  assumes "serves l w"
  shows "has_access (compute_access w l u) k ac \<longleftrightarrow>
    (\<exists>n \<in> fst ` set (bound_roles w l u). (k, ac) \<in> set (cluster_role_adds w n))"
proof -
  have ref: "crb_RoleRef b = \<lparr>ref_Kind = ''ClusterRole'', ref_Name = ref_Name (crb_RoleRef b)\<rparr>"
    if "p \<in> {st_users l, st_groups l}" "b \<in> set (getClusterRoleBindings w p s)" for p s b
    using serves_lists(2) [OF assms that] by (cases "crb_RoleRef b") simp
  have adds: "(k, ac) \<in> set (index_adds w p s) \<longleftrightarrow>
      (\<exists>b \<in> set (getClusterRoleBindings w p s). (k, ac) \<in> set (cluster_role_adds w (ref_Name (crb_RoleRef b))))"
    if "p \<in> {st_users l, st_groups l}" for p s
    using serves_lists(1) [OF assms that] ref [OF that] by (simp add: index_adds_def cluster_role_adds_def)
  have "fst ` set (bound_roles w l u) = (\<lambda>b. ref_Name (crb_RoleRef b)) `
      (set (getClusterRoleBindings w (st_users l) (u_Name u)) \<union>
       (\<Union>g \<in> set (u_Groups u). set (getClusterRoleBindings w (st_groups l) g)))"
    by (simp add: bound_roles_def image_image image_Un)
  then show ?thesis by (simp add: compute_access_holds adds) blast
qed

text \<open>
  Worlds in which a revision stands for one set of rules: two worlds that saw the same revision of a
  cluster role see the same rules.
\<close>

definition revisions_fix_rules :: "rbac_world set \<Rightarrow> bool" where
  "revisions_fix_rules Ws \<longleftrightarrow>
     (\<forall>w \<in> Ws. \<forall>w' \<in> Ws. \<forall>n. roleRevision (w_revisions w) [] n = roleRevision (w_revisions w') [] n \<longrightarrow>
        GetClusterRole (w_client w) n = GetClusterRole (w_client w') n)"

lemma same_digest_same_access:
  assumes "revisions_fix_rules Ws" and "w \<in> Ws" and "w' \<in> Ws" and "serves l w" and "serves l w'"
    and "digest_input w l u = digest_input w' l u'"
  shows "has_access (compute_access w l u) k ac \<longleftrightarrow> has_access (compute_access w' l u') k ac"
proof -
  have nf: "null_free (fst p) \<and> null_free (snd p)" if "serves l v" "p \<in> set (bound_roles v l x)" for v p x
  proof -
    have "\<forall>n. null_free (roleRevision (w_revisions v) [] n)" using that(1) unfolding serves_def by blast
    with that(2) show ?thesis
      using serves_lists(2) [OF that(1), of "st_users l"] serves_lists(2) [OF that(1), of "st_groups l"]
      by (auto simp: bound_roles_def)
  qed
  have same: "bound_roles w l u = bound_roles w' l u'"
  proof (rule enc_pairs_unique)
    show "concat (map enc_pair (bound_roles w l u)) = concat (map enc_pair (bound_roles w' l u'))"
      using assms(6) unfolding digest_of_bound_roles [OF assms(4)] digest_of_bound_roles [OF assms(5)] .
  qed (use nf assms(4,5) in blast)
  have "cluster_role_adds w n = cluster_role_adds w' n" if "n \<in> fst ` set (bound_roles w l u)" for n
  proof -
    have seen: "roleRevision (w_revisions v) [] n = r" if "(n, r) \<in> set (bound_roles v l x)" for v r x
      using that by (auto simp: bound_roles_def)
    from that obtain r where r: "(n, r) \<in> set (bound_roles w l u)" by force
    have "roleRevision (w_revisions w) [] n = roleRevision (w_revisions w') [] n"
      using seen [OF r] seen [OF r [unfolded same]] by simp
    with assms(1-3) have "GetClusterRole (w_client w) n = GetClusterRole (w_client w') n"
      unfolding revisions_fix_rules_def by blast
    then show ?thesis by (simp add: cluster_role_adds_def ref_adds_def getRules_def)
  qed
  then show ?thesis
    by (auto simp: access_of_bound_roles [OF assms(4)] access_of_bound_roles [OF assms(5)] same)
qed

text \<open>
  What the cache holds: under a key, an access set with the accesses computed for some user with that
  cache key in one of the worlds the store has served.
\<close>

definition cache_inv ::
  "('c, access_set) lru \<Rightarrow> (string \<Rightarrow> string) \<Rightarrow> rbac_world set \<Rightarrow> 'c access_store \<Rightarrow> bool" where
  "cache_inv L sha Ws l \<longleftrightarrow>
     (\<forall>c k v. st_cache l = Some c \<longrightarrow> lru_get L c k = Some v \<longrightarrow>
        (\<exists>w \<in> Ws. \<exists>u. k = CacheKey sha w l u \<and>
           (\<forall>key ac. has_access v key ac \<longleftrightarrow> has_access (compute_access w l u) key ac)))"

lemma store_cache_irrelevant [simp]:
  "compute_access w (l\<lparr>st_cache := c\<rparr>) u = compute_access w l u"
  "CacheKey sha w (l\<lparr>st_cache := c\<rparr>) u = CacheKey sha w l u"
  by (simp_all add: compute_access_def CacheKey_def digest_input_def)

lemma has_access_ID [simp]: "has_access (a\<lparr>as_ID := i\<rparr>) k ac = has_access a k ac"
  by (simp add: has_access_def)

text \<open>
  C20. Caching by digest is sound. For a collision-free digest, as long as a revision of a role stands
  for one set of rules and every world is one the store was registered in, \<open>AccessFor\<close> grants exactly
  what would be computed afresh in the current world, whether the answer comes from the cache, from
  another user with the same roles, or from an earlier state of the cluster; and it keeps the cache so.
\<close>

theorem cached_access_is_current:
  assumes "lru_ok L" and "inj sha" and "\<forall>w \<in> Ws. serves l w" and "revisions_fix_rules Ws"
    and "cache_inv L sha Ws l" and "w \<in> Ws" and "AccessFor L sha w l u = (a, l')"
  shows "(AccessSet_Grants a verb gr ns nm \<longleftrightarrow> AccessSet_Grants (compute_access w l u) verb gr ns nm) \<and>
    cache_inv L sha Ws l'"
proof -
  have "(\<forall>k ac. has_access a k ac \<longleftrightarrow> has_access (compute_access w l u) k ac) \<and> cache_inv L sha Ws l'"
  proof (cases "st_cache l")
    case None
    with assms(5,7) show ?thesis by (auto simp: AccessFor_def)
  next
    case (Some c)
    show ?thesis
    proof (cases "lru_get L c (CacheKey sha w l u)")
      case None
      with Some assms(7) have a: "a = (compute_access w l u)\<lparr>as_ID := CacheKey sha w l u\<rparr>"
        and l': "l' = l\<lparr>st_cache := Some (lru_add L c (CacheKey sha w l u) a)\<rparr>"
        by (auto simp: AccessFor_def Let_def)
      have "\<exists>w \<in> Ws. \<exists>u. k = CacheKey sha w l u \<and>
          (\<forall>key ac. has_access v key ac \<longleftrightarrow> has_access (compute_access w l u) key ac)"
        if "lru_get L (lru_add L c (CacheKey sha w l u) a) k = Some v" for k v
        using lru_add_law [OF assms(1) that] assms(5,6) Some a
        by (cases "k = CacheKey sha w l u") (auto simp: cache_inv_def)
      then show ?thesis by (simp add: a l' cache_inv_def)
    next
      case hit: (Some v)
      with Some assms(7) have "a = v" and "l' = l" by (auto simp: AccessFor_def Let_def)
      moreover from hit Some assms(5) obtain w0 u0 where "w0 \<in> Ws" "CacheKey sha w l u = CacheKey sha w0 l u0"
        and v: "\<forall>key ac. has_access v key ac \<longleftrightarrow> has_access (compute_access w0 l u0) key ac"
        unfolding cache_inv_def by blast
      moreover from this assms(2) have "digest_input w l u = digest_input w0 l u0"
        by (simp add: CacheKey_def inj_eq)
      ultimately show ?thesis
        using same_digest_same_access [OF assms(4,6), of w0 l u u0] assms(3,5,6) by simp
    qed
  qed
  then show ?thesis by (simp add: Grants_wild_keys)
qed

definition ex_store :: "(string, access_set) gomap access_store" where
  "ex_store = \<lparr>st_users = st_users (fst (ex_world [ex_crb])), st_groups = st_groups (fst (ex_world [ex_crb])),
     st_cache = Some []\<rparr>"

lemma ex_store_serves: "serves ex_store (snd (ex_world [ex_crb]))"
proof -
  let ?w = "snd (ex_world [ex_crb])"
  let ?cl = "fixed_client [ex_crb] [ex_rb] [(''view'', [ex_rule])] []"
  have "client_ok (w_client ?w) [ex_crb] [ex_rb]" by (simp add: ex_world_store fixed_client_ok)
  moreover have "NewAccessStore (w_client ?w) no_indexes (Some []) = (ex_store\<lparr>st_cache := Some []\<rparr>, w_indexes ?w)"
    by (simp add: ex_world_def ex_store_def NewAccessStore_def Let_def split_beta)
  moreover have "\<forall>b \<in> set [ex_crb]. null_free (ref_Name (crb_RoleRef b))"
    by (simp add: ex_crb_def null_free_def) code_simp
  moreover have "null_free (roleRevision (w_revisions ?w) [] n)" for n
    by (simp add: ex_world_def Let_def split_beta roleRevision_def mgetd_def null_free_def)
  ultimately show ?thesis unfolding serves_def by blast
qed

lemma cached_access_is_current_witness:
  "AccessSet_Grants (fst (AccessFor map_lru id (snd (ex_world [ex_crb])) ex_store ex_user)) ''get'' ex_pods ''a'' ''x'' \<and>
   cache_inv map_lru id {snd (ex_world [ex_crb])} (snd (AccessFor map_lru id (snd (ex_world [ex_crb])) ex_store ex_user))"
proof -
  let ?w = "snd (ex_world [ex_crb])"
  have "cache_inv map_lru id {?w} ex_store" by (simp add: cache_inv_def ex_store_def map_lru_def)
  moreover have "revisions_fix_rules {?w}" by (simp add: revisions_fix_rules_def)
  moreover have "AccessSet_Grants (compute_access ?w ex_store ex_user) ''get'' ex_pods ''a'' ''x''" by code_simp
  ultimately show ?thesis
    using cached_access_is_current [OF map_lru_ok inj_on_id, of "{?w}" ex_store ?w ex_user] ex_store_serves
    by (metis prod.collapse singletonD singletonI)
qed

subsection \<open>The revisions follow the events\<close>

text \<open>
  The revision index follows the role events: after an event for a role, its revision is the one
  of the event, or empty once the role is removed, and no other role's revision changes. A removal,
  which carries only the key \<open>namespace/name\<close>, clears the very entry that the updates of that role wrote.
\<close>

theorem role_revision_follows_events:
  assumes "CHR ''/'' \<notin> set ns"
  shows "roleRevision (onRoleChanged \<lparr>re_Key = ns @ ''/'' @ nm, re_Namespace = ns, re_Name = nm, re_ResourceVersion = v\<rparr> r) ns' nm' =
      (if ns' = ns \<and> nm' = nm then (case v of None \<Rightarrow> [] | Some x \<Rightarrow> x) else roleRevision r ns' nm') \<and>
    roleRevision (onClusterRoleChanged \<lparr>re_Key = nm, re_Namespace = [], re_Name = nm, re_ResourceVersion = v\<rparr> r) ns' nm' =
      (if ns' = [] \<and> nm' = nm then (case v of None \<Rightarrow> [] | Some x \<Rightarrow> x) else roleRevision r ns' nm')"
  using str_cut_join [OF assms, of nm]
  by (auto simp: roleRevision_def onRoleChanged_def onClusterRoleChanged_def mgetd_def mget_mput mget_mdel
      split: option.splits)

lemma role_revision_follows_events_witness:
  "roleRevision (onRoleChanged \<lparr>re_Key = ''a/r'', re_Namespace = ''a'', re_Name = ''r'', re_ResourceVersion = None\<rparr>
     [(\<lparr>rk_namespace = ''a'', rk_name = ''r''\<rparr>, ''7'')]) ''a'' ''r'' = []"
  using role_revision_follows_events [of "''a''" "''r''" None "[(\<lparr>rk_namespace = ''a'', rk_name = ''r''\<rparr>, ''7'')]" "''a''" "''r''"]
  by simp

end
