(* ===== verification/Schema_Factory.thy ===== *)
theory Schema_Factory
  imports Policy_Rules
begin

section \<open>The schema collection: pkg/schema/collection.go, pkg/schema/factory.go\<close>

text \<open>
  The collection keeps the schemas discovery found, the templates that customise them, and for each
  access set the schemas a subject may see. \<open>schemasForSubject\<close> decides schema by schema which HTTP
  methods the subject's grants allow; \<open>Reset\<close> replaces the schemas, starts and stops templates
  and empties the cache.

  The function values of templates (\<open>Customize\<close>, \<open>Start\<close>, \<open>StoreFactory\<close>) are named by numbers, their
  behaviour is the argument \<open>template_env\<close>. A context made by \<^verbatim>\<open>context.WithCancel\<close> is a number;
  the state records which contexts were cancelled. A method that changes shared schemas returns the
  collection changed.
\<close>

subsection \<open>State\<close>

record template =
  t_Group :: string
  t_Kind :: string
  t_ID :: string
  t_Customize :: "func option"
  t_Formatter :: "formatter option"
  t_Store :: "func option"
  t_Start :: "func option"
  t_StoreFactory :: "func option"

record template_env =
  run_Customize :: "func \<Rightarrow> api_schema \<Rightarrow> api_schema"
  run_Start :: "func \<Rightarrow> nat \<Rightarrow> go_err option"
  run_StoreFactory :: "func \<Rightarrow> func option \<Rightarrow> func option"

record 'c collection =
  c_baseSchema :: api_schemas
  c_schemas :: "(string, api_schema) gomap"
  c_templates :: "(string, template list) gomap"
  c_notifiers :: "(nat, func) gomap"
  c_notifierID :: nat
  c_byGVR :: "(gvr, string) gomap"
  c_byGVK :: "(gvk, string) gomap"
  c_cache :: 'c
  c_running :: "(string, nat) gomap"
  c_nextCtx :: nat
  c_cancelled :: "nat list"

definition NewCollection :: "api_schemas \<Rightarrow> 'c \<Rightarrow> 'c collection" where
  "NewCollection base emptyCache =
     \<lparr>c_baseSchema = base, c_schemas = [], c_templates = [], c_notifiers = [], c_notifierID = 0,
      c_byGVR = [], c_byGVK = [], c_cache = emptyCache, c_running = [], c_nextCtx = 0, c_cancelled = []\<rparr>"

definition OnChange :: "func \<Rightarrow> 'c collection \<Rightarrow> nat \<times> 'c collection" where
  "OnChange cb c =
     (c_notifierID c,
      c\<lparr>c_notifierID := c_notifierID c + 1, c_notifiers := mput (c_notifierID c) cb (c_notifiers c)\<rparr>)"

text \<open>The goroutine of \<open>OnChange\<close>, once the context it waits for is done.\<close>

definition OnChange_done :: "nat \<Rightarrow> 'c collection \<Rightarrow> 'c collection" where
  "OnChange_done i c = c\<lparr>c_notifiers := mdel i (c_notifiers c)\<rparr>"

subsection \<open>Templates\<close>

definition AddTemplate_one :: "template \<Rightarrow> (string, template list) gomap \<Rightarrow> (string, template list) gomap" where
  "AddTemplate_one t m =
     (let m1 =
        (if t_Kind t \<noteq> [] then
           mput (t_Group t @ ''/'' @ t_Kind t) (mgetd [] m (t_Group t @ ''/'' @ t_Kind t) @ [t]) m
         else if t_ID t \<noteq> [] then mput (t_ID t) (mgetd [] m (t_ID t) @ [t]) m
         else m)
      in if t_Kind t = [] \<and> t_Group t = [] \<and> t_ID t = [] then mput [] (mgetd [] m1 [] @ [t]) m1 else m1)"

definition AddTemplate :: "template list \<Rightarrow> 'c collection \<Rightarrow> 'c collection" where
  "AddTemplate ts c = c\<lparr>c_templates := fold AddTemplate_one ts (c_templates c)\<rparr>"

definition defaultStore :: "'c collection \<Rightarrow> func option" where
  "defaultStore c = (case mgetd [] (c_templates c) [] of [] \<Rightarrow> None | t # _ \<Rightarrow> t_Store t)"

definition applyTemplate :: "template_env \<Rightarrow> 'c collection \<Rightarrow> template \<Rightarrow> api_schema \<Rightarrow> api_schema" where
  "applyTemplate E c t s =
     (let s1 = (case Formatter s of
             None \<Rightarrow> s\<lparr>Formatter := t_Formatter t\<rparr>
           | Some f \<Rightarrow> (case t_Formatter t of
                 None \<Rightarrow> s
               | Some tf \<Rightarrow> s\<lparr>Formatter := Some (FormatterChain tf f)\<rparr>));
          s2 = (case Store s1 of
             Some _ \<Rightarrow> s1
           | None \<Rightarrow> (case t_StoreFactory t of
                 None \<Rightarrow> s1\<lparr>Store := t_Store t\<rparr>
               | Some sf \<Rightarrow> s1\<lparr>Store := run_StoreFactory E sf (defaultStore c)\<rparr>))
      in case t_Customize t of None \<Rightarrow> s2 | Some f \<Rightarrow> run_Customize E f s2)"

definition templates_for :: "convert \<Rightarrow> 'c collection \<Rightarrow> api_schema \<Rightarrow> template list" where
  "templates_for C c s =
     mgetd [] (c_templates c) (ID s) @
     mgetd [] (c_templates c) (sprintf ''%s/%s'' [Group C s, Kind C s]) @
     mgetd [] (c_templates c) []"

definition applyTemplates :: "template_env \<Rightarrow> convert \<Rightarrow> 'c collection \<Rightarrow> api_schema \<Rightarrow> api_schema" where
  "applyTemplates E C c s = fold (applyTemplate E c) (templates_for C c s) s"

subsection \<open>Starting and stopping templates\<close>

fun start :: "template_env \<Rightarrow> nat \<Rightarrow> template list \<Rightarrow> go_err option" where
  "start E ctx [] = None"
| "start E ctx (t # ts) =
     (case t_Start t of
        None \<Rightarrow> start E ctx ts
      | Some f \<Rightarrow> (case run_Start E f ctx of Some err \<Rightarrow> Some err | None \<Rightarrow> start E ctx ts))"

definition start_one :: "template_env \<Rightarrow> string \<Rightarrow> 'c collection \<Rightarrow> 'c collection" where
  "start_one E i c =
     (if mhas (c_running c) i then c
      else if length (mgetd [] (c_templates c) i) = 0 then c
      else let subCtx = c_nextCtx c; c = c\<lparr>c_nextCtx := subCtx + 1\<rparr> in
        (case start E subCtx (mgetd [] (c_templates c) i) of
           Some _ \<Rightarrow> c\<lparr>c_cancelled := subCtx # c_cancelled c\<rparr>
         | None \<Rightarrow> c\<lparr>c_running := mput i subCtx (c_running c)\<rparr>))"

definition stop_one :: "(string, api_schema) gomap \<Rightarrow> string \<times> nat \<Rightarrow> 'c collection \<Rightarrow> 'c collection" where
  "stop_one schemas e c =
     (if mhas schemas (fst e) then c
      else c\<lparr>c_cancelled := snd e # c_cancelled c, c_running := mdel (fst e) (c_running c)\<rparr>)"

definition startStopTemplate :: "template_env \<Rightarrow> (string, api_schema) gomap \<Rightarrow> 'c collection \<Rightarrow> 'c collection" where
  "startStopTemplate E schemas c =
     (let c1 = fold (start_one E) (map fst schemas) c in fold (stop_one schemas) (c_running c1) c1)"

subsection \<open>Reset and the lookups\<close>

definition index_gvr :: "convert \<Rightarrow> api_schema \<Rightarrow> (gvr, string) gomap \<Rightarrow> (gvr, string) gomap" where
  "index_gvr C s m = (if gvr_Resource (GVR C s) \<noteq> [] then mput (GVR C s) (ID s) m else m)"

definition index_gvk :: "convert \<Rightarrow> api_schema \<Rightarrow> (gvk, string) gomap \<Rightarrow> (gvk, string) gomap" where
  "index_gvk C s m = (if gvk_Kind (GVK C s) \<noteq> [] then mput (GVK C s) (ID s) m else m)"

text \<open>\<open>Reset\<close> returns the notifiers it calls, in map order, beside the collection.\<close>

definition Reset ::
  "('c, 'v) lru \<Rightarrow> template_env \<Rightarrow> convert \<Rightarrow> (string, api_schema) gomap \<Rightarrow> 'c collection
   \<Rightarrow> func list \<times> 'c collection" where
  "Reset L E C schemas c =
     (let byGVR = fold (\<lambda>(_, s). index_gvr C s) schemas [];
          byGVK = fold (\<lambda>(_, s). index_gvk C s) schemas [];
          schemas' = map (\<lambda>(k, s). (k, applyTemplates E C c s)) schemas;
          c1 = startStopTemplate E schemas' c;
          c2 = c1\<lparr>c_schemas := schemas', c_byGVR := byGVR, c_byGVK := byGVK,
                  c_cache := lru_clear L (c_cache c1)\<rparr>
      in (map snd (c_notifiers c2), c2))"

definition Collection_Schema :: "'c collection \<Rightarrow> string \<Rightarrow> api_schema option" where
  "Collection_Schema c i = mget (c_schemas c) i"

fun ids_loop :: "(gvr \<times> string) list \<Rightarrow> (string, bool) gomap \<Rightarrow> string list \<Rightarrow> string list" where
  "ids_loop [] seen result = result"
| "ids_loop ((_, i) # rest) seen result =
     (if mgetd False seen i then ids_loop rest seen result
      else ids_loop rest (mput i True seen) (result @ [i]))"

definition IDs :: "'c collection \<Rightarrow> string list" where
  "IDs c = ids_loop (c_byGVR c) [] []"

text \<open>The plural guess is a function of the schemer package, an argument here.\<close>

definition ByGVR :: "(string \<Rightarrow> string) \<Rightarrow> 'c collection \<Rightarrow> gvr \<Rightarrow> string" where
  "ByGVR guessPlural c g =
     (case mget (c_byGVR c) g of
        Some i \<Rightarrow> i
      | None \<Rightarrow> mgetd [] (c_byGVK c)
          \<lparr>gvk_Group = gvr_Group g, gvk_Version = gvr_Version g,
           gvk_Kind = guessPlural (to_lower (gvr_Resource g))\<rparr>)"

definition ByGVK :: "'c collection \<Rightarrow> gvk \<Rightarrow> string" where
  "ByGVK c g = mgetd [] (c_byGVK c) g"

subsection \<open>The schemas of a subject\<close>

definition newSchemas :: "add_internal \<Rightarrow> api_schemas \<Rightarrow> go_err + api_schemas" where
  "newSchemas add builtin = AddSchemas add EmptyAPISchemas builtin"

definition verb_access :: "convert \<Rightarrow> access_set \<Rightarrow> api_schema \<Rightarrow> AccessListByVerb" where
  "verb_access C access s =
     fold (\<lambda>verb va.
         let a = AccessListFor access verb (GR C s);
             a = (if Namespaced C (Some s) then a else filter (\<lambda>x. acc_Namespace x = all_star) a)
         in if length a > 0 then mput verb a va else va)
       (Verbs C s) []"

text \<open>
  One iteration for a schema with a resource: the shared schema as the iteration leaves it, and the
  copy for the subject, if it is added. The appends before \<open>DeepCopy\<close> change the shared schema.
\<close>

definition add_methods :: "AccessListByVerb \<Rightarrow> api_schema \<Rightarrow> api_schema" where
  "add_methods va s =
     (let s = (if ByVerb_AnyVerb va [''list'', ''get''] then
            s\<lparr>ResourceMethods := ResourceMethods s @ [MethodGet],
              CollectionMethods := CollectionMethods s @ [MethodGet]\<rparr> else s);
          s = (if ByVerb_AnyVerb va [''delete''] then
            s\<lparr>ResourceMethods := ResourceMethods s @ [MethodDelete]\<rparr> else s);
          s = (if ByVerb_AnyVerb va [''update''] then
            s\<lparr>ResourceMethods := ResourceMethods s @ [MethodPut] @ [MethodPatch]\<rparr> else s)
      in if ByVerb_AnyVerb va [''create''] then
           s\<lparr>CollectionMethods := CollectionMethods s @ [MethodPost]\<rparr> else s)"

definition subject_schema :: "convert \<Rightarrow> access_set \<Rightarrow> api_schema \<Rightarrow> api_schema \<times> api_schema option" where
  "subject_schema C access s =
     (let va = verb_access C access s;
          accessList = map (\<lambda>ns. \<lparr>acc_Namespace = all_star, acc_ResourceName = ns\<rparr>) (AccessSet_Namespaces access);
          special = (va = [] \<and> gr_Group (GR C s) = [] \<and> gr_Resource (GR C s) = ''namespaces'');
          va' = (if special then mput ''watch'' accessList (mput ''get'' accessList va) else va);
          shared = (if special \<and> length accessList = 0
                    then s\<lparr>CollectionMethods := CollectionMethods s @ [MethodGet]\<rparr> else s);
          t = add_methods va' (SetAccess va' (DeepCopy shared))
      in (shared, if length (CollectionMethods t) = 0 \<and> length (ResourceMethods t) = 0 then None else Some t))"

fun subject_loop ::
  "add_internal \<Rightarrow> convert \<Rightarrow> access_set \<Rightarrow> (string, api_schema) gomap \<Rightarrow> api_schemas
   \<Rightarrow> (go_err + api_schemas) \<times> (string, api_schema) gomap" where
  "subject_loop add C access [] result = (Inr result, [])"
| "subject_loop add C access ((k, s) # rest) result =
     (if gr_Resource (GR C s) = [] then
        (case AddSchema add result s of
           Inl err \<Rightarrow> (Inl err, (k, s) # rest)
         | Inr result' \<Rightarrow> (case subject_loop add C access rest result' of (r, rest') \<Rightarrow> (r, (k, s) # rest')))
      else
        (case subject_schema C access s of
           (shared, None) \<Rightarrow>
             (case subject_loop add C access rest result of (r, rest') \<Rightarrow> (r, (k, shared) # rest'))
         | (shared, Some t) \<Rightarrow>
             (case AddSchema add result t of
                Inl err \<Rightarrow> (Inl err, (k, shared) # rest)
              | Inr result' \<Rightarrow>
                  (case subject_loop add C access rest result' of (r, rest') \<Rightarrow> (r, (k, shared) # rest')))))"

definition schemasForSubject ::
  "add_internal \<Rightarrow> api_schemas \<Rightarrow> convert \<Rightarrow> access_set \<Rightarrow> 'c collection
   \<Rightarrow> (go_err + api_schemas) \<times> 'c collection" where
  "schemasForSubject add builtin C access c =
     (case newSchemas add builtin of
        Inl err \<Rightarrow> (Inl err, c)
      | Inr result \<Rightarrow>
          (case AddSchemas add result (c_baseSchema c) of
             Inl err \<Rightarrow> (Inl err, c)
           | Inr result \<Rightarrow>
               (case subject_loop add C access (c_schemas c) result of
                  (Inl err, schemas') \<Rightarrow> (Inl err, c\<lparr>c_schemas := schemas'\<rparr>)
                | (Inr result, schemas') \<Rightarrow>
                    (Inr (result\<lparr>schemas_Attributes := [(''accessSet'', AAccessSet access)]\<rparr>),
                     c\<lparr>c_schemas := schemas'\<rparr>))))"

definition Collection_Schemas ::
  "('c, api_schemas) lru \<Rightarrow> add_internal \<Rightarrow> api_schemas \<Rightarrow> convert \<Rightarrow> access_set \<Rightarrow> 'c collection
   \<Rightarrow> (go_err + api_schemas) \<times> 'c collection" where
  "Collection_Schemas L add builtin C access c =
     (case lru_get L (c_cache c) (as_ID access) of
        Some schemas \<Rightarrow> (Inr schemas, c)
      | None \<Rightarrow>
          (case schemasForSubject add builtin C access c of
             (Inl err, c') \<Rightarrow> (Inl err, c')
           | (Inr schemas, c') \<Rightarrow> (Inr schemas, c'\<lparr>c_cache := lru_add L (c_cache c') (as_ID access) schemas\<rparr>)))"

section \<open>What a subject sees\<close>

text \<open>
  The specification: the grants of an access set that concern a schema. The verb is one the resource
  serves; on a resource without namespaces, a grant limited to a namespace is no grant.
\<close>

definition trimmed :: "convert \<Rightarrow> access_set \<Rightarrow> api_schema \<Rightarrow> string \<Rightarrow> AccessList" where
  "trimmed C access s verb =
     (if verb \<in> set (Verbs C s)
      then filter (\<lambda>x. Namespaced C (Some s) \<or> acc_Namespace x = all_star) (AccessListFor access verb (GR C s))
      else [])"

definition grants_on :: "convert \<Rightarrow> access_set \<Rightarrow> api_schema \<Rightarrow> string \<Rightarrow> string \<Rightarrow> string \<Rightarrow> bool" where
  "grants_on C access s verb ns nm \<longleftrightarrow>
     verb \<in> set (Verbs C s) \<and>
     (\<exists>k \<in> set (wild_keys verb (GR C s)). \<exists>ac. has_access access k ac \<and> Access_Grants ac ns nm \<and>
        (Namespaced C (Some s) \<or> acc_Namespace ac = all_star))"

definition permitted :: "convert \<Rightarrow> access_set \<Rightarrow> api_schema \<Rightarrow> string \<Rightarrow> bool" where
  "permitted C access s verb \<longleftrightarrow> (\<exists>ns nm. grants_on C access s verb ns nm)"

lemma verb_access_fold:
  "mgetd [] (fold (\<lambda>verb va. if length (f verb) > 0 then mput verb (f verb) va else va) vs va) v =
     (if v \<in> set vs \<and> f v \<noteq> [] then f v else mgetd [] va v)"
  by (induction vs arbitrary: va) (auto simp: mgetd_mput)

lemma verb_access_lookup: "mgetd [] (verb_access C access s) v = trimmed C access s v"
proof -
  let ?f = "\<lambda>verb. if Namespaced C (Some s) then AccessListFor access verb (GR C s)
    else filter (\<lambda>x. acc_Namespace x = all_star) (AccessListFor access verb (GR C s))"
  have "verb_access C access s =
      fold (\<lambda>verb va. if length (?f verb) > 0 then mput verb (?f verb) va else va) (Verbs C s) []"
    by (simp add: verb_access_def Let_def)
  then have "mgetd [] (verb_access C access s) v = (if v \<in> set (Verbs C s) \<and> ?f v \<noteq> [] then ?f v else [])"
    by (simp only: verb_access_fold) (simp add: mgetd_def)
  then show ?thesis by (auto simp: trimmed_def)
qed

lemma trimmed_grants: "AccessList_Grants (trimmed C access s verb) ns nm \<longleftrightarrow> grants_on C access s verb ns nm"
  by (auto simp: AccessList_Grants_iff trimmed_def grants_on_def AccessListFor_set)

lemma trimmed_permitted: "trimmed C access s verb \<noteq> [] \<longleftrightarrow> permitted C access s verb"
proof -
  have "\<exists>ns nm. Access_Grants a ns nm" for a by (auto simp: Access_Grants_wild wild_def)
  then show ?thesis
    unfolding permitted_def trimmed_grants [symmetric] AccessList_Grants_iff by (fastforce simp: neq_Nil_conv)
qed

lemma any_verb: "ByVerb_AnyVerb va vs \<longleftrightarrow> (\<exists>v \<in> set vs. mgetd [] va v \<noteq> [])"
  by (induction vs) auto

lemma add_methods_frame [simp]:
  "ID (add_methods va s) = ID s" "Attributes (add_methods va s) = Attributes s" "Store (add_methods va s) = Store s"
  by (simp_all add: add_methods_def Let_def)

lemma add_methods_set:
  "set (ResourceMethods (add_methods va s)) = set (ResourceMethods s) \<union>
     (if ByVerb_AnyVerb va [''list'', ''get''] then {MethodGet} else {}) \<union>
     (if ByVerb_AnyVerb va [''delete''] then {MethodDelete} else {}) \<union>
     (if ByVerb_AnyVerb va [''update''] then {MethodPut, MethodPatch} else {})"
  "set (CollectionMethods (add_methods va s)) = set (CollectionMethods s) \<union>
     (if ByVerb_AnyVerb va [''list'', ''get''] then {MethodGet} else {}) \<union>
     (if ByVerb_AnyVerb va [''create''] then {MethodPost} else {})"
  by (auto simp: add_methods_def Let_def simp del: ByVerb_AnyVerb.simps)

lemma setVal_access [simp]:
  "CollectionMethods (SetAccess va s) = CollectionMethods s" "ResourceMethods (SetAccess va s) = ResourceMethods s"
  "ID (SetAccess va s) = ID s" "PluralName (SetAccess va s) = PluralName s"
  by (simp_all add: SetAccess_def)

lemma access_map_add_methods [simp]: "GetAccessListMap (Some (add_methods va (SetAccess va' s))) = va'"
  by (simp add: GetAccessListMap_def Access_def get_attr_def SetAccess_def setVal_def mgetd_mput)

definition is_namespaces :: "convert \<Rightarrow> api_schema \<Rightarrow> bool" where
  "is_namespaces C s \<longleftrightarrow> gr_Group (GR C s) = [] \<and> gr_Resource (GR C s) = ''namespaces''"

lemma subject_schema_plain:
  assumes "\<not> is_namespaces C s"
  shows "subject_schema C access s =
    (let va = verb_access C access s; t = add_methods va (SetAccess va (DeepCopy s))
     in (s, if CollectionMethods t = [] \<and> ResourceMethods t = [] then None else Some t))"
proof -
  have "\<not> (verb_access C access s = [] \<and> gr_Group (GR C s) = [] \<and> gr_Resource (GR C s) = ''namespaces'')"
    using assms by (simp add: is_namespaces_def)
  then show ?thesis unfolding subject_schema_def Let_def by (simp only: if_False simp_thms) simp
qed

lemma verb_access_none: "verb_access C access s = [] \<longleftrightarrow> (\<forall>v. \<not> permitted C access s v)"
proof
  assume "verb_access C access s = []"
  then have "trimmed C access s v = []" for v
    using verb_access_lookup [of C access s v] by (simp add: mgetd_def)
  then show "\<forall>v. \<not> permitted C access s v" using trimmed_permitted by blast
next
  let ?f = "\<lambda>verb. if Namespaced C (Some s) then AccessListFor access verb (GR C s)
    else filter (\<lambda>x. acc_Namespace x = all_star) (AccessListFor access verb (GR C s))"
  have keep: "fold (\<lambda>verb va. if length (f verb) > 0 then mput verb (f verb) va else va) vs va = va"
    if "\<And>v. v \<in> set vs \<Longrightarrow> f v = []" for vs f and va :: AccessListByVerb
    using that by (induction vs) auto
  assume "\<forall>v. \<not> permitted C access s v"
  then have none: "trimmed C access s v = []" for v using trimmed_permitted by blast
  have "?f v = []" if "v \<in> set (Verbs C s)" for v
    using that none [of v] by (cases "Namespaced C (Some s)") (simp_all add: trimmed_def)
  from keep [OF this] show "verb_access C access s = []" unfolding verb_access_def Let_def .
qed

text \<open>The exception of the factory: a subject without any grant on the namespaces may still see those named in its access set.\<close>

definition named_only :: "convert \<Rightarrow> access_set \<Rightarrow> api_schema \<Rightarrow> bool" where
  "named_only C access s \<longleftrightarrow> is_namespaces C s \<and> (\<forall>v. \<not> permitted C access s v)"

lemma subject_schema_parts:
  fixes C access s
  defines "names \<equiv> map (acc all_star) (AccessSet_Namespaces access)"
  defines "va \<equiv> (if named_only C access s then [(''get'', names), (''watch'', names)] else verb_access C access s)"
    and "sh \<equiv> (if named_only C access s \<and> names = [] then s\<lparr>CollectionMethods := CollectionMethods s @ [MethodGet]\<rparr> else s)"
  shows "subject_schema C access s =
    (sh, let t = add_methods va (SetAccess va (DeepCopy sh)) in if CollectionMethods t = [] \<and> ResourceMethods t = [] then None else Some t)"
proof (cases "named_only C access s")
  case True
  then have "verb_access C access s = []" "gr_Group (GR C s) = []" "gr_Resource (GR C s) = ''namespaces''"
    by (simp_all add: named_only_def is_namespaces_def verb_access_none)
  moreover have "mput ''watch'' a (mput ''get'' a []) = [(''get'', a), (''watch'', a)]" for a :: AccessList by simp
  ultimately show ?thesis using True by (simp add: subject_schema_def Let_def names_def va_def sh_def acc_def [abs_def])
next
  case False
  then have "\<not> (verb_access C access s = [] \<and> gr_Group (GR C s) = [] \<and> gr_Resource (GR C s) = ''namespaces'')"
    by (auto simp: named_only_def is_namespaces_def verb_access_none)
  with False show ?thesis unfolding subject_schema_def Let_def by (simp only: va_def sh_def if_False simp_thms) simp
qed

text \<open>What the access list of the copy holds.\<close>

lemma named_lookup: "mgetd [] [(''get'', a), (''watch'', a)] v = (if v = ''get'' \<or> v = ''watch'' then a else [])"
  by (simp add: mgetd_def)

lemma named_grants: "AccessList_Grants (map (acc all_star) names) ns nm \<longleftrightarrow> (\<exists>name \<in> set names. wild name nm)"
  by (auto simp: AccessList_Grants_iff Access_Grants_wild acc_def wild_def)

text \<open>
  C13. The methods a subject gets on a schema. They are the schema's own methods together with those granted: reading is offered with a
  list or get grant on the resource, deleting, updating and creating with theirs. A schema with a resource is left out exactly when it has no methods
  of its own and none of these verbs is granted; and the access list stored with the copy answers every
  later question as the whole access set would, a namespaced grant on a cluster-scoped resource counting for nothing. The one exception is the
  schema of namespaces for a subject with no grant on namespaces at all: it is never left out, listing is offered on it, its access list grants get and watch for the names of the
  namespaces the access set knows and nothing else, and reading one of them is offered when there is such a name. When there is none the shared schema, too, gets one
  more \<^verbatim>\<open>GET\<close>; in all other cases the shared schema is left as it was.
\<close>

theorem subject_schema_methods:
  "let names = AccessSet_Namespaces access; own = named_only C access s;
      reads = permitted C access s ''list'' \<or> permitted C access s ''get'' \<or> own \<and> names \<noteq> [] in
    fst (subject_schema C access s) =
      (if own \<and> names = [] then s\<lparr>CollectionMethods := CollectionMethods s @ [MethodGet]\<rparr> else s) \<and>
    (case snd (subject_schema C access s) of
       None \<Rightarrow> CollectionMethods s = [] \<and> ResourceMethods s = [] \<and> \<not> own \<and>
         (\<forall>v \<in> {''list'', ''get'', ''delete'', ''update'', ''create''}. \<not> permitted C access s v)
     | Some t \<Rightarrow> ID t = ID s \<and>
         set (ResourceMethods t) = set (ResourceMethods s) \<union>
           {m. m = MethodGet \<and> reads \<or>
               m = MethodDelete \<and> permitted C access s ''delete'' \<or>
               (m = MethodPut \<or> m = MethodPatch) \<and> permitted C access s ''update''} \<and>
         set (CollectionMethods t) = set (CollectionMethods s) \<union>
           {m. m = MethodGet \<and> (reads \<or> own) \<or>
               m = MethodPost \<and> permitted C access s ''create''} \<and>
         set (ResourceMethods t) \<union> set (CollectionMethods t) \<noteq> {} \<and>
         (\<forall>verb ns nm. ByVerb_Grants (GetAccessListMap (Some t)) verb ns nm \<longleftrightarrow>
            grants_on C access s verb ns nm \<or>
            own \<and> verb \<in> {''get'', ''watch''} \<and> (\<exists>name \<in> set names. wild name nm)))"
proof -
  define names where "names = map (acc all_star) (AccessSet_Namespaces access)"
  define own where "own = named_only C access s"
  define va where "va = (if own then [(''get'', names), (''watch'', names)] else verb_access C access s)"
  define sh where "sh = (if own \<and> names = [] then s\<lparr>CollectionMethods := CollectionMethods s @ [MethodGet]\<rparr> else s)"
  define t where "t = add_methods va (SetAccess va (DeepCopy sh))"
  have sub: "subject_schema C access s = (sh, if CollectionMethods t = [] \<and> ResourceMethods t = [] then None else Some t)"
    using subject_schema_parts [of C access s] unfolding names_def own_def va_def sh_def t_def Let_def .
  have no: "\<not> permitted C access s v" "\<not> grants_on C access s v ns nm" if own for v ns nm
    using that by (auto simp: own_def named_only_def permitted_def)
  have get: "mgetd [] va v \<noteq> [] \<longleftrightarrow> permitted C access s v \<or> own \<and> names \<noteq> [] \<and> v \<in> {''get'', ''watch''}" for v
    by (cases own) (simp_all add: va_def named_lookup verb_access_lookup trimmed_permitted no)
  have sets: "set (ResourceMethods t) = set (ResourceMethods s) \<union>
      {m. m = MethodGet \<and> (permitted C access s ''list'' \<or> permitted C access s ''get'' \<or> own \<and> names \<noteq> []) \<or>
          m = MethodDelete \<and> permitted C access s ''delete'' \<or> (m = MethodPut \<or> m = MethodPatch) \<and> permitted C access s ''update''}"
    "set (CollectionMethods t) = set (CollectionMethods s) \<union>
      {m. m = MethodGet \<and> ((permitted C access s ''list'' \<or> permitted C access s ''get'' \<or> own \<and> names \<noteq> []) \<or> own) \<or>
          m = MethodPost \<and> permitted C access s ''create''}"
    by (auto simp: t_def add_methods_set any_verb get sh_def simp del: ByVerb_AnyVerb.simps)
  have "ByVerb_Grants (GetAccessListMap (Some t)) verb ns nm \<longleftrightarrow> grants_on C access s verb ns nm \<or>
      own \<and> verb \<in> {''get'', ''watch''} \<and> (\<exists>name \<in> set (AccessSet_Namespaces access). wild name nm)" for verb ns nm
    by (cases own) (auto simp: t_def ByVerb_Grants_def va_def named_lookup verb_access_lookup trimmed_grants no names_def named_grants)
  moreover have "ID t = ID s" by (simp add: t_def sh_def)
  moreover have "(AccessSet_Namespaces access = []) = (names = [])" by (simp add: names_def)
  ultimately show ?thesis
    unfolding Let_def sub own_def [symmetric] using sets
    by (simp only: fst_conv snd_conv sh_def) (auto simp: set_empty [symmetric] simp del: set_empty)
qed

definition ex_ns_schema :: api_schema where
  "ex_ns_schema = SetAPIResource \<lparr>ar_Name = ''namespaces'', ar_Verbs = [''get'', ''list'', ''delete''], ar_Namespaced = False, ar_Kind = ''Namespace''\<rparr>
     (SetGVK \<lparr>gvk_Group = [], gvk_Version = ''v1'', gvk_Kind = ''Namespace''\<rparr> (ex_schema ''namespace'' ''namespaces''))"

text \<open>A schema with a grant, and the namespaces for a subject that has none.\<close>

lemma subject_schema_methods_witness:
  "(\<exists>t. subject_schema convert_std ex_set1 ex_pod_schema = (ex_pod_schema, Some t) \<and>
      MethodGet \<in> set (ResourceMethods t) \<and> MethodDelete \<notin> set (ResourceMethods t)) \<and>
   fst (subject_schema convert_std empty_access_set ex_ns_schema) = ex_ns_schema\<lparr>CollectionMethods := [MethodGet]\<rparr>"
proof -
  have ns: "\<not> is_namespaces convert_std ex_pod_schema" "is_namespaces convert_std ex_ns_schema" by code_simp+
  then have "\<not> named_only convert_std ex_set1 ex_pod_schema" by (simp add: named_only_def)
  with subject_schema_methods [of ex_set1 convert_std ex_pod_schema]
  have "fst (subject_schema convert_std ex_set1 ex_pod_schema) = ex_pod_schema" by (simp add: Let_def)
  moreover have "(case snd (subject_schema convert_std ex_set1 ex_pod_schema) of None \<Rightarrow> False
      | Some t \<Rightarrow> MethodGet \<in> set (ResourceMethods t) \<and> MethodDelete \<notin> set (ResourceMethods t))"
    by code_simp
  moreover have "named_only convert_std empty_access_set ex_ns_schema"
    using access_sets.holds_empty ns(2) by (simp add: named_only_def permitted_def grants_on_def)
  moreover have "AccessSet_Namespaces empty_access_set = []" "CollectionMethods ex_ns_schema = []" by code_simp+
  ultimately show ?thesis
    using subject_schema_methods [of empty_access_set convert_std ex_ns_schema]
    by (auto simp: Let_def prod_eq_iff split: option.splits)
qed

subsection \<open>The namespaces schema\<close>

lemma collection_methods_attrs [simp]:
  "Verbs C (s\<lparr>CollectionMethods := ms\<rparr>) = Verbs C s" "GR C (s\<lparr>CollectionMethods := ms\<rparr>) = GR C s"
  "Namespaced C (Some (s\<lparr>CollectionMethods := ms\<rparr>)) = Namespaced C (Some s)"
  by (simp_all add: attr_defs get_attr_def)

lemma permitted_collection_methods [simp]:
  "permitted C access (s\<lparr>CollectionMethods := ms\<rparr>) v = permitted C access s v"
  by (simp add: permitted_def grants_on_def)

lemma subject_schema_namespaces:
  assumes "is_namespaces C s" and "\<forall>v. \<not> permitted C access s v" and "AccessSet_Namespaces access = []"
  shows "fst (subject_schema C access s) = s\<lparr>CollectionMethods := CollectionMethods s @ [MethodGet]\<rparr>"
  using assms(1,3) verb_access_none [THEN iffD2, OF assms(2)]
  by (simp add: subject_schema_def Let_def is_namespaces_def)

lemma subject_schema_keeps_methods:
  assumes "m \<in> set (CollectionMethods s)"
  shows "\<exists>t. snd (subject_schema C access s) = Some t \<and> m \<in> set (CollectionMethods t)"
proof -
  obtain va b where sub: "subject_schema C access s =
      (let sh = (if b then s\<lparr>CollectionMethods := CollectionMethods s @ [MethodGet]\<rparr> else s);
           t = add_methods va (SetAccess va (DeepCopy sh))
       in (sh, if length (CollectionMethods t) = 0 \<and> length (ResourceMethods t) = 0 then None else Some t))"
    unfolding subject_schema_def Let_def by blast
  have "m \<in> set (CollectionMethods (add_methods va (SetAccess va (DeepCopy
      (if b then s\<lparr>CollectionMethods := CollectionMethods s @ [MethodGet]\<rparr> else s)))))"
    using assms by (simp add: add_methods_set)
  then show ?thesis unfolding sub Let_def by (auto simp del: DeepCopy_frame)
qed

text \<open>
  The one mutation of shared state in \<open>schemasForSubject\<close>: each time the schemas are computed for
  a subject with no namespace and no grant on namespaces, the \<^emph>\<open>shared\<close> namespaces schema gets one more
  \<open>GET\<close> among its collection methods. The list grows with every such computation, and from the first
  on every other subject, whatever its grants, is offered listing too.
\<close>

theorem namespaces_schema_grows:
  assumes "is_namespaces C s" and "\<forall>v. \<not> permitted C access s v" and "AccessSet_Namespaces access = []"
  shows "((\<lambda>s. fst (subject_schema C access s)) ^^ n) s =
      s\<lparr>CollectionMethods := CollectionMethods s @ replicate n MethodGet\<rparr> \<and>
    (0 < n \<longrightarrow> (\<forall>other. \<exists>t. snd (subject_schema C other (((\<lambda>s. fst (subject_schema C access s)) ^^ n) s)) = Some t \<and>
       MethodGet \<in> set (CollectionMethods t)))"
proof -
  have *: "((\<lambda>s. fst (subject_schema C access s)) ^^ n) s =
      s\<lparr>CollectionMethods := CollectionMethods s @ replicate n MethodGet\<rparr>" for n
  proof (induction n)
    case 0
    then show ?case by simp
  next
    case (Suc n)
    let ?s = "s\<lparr>CollectionMethods := CollectionMethods s @ replicate n MethodGet\<rparr>"
    have "is_namespaces C ?s" using assms(1) by (simp add: is_namespaces_def)
    from subject_schema_namespaces [OF this _ assms(3)] assms(2) show ?case
      by (simp add: Suc.IH replicate_append_same)
  qed
  show ?thesis unfolding * using subject_schema_keeps_methods by simp
qed

definition ex_deleter :: access_set where
  "ex_deleter = AccessSet_Add empty_access_set ''delete'' \<lparr>gr_Group = [], gr_Resource = ''namespaces''\<rparr> (acc all_star all_star)"

text \<open>A subject that may only delete namespaces is not offered \<open>GET\<close> before, and is after.\<close>

lemma namespaces_schema_grows_witness:
  "(\<exists>t. snd (subject_schema convert_std ex_deleter ex_ns_schema) = Some t \<and> MethodGet \<notin> set (CollectionMethods t)) \<and>
   (\<exists>t. snd (subject_schema convert_std ex_deleter
      (((\<lambda>s. fst (subject_schema convert_std empty_access_set s)) ^^ 1) ex_ns_schema)) = Some t \<and>
      MethodGet \<in> set (CollectionMethods t))"
proof -
  have "is_namespaces convert_std ex_ns_schema" by code_simp
  moreover have "\<forall>v. \<not> permitted convert_std empty_access_set ex_ns_schema v"
    using access_sets.holds_empty by (simp add: permitted_def grants_on_def)
  moreover have "AccessSet_Namespaces empty_access_set = []" by code_simp
  ultimately have "\<exists>t. snd (subject_schema convert_std ex_deleter
      (((\<lambda>s. fst (subject_schema convert_std empty_access_set s)) ^^ 1) ex_ns_schema)) = Some t \<and>
      MethodGet \<in> set (CollectionMethods t)"
    by (intro namespaces_schema_grows [THEN conjunct2, THEN mp, THEN spec]) simp_all
  moreover have "(case snd (subject_schema convert_std ex_deleter ex_ns_schema) of None \<Rightarrow> False
      | Some t \<Rightarrow> MethodGet \<notin> set (CollectionMethods t))" by code_simp
  ultimately show ?thesis by (simp split: option.splits)
qed

subsection \<open>The collection a subject gets\<close>

text \<open>What the server relies on of schemer's \<open>AddSchema\<close>: it files the schema under its id and leaves the others.\<close>

definition add_ok :: "add_internal \<Rightarrow> bool" where
  "add_ok add \<longleftrightarrow>
     (\<forall>ints s ints'. add ints s = Inr ints' \<longrightarrow>
        (\<exists>sc. mget ints' (ID s) = Some sc \<and> ID sc = ID s) \<and> (\<forall>i. i \<noteq> ID s \<longrightarrow> mget ints' i = mget ints i))"

lemma add_plain_ok: "add_ok add_plain"
  by (auto simp: add_ok_def add_plain_def mget_mput)

definition ids_of :: "(string, api_schema) gomap \<Rightarrow> string set" where
  "ids_of m = {ID s | k s. (k, s) \<in> set m}"

lemma AddSchema_ids:
  assumes "add_ok add" and "AddSchema add a s = Inr a'"
  shows "mhas (Schemas a') i \<longleftrightarrow> ID s = i \<or> mhas (Schemas a) i"
proof -
  from assms(2) obtain ints sc where add: "add (InternalSchemas a) (schema.truncate s) = Inr ints"
    and sc: "mget ints (ID s) = Some sc"
    and a': "a' = addToIndex (set_embedded s sc)
      (a\<lparr>InternalSchemas := ints, Schemas := mput (ID sc) (set_embedded s sc) (Schemas a)\<rparr>)"
    by (rule AddSchema_Inr)
  have "ID (schema.truncate s) = ID s" by (simp add: schema.defs)
  with assms(1) add sc have "ID sc = ID s" unfolding add_ok_def by fastforce
  then show ?thesis by (auto simp: a' addToIndex_def mhas_mput)
qed

lemma AddSchemas_ids:
  assumes "add_ok add"
  shows "AddSchemas_loop add a m = Inr a' \<Longrightarrow> mhas (Schemas a') i \<longleftrightarrow> i \<in> ids_of m \<or> mhas (Schemas a) i"
proof (induction m arbitrary: a)
  case Nil
  then show ?case by (simp add: ids_of_def)
next
  case (Cons e rest)
  obtain k s where e: "e = (k, s)" by (cases e)
  with Cons.prems obtain a1 where "AddSchema add a s = Inr a1" "AddSchemas_loop add a1 rest = Inr a'"
    by (auto split: sum.splits)
  with Cons.IH [of a1] AddSchema_ids [OF assms, of a s a1] e show ?case by (auto simp: ids_of_def)
qed

text \<open>The schemas a subject is offered.\<close>

definition offered :: "convert \<Rightarrow> access_set \<Rightarrow> api_schema \<Rightarrow> bool" where
  "offered C access s \<longleftrightarrow>
     gr_Resource (GR C s) = [] \<or> CollectionMethods s \<noteq> [] \<or> ResourceMethods s \<noteq> [] \<or>
     (\<exists>v \<in> {''list'', ''get'', ''delete'', ''update'', ''create''}. permitted C access s v) \<or>
     (is_namespaces C s \<and> (\<forall>v. \<not> permitted C access s v))"

lemma no_methods_iff:
  "CollectionMethods (add_methods va s) = [] \<and> ResourceMethods (add_methods va s) = [] \<longleftrightarrow>
     CollectionMethods s = [] \<and> ResourceMethods s = [] \<and>
     \<not> ByVerb_AnyVerb va [''list'', ''get'', ''delete'', ''update'', ''create'']"
proof -
  have "CollectionMethods (add_methods va s) = [] \<and> ResourceMethods (add_methods va s) = [] \<longleftrightarrow>
      set (CollectionMethods (add_methods va s)) = {} \<and> set (ResourceMethods (add_methods va s)) = {}"
    by simp
  then show ?thesis by (simp only: add_methods_set) (auto simp del: ByVerb_AnyVerb.simps simp: any_verb)
qed

lemma subject_schema_offered:
  assumes "gr_Resource (GR C s) \<noteq> []"
  shows "snd (subject_schema C access s) \<noteq> None \<longleftrightarrow> offered C access s"
proof (cases "is_namespaces C s \<and> (\<forall>v. \<not> permitted C access s v)")
  case True
  then have va: "verb_access C access s = []" by (simp add: verb_access_none)
  have ns: "gr_Group (GR C s) = []" "gr_Resource (GR C s) = ''namespaces''"
    using True by (simp_all add: is_namespaces_def)
  have "snd (subject_schema C access s) \<noteq> None"
    by (cases "AccessSet_Namespaces access")
      (simp_all add: subject_schema_def Let_def va ns no_methods_iff any_verb mgetd_def)
  then show ?thesis using True by (simp add: offered_def)
next
  case False
  define va where "va = verb_access C access s"
  have "va \<noteq> [] \<or> \<not> is_namespaces C s" using False by (auto simp: va_def verb_access_none)
  then have "snd (subject_schema C access s) = (let t = add_methods va (SetAccess va (DeepCopy s))
      in if CollectionMethods t = [] \<and> ResourceMethods t = [] then None else Some t)"
    by (auto simp: subject_schema_def Let_def va_def is_namespaces_def)
  then have "snd (subject_schema C access s) = None \<longleftrightarrow> CollectionMethods s = [] \<and> ResourceMethods s = [] \<and>
      \<not> ByVerb_AnyVerb va [''list'', ''get'', ''delete'', ''update'', ''create'']"
    by (simp add: Let_def no_methods_iff del: ByVerb_AnyVerb.simps)
  moreover have any: "ByVerb_AnyVerb va [''list'', ''get'', ''delete'', ''update'', ''create''] \<longleftrightarrow>
      (\<exists>v \<in> {''list'', ''get'', ''delete'', ''update'', ''create''}. permitted C access s v)"
    by (simp add: any_verb va_def verb_access_lookup trimmed_permitted)
  ultimately show ?thesis using assms False unfolding offered_def any by argo
qed

lemma subject_schema_ID: "snd (subject_schema C access s) = Some t \<Longrightarrow> ID t = ID s"
  by (auto simp: subject_schema_def Let_def split: if_splits)

lemma subject_loop_ids:
  assumes "add_ok add"
  shows "subject_loop add C access m a = (Inr a', m') \<Longrightarrow>
    (mhas (Schemas a') i \<longleftrightarrow> (\<exists>k s. (k, s) \<in> set m \<and> ID s = i \<and> offered C access s) \<or> mhas (Schemas a) i) \<and>
    map fst m' = map fst m"
proof (induction m arbitrary: a m')
  case Nil
  then show ?case by auto
next
  case (Cons e rest)
  obtain k s where e: "e = (k, s)" by (cases e)
  obtain a1 sh rest' where rest: "subject_loop add C access rest a1 = (Inr a', rest')" and m': "m' = (k, sh) # rest'"
    and a1: "mhas (Schemas a1) i \<longleftrightarrow> (ID s = i \<and> offered C access s) \<or> mhas (Schemas a) i"
  proof (cases "gr_Resource (GR C s) = []")
    case True
    with Cons.prems e that AddSchema_ids [OF assms, of a s] show thesis
      by (auto simp: offered_def split: sum.splits prod.splits)
  next
    case False
    show thesis
    proof (cases "snd (subject_schema C access s)")
      case None
      with subject_schema_offered [OF False] have "\<not> offered C access s" by blast
      with None False Cons.prems e that [of a] show thesis
        by (cases "subject_schema C access s") (auto split: prod.splits)
    next
      case (Some t)
      with subject_schema_offered [OF False] have "offered C access s" by blast
      with Some False Cons.prems e that AddSchema_ids [OF assms, of a t] subject_schema_ID [OF Some] show thesis
        by (cases "subject_schema C access s") (auto split: prod.splits sum.splits)
    qed
  qed
  from Cons.IH [OF rest] a1 m' e show ?case by auto
qed

lemma schemasForSubject_Inr:
  assumes "schemasForSubject add builtin C access c = (Inr r, c')"
  obtains a0 a1 a2 m where "AddSchemas add EmptyAPISchemas builtin = Inr a0"
    and "AddSchemas add a0 (c_baseSchema c) = Inr a1" and "subject_loop add C access (c_schemas c) a1 = (Inr a2, m)"
    and "r = a2\<lparr>schemas_Attributes := [(''accessSet'', AAccessSet access)]\<rparr>" and "c' = c\<lparr>c_schemas := m\<rparr>"
  using assms by (auto simp: schemasForSubject_def newSchemas_def split: sum.splits prod.splits)

text \<open>
  C14. The schemas of a subject are, by id, the built-in ones, the server's base schemas and exactly
  those of the discovered schemas that are \<open>offered\<close> to the subject: the schemas without a resource; those that have methods of their own, whatever is
  granted; those for whose resource the subject holds a grant to list, get, delete, update or create; and the schema of namespaces when the
  subject holds no grant on namespaces at all. A schema for which nothing but other verbs is granted, such as watch or patch, is left out, as is
  the schema of namespaces for a subject whose only grants on it are such. The result carries the access set, from which
  \<open>AccessControl\<close> decides, and of the collection only the shared schemas can have changed, none of
  them added, removed or put under another name.
\<close>

theorem schemas_of_subject:
  assumes "add_ok add" and "schemasForSubject add builtin C access c = (Inr r, c')"
  shows "(mhas (Schemas r) i \<longleftrightarrow> i \<in> ids_of (Schemas builtin) \<or> i \<in> ids_of (Schemas (c_baseSchema c)) \<or>
      (\<exists>k s. (k, s) \<in> set (c_schemas c) \<and> ID s = i \<and> offered C access s)) \<and>
    mgetd ANil (schemas_Attributes r) ''accessSet'' = AAccessSet access \<and>
    c' = c\<lparr>c_schemas := c_schemas c'\<rparr> \<and> map fst (c_schemas c') = map fst (c_schemas c)"
proof -
  from assms(2) obtain a0 a1 a2 m where a0: "AddSchemas_loop add EmptyAPISchemas (Schemas builtin) = Inr a0"
    and a1: "AddSchemas_loop add a0 (Schemas (c_baseSchema c)) = Inr a1"
    and a2: "subject_loop add C access (c_schemas c) a1 = (Inr a2, m)"
    and r: "r = a2\<lparr>schemas_Attributes := [(''accessSet'', AAccessSet access)]\<rparr>" and c': "c' = c\<lparr>c_schemas := m\<rparr>"
    by (auto elim!: schemasForSubject_Inr simp: AddSchemas_def)
  have "\<not> mhas (Schemas EmptyAPISchemas) i" by (simp add: EmptyAPISchemas_def mhas_def)
  with AddSchemas_ids [OF assms(1) a0, of i] AddSchemas_ids [OF assms(1) a1, of i]
    subject_loop_ids [OF assms(1) a2, of i]
  show ?thesis by (auto simp: r c' mgetd_def)
qed

definition ex_collection :: "(string, api_schemas) gomap collection" where
  "ex_collection = (NewCollection EmptyAPISchemas [])\<lparr>c_schemas := [(''pod'', ex_pod_schema), (''namespace'', ex_ns_schema)]\<rparr>"

lemma schemas_of_subject_witness:
  "\<exists>r c'. schemasForSubject add_plain EmptyAPISchemas convert_std ex_deleter ex_collection = (Inr r, c') \<and>
     mhas (Schemas r) ''namespace'' \<and> mgetd ANil (schemas_Attributes r) ''accessSet'' = AAccessSet ex_deleter"
proof -
  have "case schemasForSubject add_plain EmptyAPISchemas convert_std ex_deleter ex_collection of
      (Inl _, _) \<Rightarrow> False | (Inr r, _) \<Rightarrow> mhas (Schemas r) ''namespace''"
    by code_simp
  then obtain r c' where r: "schemasForSubject add_plain EmptyAPISchemas convert_std ex_deleter ex_collection = (Inr r, c')"
    and "mhas (Schemas r) ''namespace''" by (auto split: prod.splits sum.splits)
  with schemas_of_subject [OF add_plain_ok r] show ?thesis by blast
qed

subsection \<open>Templates\<close>

text \<open>Customize functions that leave the formatter and the store to the fields of the template.\<close>

definition customize_frame :: "template_env \<Rightarrow> bool" where
  "customize_frame E \<longleftrightarrow>
     (\<forall>f s. Formatter (run_Customize E f s) = Formatter s \<and> Store (run_Customize E f s) = Store s)"

definition format_with :: "(func \<Rightarrow> 'r \<Rightarrow> 'r) \<Rightarrow> formatter option \<Rightarrow> 'r \<Rightarrow> 'r" where
  "format_with env f r = (case f of None \<Rightarrow> r | Some f \<Rightarrow> run_formatter env f r)"

definition template_store :: "template_env \<Rightarrow> 'c collection \<Rightarrow> template \<Rightarrow> func option" where
  "template_store E c t =
     (case t_StoreFactory t of None \<Rightarrow> t_Store t | Some sf \<Rightarrow> run_StoreFactory E sf (defaultStore c))"

fun first_some :: "'a option list \<Rightarrow> 'a option" where
  "first_some [] = None"
| "first_some (x # xs) = (case x of Some _ \<Rightarrow> x | None \<Rightarrow> first_some xs)"

lemma applyTemplate_parts:
  assumes "customize_frame E"
  shows "format_with env (Formatter (applyTemplate E c t s)) r =
      format_with env (Formatter s) (format_with env (t_Formatter t) r)"
    and "Store (applyTemplate E c t s) = first_some [Store s, template_store E c t]"
  using assms
  by (auto simp: applyTemplate_def Let_def customize_frame_def format_with_def template_store_def
      FormatterChain_def split: option.splits)

lemma fold_applyTemplate:
  assumes "customize_frame E"
  shows "format_with env (Formatter (fold (applyTemplate E c) ts s)) r =
      format_with env (Formatter s) (foldr (\<lambda>t. format_with env (t_Formatter t)) ts r) \<and>
    Store (fold (applyTemplate E c) ts s) = first_some (Store s # map (template_store E c) ts)"
  by (induction ts arbitrary: s) (auto simp: applyTemplate_parts [OF assms] split: option.splits)

lemma templates_for_eq:
  "templates_for C c s = mgetd [] (c_templates c) (ID s) @ mgetd [] (c_templates c) (Group C s @ ''/'' @ Kind C s) @
     mgetd [] (c_templates c) []"
  by (simp add: templates_for_def)

text \<open>
  How templates combine. The templates for a schema's id come before those for its group and
  kind and those before the default ones; the store is the schema's own or else the first one a
  template supplies; the formatters run in the opposite order, the default ones first and the
  schema's own last, each on what the one before left.
\<close>

theorem templates_combine:
  assumes "customize_frame E"
  shows "\<exists>ts. ts = mgetd [] (c_templates c) (ID s) @ mgetd [] (c_templates c) (Group C s @ ''/'' @ Kind C s) @
        mgetd [] (c_templates c) [] \<and>
    Store (applyTemplates E C c s) = first_some (Store s # map (template_store E c) ts) \<and>
    format_with env (Formatter (applyTemplates E C c s)) r =
      format_with env (Formatter s) (foldr (\<lambda>t. format_with env (t_Formatter t)) ts r)"
  using fold_applyTemplate [OF assms, of env c "templates_for C c s" s r]
  unfolding applyTemplates_def templates_for_eq [symmetric] by blast

definition ex_template :: template where
  "ex_template = \<lparr>t_Group = [], t_Kind = ''Pod'', t_ID = [], t_Customize = None, t_Formatter = Some (Fmt 1),
     t_Store = Some 5, t_Start = None, t_StoreFactory = None\<rparr>"

definition ex_default :: template where
  "ex_default = ex_template\<lparr>t_Kind := [], t_Formatter := Some (Fmt 2), t_Store := Some 6\<rparr>"

definition ex_env :: template_env where
  "ex_env = \<lparr>run_Customize = (\<lambda>f s. s), run_Start = (\<lambda>f ctx. None), run_StoreFactory = (\<lambda>f st. st)\<rparr>"

lemma templates_combine_witness:
  "let s = applyTemplates ex_env convert_std (AddTemplate [ex_default, ex_template] ex_collection) ex_pod_schema
   in Store s = Some 5 \<and> format_with (\<lambda>f r. r @ [f]) (Formatter s) [] = [2, 1]"
proof -
  let ?c = "AddTemplate [ex_default, ex_template] ex_collection"
  have "customize_frame ex_env" by (simp add: customize_frame_def ex_env_def)
  from templates_combine [OF this, of ?c ex_pod_schema convert_std "\<lambda>f r. r @ [f]" "[]"]
  have parts: "Store (applyTemplates ex_env convert_std ?c ex_pod_schema) =
      first_some (Store ex_pod_schema # map (template_store ex_env ?c) (templates_for convert_std ?c ex_pod_schema)) \<and>
    format_with (\<lambda>f r. r @ [f]) (Formatter (applyTemplates ex_env convert_std ?c ex_pod_schema)) [] =
      format_with (\<lambda>f r. r @ [f]) (Formatter ex_pod_schema)
        (foldr (\<lambda>t. format_with (\<lambda>f r. r @ [f]) (t_Formatter t)) (templates_for convert_std ?c ex_pod_schema) [])"
    unfolding templates_for_eq [symmetric] by blast
  have ts: "templates_for convert_std ?c ex_pod_schema = [ex_template, ex_default]" by code_simp
  have "Store ex_pod_schema = None" "Formatter ex_pod_schema = None" by code_simp+
  with parts show ?thesis unfolding ts
    by (simp add: Let_def format_with_def template_store_def ex_template_def ex_default_def)
qed

subsection \<open>Contexts of running templates\<close>

definition ctx_inv :: "'c collection \<Rightarrow> bool" where
  "ctx_inv c \<longleftrightarrow>
     mwf (c_running c) \<and> distinct (map snd (c_running c)) \<and>
     set (c_cancelled c) \<inter> set (map snd (c_running c)) = {} \<and>
     set (c_cancelled c) \<union> set (map snd (c_running c)) = {..<c_nextCtx c}"

lemma ctx_inv_New: "ctx_inv (NewCollection base cache)"
  by (simp add: ctx_inv_def NewCollection_def)

lemma start_one_inv:
  assumes "ctx_inv c"
  shows "ctx_inv (start_one E i c)"
proof -
  have new: "c_nextCtx c \<notin> set (c_cancelled c)" "c_nextCtx c \<notin> set (map snd (c_running c))"
    using assms unfolding ctx_inv_def by (metis UnI1 UnI2 lessThan_iff less_irrefl)+
  have "mput i (c_nextCtx c) (c_running c) = c_running c @ [(i, c_nextCtx c)]" if "\<not> mhas (c_running c) i"
    using that by (intro mput_new) (simp add: mhas_keys)
  with assms new show ?thesis
    by (auto simp: start_one_def Let_def ctx_inv_def lessThan_Suc mwf_def mhas_keys split: option.splits)
qed

lemma start_fold_inv: "ctx_inv c \<Longrightarrow> ctx_inv (fold (start_one E) is c)"
  by (induction "is" arbitrary: c) (simp_all add: start_one_inv)

lemma stop_fold:
  "c_running (fold (stop_one schemas) xs c) =
     filter (\<lambda>e. \<not> (\<exists>x \<in> set xs. fst x = fst e \<and> \<not> mhas schemas (fst x))) (c_running c)"
  "c_cancelled (fold (stop_one schemas) xs c) =
     rev (map snd (filter (\<lambda>x. \<not> mhas schemas (fst x)) xs)) @ c_cancelled c"
  "c_nextCtx (fold (stop_one schemas) xs c) = c_nextCtx c"
  by (induction xs arbitrary: c)
    (auto simp: stop_one_def AList.delete_eq intro!: filter_cong)

lemma stop_all:
  "c_running (fold (stop_one schemas) (c_running c) c) = filter (\<lambda>e. mhas schemas (fst e)) (c_running c)"
  by (auto simp: stop_fold intro!: filter_cong)

lemma stop_inv: "ctx_inv c \<Longrightarrow> ctx_inv (fold (stop_one schemas) (c_running c) c)"
proof -
  assume inv: "ctx_inv c"
  let ?r = "c_running c" and ?c = "fold (stop_one schemas) (c_running c) c"
  have part: "snd ` set ?r = snd ` {e \<in> set ?r. mhas schemas (fst e)} \<union> snd ` {e \<in> set ?r. \<not> mhas schemas (fst e)}"
    by blast
  have "inj_on snd (set ?r)" using inv by (simp add: ctx_inv_def distinct_map)
  then have dis: "snd ` {e \<in> set ?r. mhas schemas (fst e)} \<inter> snd ` {e \<in> set ?r. \<not> mhas schemas (fst e)} = {}"
    unfolding inj_on_def by blast
  show "ctx_inv ?c"
    using inv part dis unfolding ctx_inv_def stop_all stop_fold(2,3) mwf_def
    by (simp add: distinct_map_filter) blast
qed

lemma startStopTemplate_inv: "ctx_inv c \<Longrightarrow> ctx_inv (startStopTemplate E schemas c)"
  by (simp add: startStopTemplate_def Let_def start_fold_inv stop_inv)

text \<open>
  Templates are started and stopped without leaking a context: through every \<open>Reset\<close>, each context
  ever made is either running under exactly one schema id or has been cancelled, never both, and
  afterwards nothing runs for a schema that is gone. It holds of a new collection.
\<close>

theorem reset_keeps_contexts:
  assumes "ctx_inv c" and "Reset L E C schemas c = (called, c')"
  shows "ctx_inv c' \<and> (\<forall>i. mhas (c_running c') i \<longrightarrow> mhas schemas i) \<and> ctx_inv (NewCollection base (c_cache c))"
proof -
  let ?s = "map (\<lambda>(k, s). (k, applyTemplates E C c s)) schemas"
  have c': "c_running c' = c_running (startStopTemplate E ?s c)" "c_cancelled c' = c_cancelled (startStopTemplate E ?s c)"
    "c_nextCtx c' = c_nextCtx (startStopTemplate E ?s c)"
    using assms(2) by (auto simp: Reset_def Let_def)
  have "mhas ?s i = mhas schemas i" for i by (auto simp: mhas_keys rev_image_eqI split_beta)
  then have "mhas (c_running c') i \<longrightarrow> mhas schemas i" for i
    by (auto simp: c' startStopTemplate_def Let_def stop_all mhas_keys)
  moreover have "ctx_inv c' \<longleftrightarrow> ctx_inv (startStopTemplate E ?s c)" by (simp only: ctx_inv_def c')
  ultimately show ?thesis using startStopTemplate_inv [OF assms(1)] by (simp add: ctx_inv_New)
qed

definition ex_starting :: "(string, api_schemas) gomap collection" where
  "ex_starting = AddTemplate [ex_template\<lparr>t_Kind := [], t_ID := ''pod'', t_Start := Some 9\<rparr>] (NewCollection EmptyAPISchemas [])"

lemma reset_keeps_contexts_witness:
  "\<exists>c1 c2. snd (Reset map_lru ex_env convert_std [(''pod'', ex_pod_schema)] ex_starting) = c1 \<and>
     snd (Reset map_lru ex_env convert_std [] c1) = c2 \<and> c_running c1 = [(''pod'', 0)] \<and> \<not> mhas (c_running c2) ''pod'' \<and>
     ctx_inv c2"
proof -
  define c1 where "c1 = snd (Reset map_lru ex_env convert_std [(''pod'', ex_pod_schema)] ex_starting)"
  have "ctx_inv ex_starting"
    using ctx_inv_New [of EmptyAPISchemas "[]"] by (simp add: ex_starting_def AddTemplate_def ctx_inv_def)
  then have "ctx_inv c1" unfolding c1_def using reset_keeps_contexts prod.collapse by metis
  moreover have "c_running c1 = [(''pod'', 0)]" unfolding c1_def by code_simp
  ultimately show ?thesis
    using reset_keeps_contexts [of c1 map_lru ex_env convert_std "[]"] c1_def
    by (metis mhas_def prod.collapse map_of.simps(1))
qed

subsection \<open>Lookups after a reset\<close>

lemma fold_index_new:
  assumes "\<And>s m. f s m = (if P s then mput (g s) (ID s) m else m)"
    and "\<forall>(k', s') \<in> set xs. P s' \<and> g s' = x \<longrightarrow> ID s' = i"
    and "mget m x = Some i \<or> (\<exists>(k, s) \<in> set xs. P s \<and> g s = x)"
  shows "mget (fold (\<lambda>(_, s). f s) xs m) x = Some i"
  using assms(2,3)
proof (induction xs arbitrary: m)
  case Nil
  then show ?case by simp
next
  case (Cons e xs)
  obtain k s where e: "e = (k, s)" by (cases e)
  have "mget (f s m) x = Some i \<or> (\<exists>(k, s) \<in> set xs. P s \<and> g s = x)"
    using Cons.prems e by (auto simp: assms(1) mget_mput)
  with Cons.IH [of "f s m"] Cons.prems(1) e show ?case by simp
qed

lemma fold_frame: "(\<And>x c. g (f x c) = g c) \<Longrightarrow> g (fold f xs c) = g c"
  by (induction xs arbitrary: c) simp_all

lemma startStop_notifiers: "c_notifiers (startStopTemplate E schemas c) = c_notifiers c"
  unfolding startStopTemplate_def Let_def
  by (subst fold_frame [where g = c_notifiers], simp add: stop_one_def,
      rule fold_frame, simp add: start_one_def Let_def split: option.splits)

lemma Reset_fields:
  assumes "Reset L E C schemas c = (called, c')"
  shows "c_byGVR c' = fold (\<lambda>(_, s). index_gvr C s) schemas []"
    and "c_byGVK c' = fold (\<lambda>(_, s). index_gvk C s) schemas []"
    and "\<exists>x. c_cache c' = lru_clear L x" and "called = map snd (c_notifiers c)"
    and "c_schemas c' = map (\<lambda>(k, s). (k, applyTemplates E C c s)) schemas"
  using assms by (auto simp: Reset_def Let_def startStop_notifiers)

text \<open>
  After \<open>Reset\<close> the collection speaks about the new schemas only. A schema whose resource (kind)
  no other id shares is found by it with \<open>ByGVR\<close> (\<open>ByGVK\<close>); every subject's schemas are computed anew,
  whatever was cached; and every registered notifier is called.
\<close>

theorem reset_then_lookup:
  assumes "lru_ok L" and "Reset L E C schemas c = (called, c')" and "(k, s) \<in> set schemas"
    and "\<forall>(k', s') \<in> set schemas. GVR C s' = GVR C s \<or> GVK C s' = GVK C s \<longrightarrow> ID s' = ID s"
  shows "(Resource C s \<noteq> [] \<longrightarrow> ByGVR guess c' (GVR C s) = ID s) \<and>
    (Kind C s \<noteq> [] \<longrightarrow> ByGVK c' (GVK C s) = ID s) \<and>
    Collection_Schemas L add builtin C access c' =
      (case schemasForSubject add builtin C access c' of
         (Inl err, c2) \<Rightarrow> (Inl err, c2)
       | (Inr r, c2) \<Rightarrow> (Inr r, c2\<lparr>c_cache := lru_add L (c_cache c2) (as_ID access) r\<rparr>)) \<and>
    set called = snd ` set (c_notifiers c)"
proof -
  note f = Reset_fields [OF assms(2)]
  have "mget (c_byGVR c') (GVR C s) = Some (ID s)" if "Resource C s \<noteq> []"
    unfolding f(1) using assms(3,4) that
    by (intro fold_index_new [where P = "\<lambda>s. gvr_Resource (GVR C s) \<noteq> []" and g = "GVR C"])
      (auto simp: index_gvr_def GVR_def)
  moreover have "mget (c_byGVK c') (GVK C s) = Some (ID s)" if "Kind C s \<noteq> []"
    unfolding f(2) using assms(3,4) that
    by (intro fold_index_new [where P = "\<lambda>s. gvk_Kind (GVK C s) \<noteq> []" and g = "GVK C"])
      (auto simp: index_gvk_def GVK_def)
  moreover have "lru_get L (c_cache c') (as_ID access) = None"
    using f(3) lru_clear_empty [OF assms(1)] by auto
  ultimately show ?thesis
    using f(4) by (simp add: ByGVR_def ByGVK_def mgetd_def Collection_Schemas_def)
qed

lemma reset_then_lookup_witness:
  "ByGVR id (snd (Reset map_lru ex_env convert_std [(''pod'', ex_pod_schema)] ex_starting))
     \<lparr>gvr_Group = [], gvr_Version = ''v1'', gvr_Resource = ''pods''\<rparr> = ''pod''"
proof -
  have "GVR convert_std ex_pod_schema = \<lparr>gvr_Group = [], gvr_Version = ''v1'', gvr_Resource = ''pods''\<rparr>"
    "Resource convert_std ex_pod_schema \<noteq> []" "ID ex_pod_schema = ''pod''" by code_simp+
  moreover have "Resource convert_std ex_pod_schema \<noteq> [] \<longrightarrow>
      ByGVR id (snd (Reset map_lru ex_env convert_std [(''pod'', ex_pod_schema)] ex_starting)) (GVR convert_std ex_pod_schema) =
        ID ex_pod_schema"
    by (rule reset_then_lookup [OF map_lru_ok prod.collapse [symmetric], THEN conjunct1]) auto
  ultimately show ?thesis by simp
qed

subsection \<open>Requests and resets interleaved\<close>

text \<open>
  \<open>Schemas\<close> holds the lock only while \<open>schemasForSubject\<close> runs; the result is added to the cache
  later. The steps of concurrent requests and resets, the results still to be cached being kept
  beside the collection.
\<close>

type_synonym 'c factory_state = "'c collection \<times> (string \<times> api_schemas) list"

inductive factory_step ::
  "('c, api_schemas) lru \<Rightarrow> template_env \<Rightarrow> add_internal \<Rightarrow> api_schemas \<Rightarrow> convert \<Rightarrow>
   'c factory_state \<Rightarrow> 'c factory_state \<Rightarrow> bool"
  for L E add builtin C where
  Compute: "lru_get L (c_cache c) (as_ID access) = None \<Longrightarrow>
      schemasForSubject add builtin C access c = (Inr r, c') \<Longrightarrow>
      factory_step L E add builtin C (c, p) (c', (as_ID access, r) # p)"
| Store_result: "(k, r) \<in> set p \<Longrightarrow>
      factory_step L E add builtin C (c, p) (c\<lparr>c_cache := lru_add L (c_cache c) k r\<rparr>, remove1 (k, r) p)"
| Do_reset: "factory_step L E add builtin C (c, p) (snd (Reset L E C schemas c), p)"

inductive_cases factory_stepE: "factory_step L E add builtin C (c, p) st"

text \<open>What may be in the cache or on its way there: the schemas computed for some access set.\<close>

definition computed ::
  "add_internal \<Rightarrow> api_schemas \<Rightarrow> convert \<Rightarrow> string \<Rightarrow> api_schemas \<Rightarrow> bool" where
  "computed add builtin C k r \<longleftrightarrow>
     (\<exists>access (c :: unit collection) c'. as_ID access = k \<and> schemasForSubject add builtin C access c = (Inr r, c'))"

definition factory_inv ::
  "('c, api_schemas) lru \<Rightarrow> add_internal \<Rightarrow> api_schemas \<Rightarrow> convert \<Rightarrow> 'c factory_state \<Rightarrow> bool" where
  "factory_inv L add builtin C st \<longleftrightarrow>
     (\<forall>(k, r) \<in> set (snd st). computed add builtin C k r) \<and>
     (\<forall>k r. lru_get L (c_cache (fst st)) k = Some r \<longrightarrow> computed add builtin C k r)"

lemma schemasForSubject_cache_irrelevant:
  "schemasForSubject add builtin C access c = (Inr r, c') \<Longrightarrow> computed add builtin C (as_ID access) r"
proof -
  assume "schemasForSubject add builtin C access c = (Inr r, c')"
  then have "fst (schemasForSubject add builtin C access
      ((NewCollection (c_baseSchema c) ())\<lparr>c_schemas := c_schemas c\<rparr>)) = Inr r"
    by (auto simp: schemasForSubject_def NewCollection_def split: sum.splits prod.splits)
  then show ?thesis unfolding computed_def by (metis prod.collapse)
qed

lemma schemasForSubject_cache:
  "schemasForSubject add builtin C access c = (r, c') \<Longrightarrow> c_cache c' = c_cache c"
  by (auto simp: schemasForSubject_def split: sum.splits prod.splits)

lemma factory_step_inv:
  assumes "lru_ok L"
  shows "factory_step L E add builtin C st st' \<Longrightarrow> factory_inv L add builtin C st \<Longrightarrow> factory_inv L add builtin C st'"
proof (induction rule: factory_step.induct)
  case (Compute c access r c' p)
  then show ?case
    using schemasForSubject_cache_irrelevant [OF Compute(2)] schemasForSubject_cache [OF Compute(2)]
    by (auto simp: factory_inv_def)
next
  case (Store_result k r p c)
  then have kr: "computed add builtin C k r" by (auto simp: factory_inv_def)
  have "computed add builtin C k' v" if "lru_get L (lru_add L (c_cache c) k r) k' = Some v" for k' v
    using lru_add_law [OF assms that] kr Store_result.prems by (cases "k' = k") (auto simp: factory_inv_def)
  with Store_result show ?case
    by (auto simp: factory_inv_def dest: set_remove1_subset [THEN subsetD])
next
  case (Do_reset c p schemas)
  have "lru_get L (c_cache (snd (Reset L E C schemas c))) k = None" for k
    using lru_clear_empty [OF assms] Reset_fields(3) prod.collapse by metis
  with Do_reset show ?case by (simp add: factory_inv_def)
qed

text \<open>
  Whatever the interleaving of requests and resets, a cached entry is the result of
  \<open>schemasForSubject\<close> for an access set with that very ID; but it need not be current: between the
  computation and the store of its result a reset can come, and then the cache, just emptied, serves
  the schemas of before the reset. For every computation that succeeds there is such a run, also when
  the reset removed every schema.
\<close>

theorem schemas_cache_race:
  assumes "lru_ok L" and "\<And>c k v. lru_get L (lru_add L c k v) k = Some v"
    and "lru_get L (c_cache c) (as_ID access) = None"
    and "schemasForSubject add builtin C access c = (Inr r, c1)"
    and "factory_inv L add builtin C (c, [])"
  shows "\<exists>c2. (factory_step L E add builtin C)\<^sup>*\<^sup>* (c, []) (c2, []) \<and> c_schemas c2 = [] \<and>
      Collection_Schemas L add builtin C access c2 = (Inr r, c2) \<and> factory_inv L add builtin C (c2, [])"
proof -
  let ?step = "factory_step L E add builtin C"
  define cr where "cr = snd (Reset L E C [] c1)"
  define c2 where "c2 = cr\<lparr>c_cache := lru_add L (c_cache cr) (as_ID access) r\<rparr>"
  have s1: "?step (c, []) (c1, [(as_ID access, r)])" by (rule Compute [OF assms(3,4)])
  have s2: "?step (c1, [(as_ID access, r)]) (cr, [(as_ID access, r)])" unfolding cr_def by (rule Do_reset)
  have s3: "?step (cr, [(as_ID access, r)]) (c2, [])"
    unfolding c2_def using Store_result [of "as_ID access" r "[(as_ID access, r)]"] by simp
  have run: "?step\<^sup>*\<^sup>* (c, []) (c2, [])"
    by (rule rtranclp.rtrancl_into_rtrancl [OF rtranclp.rtrancl_into_rtrancl [OF r_into_rtranclp [of ?step, OF s1] s2] s3])
  have "c_schemas cr = []"
    using Reset_fields(5) [OF prod.collapse [symmetric], of L E C "[]" c1] by (simp add: cr_def)
  moreover have "factory_inv L add builtin C st" if "?step\<^sup>*\<^sup>* (c, []) st" for st
    using that by induction (simp_all add: assms(5) factory_step_inv [OF assms(1)])
  ultimately show ?thesis using run by (intro exI [of _ c2]) (simp add: c2_def Collection_Schemas_def assms(2))
qed

lemma schemas_cache_race_witness:
  "\<exists>c2 r. (factory_step map_lru ex_env add_plain EmptyAPISchemas convert_std)\<^sup>*\<^sup>* (ex_collection, []) (c2, []) \<and>
     c_schemas c2 = [] \<and> Collection_Schemas map_lru add_plain EmptyAPISchemas convert_std ex_set1 c2 = (Inr r, c2) \<and>
     mhas (Schemas r) ''pod''"
proof -
  have "case schemasForSubject add_plain EmptyAPISchemas convert_std ex_set1 ex_collection of
      (Inl _, _) \<Rightarrow> False | (Inr r, _) \<Rightarrow> mhas (Schemas r) ''pod''"
    by code_simp
  then obtain r c1 where r: "schemasForSubject add_plain EmptyAPISchemas convert_std ex_set1 ex_collection = (Inr r, c1)"
    and pod: "mhas (Schemas r) ''pod''" by (auto split: prod.splits sum.splits)
  have "c_cache ex_collection = []" by (simp add: ex_collection_def NewCollection_def)
  then have "lru_get map_lru (c_cache ex_collection) (as_ID ex_set1) = None"
    "factory_inv map_lru add_plain EmptyAPISchemas convert_std (ex_collection, [])"
    by (simp_all add: map_lru_def factory_inv_def)
  from schemas_cache_race [OF map_lru_ok _ this(1) r this(2)] pod show ?thesis
    by (simp add: map_lru_def mget_mput) blast
qed

end
