(* ===== verification/Client_Factory.thy ===== *)
theory Client_Factory
  imports Requests
begin

section \<open>Kubernetes clients: pkg/client/factory.go\<close>

text \<open>
  The factory hands out clients to the Kubernetes API. What distinguishes the clients is the
  configuration they are made from (with or without tables, with or without the watch timeout), whom they
  impersonate, and the resource and namespace they are bound to; a client is the record of these.
  The constructors of client-go do no more than store the configuration here; their failure is not
  modelled.
\<close>

record rest_config =
  cfg_Table :: bool
  cfg_Watch :: bool
  cfg_Impersonate :: "(string \<times> string list \<times> (string, string list) gomap) option"

record factory =
  fa_impersonate :: bool
  fa_tableClientCfg :: rest_config
  fa_tableWatchClientCfg :: rest_config
  fa_clientCfg :: rest_config
  fa_watchClientCfg :: rest_config

record client =
  cl_config :: rest_config
  cl_gvr :: gvr
  cl_Namespace :: string

definition NewFactory :: "bool \<Rightarrow> factory" where
  "NewFactory impersonate =
     (let clientCfg = \<lparr>cfg_Table = False, cfg_Watch = False, cfg_Impersonate = None\<rparr>;
          watchClientCfg = clientCfg\<lparr>cfg_Watch := True\<rparr>
      in \<lparr>fa_impersonate = impersonate, fa_tableClientCfg = clientCfg\<lparr>cfg_Table := True\<rparr>,
          fa_tableWatchClientCfg = watchClientCfg\<lparr>cfg_Table := True\<rparr>,
          fa_clientCfg = clientCfg, fa_watchClientCfg = watchClientCfg\<rparr>)"

text \<open>A request without its \<^verbatim>\<open>http.Request\<close> is a nil pointer dereference.\<close>

definition setupConfig :: "api_request \<Rightarrow> rest_config \<Rightarrow> bool \<Rightarrow> go_err + rest_config" where
  "setupConfig op cfg impersonate =
     (if impersonate then
        (case op_Request op of
           None \<Rightarrow> Inl (Panic ''nil pointer dereference'')
         | Some r \<Rightarrow>
             (case rq_User r of
                None \<Rightarrow> Inl (OtherError ''user not found for impersonation'')
              | Some u \<Rightarrow> Inr (cfg\<lparr>cfg_Impersonate := Some (u_Name u, u_Groups u, u_Extra u)\<rparr>)))
      else Inr cfg)"

definition newDynamicClient :: "api_request \<Rightarrow> rest_config \<Rightarrow> bool \<Rightarrow> go_err + rest_config" where
  "newDynamicClient op cfg impersonate =
     (case setupConfig op cfg impersonate of Inl err \<Rightarrow> Inl err | Inr cfg \<Rightarrow> Inr cfg)"

definition newClient ::
  "convert \<Rightarrow> api_request \<Rightarrow> rest_config \<Rightarrow> 'a schema_scheme \<Rightarrow> string \<Rightarrow> bool \<Rightarrow> go_err + client" where
  "newClient C op cfg s namespace impersonate =
     (case newDynamicClient op cfg impersonate of
        Inl err \<Rightarrow> Inl err
      | Inr cfg \<Rightarrow> Inr \<lparr>cl_config = cfg, cl_gvr = GVR C s, cl_Namespace = namespace\<rparr>)"

definition Client :: "factory \<Rightarrow> convert \<Rightarrow> api_request \<Rightarrow> 'a schema_scheme \<Rightarrow> string \<Rightarrow> go_err + client" where
  "Client p C op s namespace = newClient C op (fa_clientCfg p) s namespace (fa_impersonate p)"

definition AdminClient :: "factory \<Rightarrow> convert \<Rightarrow> api_request \<Rightarrow> 'a schema_scheme \<Rightarrow> string \<Rightarrow> go_err + client" where
  "AdminClient p C op s namespace = newClient C op (fa_clientCfg p) s namespace False"

definition ClientForWatch :: "factory \<Rightarrow> convert \<Rightarrow> api_request \<Rightarrow> 'a schema_scheme \<Rightarrow> string \<Rightarrow> go_err + client" where
  "ClientForWatch p C op s namespace = newClient C op (fa_watchClientCfg p) s namespace (fa_impersonate p)"

definition AdminClientForWatch :: "factory \<Rightarrow> convert \<Rightarrow> api_request \<Rightarrow> 'a schema_scheme \<Rightarrow> string \<Rightarrow> go_err + client" where
  "AdminClientForWatch p C op s namespace = newClient C op (fa_watchClientCfg p) s namespace False"

definition TableClient :: "factory \<Rightarrow> convert \<Rightarrow> api_request \<Rightarrow> 'a schema_scheme \<Rightarrow> string \<Rightarrow> go_err + client" where
  "TableClient p C op s namespace =
     (if Table C s then newClient C op (fa_tableClientCfg p) s namespace (fa_impersonate p)
      else Client p C op s namespace)"

definition TableAdminClient :: "factory \<Rightarrow> convert \<Rightarrow> api_request \<Rightarrow> 'a schema_scheme \<Rightarrow> string \<Rightarrow> go_err + client" where
  "TableAdminClient p C op s namespace =
     (if Table C s then newClient C op (fa_tableClientCfg p) s namespace False
      else AdminClient p C op s namespace)"

definition TableClientForWatch :: "factory \<Rightarrow> convert \<Rightarrow> api_request \<Rightarrow> 'a schema_scheme \<Rightarrow> string \<Rightarrow> go_err + client" where
  "TableClientForWatch p C op s namespace =
     (if Table C s then newClient C op (fa_tableWatchClientCfg p) s namespace (fa_impersonate p)
      else ClientForWatch p C op s namespace)"

definition TableAdminClientForWatch :: "factory \<Rightarrow> convert \<Rightarrow> api_request \<Rightarrow> 'a schema_scheme \<Rightarrow> string \<Rightarrow> go_err + client" where
  "TableAdminClientForWatch p C op s namespace =
     (if Table C s then newClient C op (fa_tableWatchClientCfg p) s namespace False
      else AdminClientForWatch p C op s namespace)"

text \<open>The clients that are not bound to a resource are the configurations they are made from.\<close>

definition IsImpersonating :: "factory \<Rightarrow> bool" where
  "IsImpersonating p = fa_impersonate p"

definition K8sInterface :: "factory \<Rightarrow> api_request \<Rightarrow> go_err + rest_config" where
  "K8sInterface p op =
     (case setupConfig op (fa_clientCfg p) (fa_impersonate p) of Inl err \<Rightarrow> Inl err | Inr cfg \<Rightarrow> Inr cfg)"

definition AdminK8sInterface :: "factory \<Rightarrow> go_err + rest_config" where
  "AdminK8sInterface p = Inr (fa_clientCfg p)"

definition DynamicClient :: "factory \<Rightarrow> api_request \<Rightarrow> go_err + rest_config" where
  "DynamicClient p op = newDynamicClient op (fa_clientCfg p) (fa_impersonate p)"

text \<open>The factory as a server makes it: the metadata and the dynamic client of the server itself may fail.\<close>

definition client_NewFactory :: "go_err option \<Rightarrow> go_err option \<Rightarrow> bool \<Rightarrow> go_err + factory" where
  "client_NewFactory md dyn impersonate =
     (case md of
        Some err \<Rightarrow> Inl err
      | None \<Rightarrow> (case dyn of Some err \<Rightarrow> Inl err | None \<Rightarrow> Inr (NewFactory impersonate)))"

text \<open>The round tripper of the table clients.\<close>

definition table_accept :: string where
  "table_accept = ''application/json;as=Table;v=v1;g=meta.k8s.io,application/json;as=Table;v=v1beta1;g=meta.k8s.io''"

definition table_values :: "(string, string) gomap" where
  "table_values = [(''includeObject'', ''Object'')]"

definition addQuery_RoundTrip :: "(string, string) gomap \<Rightarrow> http_request \<Rightarrow> http_request" where
  "addQuery_RoundTrip vs r =
     r\<lparr>rq_Query := fold (\<lambda>(k, v) q. mput k [v] q) vs (rq_Query r), rq_Header := header_set ''Accept'' table_accept (rq_Header r)\<rparr>"

lemma table_request:
  "values_get (rq_Query (addQuery_RoundTrip table_values r)) ''includeObject'' = ''Object''"
  "k \<noteq> ''includeObject'' \<Longrightarrow> mget (rq_Query (addQuery_RoundTrip table_values r)) k = mget (rq_Query r) k"
  "header_get (rq_Header (addQuery_RoundTrip table_values r)) ''Accept'' = table_accept"
  by (simp_all add: addQuery_RoundTrip_def table_values_def values_get_def mget_mput header_get_set)

lemmas client_defs = Client_def AdminClient_def ClientForWatch_def AdminClientForWatch_def
  TableClient_def TableAdminClient_def TableClientForWatch_def TableAdminClientForWatch_def

text \<open>Whom a client acts for, and what it asks for.\<close>

definition acts_as_user :: "api_request \<Rightarrow> client \<Rightarrow> bool" where
  "acts_as_user op c \<longleftrightarrow>
     (case op_Request op of None \<Rightarrow> False
      | Some r \<Rightarrow> (case rq_User r of None \<Rightarrow> False
          | Some u \<Rightarrow> cfg_Impersonate (cl_config c) = Some (u_Name u, u_Groups u, u_Extra u)))"

text \<open>Whom the clients for users act for: the user with impersonation on, nobody in particular, the server itself, without.\<close>

definition acts_for :: "factory \<Rightarrow> api_request \<Rightarrow> client \<Rightarrow> bool" where
  "acts_for p op c \<longleftrightarrow> (if fa_impersonate p then acts_as_user op c else cfg_Impersonate (cl_config c) = None)"

lemma fa_impersonate_NewFactory [simp]: "fa_impersonate (NewFactory imp) = imp"
  by (simp add: NewFactory_def Let_def)

lemma newClient_cases:
  "newClient C op cfg s ns imp = Inr c \<Longrightarrow>
     cl_Namespace c = ns \<and> cl_gvr c = GVR C s \<and> cfg_Table (cl_config c) = cfg_Table cfg \<and>
     cfg_Watch (cl_config c) = cfg_Watch cfg \<and>
     (imp \<longrightarrow> acts_as_user op c) \<and> (\<not> imp \<longrightarrow> cfg_Impersonate (cl_config c) = cfg_Impersonate cfg)"
  by (auto simp: newClient_def newDynamicClient_def setupConfig_def acts_as_user_def
      split: if_splits option.splits sum.splits)

text \<open>
  With impersonation on, the clients for users act as the authenticated user of the request and
  there is none without such a user; the admin clients never impersonate and always exist. Every
  client is bound to the schema's resource and the namespace asked for, and answers with tables exactly
  for schemas shown as tables.
\<close>

theorem clients_impersonate:
  assumes "client \<in> {TableClient, TableClientForWatch}" and "admin \<in> {TableAdminClient, TableAdminClientForWatch}"
  shows "(\<forall>c. client (NewFactory True) C op s ns = Inr c \<longrightarrow>
            acts_as_user op c \<and> cl_Namespace c = ns \<and> cl_gvr c = GVR C s \<and> cfg_Table (cl_config c) = Table C s) \<and>
    ((\<exists>c. client (NewFactory True) C op s ns = Inr c) \<longleftrightarrow> (\<exists>r u. op_Request op = Some r \<and> rq_User r = Some u)) \<and>
    (\<exists>c. admin (NewFactory True) C op s ns = Inr c \<and> cfg_Impersonate (cl_config c) = None \<and>
       cl_Namespace c = ns \<and> cl_gvr c = GVR C s \<and> cfg_Table (cl_config c) = Table C s)"
proof -
  have "acts_as_user op c \<and> cl_Namespace c = ns \<and> cl_gvr c = GVR C s \<and> cfg_Table (cl_config c) = Table C s"
    if "client (NewFactory True) C op s ns = Inr c" for c
    using assms(1) that
    by (cases "Table C s") (auto simp: client_defs NewFactory_def Let_def dest!: newClient_cases)
  moreover have "(\<exists>c. client (NewFactory True) C op s ns = Inr c) \<longleftrightarrow>
      (\<exists>r u. op_Request op = Some r \<and> rq_User r = Some u)"
    using assms(1)
    by (cases "Table C s"; cases "op_Request op")
      (auto simp: client_defs NewFactory_def Let_def newClient_def newDynamicClient_def setupConfig_def
        split: option.splits)
  moreover have "\<exists>c. admin (NewFactory True) C op s ns = Inr c \<and> cfg_Impersonate (cl_config c) = None \<and>
       cl_Namespace c = ns \<and> cl_gvr c = GVR C s \<and> cfg_Table (cl_config c) = Table C s"
    using assms(2)
    by (cases "Table C s") (auto simp: client_defs NewFactory_def Let_def newClient_def newDynamicClient_def setupConfig_def)
  ultimately show ?thesis by blast
qed

lemma clients_impersonate_witness:
  "\<nexists>c. TableClient (NewFactory True) convert_std (empty_request\<lparr>op_Request := Some new_request\<rparr>) empty_schema ''a'' = Inr c"
proof -
  let ?op = "empty_request\<lparr>op_Request := Some new_request\<rparr>"
  have "(\<exists>c. TableClient (NewFactory True) convert_std ?op empty_schema ''a'' = Inr c) \<longleftrightarrow>
      (\<exists>r u. op_Request ?op = Some r \<and> rq_User r = Some u)"
    by (rule clients_impersonate [THEN conjunct2, THEN conjunct1, of _ TableAdminClient]) simp_all
  then show ?thesis by (simp add: new_request_def)
qed

end
