(* ===== verification/Proxy_Store.thy ===== *)
theory Proxy_Store
  imports Client_Factory
begin

section \<open>The store over the Kubernetes API: pkg/stores/proxy\<close>

text \<open>
  The store that serves discovered types: it picks a client, decodes the options of the request, calls
  the Kubernetes API and turns what comes back into API objects (\<open>proxy_store.go\<close>); \<open>errorStore\<close>
  translates Kubernetes errors, \<open>WatchRefresh\<close> ends a watch when the user's access changes.

  The Kubernetes API is code outside the repository: the record \<open>k8s\<close> of its calls on a state \<open>'w\<close>.
  A Go call that returns an object and an error returns both here. The functions of schemer's
  \<open>data\<close> package and the accessors of apimachinery are the record \<open>lib\<close>; what the properties need
  of them is \<open>lib_ok\<close>. Maps of JSON values are association lists.
\<close>

subsection \<open>Data\<close>

datatype json = JNull | JBool bool | JNum int | JStr string | JArr "json list" | JObj "(string \<times> json) list"

type_synonym obj = "(string, json) gomap"

text \<open>The payload of an API object: an unstructured object, a JSON value, or another Go value.\<close>

datatype payload = Unstr obj | Value json | Opaque

record lib =
  L_GetValueN :: "obj \<Rightarrow> string list \<Rightarrow> json"
  L_ToString :: "json \<Rightarrow> string"
  L_String :: "obj \<Rightarrow> string list \<Rightarrow> string"
  L_SetNested :: "obj \<Rightarrow> json \<Rightarrow> string list \<Rightarrow> obj"
  L_PutValue :: "obj \<Rightarrow> json \<Rightarrow> string list \<Rightarrow> obj"
  L_EncodeToMap :: "payload option \<Rightarrow> obj option"
  L_GetName :: "obj \<Rightarrow> string"
  L_GetNamespace :: "obj \<Rightarrow> string"
  L_GetResourceVersion :: "obj \<Rightarrow> string"
  L_ToAPIVersionAndKind :: "gvk \<Rightarrow> string \<times> string"
  L_Unmarshal :: "string \<Rightarrow> go_err + obj"
  L_Marshal :: "obj \<Rightarrow> go_err + string"
  L_ErrorText :: "go_err \<Rightarrow> string"

record unstr_list =
  ul_Object :: obj
  ul_Items :: "obj list"
  ul_ResourceVersion :: string
  ul_Continue :: string

datatype watch_obj = WUnstr obj | WStatus string | WOther

record watch_event =
  we_Type :: string
  we_Object :: watch_obj

record watch_opts =
  wo_TimeoutSeconds :: int
  wo_ResourceVersion :: string
  wo_LabelSelector :: string

record watch_request =
  wr_Revision :: string
  wr_ID :: string
  wr_Selector :: string

text \<open>Options are given by the query they are decoded from; the empty query gives the zero options.\<close>

record 'w k8s =
  k_Get :: "client \<Rightarrow> string \<Rightarrow> url_values \<Rightarrow> 'w \<Rightarrow> obj option \<times> go_err option"
  k_List :: "client \<Rightarrow> url_values \<Rightarrow> 'w \<Rightarrow> go_err + unstr_list"
  k_Create :: "client \<Rightarrow> obj \<Rightarrow> url_values \<Rightarrow> 'w \<Rightarrow> (obj option \<times> go_err option) \<times> 'w"
  k_Update :: "client \<Rightarrow> obj \<Rightarrow> url_values \<Rightarrow> 'w \<Rightarrow> (go_err + obj) \<times> 'w"
  k_Patch :: "client \<Rightarrow> string \<Rightarrow> string \<Rightarrow> string \<Rightarrow> url_values \<Rightarrow> 'w \<Rightarrow> (go_err + obj) \<times> 'w"
  k_Delete :: "client \<Rightarrow> string \<Rightarrow> url_values \<Rightarrow> 'w \<Rightarrow> go_err option \<times> 'w"
  k_Watch :: "client \<Rightarrow> watch_opts \<Rightarrow> 'w \<Rightarrow> go_err + watch_event list"
  k_decode :: "string \<Rightarrow> url_values \<Rightarrow> go_err option"

text \<open>The store with its collaborators: the client factory, the conversions, the library, the API.\<close>

record 'w proxy =
  px_factory :: factory
  px_convert :: convert
  px_lib :: lib
  px_k8s :: "'w k8s"
  px_watch_timeout_env :: string

subsection \<open>Objects\<close>

definition Data :: "lib \<Rightarrow> payload api_object \<Rightarrow> obj option" where
  "Data L a = (case obj_Object a of Some (Unstr m) \<Rightarrow> Some m | p \<Rightarrow> L_EncodeToMap L p)"

definition Name :: "lib \<Rightarrow> obj \<Rightarrow> string" where
  "Name L d = L_ToString L (L_GetValueN L d [''metadata'', ''name''])"

definition Namespace :: "lib \<Rightarrow> obj \<Rightarrow> string" where
  "Namespace L d = L_ToString L (L_GetValueN L d [''metadata'', ''namespace''])"

definition or_empty :: "obj option \<Rightarrow> obj" where
  "or_empty m = (case m of None \<Rightarrow> [] | Some m \<Rightarrow> m)"

definition Object_Name :: "lib \<Rightarrow> payload api_object \<Rightarrow> string" where
  "Object_Name L a =
     (case obj_Object a of Some (Unstr m) \<Rightarrow> L_GetName L m | _ \<Rightarrow> Name L (or_empty (Data L a)))"

definition Object_Namespace :: "lib \<Rightarrow> payload api_object \<Rightarrow> string" where
  "Object_Namespace L a =
     (case obj_Object a of Some (Unstr m) \<Rightarrow> L_GetNamespace L m | _ \<Rightarrow> Namespace L (or_empty (Data L a)))"

definition ReservedFields :: "string list" where
  "ReservedFields = [''id'', ''type'', ''links'', ''actions'']"

definition from_underscore_step :: "string \<Rightarrow> obj \<Rightarrow> obj" where
  "from_underscore_step k m =
     (let v = mget m (''_'' @ k); m' = mdel k (mdel (''_'' @ k) m)
      in case v of None \<Rightarrow> m' | Some v \<Rightarrow> mput k v m')"

definition moveFromUnderscore :: "obj \<Rightarrow> obj" where
  "moveFromUnderscore m = fold from_underscore_step ReservedFields m"

definition to_underscore_step :: "string \<Rightarrow> obj \<Rightarrow> obj" where
  "to_underscore_step k m =
     (case mget m k of None \<Rightarrow> m | Some v \<Rightarrow> mput (''_'' @ k) v (mdel k m))"

definition moveToUnderscore :: "obj \<Rightarrow> obj" where
  "moveToUnderscore m = fold to_underscore_step ReservedFields m"

text \<open>A table answer, its rows, and the objects in the rows.\<close>

definition is_table :: "obj \<Rightarrow> bool" where
  "is_table m \<longleftrightarrow> \<not> (mget m ''kind'' \<noteq> Some (JStr ''Table'') \<or>
     (mget m ''apiVersion'' \<noteq> Some (JStr ''meta.k8s.io/v1'') \<and>
      mget m ''apiVersion'' \<noteq> Some (JStr ''meta.k8s.io/v1beta1'')))"

definition row_objects :: "lib \<Rightarrow> json \<Rightarrow> obj list" where
  "row_objects L row =
     (case row of
        JObj m \<Rightarrow>
          (let cells = mgetd JNull m ''cells'' in
           case mget m ''object'' of
             Some (JObj object) \<Rightarrow> [L_PutValue L object cells [''metadata'', ''fields'']]
           | _ \<Rightarrow> [])
      | _ \<Rightarrow> [])"

definition tableToObjects :: "lib \<Rightarrow> obj \<Rightarrow> obj list" where
  "tableToObjects L m =
     concat (map (row_objects L) (case mget m ''rows'' of Some (JArr rows) \<Rightarrow> rows | _ \<Rightarrow> []))"

definition rowToObject :: "lib \<Rightarrow> obj option \<Rightarrow> obj option" where
  "rowToObject L m =
     (case m of
        None \<Rightarrow> None
      | Some m \<Rightarrow>
          if \<not> is_table m then Some m
          else (case tableToObjects L m of [item] \<Rightarrow> Some item | _ \<Rightarrow> Some m))"

definition tableToList :: "lib \<Rightarrow> unstr_list \<Rightarrow> unstr_list" where
  "tableToList L l = (if \<not> is_table (ul_Object l) then l else l\<lparr>ul_Items := tableToObjects L (ul_Object l)\<rparr>)"

definition toAPI :: "lib \<Rightarrow> 'a schema_scheme \<Rightarrow> obj option \<Rightarrow> payload api_object" where
  "toAPI L s m =
     (case m of
        None \<Rightarrow> empty_object
      | Some m \<Rightarrow>
          (let m = moveToUnderscore m; i = L_GetName L m; ns = L_GetNamespace L m
           in \<lparr>obj_Type = ID s, obj_ID = (if ns \<noteq> [] then sprintf ''%s/%s'' [ns, i] else i),
               obj_Object = Some (Unstr m)\<rparr>))"

subsection \<open>Reading\<close>

definition request_query :: "api_request \<Rightarrow> go_err + url_values" where
  "request_query op =
     (case op_Request op of None \<Rightarrow> Inl (Panic ''nil pointer dereference'') | Some r \<Rightarrow> Inr (rq_Query r))"

text \<open>\<open>decodeParams\<close>: the query itself stands for the options decoded from it.\<close>

definition decodeParams :: "'w proxy \<Rightarrow> string \<Rightarrow> api_request \<Rightarrow> go_err + url_values" where
  "decodeParams px kind op =
     (case request_query op of
        Inl err \<Rightarrow> Inl err
      | Inr q \<Rightarrow> (case k_decode (px_k8s px) kind q of Some err \<Rightarrow> Inl err | None \<Rightarrow> Inr q))"

definition table_client :: "'w proxy \<Rightarrow> api_request \<Rightarrow> 'a schema_scheme \<Rightarrow> string \<Rightarrow> go_err + client" where
  "table_client px op s ns = TableClient (px_factory px) (px_convert px) op s ns"

definition proxy_byID ::
  "'w proxy \<Rightarrow> 'w \<Rightarrow> api_request \<Rightarrow> 'a schema_scheme \<Rightarrow> string \<Rightarrow> string \<Rightarrow> obj option \<times> go_err option" where
  "proxy_byID px w op s ns i =
     (case table_client px op s ns of
        Inl err \<Rightarrow> (None, Some err)
      | Inr cl \<Rightarrow>
          (case decodeParams px ''GetOptions'' op of
             Inl err \<Rightarrow> (None, Some err)
           | Inr opts \<Rightarrow>
               (case k_Get (px_k8s px) cl i opts w of (m, err) \<Rightarrow> (rowToObject (px_lib px) m, err))))"

definition proxy_ByID ::
  "'w proxy \<Rightarrow> 'w \<Rightarrow> api_request \<Rightarrow> 'a schema_scheme \<Rightarrow> string \<Rightarrow> payload api_object \<times> go_err option" where
  "proxy_ByID px w op s i =
     (case proxy_byID px w op s (op_Namespace op) i of (m, err) \<Rightarrow> (toAPI (px_lib px) s m, err))"

text \<open>A query that does not decode gives the empty list, without an error.\<close>

definition list_with ::
  "'w proxy \<Rightarrow> 'w \<Rightarrow> api_request \<Rightarrow> 'a schema_scheme \<Rightarrow> client \<Rightarrow> go_err + payload api_object_list" where
  "list_with px w op s cl =
     (case request_query op of
        Inl err \<Rightarrow> Inl err
      | Inr q \<Rightarrow>
          (case decodeParams px ''ListOptions'' op of
             Inl _ \<Rightarrow> Inr empty_list
           | Inr opts \<Rightarrow>
               (case k_List (px_k8s px) cl opts w of
                  Inl err \<Rightarrow> Inl err
                | Inr l \<Rightarrow>
                    let l = tableToList (px_lib px) l in
                    Inr \<lparr>list_Revision = ul_ResourceVersion l, list_Continue = ul_Continue l,
                         list_Objects = map (\<lambda>m. toAPI (px_lib px) s (Some m)) (ul_Items l)\<rparr>)))"

definition proxy_List ::
  "'w proxy \<Rightarrow> 'w \<Rightarrow> api_request \<Rightarrow> 'a schema_scheme \<Rightarrow> go_err + payload api_object_list" where
  "proxy_List px w op s =
     (case table_client px op s (op_Namespace op) of
        Inl err \<Rightarrow> Inl err
      | Inr cl \<Rightarrow> list_with px w op s cl)"

definition ByNames ::
  "'w proxy \<Rightarrow> 'w \<Rightarrow> api_request \<Rightarrow> 'a schema_scheme \<Rightarrow> string list \<Rightarrow> go_err + payload api_object_list" where
  "ByNames px w op s names =
     (if op_Namespace op = ''*'' then Inr empty_list
      else (case TableAdminClient (px_factory px) (px_convert px) op s (op_Namespace op) of
          Inl err \<Rightarrow> Inl err
        | Inr adminClient \<Rightarrow>
            (case list_with px w op s adminClient of
               Inl err \<Rightarrow> Inl err
             | Inr objs \<Rightarrow>
                 Inr (objs\<lparr>list_Objects :=
                   filter (\<lambda>x. Object_Name (px_lib px) x \<in> set names) (list_Objects objs)\<rparr>))))"

subsection \<open>Watching\<close>

text \<open>The events a channel delivers until it is closed, in order.\<close>

definition error_event :: "go_err \<Rightarrow> payload api_event" where
  "error_event err = empty_event\<lparr>ev_Name := ''resource.error'', ev_Error := Some err\<rparr>"

definition toAPIEvent :: "lib \<Rightarrow> 'a schema_scheme \<Rightarrow> string \<Rightarrow> watch_obj \<Rightarrow> payload api_event" where
  "toAPIEvent L s et x =
     (let nm = (if et = ''DELETED'' then RemoveAPIEvent else if et = ''ADDED'' then CreateAPIEvent else ChangeAPIEvent)
      in case x of
           WUnstr m \<Rightarrow>
             (let m' = (case rowToObject L (Some m) of None \<Rightarrow> m | Some m' \<Rightarrow> m')
              in empty_event\<lparr>ev_Name := nm, ev_Object := toAPI L s (Some m'),
                   ev_Revision := L_GetResourceVersion L (moveToUnderscore m')\<rparr>)
         | _ \<Rightarrow> empty_event\<lparr>ev_Name := nm, ev_Object := \<lparr>obj_Type = ID s, obj_ID = [], obj_Object = Some Opaque\<rparr>\<rparr>)"

definition watch_timeout :: "string \<Rightarrow> int" where
  "watch_timeout setting =
     (if setting \<noteq> [] then (case atoi setting of None \<Rightarrow> 60 * 30 | Some n \<Rightarrow> n) else 60 * 30)"

definition listAndWatch ::
  "'w proxy \<Rightarrow> 'w \<Rightarrow> 'a schema_scheme \<Rightarrow> client \<Rightarrow> watch_request \<Rightarrow> payload api_event list" where
  "listAndWatch px w s cl wr =
     (let rev = (if wr_Revision wr = ''-1'' \<or> wr_Revision wr = ''0'' then [] else wr_Revision wr)
      in case k_Watch (px_k8s px) cl
           \<lparr>wo_TimeoutSeconds = watch_timeout (px_watch_timeout_env px), wo_ResourceVersion = rev,
            wo_LabelSelector = wr_Selector wr\<rparr> w of
         Inl err \<Rightarrow> [error_event (OtherError (sprintf ''stopping watch for %s: %s'' [ID s, L_ErrorText (px_lib px) err]))]
       | Inr events \<Rightarrow>
           concat (map (\<lambda>e.
             if we_Type e = ''ERROR'' then
               (case we_Object e of
                  WStatus message \<Rightarrow> [error_event (OtherError (''event watch error: '' @ message))]
                | _ \<Rightarrow> [])
             else [toAPIEvent (px_lib px) s (we_Type e) (we_Object e)]) events))"

definition WatchNames ::
  "'w proxy \<Rightarrow> 'w \<Rightarrow> api_request \<Rightarrow> 'a schema_scheme \<Rightarrow> watch_request \<Rightarrow> string list
   \<Rightarrow> go_err + payload api_event list" where
  "WatchNames px w op s wr names =
     (case TableAdminClientForWatch (px_factory px) (px_convert px) op s (op_Namespace op) of
        Inl err \<Rightarrow> Inl err
      | Inr adminClient \<Rightarrow>
          Inr (filter (\<lambda>e. ev_Error e = None \<and> Object_Name (px_lib px) (ev_Object e) \<in> set names)
            (listAndWatch px w s adminClient wr)))"

definition proxy_Watch ::
  "'w proxy \<Rightarrow> 'w \<Rightarrow> api_request \<Rightarrow> 'a schema_scheme \<Rightarrow> watch_request \<Rightarrow> go_err + payload api_event list" where
  "proxy_Watch px w op s wr =
     (case TableClientForWatch (px_factory px) (px_convert px) op s (op_Namespace op) of
        Inl err \<Rightarrow> Inl err
      | Inr cl \<Rightarrow> Inr (listAndWatch px w s cl wr))"

subsection \<open>Writing\<close>

text \<open>
  What \<open>Create\<close> sends: the defaults filled in, kind and version of the schema, the reserved fields
  restored. Taking the first byte of an empty schema id is a panic.
\<close>

definition create_input ::
  "'w proxy \<Rightarrow> api_request \<Rightarrow> 'a schema_scheme \<Rightarrow> payload api_object \<Rightarrow> go_err + string \<times> obj" where
  "create_input px op s params =
     (let L = px_lib px;
          input = or_empty (Data L params);
          nm = Name L input;
          ns = Namespace L input;
          generate = (nm = [] \<and> L_String L input [''metadata'', ''generateName''] = [])
      in if generate \<and> ID s = [] then Inl (Panic ''slice bounds out of range'')
         else
           let input = (if generate
                 then L_SetNested L input (JStr (take 1 (ID s) @ ''-'')) [''metadata'', ''generatedName'']
                 else input);
               (ns, input) = (if ns = [] \<and> op_Namespace op \<noteq> []
                 then (op_Namespace op, L_SetNested L input (JStr (op_Namespace op)) [''metadata'', ''namespace''])
                 else (ns, input));
               (apiVersion, kind) = L_ToAPIVersionAndKind L (GVK (px_convert px) s);
               input = mput ''kind'' (JStr kind) (mput ''apiVersion'' (JStr apiVersion) input)
           in Inr (ns, input))"

definition proxy_Create ::
  "'w proxy \<Rightarrow> 'w \<Rightarrow> api_request \<Rightarrow> 'a schema_scheme \<Rightarrow> payload api_object
   \<Rightarrow> (payload api_object \<times> go_err option) \<times> 'w" where
  "proxy_Create px w op s params =
     (case create_input px op s params of
        Inl err \<Rightarrow> ((empty_object, Some err), w)
      | Inr (ns, input) \<Rightarrow>
          (case table_client px op s ns of
             Inl err \<Rightarrow> ((empty_object, Some err), w)
           | Inr cl \<Rightarrow>
               (case decodeParams px ''CreateOptions'' op of
                  Inl err \<Rightarrow> ((empty_object, Some err), w)
                | Inr opts \<Rightarrow>
                    (case k_Create (px_k8s px) cl (moveFromUnderscore input) opts w of
                       ((resp, err), w') \<Rightarrow>
                         ((toAPI (px_lib px) s (rowToObject (px_lib px) resp), err), w')))))"

definition StrategicMergePatchType :: string where
  "StrategicMergePatchType = ''application/strategic-merge-patch+json''"

definition JSONPatchType :: string where
  "JSONPatchType = ''application/json-patch+json''"

text \<open>
  The patch branch of \<open>Update\<close>: the first 2 MiB of the body, whose reading may fail. A table in the
  answer is not unpacked.
\<close>

definition proxy_Patch ::
  "'w proxy \<Rightarrow> 'w \<Rightarrow> api_request \<Rightarrow> 'a schema_scheme \<Rightarrow> client \<Rightarrow> (go_err + string) \<Rightarrow> string
   \<Rightarrow> (payload api_object \<times> go_err option) \<times> 'w" where
  "proxy_Patch px w op s cl body i =
     (case body of
        Inl err \<Rightarrow> ((empty_object, Some err), w)
      | Inr all \<Rightarrow>
          (case op_Request op of
             None \<Rightarrow> ((empty_object, Some (Panic ''nil pointer dereference'')), w)
           | Some r \<Rightarrow>
               let bytes = take (2 * 2 ^ 20) all;
                   pType = (if header_get (rq_Header r) ''content-type'' = JSONPatchType
                            then JSONPatchType else StrategicMergePatchType)
               in (case decodeParams px ''PatchOptions'' op of
                     Inl err \<Rightarrow> ((empty_object, Some err), w)
                   | Inr opts \<Rightarrow>
                       (case (if pType = StrategicMergePatchType
                              then (case L_Unmarshal (px_lib px) bytes of
                                      Inl err \<Rightarrow> Inl err
                                    | Inr m \<Rightarrow> L_Marshal (px_lib px) (moveFromUnderscore m))
                              else Inr bytes) of
                          Inl err \<Rightarrow> ((empty_object, Some err), w)
                        | Inr bytes \<Rightarrow>
                            (case k_Patch (px_k8s px) cl i pType bytes opts w of
                               (Inl err, w') \<Rightarrow> ((empty_object, Some err), w')
                             | (Inr resp, w') \<Rightarrow> ((toAPI (px_lib px) s (Some resp), None), w'))))))"

text \<open>The options of an update are decoded and then left out: the call gets the zero options.\<close>

definition proxy_Update ::
  "'w proxy \<Rightarrow> 'w \<Rightarrow> api_request \<Rightarrow> 'a schema_scheme \<Rightarrow> payload api_object \<Rightarrow> (go_err + string) \<Rightarrow> string
   \<Rightarrow> (payload api_object \<times> go_err option) \<times> 'w" where
  "proxy_Update px w op s params body i =
     (let input = or_empty (Data (px_lib px) params); ns = Namespace (px_lib px) input in
      case table_client px op s ns of
        Inl err \<Rightarrow> ((empty_object, Some err), w)
      | Inr cl \<Rightarrow>
          if op_Method op = MethodPatch then proxy_Patch px w op s cl body i
          else if L_String (px_lib px) input [''metadata'', ''resourceVersion''] = []
          then ((empty_object, Some (OtherError ''metadata.resourceVersion is required for update'')), w)
          else (case decodeParams px ''UpdateOptions'' op of
              Inl err \<Rightarrow> ((empty_object, Some err), w)
            | Inr opts \<Rightarrow>
                (case k_Update (px_k8s px) cl (moveFromUnderscore input) [] w of
                   (Inl err, w') \<Rightarrow> ((empty_object, Some err), w')
                 | (Inr resp, w') \<Rightarrow>
                     ((toAPI (px_lib px) s (rowToObject (px_lib px) (Some resp)), None), w'))))"

definition proxy_Delete ::
  "'w proxy \<Rightarrow> 'w \<Rightarrow> api_request \<Rightarrow> 'a schema_scheme \<Rightarrow> string \<Rightarrow> (payload api_object \<times> go_err option) \<times> 'w" where
  "proxy_Delete px w op s i =
     (case request_query op of
        Inl err \<Rightarrow> ((empty_object, Some err), w)
      | Inr _ \<Rightarrow>
          (case decodeParams px ''DeleteOptions'' op of
             Inl _ \<Rightarrow> ((empty_object, None), w)
           | Inr opts \<Rightarrow>
               (case table_client px op s (op_Namespace op) of
                  Inl err \<Rightarrow> ((empty_object, Some err), w)
                | Inr cl \<Rightarrow>
                    (case k_Delete (px_k8s px) cl i opts w of
                       (Some err, w') \<Rightarrow> ((empty_object, Some err), w')
                     | (None, w') \<Rightarrow>
                         (case proxy_byID px w' op s (op_Namespace op) i of
                            (_, Some _) \<Rightarrow> ((empty_object, Some (CodeError (MkCode 204 []))), w')
                          | (m, None) \<Rightarrow> ((toAPI (px_lib px) s m, None), w'))))))"

subsection \<open>error\_wrapper.go, watch\_refresh.go\<close>

definition translateError :: "go_err option \<Rightarrow> go_err option" where
  "translateError err =
     (case err of
        Some (StatusError code reason message) \<Rightarrow> Some (NewAPIError (MkCode code reason) message)
      | _ \<Rightarrow> err)"

text \<open>Every method of \<open>errorStore\<close> returns the data of the store below with the error translated.\<close>

definition errorStore_wrap :: "'d \<times> go_err option \<Rightarrow> 'd \<times> go_err option" where
  "errorStore_wrap r = (fst r, translateError (snd r))"

text \<open>
  The polling goroutine of \<open>WatchRefresh\<close> over the access set ids it sees at its ticks: whether it
  cancels the watch, and after how many ticks.
\<close>

fun refresh_loop :: "string \<Rightarrow> string list \<Rightarrow> nat option" where
  "refresh_loop asID [] = None"
| "refresh_loop asID (newID # rest) =
     (if asID \<noteq> newID then Some 0 else map_option Suc (refresh_loop asID rest))"

section \<open>What the store keeps and loses\<close>

subsection \<open>Reserved fields\<close>

lemma to_underscore_fold:
  "(\<And>r. r \<in> set ks \<Longrightarrow> ''_'' @ r \<notin> set ks) \<Longrightarrow> distinct ks \<Longrightarrow>
   mget (fold to_underscore_step ks m) k =
     (if k \<in> set ks then None
      else if k \<noteq> [] \<and> hd k = CHR ''_'' \<and> tl k \<in> set ks \<and> mget m (tl k) \<noteq> None then mget m (tl k) else mget m k)"
proof (induction ks arbitrary: m)
  case Nil
  then show ?case by simp
next
  case (Cons r ks)
  have step: "mget (to_underscore_step r m) x =
      (if x = r then (if ''_'' @ r = r then mget m r else None)
       else if x = ''_'' @ r \<and> mget m r \<noteq> None then mget m r else mget m x)" for x
    by (auto simp: to_underscore_step_def mget_mput mget_mdel split: option.splits)
  have ne: "''_'' @ r \<noteq> r" by (rule notI) (drule arg_cong [of _ _ length], simp)
  have sep: "\<forall>x \<in> set ks. CHR ''_'' # x \<noteq> r \<and> CHR ''_'' # x \<notin> set ks" "CHR ''_'' # r \<notin> set ks"
    using Cons.prems(1) by auto
  have IH: "mget (fold to_underscore_step ks m') k =
     (if k \<in> set ks then None
      else if k \<noteq> [] \<and> hd k = CHR ''_'' \<and> tl k \<in> set ks \<and> mget m' (tl k) \<noteq> None then mget m' (tl k) else mget m' k)" for m'
    using Cons.prems by (intro Cons.IH) auto
  show ?case
    unfolding fold_simps IH step using Cons.prems(2) ne sep by (cases k) (auto split: if_splits)
qed

lemma from_underscore_fold:
  "(\<And>r. r \<in> set ks \<Longrightarrow> ''_'' @ r \<notin> set ks) \<Longrightarrow> distinct ks \<Longrightarrow>
   mget (fold from_underscore_step ks m) k =
     (if k \<in> set ks then mget m (''_'' @ k)
      else if k \<noteq> [] \<and> hd k = CHR ''_'' \<and> tl k \<in> set ks then None else mget m k)"
proof (induction ks arbitrary: m)
  case Nil
  then show ?case by simp
next
  case (Cons r ks)
  have ne: "''_'' @ r \<noteq> r" by (rule notI) (drule arg_cong [of _ _ length], simp)
  have sep: "\<forall>x \<in> set ks. CHR ''_'' # x \<noteq> r \<and> CHR ''_'' # x \<notin> set ks" "CHR ''_'' # r \<notin> set ks"
    using Cons.prems(1) by auto
  have step: "mget (from_underscore_step r m) x =
      (if x = r then mget m (''_'' @ r) else if x = ''_'' @ r then None else mget m x)" for x
    using ne by (auto simp: from_underscore_step_def Let_def mget_mput mget_mdel split: option.splits)
  have IH: "mget (fold from_underscore_step ks m') k =
     (if k \<in> set ks then mget m' (''_'' @ k)
      else if k \<noteq> [] \<and> hd k = CHR ''_'' \<and> tl k \<in> set ks then None else mget m' k)" for m'
    using Cons.prems by (intro Cons.IH) auto
  show ?case
    unfolding fold_simps IH step using Cons.prems(2) ne sep by (cases k) (auto split: if_splits)
qed

definition underscored :: "string \<Rightarrow> bool" where
  "underscored k \<longleftrightarrow> k \<in> (\<lambda>r. ''_'' @ r) ` set ReservedFields"

lemma underscored_iff: "underscored k \<longleftrightarrow> k \<noteq> [] \<and> hd k = CHR ''_'' \<and> tl k \<in> set ReservedFields"
  by (cases k) (auto simp: underscored_def)

lemma reserved_plain: "r \<in> set ReservedFields \<Longrightarrow> ''_'' @ r \<notin> set ReservedFields" "distinct ReservedFields"
  by (auto simp: ReservedFields_def)

lemma moveToUnderscore_lookup:
  "mget (moveToUnderscore m) k =
     (if k \<in> set ReservedFields then None
      else if underscored k \<and> mget m (tl k) \<noteq> None then mget m (tl k) else mget m k)"
  using to_underscore_fold [OF reserved_plain] by (auto simp: moveToUnderscore_def underscored_iff)

lemma moveFromUnderscore_lookup:
  "mget (moveFromUnderscore m) k =
     (if k \<in> set ReservedFields then mget m (''_'' @ k) else if underscored k then None else mget m k)"
  using from_underscore_fold [OF reserved_plain] by (auto simp: moveFromUnderscore_def underscored_iff)

text \<open>
  C40. Reserved fields survive the trip through the API: an object whose own fields use none of the
  escaped names \<open>_id\<close>, \<open>_type\<close>, \<open>_links\<close>, \<open>_actions\<close> comes back from \<open>moveFromUnderscore\<close> as it went into
  \<open>moveToUnderscore\<close>, with no reserved field in between; and of any body a client sends, exactly the
  reserved fields of its own are dropped.
\<close>

theorem reserved_fields_roundtrip:
  assumes "\<forall>k. underscored k \<longrightarrow> mget m k = None"
  shows "mget (moveFromUnderscore (moveToUnderscore m)) k = mget m k \<and>
    (k \<in> set ReservedFields \<longrightarrow> mget (moveToUnderscore m) k = None) \<and>
    mget (moveToUnderscore (moveFromUnderscore body)) k = (if k \<in> set ReservedFields then None else mget body k)"
proof -
  have "underscored (''_'' @ k)" if "k \<in> set ReservedFields" for k using that by (simp add: underscored_iff)
  moreover have "\<not> underscored k" if "k \<in> set ReservedFields" for k
    using that reserved_plain(1) by (auto simp: underscored_def)
  moreover have "k = ''_'' @ tl k \<and> tl k \<in> set ReservedFields" if "underscored k" for k
    using that by (auto simp: underscored_def)
  ultimately show ?thesis
    using assms reserved_plain(1) unfolding moveToUnderscore_lookup moveFromUnderscore_lookup
    by (auto split: if_splits)
qed

lemma reserved_fields_roundtrip_witness:
  "mget (moveFromUnderscore (moveToUnderscore [(''id'', JNum 1), (''kind'', JStr ''Pod'')])) ''id'' = Some (JNum 1)"
proof -
  have "\<forall>k. underscored k \<longrightarrow> mget [(''id'', JNum 1), (''kind'', JStr ''Pod'')] k = None"
    by (auto simp: underscored_def ReservedFields_def)
  from reserved_fields_roundtrip [OF this, of "''id''"] show ?thesis by simp
qed

subsection \<open>What a create request holds\<close>

text \<open>
  The laws of the data functions the properties use: reading a nested string under \<open>metadata\<close>
  after writing one, and after writing another top-level field.
\<close>

definition lib_ok :: "lib \<Rightarrow> bool" where
  "lib_ok L \<longleftrightarrow>
     (\<forall>m a b. L_ToString L (L_GetValueN L m [a, b]) = L_String L m [a, b]) \<and>
     (\<forall>m v a b a' b'. L_String L (L_SetNested L m (JStr v) [a, b]) [a', b'] =
        (if a' = a \<and> b' = b then v else L_String L m [a', b'])) \<and>
     (\<forall>m k v a b. a \<noteq> k \<longrightarrow> L_String L (mput k v m) [a, b] = L_String L m [a, b])"

fun jget :: "json \<Rightarrow> string list \<Rightarrow> json" where
  "jget v [] = v"
| "jget (JObj m) (k # ks) = (case mget m k of None \<Rightarrow> JNull | Some x \<Rightarrow> jget x ks)"
| "jget _ (k # ks) = JNull"

definition jobj :: "json option \<Rightarrow> obj" where
  "jobj v = (case v of Some (JObj m) \<Rightarrow> m | _ \<Rightarrow> [])"

fun jset :: "obj \<Rightarrow> json \<Rightarrow> string list \<Rightarrow> obj" where
  "jset m v [] = m"
| "jset m v [k] = mput k v m"
| "jset m v (k # k2 # ks) = mput k (JObj (jset (jobj (mget m k)) v (k2 # ks))) m"

definition jstr :: "json \<Rightarrow> string" where
  "jstr v = (case v of JStr s \<Rightarrow> s | _ \<Rightarrow> [])"

definition lib_std :: lib where
  "lib_std = \<lparr>L_GetValueN = (\<lambda>m p. jget (JObj m) p), L_ToString = jstr, L_String = (\<lambda>m p. jstr (jget (JObj m) p)),
     L_SetNested = jset, L_PutValue = jset,
     L_EncodeToMap = (\<lambda>p. case p of Some (Value (JObj m)) \<Rightarrow> Some m | _ \<Rightarrow> None),
     L_GetName = (\<lambda>m. jstr (jget (JObj m) [''metadata'', ''name''])),
     L_GetNamespace = (\<lambda>m. jstr (jget (JObj m) [''metadata'', ''namespace''])),
     L_GetResourceVersion = (\<lambda>m. jstr (jget (JObj m) [''metadata'', ''resourceVersion''])),
     L_ToAPIVersionAndKind = (\<lambda>g. (if gvk_Group g = [] then gvk_Version g else gvk_Group g @ ''/'' @ gvk_Version g, gvk_Kind g)),
     L_Unmarshal = (\<lambda>b. Inr []), L_Marshal = (\<lambda>m. Inr []), L_ErrorText = (\<lambda>e. [])\<rparr>"

lemma lib_std_ok: "lib_ok lib_std"
proof -
  have "jstr (jget (JObj (jset m (JStr v) [a, b])) [a', b']) =
      (if a' = a \<and> b' = b then v else jstr (jget (JObj m) [a', b']))" for m v a b a' b'
  proof (cases "a' = a")
    case True
    have "jstr (jget (JObj m) [a, b']) = jstr (case mget (jobj (mget m a)) b' of None \<Rightarrow> JNull | Some x \<Rightarrow> x)"
      by (cases "mget m a") (auto simp: jobj_def jstr_def split: json.splits option.splits)
    with True show ?thesis by (auto simp: mget_mput jstr_def split: option.splits)
  qed (simp add: mget_mput)
  then show ?thesis by (simp add: lib_ok_def lib_std_def mget_mput)
qed

text \<open>
  What \<open>Create\<close> sends to Kubernetes: kind and version are the schema's, the namespace is the
  object's own or else the request's, and it is also the namespace of the client; but an object with
  neither name nor generateName is sent without both, because the generated prefix is written to a
  field \<open>generatedName\<close> that nothing reads.
\<close>

theorem create_request:
  assumes "lib_ok (px_lib px)" and "create_input px op s params = Inr (ns, input)"
    and "Data (px_lib px) params = Some m"
  shows "(JStr (fst (L_ToAPIVersionAndKind (px_lib px) (GVK (px_convert px) s))) = mgetd JNull input ''apiVersion'') \<and>
    (JStr (snd (L_ToAPIVersionAndKind (px_lib px) (GVK (px_convert px) s))) = mgetd JNull input ''kind'') \<and>
    ns = (if Namespace (px_lib px) m \<noteq> [] then Namespace (px_lib px) m else op_Namespace op) \<and>
    Namespace (px_lib px) input = ns \<and> Name (px_lib px) input = Name (px_lib px) m \<and>
    L_String (px_lib px) input [''metadata'', ''generateName''] = L_String (px_lib px) m [''metadata'', ''generateName'']"
proof -
  let ?L = "px_lib px"
  have get: "L_ToString ?L (L_GetValueN ?L x [a, b]) = L_String ?L x [a, b]" for x a b
    using assms(1) by (simp add: lib_ok_def)
  have set: "L_String ?L (L_SetNested ?L x (JStr v) [a, b]) [a', b'] =
      (if a' = a \<and> b' = b then v else L_String ?L x [a', b'])" for x v a b a' b'
    using assms(1) by (simp add: lib_ok_def)
  have put: "L_String ?L (mput k v x) [a, b] = L_String ?L x [a, b]" if "a \<noteq> k" for k v x a b
    using assms(1) that by (simp add: lib_ok_def)
  show ?thesis
    using assms(2,3)
    by (auto simp: create_input_def Let_def or_empty_def Name_def Namespace_def get set put mgetd_mput
        split: if_splits prod.splits)
qed

definition ex_k8s :: "nat k8s" where
  "ex_k8s = \<lparr>k_Get = (\<lambda>cl i q w. (Some [], None)), k_List = (\<lambda>cl q w. Inl (OtherError [])),
     k_Create = (\<lambda>cl m q w. ((Some m, None), w + 1)),
     k_Update = (\<lambda>cl m q w. (Inr m, if mhas q ''dryRun'' then w else w + 1)),
     k_Patch = (\<lambda>cl i t b q w. (Inr [], if mhas q ''dryRun'' then w else w + 1)),
     k_Delete = (\<lambda>cl i q w. (None, w + 1)), k_Watch = (\<lambda>cl q w. Inr []), k_decode = (\<lambda>k q. None)\<rparr>"

definition ex_proxy :: "nat proxy" where
  "ex_proxy = \<lparr>px_factory = NewFactory False, px_convert = convert_std, px_lib = lib_std, px_k8s = ex_k8s,
     px_watch_timeout_env = []\<rparr>"

definition ex_object :: "obj \<Rightarrow> payload api_object" where
  "ex_object m = \<lparr>obj_Type = ''pod'', obj_ID = [], obj_Object = Some (Unstr m)\<rparr>"

lemma create_request_witness:
  "\<exists>input. create_input ex_proxy (empty_request\<lparr>op_Namespace := ''a''\<rparr>) (ex_schema ''pod'' ''pods'') (ex_object []) =
      Inr (''a'', input) \<and> Namespace lib_std input = ''a'' \<and>
      L_String lib_std input [''metadata'', ''generateName''] = L_String lib_std [] [''metadata'', ''generateName'']"
proof -
  let ?op = "empty_request\<lparr>op_Namespace := ''a''\<rparr>"
  have L: "px_lib ex_proxy = lib_std" by (simp add: ex_proxy_def)
  have "case create_input ex_proxy ?op (ex_schema ''pod'' ''pods'') (ex_object []) of
      Inl _ \<Rightarrow> False | Inr (ns, _) \<Rightarrow> ns = ''a''"
    by code_simp
  then obtain input where i: "create_input ex_proxy ?op (ex_schema ''pod'' ''pods'') (ex_object []) = Inr (''a'', input)"
    by (auto split: sum.splits prod.splits)
  have "Data lib_std (ex_object []) = Some []" by (simp add: Data_def ex_object_def)
  with create_request [OF _ i, of "[]"] i lib_std_ok show ?thesis unfolding L by blast
qed

text \<open>
  \<open>Update\<close> decodes the options of the request and does not send them: two requests that differ only
  in a query that decodes have the same effect and the same answer, so an update with
  \<open>dryRun\<close> changes the cluster as one without.
\<close>

theorem update_drops_options:
  assumes "op_Method op \<noteq> MethodPatch" and "op_Request op = Some r"
    and "k_decode (px_k8s px) ''UpdateOptions'' (rq_Query r) = None"
    and "k_decode (px_k8s px) ''UpdateOptions'' q = None"
  shows "proxy_Update px w (op\<lparr>op_Request := Some (r\<lparr>rq_Query := q\<rparr>)\<rparr>) s params body i =
    proxy_Update px w op s params body i"
proof -
  have "table_client px (op\<lparr>op_Request := Some (r\<lparr>rq_Query := q\<rparr>)\<rparr>) s ns = table_client px op s ns" for ns
    using assms(2)
    by (simp add: table_client_def TableClient_def Client_def newClient_def newDynamicClient_def setupConfig_def)
  then show ?thesis
    using assms by (simp add: proxy_Update_def decodeParams_def request_query_def Let_def cong: sum.case_cong if_cong)
qed

lemma update_drops_options_witness:
  "snd (proxy_Update ex_proxy 0 (empty_request\<lparr>op_Method := MethodPut, op_Request := Some (new_request\<lparr>rq_Query := [(''dryRun'', [''All''])]\<rparr>)\<rparr>)
      empty_schema (ex_object [(''metadata'', JObj [(''resourceVersion'', JStr ''1'')])]) (Inr []) ''x'') = 1"
proof -
  let ?op = "empty_request\<lparr>op_Method := MethodPut, op_Request := Some new_request\<rparr>"
  let ?o = "ex_object [(''metadata'', JObj [(''resourceVersion'', JStr ''1'')])]"
  have "proxy_Update ex_proxy 0 (?op\<lparr>op_Request := Some (new_request\<lparr>rq_Query := [(''dryRun'', [''All''])]\<rparr>)\<rparr>)
      empty_schema ?o (Inr []) ''x'' = proxy_Update ex_proxy 0 ?op empty_schema ?o (Inr []) ''x''"
    by (rule update_drops_options) (simp_all add: methods ex_proxy_def ex_k8s_def)
  moreover have "snd (proxy_Update ex_proxy 0 ?op empty_schema ?o (Inr []) ''x'') = 1" by code_simp
  ultimately show ?thesis by simp
qed

end
