(* ===== verification/Rbac_Partition.thy ===== *)
theory Rbac_Partition
  imports Proxy_Store Access_Control
begin

section \<open>Partitions by permission: pkg/stores/proxy/rbac\_store.go\<close>

text \<open>
  A list or watch is split into partitions, one for each namespace in which the user may see
  something, after the access list stored with the schema. A partition that names objects is served
  by an admin client and filtered by name, so its soundness is what protects the rest of the
  namespace; the other partitions use the user's own client.

  \<open>sets.String\<close> is a list without repetitions; the namespace constraint of a request is the field
  \<open>rq_Namespaces\<close>.
\<close>

record partition =
  p_Namespace :: string
  p_All :: bool
  p_Passthrough :: bool
  p_Names :: "string list"

definition passthrough_partition :: partition where
  "passthrough_partition = \<lparr>p_Namespace = [], p_All = False, p_Passthrough = True, p_Names = []\<rparr>"

definition AddNamespaceConstraint :: "http_request \<Rightarrow> string list \<Rightarrow> http_request" where
  "AddNamespaceConstraint req names = req\<lparr>rq_Namespaces := Some (remdups names)\<rparr>"

definition Lookup :: "string \<Rightarrow> go_err + partition" where
  "Lookup verb =
     (if verb = ''create'' \<or> verb = ''get'' \<or> verb = ''update'' \<or> verb = ''delete'' then Inr passthrough_partition
      else Inl (OtherError (''partition list: invalid verb '' @ verb)))"

definition isPassthroughUnconstrained ::
  "convert \<Rightarrow> api_request \<Rightarrow> 'a schema_scheme \<Rightarrow> string \<Rightarrow> partition list \<times> bool" where
  "isPassthroughUnconstrained C op s verb =
     (let accessListByVerb = GetAccessListMap (Some s) in
      if ByVerb_All accessListByVerb verb then ([], True)
      else
        let resources = ByVerb_Granted accessListByVerb verb in
        if op_Namespace op \<noteq> [] then
          let r = mgetd zero_resources resources (op_Namespace op) in
          if res_All r then ([], True)
          else ([\<lparr>p_Namespace = op_Namespace op, p_All = False, p_Passthrough = False, p_Names = res_Names r\<rparr>], False)
        else if Namespaced C (Some s) then
          (map (\<lambda>(k, v). \<lparr>p_Namespace = k, p_All = res_All v, p_Passthrough = False, p_Names = res_Names v\<rparr>)
             resources, False)
        else
          (map (\<lambda>(_, v). \<lparr>p_Namespace = [], p_All = res_All v, p_Passthrough = False, p_Names = res_Names v\<rparr>)
             resources, False))"

definition isPassthrough ::
  "convert \<Rightarrow> api_request \<Rightarrow> http_request \<Rightarrow> 'a schema_scheme \<Rightarrow> string \<Rightarrow> partition list \<times> bool" where
  "isPassthrough C op r s verb =
     (case isPassthroughUnconstrained C op s verb of
        (partitions, passthrough) \<Rightarrow>
          (case rq_Namespaces r of
             None \<Rightarrow> (partitions, passthrough)
           | Some namespaces \<Rightarrow>
               if passthrough then
                 (map (\<lambda>ns. \<lparr>p_Namespace = ns, p_All = True, p_Passthrough = False, p_Names = []\<rparr>) namespaces, False)
               else (filter (\<lambda>p. p_Namespace p \<in> set namespaces) partitions, False)))"

definition All :: "convert \<Rightarrow> api_request \<Rightarrow> 'a schema_scheme \<Rightarrow> string \<Rightarrow> string \<Rightarrow> go_err + partition list" where
  "All C op s verb i =
     (if verb = ''list'' \<or> verb = ''watch'' then
        if i \<noteq> [] then
          (case str_cut CHR ''/'' i of (ns, nm, ok) \<Rightarrow>
             (case (if \<not> ok then ([], ns) else (ns, nm)) of (ns, nm) \<Rightarrow>
                Inr [\<lparr>p_Namespace = ns, p_All = False, p_Passthrough = False, p_Names = [nm]\<rparr>]))
        else
          (case op_Request op of
             None \<Rightarrow> Inl (Panic ''nil pointer dereference'')
           | Some r \<Rightarrow>
               (case isPassthrough C op r s verb of (partitions, passthrough) \<Rightarrow>
                  if passthrough then Inr [passthrough_partition] else Inr (sort_key p_Namespace partitions)))
      else Inl (OtherError (''parition all: invalid verb '' @ verb)))"

subsection \<open>byNameOrNamespaceStore\<close>

definition partition_List ::
  "'w proxy \<Rightarrow> 'w \<Rightarrow> api_request \<Rightarrow> 'a schema_scheme \<Rightarrow> partition \<Rightarrow> go_err + payload api_object_list" where
  "partition_List px w op s p =
     (if p_Passthrough p then proxy_List px w op s
      else let op = op\<lparr>op_Namespace := p_Namespace p\<rparr> in
        if p_All p then proxy_List px w op s else ByNames px w op s (p_Names p))"

definition partition_Watch ::
  "'w proxy \<Rightarrow> 'w \<Rightarrow> api_request \<Rightarrow> 'a schema_scheme \<Rightarrow> watch_request \<Rightarrow> partition
   \<Rightarrow> go_err + payload api_event list" where
  "partition_Watch px w op s wr p =
     (if p_Passthrough p then proxy_Watch px w op s wr
      else let op = op\<lparr>op_Namespace := p_Namespace p\<rparr> in
        if p_All p then proxy_Watch px w op s wr else WatchNames px w op s wr (p_Names p))"

section \<open>Partitions and grants\<close>

text \<open>
  The grants a partition may draw on: those of the verb, and for list also the get grants of named
  objects.
\<close>

definition visible :: "AccessListByVerb \<Rightarrow> string \<Rightarrow> string \<Rightarrow> string \<Rightarrow> bool" where
  "visible a verb ns nm \<longleftrightarrow>
     acc ns nm \<in> set (mgetd [] a verb) \<or>
     (verb = ''list'' \<and> nm \<noteq> [] \<and> nm \<noteq> all_star \<and> acc ns nm \<in> set (mgetd [] a ''get''))"

lemma granted_visible:
  "res_All (mgetd zero_resources (ByVerb_Granted a verb) ns) \<longleftrightarrow> visible a verb ns all_star"
  "nm \<in> set (res_Names (mgetd zero_resources (ByVerb_Granted a verb) ns)) \<longleftrightarrow> nm \<noteq> all_star \<and> visible a verb ns nm"
  using granted_lookup [of a verb ns] by (auto simp: visible_def)

lemma granted_entry:
  "(ns, r) \<in> set (ByVerb_Granted a verb) \<Longrightarrow> mgetd zero_resources (ByVerb_Granted a verb) ns = r"
  by (simp add: mgetd_def ByVerb_Granted_wf mwf_mget_iff [THEN iffD2])

lemma granted_entry_exists:
  assumes "visible a verb ns nm"
  shows "\<exists>r. (ns, r) \<in> set (ByVerb_Granted a verb) \<and> (if nm = all_star then res_All r else nm \<in> set (res_Names r))"
proof (cases "mget (ByVerb_Granted a verb) ns")
  case None
  then have "mgetd zero_resources (ByVerb_Granted a verb) ns = zero_resources" by (simp add: mgetd_def)
  with assms granted_visible [where a = a and verb = verb and ns = ns] show ?thesis
    by (cases "nm = all_star") (auto simp: zero_resources_def)
next
  case (Some r)
  then have "mgetd zero_resources (ByVerb_Granted a verb) ns = r" by (simp add: mgetd_def)
  with assms granted_visible [where a = a and verb = verb and ns = ns] mget_in_set [OF Some] show ?thesis
    by (cases "nm = all_star") auto
qed

text \<open>What a partition may show: only what is granted, in its own namespace where there are namespaces.\<close>

definition partition_sound :: "AccessListByVerb \<Rightarrow> string \<Rightarrow> bool \<Rightarrow> partition \<Rightarrow> bool" where
  "partition_sound a verb namespaced p \<longleftrightarrow>
     (\<forall>nm \<in> set (p_Names p). \<exists>k. visible a verb k nm \<and> (namespaced \<longrightarrow> k = p_Namespace p))"

lemma unconstrained_sound:
  assumes "isPassthroughUnconstrained C op s verb = (ps, b)" and "p \<in> set ps"
  shows "\<not> p_Passthrough p \<and>
    partition_sound (GetAccessListMap (Some s)) verb (Namespaced C (Some s) \<or> op_Namespace op \<noteq> []) p"
  using assms
  by (auto simp: isPassthroughUnconstrained_def Let_def partition_sound_def granted_visible
      dest!: granted_entry split: if_splits) (auto simp: granted_visible)

lemma unconstrained_complete:
  assumes "isPassthroughUnconstrained C op s verb = (ps, b)" and "visible (GetAccessListMap (Some s)) verb k nm"
    and "op_Namespace op = [] \<or> k = op_Namespace op"
  shows "b \<or> (\<exists>p \<in> set ps. (Namespaced C (Some s) \<or> op_Namespace op \<noteq> [] \<longrightarrow> p_Namespace p = k) \<and>
    (if nm = all_star then p_All p else nm \<in> set (p_Names p)))"
proof -
  from granted_entry_exists [OF assms(2)] obtain r where
    r: "(k, r) \<in> set (ByVerb_Granted (GetAccessListMap (Some s)) verb)"
    and n: "if nm = all_star then res_All r else nm \<in> set (res_Names r)" by blast
  from granted_entry [OF r] r n assms(1,3) show ?thesis
    by (force simp: isPassthroughUnconstrained_def Let_def split: if_splits)
qed

lemma All_Inr_cases:
  assumes "All C op s verb [] = Inr ps"
  obtains r ps' b where "op_Request op = Some r" and "isPassthrough C op r s verb = (ps', b)"
    and "ps = (if b then [passthrough_partition] else sort_key p_Namespace ps')" and "verb \<in> {''list'', ''watch''}"
  using assms by (auto simp: All_def split: if_splits option.splits prod.splits)

text \<open>
  C8. The partitions of a list, or of a watch of a whole collection, match the grants; that is, of a request that names no single object (a watch of one object by its id is
  different: its partition is made from the id and the namespace alone, as \<open>watch_by_id_unchecked\<close> shows). Every name a partition selects, and so
  every object the admin client may hand out, is granted for the verb (or by a get of that name, when
  listing) in the partition's namespace; under a namespace constraint no partition lies outside the
  constraint; and without one nothing granted is missing: each grant, in the namespace asked for if one
  is asked for, is in some partition or everything is left to the user's own client.
\<close>

theorem partitions_match_grants:
  assumes "All C op s verb [] = Inr ps" and "op_Request op = Some r"
  shows "(\<forall>p \<in> set ps. p_Passthrough p \<or>
        partition_sound (GetAccessListMap (Some s)) verb (Namespaced C (Some s) \<or> op_Namespace op \<noteq> []) p) \<and>
    (\<forall>namespaces. rq_Namespaces r = Some namespaces \<longrightarrow>
        (\<forall>p \<in> set ps. \<not> p_Passthrough p \<and> p_Namespace p \<in> set namespaces)) \<and>
    (rq_Namespaces r = None \<longrightarrow> visible (GetAccessListMap (Some s)) verb k nm \<longrightarrow>
       op_Namespace op = [] \<or> k = op_Namespace op \<longrightarrow>
       (\<exists>p \<in> set ps. p_Passthrough p \<or>
          ((Namespaced C (Some s) \<or> op_Namespace op \<noteq> [] \<longrightarrow> p_Namespace p = k) \<and>
           (if nm = all_star then p_All p else nm \<in> set (p_Names p)))))"
proof -
  obtain us b where u: "isPassthroughUnconstrained C op s verb = (us, b)" by fastforce
  from assms obtain ps' b' where p: "isPassthrough C op r s verb = (ps', b')"
    and ps: "ps = (if b' then [passthrough_partition] else sort_key p_Namespace ps')"
    by (auto elim: All_Inr_cases)
  have "p_Passthrough p \<or>
      partition_sound (GetAccessListMap (Some s)) verb (Namespaced C (Some s) \<or> op_Namespace op \<noteq> []) p"
    if "p \<in> set ps" for p
    using that p unconstrained_sound [OF u, of p]
    by (auto simp: ps isPassthrough_def u passthrough_partition_def partition_sound_def split: if_splits option.splits)
  moreover have "\<not> p_Passthrough p \<and> p_Namespace p \<in> set namespaces"
    if "p \<in> set ps" "rq_Namespaces r = Some namespaces" for p namespaces
    using that p unconstrained_sound [OF u, of p] by (auto simp: ps isPassthrough_def u split: if_splits)
  moreover have "\<exists>p \<in> set ps. p_Passthrough p \<or>
      ((Namespaced C (Some s) \<or> op_Namespace op \<noteq> [] \<longrightarrow> p_Namespace p = k) \<and>
       (if nm = all_star then p_All p else nm \<in> set (p_Names p)))"
    if "rq_Namespaces r = None" "visible (GetAccessListMap (Some s)) verb k nm" "op_Namespace op = [] \<or> k = op_Namespace op"
    using that p unconstrained_complete [OF u that(2,3)]
    by (auto simp: ps isPassthrough_def u passthrough_partition_def)
  ultimately show ?thesis by blast
qed

text \<open>A pod schema on which one pod may be watched and read.\<close>

definition ex_watch_schema :: api_schema where
  "ex_watch_schema = SetAccess [(''watch'', [acc ''x'' ''a'']), (''list'', [acc ''x'' ''a''])] ex_pod_schema"

lemma partitions_match_grants_witness:
  "\<exists>ps. All convert_std (empty_request\<lparr>op_Request := Some new_request\<rparr>) ex_watch_schema ''list'' [] = Inr ps \<and>
     (\<exists>p \<in> set ps. p_Passthrough p \<or> (p_Namespace p = ''x'' \<and> ''a'' \<in> set (p_Names p)))"
proof -
  let ?op = "empty_request\<lparr>op_Request := Some new_request\<rparr>"
  let ?ps = "[\<lparr>p_Namespace = ''x'', p_All = False, p_Passthrough = False, p_Names = [''a'']\<rparr>]"
  have ps: "All convert_std ?op ex_watch_schema ''list'' [] = Inr ?ps" by code_simp
  have "visible (GetAccessListMap (Some ex_watch_schema)) ''list'' ''x'' ''a''" by code_simp
  moreover have "Namespaced convert_std (Some ex_watch_schema)" by code_simp
  ultimately show ?thesis
    using partitions_match_grants [OF ps, THEN conjunct2, THEN conjunct2, of new_request "''x''" "''a''"] ps
    by (auto simp: new_request_def empty_request_def all_star_def)
qed

text \<open>
  A constraint replaces the namespace of the request: with all of namespace \<open>ns\<close> granted and a
  constraint to other namespaces, a request for \<open>ns\<close> is answered from those.
\<close>

lemma constraint_replaces_namespace:
  assumes "op_Namespace op \<noteq> []" and "visible (GetAccessListMap (Some s)) verb (op_Namespace op) all_star"
    and "rq_Namespaces r = Some namespaces"
  shows "isPassthrough C op r s verb =
    (map (\<lambda>ns. \<lparr>p_Namespace = ns, p_All = True, p_Passthrough = False, p_Names = []\<rparr>) namespaces, False)"
  using assms by (simp add: isPassthrough_def isPassthroughUnconstrained_def Let_def granted_visible)

section \<open>Watching by id\<close>

text \<open>
  A watch of one object by its id consults no grant. The partition is the same whatever the access
  list of the schema holds, it names the object, and its events are those an admin client
  delivers about that name in that namespace, whoever the user is. The only check before it is
  \<open>CanWatch\<close>, which any watch grant on the type satisfies.
\<close>

theorem watch_by_id_unchecked:
  assumes "i = ns @ ''/'' @ nm" and "CHR ''/'' \<notin> set ns"
  shows "\<exists>p. All C op s ''watch'' i = Inr [p] \<and> All C op s' ''watch'' i = Inr [p] \<and>
      p_Namespace p = ns \<and> p_Names p = [nm] \<and>
      partition_Watch px w op s wr p =
        (case TableAdminClientForWatch (px_factory px) (px_convert px) (op\<lparr>op_Namespace := ns\<rparr>) s ns of
           Inl err \<Rightarrow> Inl err
         | Inr admin \<Rightarrow> Inr (filter (\<lambda>e. ev_Error e = None \<and> Object_Name (px_lib px) (ev_Object e) = nm)
             (listAndWatch px w s admin wr)))"
proof -
  have "str_cut CHR ''/'' i = (ns, nm, True)" using str_cut_join [OF assms(2), of nm] assms(1) by simp
  then show ?thesis
    using assms(1) by (simp add: All_def partition_Watch_def WatchNames_def Let_def cong: sum.case_cong)
qed

lemma watch_by_id_unchecked_witness:
  "CanWatch convert_std ex_watch_schema = None \<and>
   \<not> ByVerb_Grants (GetAccessListMap (Some ex_watch_schema)) ''watch'' ''y'' ''b'' \<and>
   (\<exists>p. All convert_std empty_request ex_watch_schema ''watch'' ''y/b'' = Inr [p] \<and> p_Namespace p = ''y'' \<and> p_Names p = [''b''])"
proof -
  have "CanWatch convert_std ex_watch_schema = None" by code_simp
  moreover have "\<not> ByVerb_Grants (GetAccessListMap (Some ex_watch_schema)) ''watch'' ''y'' ''b''" by code_simp
  ultimately show ?thesis
    using watch_by_id_unchecked [of "''y/b''" "''y''" "''b''" convert_std empty_request ex_watch_schema
        ex_watch_schema ex_proxy 0 "\<lparr>wr_Revision = [], wr_ID = ''y/b'', wr_Selector = []\<rparr>"]
    by simp blast
qed

section \<open>Watching several partitions\<close>

text \<open>
  \<open>partition.Store.Watch\<close> clones the request once and starts one goroutine for each partition with the
  same clone; \<open>byNameOrNamespaceStore.Watch\<close> first writes the partition's namespace into the request and
  then reads it when it opens the watch. The shared field and the goroutines' positions are the
  state; each step is one goroutine's.
\<close>

datatype watcher = Ready | Assigned | Opened string

type_synonym watch_state = "string \<times> (partition \<times> watcher) list"

inductive watch_step :: "watch_state \<Rightarrow> watch_state \<Rightarrow> bool" where
  Assign: "i < length gs \<Longrightarrow> gs ! i = (p, Ready) \<Longrightarrow> \<not> p_Passthrough p \<Longrightarrow>
      watch_step (ns, gs) (p_Namespace p, gs[i := (p, Assigned)])"
| Open: "i < length gs \<Longrightarrow> gs ! i = (p, Assigned) \<Longrightarrow>
      watch_step (ns, gs) (ns, gs[i := (p, Opened ns)])"
| Open_passthrough: "i < length gs \<Longrightarrow> gs ! i = (p, Ready) \<Longrightarrow> p_Passthrough p \<Longrightarrow>
      watch_step (ns, gs) (ns, gs[i := (p, Opened ns)])"

inductive_cases watch_stepE: "watch_step (ns, gs) st"

definition watch_start :: "string \<Rightarrow> partition list \<Rightarrow> watch_state" where
  "watch_start ns ps = (ns, map (\<lambda>p. (p, Ready)) ps)"

text \<open>The invariant: the shared field holds the request's namespace or that of a partition.\<close>

definition watch_inv :: "string \<Rightarrow> partition list \<Rightarrow> watch_state \<Rightarrow> bool" where
  "watch_inv ns0 ps st \<longleftrightarrow>
     map fst (snd st) = ps \<and> fst st \<in> insert ns0 (p_Namespace ` set ps) \<and>
     (\<forall>x ns. (x, Opened ns) \<in> set (snd st) \<longrightarrow> ns \<in> insert ns0 (p_Namespace ` set ps))"

lemma map_fst_update: "i < length gs \<Longrightarrow> gs ! i = (p, g) \<Longrightarrow> map fst (gs[i := (p, g')]) = map fst gs"
  by (simp add: map_update list_update_same_conv)

lemma watch_inv_update:
  assumes "watch_inv ns0 ps (ns, gs)" and "i < length gs" and "gs ! i = (p, g)"
    and "ns' \<in> insert ns0 (p_Namespace ` set ps)" and "\<And>n. g' = Opened n \<Longrightarrow> n \<in> insert ns0 (p_Namespace ` set ps)"
  shows "watch_inv ns0 ps (ns', gs[i := (p, g')])"
proof -
  have "(x, h) \<in> set (gs[i := (p, g')]) \<Longrightarrow> (x, h) \<in> set gs \<or> h = g'" for x h
    using set_update_subset_insert [of gs i "(p, g')"] by blast
  with assms show ?thesis unfolding watch_inv_def snd_conv fst_conv map_fst_update [OF assms(2,3)] by blast
qed

lemma watch_step_inv: "watch_step st st' \<Longrightarrow> watch_inv ns0 ps st \<Longrightarrow> watch_inv ns0 ps st'"
proof (induction rule: watch_step.induct)
  case (Assign i gs p ns)
  have "p \<in> set (map fst gs)" using nth_mem [OF Assign(1)] Assign(2) by force
  with Assign show ?case by (intro watch_inv_update [OF Assign(4,1,2)]) (auto simp: watch_inv_def)
next
  case (Open i gs p ns)
  then show ?case by (intro watch_inv_update [OF Open(3,1,2)]) (auto simp: watch_inv_def)
next
  case (Open_passthrough i gs p ns)
  then show ?case by (intro watch_inv_update [OF Open_passthrough(4,1,2)]) (auto simp: watch_inv_def)
qed

lemma watch_reachable_inv:
  assumes "watch_step\<^sup>*\<^sup>* (watch_start ns ps) st"
  shows "watch_inv ns ps st"
  using assms
proof (induction rule: rtranclp_induct)
  case base
  show ?case by (auto simp: watch_inv_def watch_start_def comp_def)
next
  case (step y z)
  then show ?case by (blast intro: watch_step_inv)
qed

text \<open>
  The goroutines of a watch race for the namespace. In every run a watch is opened in the request's
  namespace or in that of some partition of the request; but with two partitions it need not be its
  own: there is a run in which the objects selected for the first partition are watched in the
  namespace of the second.
\<close>

theorem watch_namespace_race:
  assumes "\<not> p_Passthrough p" and "\<not> p_Passthrough q"
  shows "watch_step\<^sup>*\<^sup>* (watch_start ns [p, q]) (p_Namespace q, [(p, Opened (p_Namespace q)), (q, Opened (p_Namespace q))]) \<and>
    (\<forall>st x opened. watch_step\<^sup>*\<^sup>* (watch_start ns ps) st \<longrightarrow> (x, Opened opened) \<in> set (snd st) \<longrightarrow>
       opened = ns \<or> (\<exists>y \<in> set ps. opened = p_Namespace y))"
proof
  let ?n = "p_Namespace q"
  have s1: "watch_step (ns, [(p, Ready), (q, Ready)]) (p_Namespace p, [(p, Assigned), (q, Ready)])"
    using Assign [of 0 "[(p, Ready), (q, Ready)]" p ns] assms by simp
  have s2: "watch_step (p_Namespace p, [(p, Assigned), (q, Ready)]) (?n, [(p, Assigned), (q, Assigned)])"
    using Assign [of 1 "[(p, Assigned), (q, Ready)]" q "p_Namespace p"] assms by simp
  have s3: "watch_step (?n, [(p, Assigned), (q, Assigned)]) (?n, [(p, Opened ?n), (q, Assigned)])"
    using Open [of 0 "[(p, Assigned), (q, Assigned)]" p ?n] by simp
  have s4: "watch_step (?n, [(p, Opened ?n), (q, Assigned)]) (?n, [(p, Opened ?n), (q, Opened ?n)])"
    using Open [of 1 "[(p, Opened ?n), (q, Assigned)]" q ?n] by simp
  show "watch_step\<^sup>*\<^sup>* (watch_start ns [p, q]) (?n, [(p, Opened ?n), (q, Opened ?n)])"
    unfolding watch_start_def list.map
    by (rule converse_rtranclp_into_rtranclp [OF s1 converse_rtranclp_into_rtranclp [OF s2
          converse_rtranclp_into_rtranclp [OF s3 r_into_rtranclp [of watch_step, OF s4]]]])
  show "\<forall>st x opened. watch_step\<^sup>*\<^sup>* (watch_start ns ps) st \<longrightarrow> (x, Opened opened) \<in> set (snd st) \<longrightarrow>
      opened = ns \<or> (\<exists>y \<in> set ps. opened = p_Namespace y)"
  proof (intro allI impI)
    fix st x opened
    assume "watch_step\<^sup>*\<^sup>* (watch_start ns ps) st" and "(x, Opened opened) \<in> set (snd st)"
    then have "opened \<in> insert ns (p_Namespace ` set ps)"
      using watch_reachable_inv [of ns ps st] by (auto simp: watch_inv_def)
    then show "opened = ns \<or> (\<exists>y \<in> set ps. opened = p_Namespace y)" by auto
  qed
qed

lemma watch_namespace_race_witness:
  "\<exists>opened. watch_step\<^sup>*\<^sup>* (watch_start [] [\<lparr>p_Namespace = ''x'', p_All = False, p_Passthrough = False, p_Names = [''a'']\<rparr>,
      \<lparr>p_Namespace = ''y'', p_All = False, p_Passthrough = False, p_Names = [''b'']\<rparr>]) (''y'', opened) \<and>
     opened ! 0 = (\<lparr>p_Namespace = ''x'', p_All = False, p_Passthrough = False, p_Names = [''a'']\<rparr>, Opened ''y'')"
proof -
  let ?p = "\<lparr>p_Namespace = ''x'', p_All = False, p_Passthrough = False, p_Names = [''a'']\<rparr>"
  let ?q = "\<lparr>p_Namespace = ''y'', p_All = False, p_Passthrough = False, p_Names = [''b'']\<rparr>"
  from watch_namespace_race [of ?p ?q "[]" "[]"]
  have "watch_step\<^sup>*\<^sup>* (watch_start [] [?p, ?q]) (''y'', [(?p, Opened ''y''), (?q, Opened ''y'')])" by simp
  then show ?thesis by (intro exI [of _ "[(?p, Opened ''y''), (?q, Opened ''y'')]"]) simp
qed

end
