(* ===== verification/Partition_Lister.thy ===== *)
theory Partition_Lister
  imports Requests
begin

section \<open>Listing partitions in parallel: pkg/stores/partition/parallel.go\<close>

text \<open>
  \<open>ParallelPartitionLister.List\<close> lists the partitions of a request page by page up to a limit and leaves
  a token to resume from. A feeder loop starts one goroutine for each partition while there is
  capacity; a semaphore bounds how many run, and a chain of channels makes them deliver in the order of
  the partitions: a goroutine touches the shared fields only after the one before it has ended.

  Therefore a goroutine is one function here, \<open>worker_loop\<close> (a \<open>partial_function\<close>: the code loops as
  long as the lister says there is more), and the runs of feeder and goroutines are a step relation in
  which the workers end in order, but the feeder's look at the capacity can come before or after
  any of them. The lister is an argument; its calls read only. After an error of a worker the run ends;
  what goroutines still running send after that is not modelled, since \<open>Store.List\<close> returns the error.

  The context of the request can be over at any moment (\<open>Cancel\<close>). Then the feeder leaves its loop at the next look at
  the context or at a wait for the semaphore, and the goroutines no longer wait for their turn (\<open>waitForTurn\<close>): they race on the
  shared fields, so what one of them leaves there is left open but for what it has sent, parts of pages of the lister,
  and the lister, which gets the same context, may fail it with any error.
\<close>

type_synonym ('p, 'o) partition_lister =
  "'p \<Rightarrow> string \<Rightarrow> string \<Rightarrow> int \<Rightarrow> go_err + 'o api_object_list"

record list_state =
  ls_Revision :: string
  ls_PartitionName :: string
  ls_Continue :: string
  ls_Offset :: int
  ls_Limit :: int

definition empty_list_state :: list_state where
  "empty_list_state = \<lparr>ls_Revision = [], ls_PartitionName = [], ls_Continue = [], ls_Offset = 0, ls_Limit = 0\<rparr>"

text \<open>The fields of the lister and of \<open>feeder\<close> that the goroutines share, and what was sent to \<open>result\<close>.\<close>

record 'o shared =
  sh_capacity :: int
  sh_state :: "list_state option"
  sh_revision :: string
  sh_result :: "'o api_object list list"

fun index_of :: "('p \<Rightarrow> string) \<Rightarrow> 'p list \<Rightarrow> string \<Rightarrow> nat option" where
  "index_of nm [] x = None"
| "index_of nm (p # ps) x = (if nm p = x then Some 0 else map_option Suc (index_of nm ps x))"

definition indexOrZero :: "('p \<Rightarrow> string) \<Rightarrow> 'p list \<Rightarrow> string \<Rightarrow> nat" where
  "indexOrZero nm ps x = (if x = [] then 0 else (case index_of nm ps x of None \<Rightarrow> 0 | Some i \<Rightarrow> i))"

text \<open>The goroutine of a partition, from one call of the lister to the next.\<close>

partial_function (option) worker_loop ::
  "('p \<Rightarrow> string) \<Rightarrow> ('p, 'o) partition_lister \<Rightarrow> int \<Rightarrow> 'p \<Rightarrow> list_state \<Rightarrow> 'o shared
   \<Rightarrow> (go_err + 'o shared) option" where
  "worker_loop nm lister limit p state sh =
     (let cont = (if nm p = ls_PartitionName state then ls_Continue state else [])
      in case lister p cont (ls_Revision state) limit of
           Inl err \<Rightarrow> Some (Inl err)
         | Inr l \<Rightarrow>
             if sh_state sh \<noteq> None then Some (Inr sh)
             else
               (let state = (if ls_Revision state = [] then state\<lparr>ls_Revision := list_Revision l\<rparr> else state);
                    sh = (if sh_revision sh = [] then sh\<lparr>sh_revision := list_Revision l\<rparr> else sh);
                    objects = (if ls_PartitionName state = nm p \<and> ls_Offset state > 0 \<and>
                        ls_Offset state < int (length (list_Objects l))
                      then drop (nat (ls_Offset state)) (list_Objects l) else list_Objects l)
                in if int (length objects) > sh_capacity sh
                   then Some (Inr (sh\<lparr>sh_result := sh_result sh @ [take (nat (sh_capacity sh)) objects],
                          sh_state := Some \<lparr>ls_Revision = list_Revision l, ls_PartitionName = nm p,
                            ls_Continue = cont, ls_Offset = sh_capacity sh, ls_Limit = limit\<rparr>,
                          sh_capacity := 0\<rparr>))
                   else
                     (let sh = sh\<lparr>sh_result := sh_result sh @ [objects],
                               sh_capacity := sh_capacity sh - int (length objects)\<rparr>
                      in if list_Continue l = [] then Some (Inr sh)
                         else worker_loop nm lister limit p
                                (state\<lparr>ls_Continue := list_Continue l, ls_PartitionName := nm p, ls_Offset := 0\<rparr>) sh)))"

declare worker_loop.simps [code]

subsection \<open>The feeder\<close>

text \<open>
  Where the feeder is: about to look at the capacity for a partition, waiting for the semaphore, or
  past its loop. A run also counts the workers started (they are those before the feeder's position)
  and the workers that have ended.
\<close>

datatype feeder = Checking nat | Acquiring nat | Stopped nat

record 'o run =
  r_feeder :: feeder
  r_done :: nat
  r_shared :: "'o shared"
  r_err :: "go_err option"
  r_cancelled :: bool

text \<open>\<open>tickets\<close>: without a revision in the resume state every worker takes all three.\<close>

definition slots :: "list_state \<Rightarrow> nat" where
  "slots state = (if ls_Revision state = [] then 1 else 3)"

definition started :: "'o run \<Rightarrow> nat" where
  "started r = (case r_feeder r of Checking n \<Rightarrow> n | Acquiring n \<Rightarrow> n | Stopped n \<Rightarrow> n)"

text \<open>
  What a goroutine out of its turn can have done to the shared fields: it has sent parts of pages of the partitions.
\<close>

definition sent_late :: "('p, 'o) partition_lister \<Rightarrow> int \<Rightarrow> 'p list \<Rightarrow> 'o shared \<Rightarrow> 'o shared \<Rightarrow> bool" where
  "sent_late lister limit ps sh sh' \<longleftrightarrow>
     (\<exists>more. sh_result sh' = sh_result sh @ more \<and>
        (\<forall>objects \<in> set more. \<exists>p \<in> set ps. \<exists>cont revision l.
           lister p cont revision limit = Inr l \<and> set objects \<subseteq> set (list_Objects l)))"

text \<open>
  \<open>isDone\<close> is true once the request's context is over or a goroutine has failed. \<open>Acquire\<close> of the semaphore package (version 0.5)
  takes free tickets without a look at the context and fails only while it waits. The error it returns then is stored in
  \<open>p.err\<close>, but the last line of the feeder overwrites it with that of the goroutines: it leaves no trace.
\<close>

inductive feeder_step ::
  "('p \<Rightarrow> string) \<Rightarrow> ('p, 'o) partition_lister \<Rightarrow> int \<Rightarrow> 'p list \<Rightarrow> list_state \<Rightarrow> 'o run \<Rightarrow> 'o run \<Rightarrow> bool"
  for nm lister limit ps state where
  Check_ok: "r_feeder r = Checking n \<Longrightarrow> n < length ps \<Longrightarrow> sh_capacity (r_shared r) > 0 \<Longrightarrow> r_err r = None \<Longrightarrow> \<not> r_cancelled r \<Longrightarrow>
      feeder_step nm lister limit ps state r (r\<lparr>r_feeder := Acquiring n\<rparr>)"
| Check_stop: "r_feeder r = Checking n \<Longrightarrow>
      n \<ge> length ps \<or> sh_capacity (r_shared r) \<le> 0 \<or> r_err r \<noteq> None \<or> r_cancelled r \<Longrightarrow>
      feeder_step nm lister limit ps state r (r\<lparr>r_feeder := Stopped n\<rparr>)"
| Acquire: "r_feeder r = Acquiring n \<Longrightarrow> n - r_done r < slots state \<Longrightarrow> r_err r = None \<Longrightarrow>
      feeder_step nm lister limit ps state r (r\<lparr>r_feeder := Checking (Suc n)\<rparr>)"
| Acquire_failed: "r_feeder r = Acquiring n \<Longrightarrow> r_err r \<noteq> None \<or> r_cancelled r \<Longrightarrow>
      feeder_step nm lister limit ps state r (r\<lparr>r_feeder := Stopped n\<rparr>)"
| Work: "r_done r < started r \<Longrightarrow> r_err r = None \<Longrightarrow>
      worker_loop nm lister limit (ps ! r_done r) state (r_shared r) = Some (Inr sh) \<Longrightarrow>
      feeder_step nm lister limit ps state r (r\<lparr>r_done := Suc (r_done r), r_shared := sh\<rparr>)"
| Work_failed: "r_done r < started r \<Longrightarrow> r_err r = None \<Longrightarrow>
      worker_loop nm lister limit (ps ! r_done r) state (r_shared r) = Some (Inl err) \<Longrightarrow>
      feeder_step nm lister limit ps state r (r\<lparr>r_done := Suc (r_done r), r_err := Some err\<rparr>)"
| Cancel: "feeder_step nm lister limit ps state r (r\<lparr>r_cancelled := True\<rparr>)"
| Late: "r_cancelled r \<Longrightarrow> r_done r < started r \<Longrightarrow> r_err r = None \<Longrightarrow> sent_late lister limit ps (r_shared r) sh \<Longrightarrow>
      feeder_step nm lister limit ps state r (r\<lparr>r_done := Suc (r_done r), r_shared := sh\<rparr>)"
| Late_failed: "r_cancelled r \<Longrightarrow> r_done r < started r \<Longrightarrow> r_err r = None \<Longrightarrow> sent_late lister limit ps (r_shared r) sh \<Longrightarrow>
      feeder_step nm lister limit ps state r (r\<lparr>r_done := Suc (r_done r), r_shared := sh, r_err := Some err\<rparr>)"

inductive_cases feeder_stepE: "feeder_step nm lister limit ps state r r'"

definition run_start :: "('p \<Rightarrow> string) \<Rightarrow> int \<Rightarrow> 'p list \<Rightarrow> list_state \<Rightarrow> 'o run" where
  "run_start nm limit ps state =
     (let i = indexOrZero nm ps (ls_PartitionName state)
      in \<lparr>r_feeder = Checking i, r_done = i,
          r_shared = \<lparr>sh_capacity = limit, sh_state = None, sh_revision = [], sh_result = []\<rparr>, r_err = None, r_cancelled = False\<rparr>)"

text \<open>A run that ended without an error, before the request's context was over.\<close>

definition finished :: "'o run \<Rightarrow> bool" where
  "finished r \<longleftrightarrow> r_feeder r = Stopped (r_done r) \<and> r_err r = None \<and> \<not> r_cancelled r"

subsection \<open>Limits and tokens\<close>

text \<open>
  The token is the JSON of the state in base64; both are library code, the argument \<open>decode\<close>. \<open>List\<close>
  gives the state and the limit the feeder starts with.
\<close>

definition lister_List ::
  "(string \<Rightarrow> go_err + list_state) \<Rightarrow> int \<Rightarrow> string \<Rightarrow> go_err + list_state \<times> int" where
  "lister_List decode limit resume =
     (if resume \<noteq> [] then
        (case decode resume of
           Inl err \<Rightarrow> Inl err
         | Inr state \<Rightarrow> Inr (state, if ls_Limit state > 0 then ls_Limit state else limit))
      else Inr (empty_list_state, limit))"

definition lister_Continue :: "(list_state \<Rightarrow> go_err + string) \<Rightarrow> 'o shared \<Rightarrow> string" where
  "lister_Continue encode sh =
     (case sh_state sh of
        None \<Rightarrow> []
      | Some state \<Rightarrow> (case encode state of Inl _ \<Rightarrow> [] | Inr t \<Rightarrow> t))"

definition getLimit :: "http_request \<Rightarrow> int" where
  "getLimit r =
     (let limit = (case atoi (values_get (rq_Query r) ''limit'') of None \<Rightarrow> 0 | Some n \<Rightarrow> n)
      in if limit \<le> 0 then 100000 else limit)"

text \<open>The query \<open>Store.listPartition\<close> lists a partition with; \<open>itoa\<close> prints the limit.\<close>

definition listPartition_query :: "(int \<Rightarrow> string) \<Rightarrow> url_values \<Rightarrow> string \<Rightarrow> string \<Rightarrow> int \<Rightarrow> url_values" where
  "listPartition_query itoa values cont revision limit =
     (let values = mput ''revision'' [revision] (mput ''continue'' [cont] values)
      in if limit > 0 then mput ''limit'' [itoa limit] values else mdel ''limit'' values)"

text \<open>What \<open>Store.List\<close> returns from a finished run.\<close>

definition collect :: "(list_state \<Rightarrow> go_err + string) \<Rightarrow> 'o run \<Rightarrow> 'o api_object_list \<times> go_err option" where
  "collect encode r =
     (\<lparr>list_Revision = sh_revision (r_shared r), list_Continue = lister_Continue encode (r_shared r),
       list_Objects = concat (sh_result (r_shared r))\<rparr>, r_err r)"

section \<open>Every object, once\<close>

text \<open>
  The contract of a lister over data that do not change: \<open>rest p cont\<close> are the objects of partition
  \<open>p\<close> from the page token \<open>cont\<close> on; a page is at most \<open>limit\<close> objects, and the tokens of a partition come to an
  end, which the measure \<open>ahead\<close> says. A page can be empty and have a successor, as when its objects are filtered by name.
\<close>

definition paged :: "('p, 'o) partition_lister \<Rightarrow> ('p \<Rightarrow> string \<Rightarrow> 'o api_object list) \<Rightarrow> int \<Rightarrow> bool" where
  "paged lister rest limit \<longleftrightarrow>
     (\<exists>ahead :: 'p \<Rightarrow> string \<Rightarrow> nat. \<forall>p cont rev l. lister p cont rev limit = Inr l \<longrightarrow>
        rest p cont = list_Objects l @ (if list_Continue l = [] then [] else rest p (list_Continue l)) \<and>
        int (length (list_Objects l)) \<le> limit \<and> (list_Continue l \<noteq> [] \<longrightarrow> ahead p (list_Continue l) < ahead p cont)) \<and>
     (\<forall>p cont rev rev'. lister p cont rev limit = lister p cont rev' limit)"

lemma pagedD:
  assumes "paged lister rest limit"
  shows "lister p cont revision limit = Inr l \<Longrightarrow>
      rest p cont = list_Objects l @ (if list_Continue l = [] then [] else rest p (list_Continue l))"
    and "lister p cont revision limit = Inr l \<Longrightarrow> int (length (list_Objects l)) \<le> limit"
    and "lister p cont revision limit = lister p cont revision' limit"
proof -
  obtain ahead :: "'a \<Rightarrow> string \<Rightarrow> nat" where *: "\<forall>p cont rev l. lister p cont rev limit = Inr l \<longrightarrow>
      rest p cont = list_Objects l @ (if list_Continue l = [] then [] else rest p (list_Continue l)) \<and>
      int (length (list_Objects l)) \<le> limit \<and> (list_Continue l \<noteq> [] \<longrightarrow> ahead p (list_Continue l) < ahead p cont)"
    using assms unfolding paged_def by blast
  show "lister p cont revision limit = Inr l \<Longrightarrow>
      rest p cont = list_Objects l @ (if list_Continue l = [] then [] else rest p (list_Continue l))"
    and "lister p cont revision limit = Inr l \<Longrightarrow> int (length (list_Objects l)) \<le> limit"
    using * by (simp_all only: simp_thms)
  show "lister p cont revision limit = lister p cont revision' limit"
    using assms [unfolded paged_def, THEN conjunct2, rule_format, of p cont revision revision'] .
qed

lemma paged_ends:
  fixes lister :: "('p, 'o) partition_lister"
  assumes "paged lister rest limit"
  obtains ahead :: "'p \<Rightarrow> string \<Rightarrow> nat"
  where "\<And>p cont revision l. lister p cont revision limit = Inr l \<Longrightarrow> list_Continue l \<noteq> [] \<Longrightarrow> ahead p (list_Continue l) < ahead p cont"
  using assms unfolding paged_def by (metis (no_types, lifting))

text \<open>The objects a resume state leaves of a partition, and whether its offset lies within its page.\<close>

definition left_of :: "('p \<Rightarrow> string) \<Rightarrow> ('p \<Rightarrow> string \<Rightarrow> 'o api_object list) \<Rightarrow> list_state \<Rightarrow> 'p \<Rightarrow> 'o api_object list" where
  "left_of nm rest state p =
     (if nm p = ls_PartitionName state then drop (nat (ls_Offset state)) (rest p (ls_Continue state)) else rest p [])"

definition offset_ok :: "('p, 'o) partition_lister \<Rightarrow> int \<Rightarrow> 'p \<Rightarrow> list_state \<Rightarrow> bool" where
  "offset_ok lister limit p state \<longleftrightarrow>
     ls_Offset state \<le> 0 \<or>
     (\<forall>rev l. lister p (ls_Continue state) rev limit = Inr l \<longrightarrow> ls_Offset state < int (length (list_Objects l)))"

text \<open>What a worker adds to the shared fields when it takes its turn.\<close>

definition worked ::
  "('p \<Rightarrow> string) \<Rightarrow> ('p, 'o) partition_lister \<Rightarrow> ('p \<Rightarrow> string \<Rightarrow> 'o api_object list) \<Rightarrow> int \<Rightarrow> 'p
   \<Rightarrow> 'o api_object list \<Rightarrow> 'o shared \<Rightarrow> 'o shared \<Rightarrow> bool" where
  "worked nm lister rest limit p todo sh sh' \<longleftrightarrow>
     (case sh_state sh' of
        None \<Rightarrow> concat (sh_result sh') = concat (sh_result sh) @ todo \<and>
          sh_capacity sh' = sh_capacity sh - int (length todo) \<and> sh_capacity sh' \<ge> 0
      | Some t \<Rightarrow> sh_capacity sh' = 0 \<and> ls_PartitionName t = nm p \<and> ls_Limit t = limit \<and> offset_ok lister limit p t \<and>
          (\<exists>taken. concat (sh_result sh') = concat (sh_result sh) @ taken \<and> int (length taken) = sh_capacity sh \<and>
             todo = taken @ left_of nm rest t p))"

lemma worker_bounded_spec:
  fixes ahead :: "'p \<Rightarrow> string \<Rightarrow> nat"
  assumes "paged lister rest limit"
    and ahead: "\<And>p cont revision l. lister p cont revision limit = Inr l \<Longrightarrow> list_Continue l \<noteq> [] \<Longrightarrow>
      ahead p (list_Continue l) < ahead p cont"
  shows "sh_state sh = None \<Longrightarrow> 0 \<le> sh_capacity sh \<Longrightarrow> sh_capacity sh \<le> limit \<Longrightarrow>
    (nm p = ls_PartitionName st \<longrightarrow> offset_ok lister limit p st \<and> (ls_Offset st > 0 \<longrightarrow> sh_capacity sh = limit)) \<Longrightarrow>
    \<exists>res. worker_loop nm lister limit p st sh = Some res \<and>
      (\<forall>sh'. res = Inr sh' \<longrightarrow> worked nm lister rest limit p (left_of nm rest st p) sh sh')"
proof (induction "ahead p (if nm p = ls_PartitionName st then ls_Continue st else [])" arbitrary: st sh
    rule: less_induct)
  case less
  let ?cont = "if nm p = ls_PartitionName st then ls_Continue st else []"
  show ?case
  proof (cases "lister p ?cont (ls_Revision st) limit")
    case (Inl err)
    then show ?thesis by (subst worker_loop.simps) (simp add: Let_def)
  next
    case (Inr l)
    have rest: "rest p ?cont = list_Objects l @ (if list_Continue l = [] then [] else rest p (list_Continue l))"
      and len: "int (length (list_Objects l)) \<le> limit"
      using pagedD(1,2) [OF assms(1) Inr] by simp_all
    have same: "lister p ?cont revision limit = Inr l" for revision
      using pagedD(3) [OF assms(1), of p ?cont revision "ls_Revision st"] Inr by (simp only:)
    define objects where "objects = (if ls_PartitionName st = nm p \<and> ls_Offset st > 0 \<and>
        ls_Offset st < int (length (list_Objects l)) then drop (nat (ls_Offset st)) (list_Objects l) else list_Objects l)"
    define tail where "tail = (if list_Continue l = [] then [] else rest p (list_Continue l))"
    have off: "ls_Offset st < int (length (list_Objects l))" if "nm p = ls_PartitionName st" "ls_Offset st > 0"
      using less.prems(4) that same by (auto simp: offset_ok_def)
    have todo: "left_of nm rest st p = objects @ tail"
    proof (cases "nm p = ls_PartitionName st \<and> ls_Offset st > 0")
      case True
      with off rest show ?thesis by (auto simp: left_of_def objects_def tail_def)
    next
      case False
      then have "nm p = ls_PartitionName st \<Longrightarrow> nat (ls_Offset st) = 0" by simp
      with False rest show ?thesis by (auto simp: left_of_def objects_def tail_def)
    qed
    define st1 where "st1 = (if ls_Revision st = [] then st\<lparr>ls_Revision := list_Revision l\<rparr> else st)"
    have st1: "ls_PartitionName st1 = ls_PartitionName st" "ls_Offset st1 = ls_Offset st" by (simp_all add: st1_def)
    define st' where "st' = st1\<lparr>ls_Continue := list_Continue l, ls_PartitionName := nm p, ls_Offset := 0\<rparr>"
    define sh1 where "sh1 = (if sh_revision sh = [] then sh\<lparr>sh_revision := list_Revision l\<rparr> else sh)"
    define sh2 where "sh2 = sh1\<lparr>sh_result := sh_result sh1 @ [objects], sh_capacity := sh_capacity sh1 - int (length objects)\<rparr>"
    have sh1: "sh_state sh1 = None" "sh_capacity sh1 = sh_capacity sh" "sh_result sh1 = sh_result sh"
      using less.prems(1) by (simp_all add: sh1_def)
    have loop: "worker_loop nm lister limit p st sh =
        (if int (length objects) > sh_capacity sh
         then Some (Inr (sh1\<lparr>sh_result := sh_result sh @ [take (nat (sh_capacity sh)) objects],
                sh_state := Some \<lparr>ls_Revision = list_Revision l, ls_PartitionName = nm p,
                  ls_Continue = ?cont, ls_Offset = sh_capacity sh, ls_Limit = limit\<rparr>, sh_capacity := 0\<rparr>))
         else if list_Continue l = [] then Some (Inr sh2) else worker_loop nm lister limit p st' sh2)"
      by (subst worker_loop.simps)
        (simp only: Let_def Inr sum.case less.prems(1) sh1 st1_def [symmetric] st1 objects_def [symmetric]
          sh1_def [symmetric] sh2_def st'_def HOL.simp_thms if_False if_True shared.select_convs)
    show ?thesis
    proof (cases "int (length objects) > sh_capacity sh")
      case True
      then have "objects = list_Objects l"
        using less.prems(3,4) len off by (auto simp: objects_def split: if_splits)
      with True show ?thesis
        using same less.prems(2) rest todo
        by (simp add: loop worked_def left_of_def offset_ok_def tail_def)
    next
      case False
      show ?thesis
      proof (cases "list_Continue l = []")
        case True
        with False sh1 todo show ?thesis by (auto simp: loop worked_def sh2_def tail_def)
      next
        case cont: False
        then have shorter: "ahead p (if nm p = ls_PartitionName st' then ls_Continue st' else []) < ahead p ?cont"
          using ahead [OF Inr] by (simp add: st'_def)
        obtain res where res: "worker_loop nm lister limit p st' sh2 = Some res"
          and w: "\<And>sh'. res = Inr sh' \<Longrightarrow> worked nm lister rest limit p (left_of nm rest st' p) sh2 sh'"
          using less.hyps [OF shorter, of sh2] sh1 False less.prems(2,3) by (auto simp: sh2_def st'_def offset_ok_def)
        have "left_of nm rest st' p = tail" using cont by (simp add: left_of_def st'_def tail_def)
        then have "worked nm lister rest limit p (left_of nm rest st p) sh sh'" if "res = Inr sh'" for sh'
        proof (cases "sh_state sh'")
          case None
          with w [OF that] sh1 todo \<open>left_of nm rest st' p = tail\<close> show ?thesis by (simp add: worked_def sh2_def)
        next
          case (Some t)
          with w [OF that] sh1 \<open>left_of nm rest st' p = tail\<close> obtain taken where
            t: "sh_capacity sh' = 0 \<and> ls_PartitionName t = nm p \<and> ls_Limit t = limit \<and> offset_ok lister limit p t"
              "concat (sh_result sh') = concat (sh_result sh) @ objects @ taken"
              "int (length taken) = sh_capacity sh - int (length objects)" "tail = taken @ left_of nm rest t p"
            by (auto simp: worked_def sh2_def)
          with Some todo show ?thesis by (simp add: worked_def)
        qed
        with res False cont show ?thesis by (simp add: loop)
      qed
    qed
  qed
qed

lemma worker_spec:
  assumes "paged lister rest limit"
  shows "sh_state sh = None \<Longrightarrow> 0 \<le> sh_capacity sh \<Longrightarrow> sh_capacity sh \<le> limit \<Longrightarrow>
    (nm p = ls_PartitionName st \<longrightarrow> offset_ok lister limit p st \<and> (ls_Offset st > 0 \<longrightarrow> sh_capacity sh = limit)) \<Longrightarrow>
    \<exists>res. worker_loop nm lister limit p st sh = Some res \<and>
      (\<forall>sh'. res = Inr sh' \<longrightarrow> worked nm lister rest limit p (left_of nm rest st p) sh sh')"
proof -
  obtain ahead :: "'a \<Rightarrow> string \<Rightarrow> nat" where ahead: "\<And>p cont revision l. lister p cont revision limit = Inr l \<Longrightarrow>
      list_Continue l \<noteq> [] \<Longrightarrow> ahead p (list_Continue l) < ahead p cont" by (rule paged_ends [OF assms]) blast
  show "sh_state sh = None \<Longrightarrow> 0 \<le> sh_capacity sh \<Longrightarrow> sh_capacity sh \<le> limit \<Longrightarrow>
    (nm p = ls_PartitionName st \<longrightarrow> offset_ok lister limit p st \<and> (ls_Offset st > 0 \<longrightarrow> sh_capacity sh = limit)) \<Longrightarrow>
    \<exists>res. worker_loop nm lister limit p st sh = Some res \<and>
      (\<forall>sh'. res = Inr sh' \<longrightarrow> worked nm lister rest limit p (left_of nm rest st p) sh sh')"
    using worker_bounded_spec [OF assms, of ahead] ahead by blast
qed

lemma worker_after_token:
  "sh_state sh \<noteq> None \<Longrightarrow> worker_loop nm lister limit p st sh = Some (Inr sh') \<Longrightarrow> sh' = sh"
  by (subst (asm) worker_loop.simps) (auto simp: Let_def split: sum.splits)

subsection \<open>The objects a token stands for\<close>

definition remaining ::
  "('p \<Rightarrow> string) \<Rightarrow> ('p \<Rightarrow> string \<Rightarrow> 'o api_object list) \<Rightarrow> 'p list \<Rightarrow> list_state \<Rightarrow> 'o api_object list" where
  "remaining nm rest ps st =
     concat (map (left_of nm rest st) (drop (indexOrZero nm ps (ls_PartitionName st)) ps))"

text \<open>Partitions that a token can name: distinct names, the empty name only in front.\<close>

definition nameable :: "('p \<Rightarrow> string) \<Rightarrow> 'p list \<Rightarrow> bool" where
  "nameable nm ps \<longleftrightarrow> distinct (map nm ps) \<and> (\<forall>j < length ps. nm (ps ! j) = [] \<longrightarrow> j = 0)"

definition token_ok :: "('p \<Rightarrow> string) \<Rightarrow> ('p, 'o) partition_lister \<Rightarrow> int \<Rightarrow> 'p list \<Rightarrow> list_state \<Rightarrow> bool" where
  "token_ok nm lister limit ps st \<longleftrightarrow>
     (\<forall>p \<in> set ps. nm p = ls_PartitionName st \<longrightarrow> offset_ok lister limit p st)"

lemma index_of_nth: "distinct (map nm ps) \<Longrightarrow> j < length ps \<Longrightarrow> index_of nm ps (nm (ps ! j)) = Some j"
  by (induction ps arbitrary: j) (auto simp: nth_Cons split: nat.splits)

lemma named_index:
  assumes "nameable nm ps" and "j < length ps" and "nm (ps ! j) = x"
  shows "indexOrZero nm ps x = j"
  using assms index_of_nth [of nm ps j] by (auto simp: nameable_def indexOrZero_def)

lemma left_of_later:
  assumes "nameable nm ps" and "indexOrZero nm ps (ls_PartitionName st) < j"
  shows "map (left_of nm rest st) (drop j ps) = map (\<lambda>p. rest p []) (drop j ps)"
proof (rule map_cong [OF refl])
  fix p
  assume "p \<in> set (drop j ps)"
  then obtain k where k: "k < length (drop j ps)" "drop j ps ! k = p" by (metis in_set_conv_nth)
  then have "j + k < length ps" "p = ps ! (j + k)" by simp_all
  with named_index [OF assms(1)] assms(2) show "left_of nm rest st p = rest p []"
    by (fastforce simp: left_of_def)
qed

lemma remaining_at:
  assumes "nameable nm ps" and "j < length ps" and "nm (ps ! j) = ls_PartitionName t"
  shows "remaining nm rest ps t = left_of nm rest t (ps ! j) @ concat (map (\<lambda>p. rest p []) (drop (Suc j) ps))"
proof -
  have j: "indexOrZero nm ps (ls_PartitionName t) = j" using named_index [OF assms] .
  show ?thesis
    unfolding remaining_def j Cons_nth_drop_Suc [OF assms(2), symmetric]
    using left_of_later [OF assms(1), of t "Suc j" rest] j by (simp del: map_eq_conv)
qed

subsection \<open>The invariant of a run\<close>

definition run_data ::
  "('p \<Rightarrow> string) \<Rightarrow> ('p, 'o) partition_lister \<Rightarrow> ('p \<Rightarrow> string \<Rightarrow> 'o api_object list) \<Rightarrow> int \<Rightarrow> 'p list
   \<Rightarrow> list_state \<Rightarrow> nat \<Rightarrow> 'o shared \<Rightarrow> bool" where
  "run_data nm lister rest limit ps state d sh \<longleftrightarrow>
     (case sh_state sh of
        None \<Rightarrow> remaining nm rest ps state =
            concat (sh_result sh) @ concat (map (left_of nm rest state) (drop d ps)) \<and>
          sh_capacity sh = limit - int (length (concat (sh_result sh))) \<and> 0 \<le> sh_capacity sh
      | Some t \<Rightarrow> remaining nm rest ps state = concat (sh_result sh) @ remaining nm rest ps t \<and>
          sh_capacity sh = 0 \<and> int (length (concat (sh_result sh))) = limit \<and>
          ls_Limit t = limit \<and> token_ok nm lister limit ps t)"

definition run_inv ::
  "('p \<Rightarrow> string) \<Rightarrow> ('p, 'o) partition_lister \<Rightarrow> ('p \<Rightarrow> string \<Rightarrow> 'o api_object list) \<Rightarrow> int \<Rightarrow> 'p list
   \<Rightarrow> list_state \<Rightarrow> 'o run \<Rightarrow> bool" where
  "run_inv nm lister rest limit ps state r \<longleftrightarrow>
     indexOrZero nm ps (ls_PartitionName state) \<le> r_done r \<and> r_done r \<le> started r \<and>
     (\<forall>n. r_feeder r = Acquiring n \<longrightarrow> n < length ps) \<and>
     (started r \<le> length ps \<or> started r = indexOrZero nm ps (ls_PartitionName state)) \<and>
     (\<forall>n. r_feeder r = Stopped n \<longrightarrow> r_err r = None \<longrightarrow> \<not> r_cancelled r \<longrightarrow> n < length ps \<longrightarrow> sh_capacity (r_shared r) \<le> 0) \<and>
     (r_err r = None \<longrightarrow> \<not> r_cancelled r \<longrightarrow> run_data nm lister rest limit ps state (r_done r) (r_shared r))"

lemma run_inv_start: "limit \<ge> 0 \<Longrightarrow> run_inv nm lister rest limit ps state (run_start nm limit ps state)"
  by (simp add: run_inv_def run_data_def run_start_def Let_def started_def remaining_def)

text \<open>A worker's turn keeps the data part and never gives capacity back.\<close>

lemma run_data_work:
  assumes "paged lister rest limit" and "nameable nm ps" and "token_ok nm lister limit ps state"
    and "run_data nm lister rest limit ps state d shared"
    and "indexOrZero nm ps (ls_PartitionName state) \<le> d" and "d < length ps"
    and "worker_loop nm lister limit (ps ! d) state shared = Some (Inr sh)"
  shows "run_data nm lister rest limit ps state (Suc d) sh \<and> sh_capacity sh \<le> sh_capacity shared"
proof (cases "sh_state shared")
  case (Some t)
  with worker_after_token [OF _ assms(7)] have "sh = shared" by simp
  with Some assms(4) show ?thesis by (simp add: run_data_def)
next
  case None
  let ?p = "ps ! d" and ?i = "indexOrZero nm ps (ls_PartitionName state)"
  from None assms(4) have rem: "remaining nm rest ps state = concat (sh_result shared) @ concat (map (left_of nm rest state) (drop d ps))"
    and cap: "sh_capacity shared = limit - int (length (concat (sh_result shared)))"
    and pos: "0 \<le> sh_capacity shared" by (simp_all add: run_data_def)
  have first: "offset_ok lister limit ?p state \<and> (ls_Offset state > 0 \<longrightarrow> sh_capacity shared = limit)"
    if "nm ?p = ls_PartitionName state"
  proof -
    have "d = ?i" using named_index [OF assms(2,6) that] by simp
    with rem cap have "sh_capacity shared = limit" by (simp add: remaining_def)
    with assms(3,6) that show ?thesis by (simp add: token_ok_def)
  qed
  have "worked nm lister rest limit ?p (left_of nm rest state ?p) shared sh"
    using worker_spec [OF assms(1) None pos, of nm ?p state] first cap assms(7) by auto
  note w = this [unfolded worked_def]
  have drop: "drop d ps = ?p # drop (Suc d) ps" using assms(6) by (simp add: Cons_nth_drop_Suc)
  show ?thesis
  proof (cases "sh_state sh")
    case None
    with w rem cap pos show ?thesis by (simp add: run_data_def drop)
  next
    case (Some t)
    with w obtain taken where t: "sh_capacity sh = 0" "ls_PartitionName t = nm ?p" "ls_Limit t = limit"
      "offset_ok lister limit ?p t" "concat (sh_result sh) = concat (sh_result shared) @ taken"
      "int (length taken) = sh_capacity shared" "left_of nm rest state ?p = taken @ left_of nm rest t ?p"
      by auto
    have "remaining nm rest ps t = left_of nm rest t ?p @ concat (map (\<lambda>p. rest p []) (drop (Suc d) ps))"
      by (rule remaining_at [OF assms(2,6)]) (simp add: t(2))
    moreover have "map (left_of nm rest state) (drop (Suc d) ps) = map (\<lambda>p. rest p []) (drop (Suc d) ps)"
      using assms(5) by (intro left_of_later [OF assms(2)]) simp
    ultimately have "remaining nm rest ps state = concat (sh_result sh) @ remaining nm rest ps t"
      using rem t(5,7) by (simp add: drop del: map_eq_conv)
    moreover have "token_ok nm lister limit ps t"
      unfolding token_ok_def
    proof (intro ballI impI)
      fix p assume "p \<in> set ps" and n: "nm p = ls_PartitionName t"
      then obtain k where "k < length ps" "ps ! k = p" by (metis in_set_conv_nth)
      with named_index [OF assms(2)] n t(2) assms(6) have "p = ?p" by metis
      then show "offset_ok lister limit p t" using t(4) by simp
    qed
    ultimately show ?thesis using Some t(1,3,5,6) cap pos by (simp add: run_data_def)
  qed
qed

lemma run_inv_step:
  assumes "paged lister rest limit" and "nameable nm ps" and "token_ok nm lister limit ps state"
  shows "feeder_step nm lister limit ps state r r' \<Longrightarrow> run_inv nm lister rest limit ps state r \<Longrightarrow>
    run_inv nm lister rest limit ps state r'"
proof (induction rule: feeder_step.induct)
  case (Work r sh)
  then have len: "r_done r < length ps" "indexOrZero nm ps (ls_PartitionName state) \<le> r_done r"
    and data: "\<not> r_cancelled r \<Longrightarrow> run_data nm lister rest limit ps state (r_done r) (r_shared r)" by (auto simp: run_inv_def)
  show ?case
  proof (cases "r_cancelled r")
    case True
    with Work len show ?thesis by (auto simp: run_inv_def started_def)
  next
    case False
    from run_data_work [OF assms data [OF False] len(2,1) Work(3)] Work len show ?thesis
      by (auto simp: run_inv_def started_def)
  qed
next
  case (Work_failed r err)
  then show ?case by (auto simp: run_inv_def started_def)
qed (auto simp: run_inv_def started_def)

lemma run_inv_reachable:
  assumes "paged lister rest limit" and "nameable nm ps" and "token_ok nm lister limit ps state" and "limit \<ge> 0"
    and "(feeder_step nm lister limit ps state)\<^sup>*\<^sup>* (run_start nm limit ps state) r"
  shows "run_inv nm lister rest limit ps state r"
  using assms(5)
proof (induction rule: rtranclp_induct)
  case base
  show ?case by (rule run_inv_start [OF assms(4)])
next
  case (step y z)
  then show ?case by (blast intro: run_inv_step [OF assms(1-3)])
qed

text \<open>
  A list whose request is cancelled may end as a complete one does: without an error, without a token, with partitions missing. When the context is over before
  the first look at it, nothing at all is sent.
\<close>

lemma cancelled_run_looks_complete:
  "\<exists>r. (feeder_step nm lister limit ps state)\<^sup>*\<^sup>* (run_start nm limit ps state) r \<and> r_feeder r = Stopped (r_done r) \<and> r_err r = None \<and>
     sh_result (r_shared r) = [] \<and> sh_state (r_shared r) = None"
proof -
  let ?r = "run_start nm limit ps state" and ?n = "indexOrZero nm ps (ls_PartitionName state)"
  have start: "r_feeder ?r = Checking ?n" "r_done ?r = ?n" "r_err ?r = None" "sh_result (r_shared ?r) = []" "sh_state (r_shared ?r) = None"
    by (simp_all add: run_start_def Let_def)
  have "feeder_step nm lister limit ps state ?r (?r\<lparr>r_cancelled := True\<rparr>)" by (rule feeder_step.Cancel)
  moreover have "feeder_step nm lister limit ps state (?r\<lparr>r_cancelled := True\<rparr>) (?r\<lparr>r_cancelled := True, r_feeder := Stopped ?n\<rparr>)"
    using feeder_step.Check_stop [of "?r\<lparr>r_cancelled := True\<rparr>" ?n ps] start by simp
  ultimately have "(feeder_step nm lister limit ps state)\<^sup>*\<^sup>* ?r (?r\<lparr>r_cancelled := True, r_feeder := Stopped ?n\<rparr>)"
    by (meson rtranclp.rtrancl_into_rtrancl rtranclp.rtrancl_refl)
  then show ?thesis by (intro exI [of _ "?r\<lparr>r_cancelled := True, r_feeder := Stopped ?n\<rparr>"]) (simp add: start)
qed

text \<open>
  C10. Pages neither lose nor repeat an object as long as there is a token. For data that do not change,
  a lister that keeps to its limit and a request that is not cancelled, whatever the interleaving of feeder and workers: the
  objects sent, followed by those the new token stands for, are exactly those the old token stood for,
  the page is full, and the new token is one to resume from. A page without a token is the rest of the
  data, unless it came out exactly full before all partitions had been started.
\<close>

theorem pages_account_for_objects:
  assumes "paged lister rest limit" and "nameable nm ps" and "token_ok nm lister limit ps state" and "limit > 0"
    and "(feeder_step nm lister limit ps state)\<^sup>*\<^sup>* (run_start nm limit ps state) r" and "finished r"
  shows "case sh_state (r_shared r) of
      Some t \<Rightarrow> remaining nm rest ps state = concat (sh_result (r_shared r)) @ remaining nm rest ps t \<and>
        int (length (concat (sh_result (r_shared r)))) = limit \<and> token_ok nm lister limit ps t \<and> ls_Limit t = limit
    | None \<Rightarrow> remaining nm rest ps state = concat (sh_result (r_shared r)) \<or>
        (r_done r < length ps \<and> int (length (concat (sh_result (r_shared r)))) = limit)"
proof -
  have inv: "run_inv nm lister rest limit ps state r" using run_inv_reachable [OF assms(1-3) _ assms(5)] assms(4) by simp
  have f: "r_feeder r = Stopped (r_done r)" "started r = r_done r" "r_err r = None" "\<not> r_cancelled r"
    using assms(6) by (simp_all add: finished_def started_def)
  show ?thesis
  proof (cases "sh_state (r_shared r)")
    case (Some t)
    with inv f show ?thesis by (simp add: run_inv_def run_data_def)
  next
    case None
    with inv f show ?thesis by (cases "r_done r < length ps") (simp_all add: run_inv_def run_data_def)
  qed
qed

text \<open>Two partitions of two objects each, one object to a page.\<close>

definition ex_rest :: "string \<Rightarrow> string \<Rightarrow> nat api_object list" where
  "ex_rest p cont =
     (let objs = map (\<lambda>n. \<lparr>obj_Type = p, obj_ID = n, obj_Object = None\<rparr>) [''1'', ''2'']
      in if cont = [] then objs else if cont = ''x'' then tl objs else [])"

definition ex_lister :: "(string, nat) partition_lister" where
  "ex_lister p cont revision limit =
     (case ex_rest p cont of
        [] \<Rightarrow> Inr empty_list
      | x # xs \<Rightarrow> if limit \<ge> 1 then Inr \<lparr>list_Revision = ''7'', list_Continue = (if cont = [] then ''x'' else []), list_Objects = [x]\<rparr>
          else Inl (OtherError ''limit''))"

lemma ex_lister_paged: "limit \<ge> 1 \<Longrightarrow> paged ex_lister ex_rest limit"
  unfolding paged_def
  by (intro conjI exI [of _ "\<lambda>p cont. if cont = [] then 1 else 0"])
    (auto simp: ex_lister_def ex_rest_def Let_def empty_list_def split: if_splits)

definition ex_run :: "nat run" where
  "ex_run =
     \<lparr>r_feeder = Stopped 1, r_done = 1,
      r_shared = \<lparr>sh_capacity = 0,
        sh_state = Some \<lparr>ls_Revision = ''7'', ls_PartitionName = ''p'', ls_Continue = ''x'', ls_Offset = 0, ls_Limit = 1\<rparr>,
        sh_revision = ''7'', sh_result = [take 1 (ex_rest ''p'' []), []]\<rparr>, r_err = None, r_cancelled = False\<rparr>"

lemma ex_worker:
  "worker_loop id ex_lister 1 ''p'' empty_list_state \<lparr>sh_capacity = 1, sh_state = None, sh_revision = [], sh_result = []\<rparr> =
     Some (Inr (r_shared ex_run))"
  by (subst worker_loop.simps, subst worker_loop.simps)
    (simp add: ex_lister_def ex_rest_def ex_run_def empty_list_state_def Let_def)

lemma ex_run_reachable:
  "(feeder_step id ex_lister 1 [''p'', ''q''] empty_list_state)\<^sup>*\<^sup>* (run_start id 1 [''p'', ''q''] empty_list_state) ex_run"
proof -
  let ?step = "feeder_step id ex_lister 1 [''p'', ''q''] empty_list_state"
  let ?r0 = "run_start id 1 [''p'', ''q''] empty_list_state :: nat run"
  have r0: "r_feeder ?r0 = Checking 0" "r_done ?r0 = 0" "r_err ?r0 = None" "\<not> r_cancelled ?r0"
    "r_shared ?r0 = \<lparr>sh_capacity = 1, sh_state = None, sh_revision = [], sh_result = []\<rparr>"
    by (simp_all add: run_start_def empty_list_state_def indexOrZero_def Let_def)
  let ?r1 = "?r0\<lparr>r_feeder := Acquiring 0\<rparr>"
  let ?r2 = "?r1\<lparr>r_feeder := Checking 1\<rparr>"
  let ?r3 = "?r2\<lparr>r_done := 1, r_shared := r_shared ex_run\<rparr>"
  have s1: "?step ?r0 ?r1" by (rule Check_ok) (simp_all add: r0)
  have s2: "?step ?r1 ?r2"
    using Acquire [of ?r1 0 empty_list_state] r0 by (simp add: slots_def empty_list_state_def)
  have s3: "?step ?r2 ?r3"
    using Work [of ?r2 id ex_lister 1 "[''p'', ''q'']" empty_list_state "r_shared ex_run"] r0 ex_worker
    by (simp add: started_def)
  have "?step ?r3 (?r3\<lparr>r_feeder := Stopped 1\<rparr>)" by (rule Check_stop) (simp_all add: ex_run_def)
  moreover have "?r3\<lparr>r_feeder := Stopped 1\<rparr> = ex_run" by (simp add: ex_run_def r0 run_start_def Let_def)
  ultimately have s4: "?step ?r3 ex_run" by simp
  show ?thesis
    by (rule converse_rtranclp_into_rtranclp [OF s1 converse_rtranclp_into_rtranclp [OF s2
          converse_rtranclp_into_rtranclp [OF s3 r_into_rtranclp [of ?step, OF s4]]]])
qed

lemma pages_account_for_objects_witness:
  "\<exists>t. sh_state (r_shared ex_run) = Some t \<and>
     remaining id ex_rest [''p'', ''q''] empty_list_state = take 1 (ex_rest ''p'' []) @ remaining id ex_rest [''p'', ''q''] t"
proof -
  have "nameable id [''p'', ''q'']" by (auto simp: nameable_def nth_Cons split: nat.splits)
  moreover have "token_ok id ex_lister 1 [''p'', ''q''] empty_list_state"
    by (simp add: token_ok_def offset_ok_def empty_list_state_def)
  moreover have "finished ex_run" by (simp add: finished_def ex_run_def)
  ultimately show ?thesis
    using pages_account_for_objects [OF ex_lister_paged _ _ _ ex_run_reachable] by (simp add: ex_run_def)
qed

text \<open>The run in which the first partition leaves no capacity and the feeder sees it at once.\<close>

definition shared_start :: "int \<Rightarrow> 'o shared" where
  "shared_start limit = \<lparr>sh_capacity = limit, sh_state = None, sh_revision = [], sh_result = []\<rparr>"

lemma first_partition_run:
  fixes sh :: "'o shared"
  assumes work: "worker_loop nm lister limit p state (shared_start limit) = Some (Inr sh)" and "sh_capacity sh \<le> 0" and "limit > 0"
    and "indexOrZero nm (p # qs) (ls_PartitionName state) = 0"
  shows "\<exists>r. (feeder_step nm lister limit (p # qs) state)\<^sup>*\<^sup>* (run_start nm limit (p # qs) state) r \<and> finished r \<and>
    r_shared r = sh \<and> r_done r = 1"
proof -
  let ?step = "feeder_step nm lister limit (p # qs) state"
  define r0 :: "'o run" where "r0 = run_start nm limit (p # qs) state"
  have r0: "r_feeder r0 = Checking 0" "r_done r0 = 0" "r_err r0 = None" "r_shared r0 = shared_start limit" "\<not> r_cancelled r0"
    using assms(4) by (simp_all add: r0_def run_start_def Let_def shared_start_def)
  define r3 where "r3 = r0\<lparr>r_feeder := Checking 1, r_done := 1, r_shared := sh\<rparr>"
  have slots: "0 < slots state" by (simp add: slots_def)
  have s1: "?step r0 (r0\<lparr>r_feeder := Acquiring 0\<rparr>)" by (rule Check_ok) (simp_all add: r0 shared_start_def assms(3))
  have s2: "?step (r0\<lparr>r_feeder := Acquiring 0\<rparr>) (r0\<lparr>r_feeder := Checking 1\<rparr>)"
    using Acquire [of "r0\<lparr>r_feeder := Acquiring 0\<rparr>" 0 state] r0 slots by simp
  have s3: "?step (r0\<lparr>r_feeder := Checking 1\<rparr>) r3"
    using Work [of "r0\<lparr>r_feeder := Checking 1\<rparr>" nm lister limit "p # qs" state sh] r0 work by (simp add: started_def r3_def)
  have s4: "?step r3 (r3\<lparr>r_feeder := Stopped 1\<rparr>)" by (rule Check_stop) (simp_all add: r3_def assms(2))
  have "?step\<^sup>*\<^sup>* r0 (r3\<lparr>r_feeder := Stopped 1\<rparr>)"
    by (rule converse_rtranclp_into_rtranclp [OF s1 converse_rtranclp_into_rtranclp [OF s2
          converse_rtranclp_into_rtranclp [OF s3 r_into_rtranclp [of ?step, OF s4]]]])
  then show ?thesis
    by (intro exI [of _ "r3\<lparr>r_feeder := Stopped 1\<rparr>"]) (simp add: r0_def [symmetric] finished_def r3_def r0)
qed

text \<open>
  A full page can lose the rest. When the first partition fills the page exactly, there is a run in
  which the feeder sees the empty capacity before it starts another partition: the run ends without an
  error and without a token, so the client takes the list for complete, whatever the other partitions hold.
\<close>

theorem full_page_may_lose_the_rest:
  fixes l :: "'o api_object_list"
  assumes "lister p [] [] limit = Inr l" and "list_Continue l = []" and "int (length (list_Objects l)) = limit"
    and "limit > 0"
  shows "\<exists>r. (feeder_step nm lister limit (p # qs) empty_list_state)\<^sup>*\<^sup>* (run_start nm limit (p # qs) empty_list_state) r \<and>
    finished r \<and> collect encode r = (\<lparr>list_Revision = list_Revision l, list_Continue = [], list_Objects = list_Objects l\<rparr>, None) \<and>
    r_done r = 1"
proof -
  define sh where "sh = \<lparr>sh_capacity = 0, sh_state = None, sh_revision = list_Revision l, sh_result = [list_Objects l]\<rparr>"
  have "worker_loop nm lister limit p empty_list_state (shared_start limit) = Some (Inr sh)"
    using assms by (subst worker_loop.simps) (simp add: shared_start_def sh_def empty_list_state_def Let_def)
  moreover have "indexOrZero nm (p # qs) (ls_PartitionName empty_list_state) = 0" by (simp add: indexOrZero_def empty_list_state_def)
  ultimately obtain r where "(feeder_step nm lister limit (p # qs) empty_list_state)\<^sup>*\<^sup>* (run_start nm limit (p # qs) empty_list_state) r"
    "finished r" "r_shared r = sh" "r_done r = 1"
    using first_partition_run [of nm lister limit p empty_list_state sh qs] assms(4) by (auto simp: sh_def)
  then show ?thesis by (intro exI [of _ r]) (simp add: collect_def lister_Continue_def finished_def sh_def)
qed

lemma full_page_may_lose_the_rest_witness:
  "\<exists>r. (feeder_step id (\<lambda>p cont revision limit. Inr \<lparr>list_Revision = ''7'', list_Continue = [], list_Objects = take 1 (ex_rest p [])\<rparr>) 1
       [''p'', ''q''] empty_list_state)\<^sup>*\<^sup>* (run_start id 1 [''p'', ''q''] empty_list_state) r \<and> finished r \<and>
     list_Continue (fst (collect (\<lambda>_. Inr ''t'') r)) = [] \<and> list_Objects (fst (collect (\<lambda>_. Inr ''t'') r)) = take 1 (ex_rest ''p'' [])"
proof -
  let ?lister = "\<lambda>p cont revision limit. Inr \<lparr>list_Revision = ''7'', list_Continue = [], list_Objects = take 1 (ex_rest p [])\<rparr>"
  have "\<exists>r. (feeder_step id ?lister 1 (''p'' # [''q'']) empty_list_state)\<^sup>*\<^sup>* (run_start id 1 (''p'' # [''q'']) empty_list_state) r \<and>
      finished r \<and> collect (\<lambda>_. Inr ''t'') r = (\<lparr>list_Revision = list_Revision \<lparr>list_Revision = ''7'', list_Continue = [], list_Objects = take 1 (ex_rest ''p'' [])\<rparr>,
        list_Continue = [], list_Objects = list_Objects \<lparr>list_Revision = ''7'', list_Continue = [], list_Objects = take 1 (ex_rest ''p'' [])\<rparr>\<rparr>, None) \<and>
      r_done r = 1"
    by (rule full_page_may_lose_the_rest) (simp_all add: ex_rest_def Let_def)
  then show ?thesis by auto
qed

text \<open>Every finished run over one partition ends with what its worker makes of it.\<close>

lemma only_partition_outcome:
  fixes sh :: "'o shared"
  assumes work: "worker_loop nm lister limit p t (shared_start limit) = Some (Inr sh)" and "limit > 0"
    and "indexOrZero nm [p] (ls_PartitionName t) = 0"
    and "(feeder_step nm lister limit [p] t)\<^sup>*\<^sup>* (run_start nm limit [p] t) r" and "finished r"
  shows "r_shared r = sh"
proof -
  define inv where "inv r \<longleftrightarrow> r_cancelled r \<or> r_err r = None \<and> r_done r \<le> started r \<and> started r \<le> 1 \<and>
      r_shared r = (if r_done r = 0 then shared_start limit else sh) \<and>
      (case r_feeder r of Checking n \<Rightarrow> True | Acquiring n \<Rightarrow> n = 0 | Stopped n \<Rightarrow> n = 1)" for r :: "'o run"
  from assms(4) have "inv r"
  proof (induction rule: rtranclp_induct)
    case base
    then show ?case using assms(3) by (simp add: inv_def run_start_def shared_start_def started_def Let_def)
  next
    case (step y z)
    show ?case
    proof (cases "r_cancelled z")
      case False
      then have "\<not> r_cancelled y" using step.hyps(2) by (auto elim: feeder_step.cases)
      with step.IH have IH: "r_err y = None \<and> r_done y \<le> started y \<and> started y \<le> 1 \<and>
        r_shared y = (if r_done y = 0 then shared_start limit else sh) \<and>
        (case r_feeder y of Checking n \<Rightarrow> True | Acquiring n \<Rightarrow> n = 0 | Stopped n \<Rightarrow> n = 1)" by (simp add: inv_def)
      from step.hyps(2) show ?thesis
      proof (cases rule: feeder_step.cases)
        case (Check_stop n)
        with IH assms(2) False have "n = 1" by (cases "n = 0") (auto simp: started_def shared_start_def)
        with Check_stop IH show ?thesis by (simp add: inv_def started_def)
      next
        case (Work sh')
        with IH have "r_done y = 0" "r_shared y = shared_start limit" by simp_all
        with Work work have "sh' = sh" by simp
        with Work \<open>r_done y = 0\<close> IH show ?thesis by (simp add: inv_def started_def)
      next
        case (Work_failed err)
        with IH have "r_done y = 0" "r_shared y = shared_start limit" by simp_all
        with Work_failed work show ?thesis by simp
      qed (use IH False in \<open>auto simp: inv_def started_def\<close>)
    qed (simp add: inv_def)
  qed
  with assms(5) show ?thesis by (simp add: inv_def finished_def)
qed

text \<open>
  A list larger than twice the page is never finished. The offset of a token counts from where the page began, not from the
  beginning of the list it is taken of. When the store answers with more objects than it was asked for, as API servers that
  know no limit do, the second page ends with the token it was asked with: whoever follows the tokens gets the same objects for ever.
\<close>

theorem oversized_page_repeats:
  fixes l :: "'o api_object_list"
  assumes "\<forall>revision. lister p [] revision limit = Inr l" and "int (length (list_Objects l)) > 2 * limit" and "limit > 0"
    and "t = \<lparr>ls_Revision = list_Revision l, ls_PartitionName = nm p, ls_Continue = [], ls_Offset = limit, ls_Limit = limit\<rparr>"
  shows "(\<exists>r. (feeder_step nm lister limit [p] empty_list_state)\<^sup>*\<^sup>* (run_start nm limit [p] empty_list_state) r \<and> finished r \<and>
      sh_state (r_shared r) = Some t \<and> concat (sh_result (r_shared r)) = take (nat limit) (list_Objects l)) \<and>
    (\<exists>r. (feeder_step nm lister limit [p] t)\<^sup>*\<^sup>* (run_start nm limit [p] t) r \<and> finished r) \<and>
    (\<forall>r. (feeder_step nm lister limit [p] t)\<^sup>*\<^sup>* (run_start nm limit [p] t) r \<and> finished r \<longrightarrow>
      sh_state (r_shared r) = Some t \<and> concat (sh_result (r_shared r)) = take (nat limit) (drop (nat limit) (list_Objects l)))"
proof (intro conjI allI impI)
  define sh0 where "sh0 = \<lparr>sh_capacity = 0, sh_state = Some t, sh_revision = list_Revision l, sh_result = [take (nat limit) (list_Objects l)]\<rparr>"
  define sh1 where "sh1 = sh0\<lparr>sh_result := [take (nat limit) (drop (nat limit) (list_Objects l))]\<rparr>"
  have first: "worker_loop nm lister limit p empty_list_state (shared_start limit) = Some (Inr sh0)"
    using assms by (subst worker_loop.simps) (simp add: shared_start_def sh0_def empty_list_state_def Let_def)
  have again: "worker_loop nm lister limit p t (shared_start limit) = Some (Inr sh1)"
    using assms by (subst worker_loop.simps) (simp add: shared_start_def sh0_def sh1_def Let_def)
  have zero: "indexOrZero nm [p] (ls_PartitionName empty_list_state) = 0" "indexOrZero nm [p] (ls_PartitionName t) = 0"
    by (simp_all add: indexOrZero_def empty_list_state_def assms(4))
  from first_partition_run [OF first _ assms(3) zero(1)] obtain r
    where "(feeder_step nm lister limit [p] empty_list_state)\<^sup>*\<^sup>* (run_start nm limit [p] empty_list_state) r" "finished r" "r_shared r = sh0"
    by (auto simp: sh0_def)
  then show "\<exists>r. (feeder_step nm lister limit [p] empty_list_state)\<^sup>*\<^sup>* (run_start nm limit [p] empty_list_state) r \<and> finished r \<and>
      sh_state (r_shared r) = Some t \<and> concat (sh_result (r_shared r)) = take (nat limit) (list_Objects l)"
    by (intro exI [of _ r]) (simp add: sh0_def)
  from first_partition_run [OF again _ assms(3) zero(2)] show "\<exists>r. (feeder_step nm lister limit [p] t)\<^sup>*\<^sup>* (run_start nm limit [p] t) r \<and> finished r"
    by (auto simp: sh0_def sh1_def)
  fix r
  assume "(feeder_step nm lister limit [p] t)\<^sup>*\<^sup>* (run_start nm limit [p] t) r \<and> finished r"
  then have "r_shared r = sh1" using only_partition_outcome [OF again assms(3) zero(2)] by blast
  then show "sh_state (r_shared r) = Some t"
    "concat (sh_result (r_shared r)) = take (nat limit) (drop (nat limit) (list_Objects l))"
    by (simp_all add: sh0_def sh1_def)
qed

lemma oversized_page_repeats_witness:
  "\<exists>r. (feeder_step id (\<lambda>p cont revision limit. Inr \<lparr>list_Revision = ''7'', list_Continue = [], list_Objects = replicate 3 empty_object\<rparr>) 1 [''p'']
       empty_list_state)\<^sup>*\<^sup>* (run_start id 1 [''p''] empty_list_state) (r :: nat run) \<and> finished r \<and>
     sh_state (r_shared r) = Some \<lparr>ls_Revision = ''7'', ls_PartitionName = ''p'', ls_Continue = [], ls_Offset = 1, ls_Limit = 1\<rparr>"
proof -
  let ?l = "\<lparr>list_Revision = ''7'', list_Continue = [], list_Objects = replicate 3 (empty_object :: nat api_object)\<rparr>"
  have "\<exists>r. (feeder_step id (\<lambda>p cont revision limit. Inr ?l) 1 [''p''] empty_list_state)\<^sup>*\<^sup>* (run_start id 1 [''p''] empty_list_state) r \<and> finished r \<and>
      sh_state (r_shared r) = Some \<lparr>ls_Revision = list_Revision ?l, ls_PartitionName = id ''p'', ls_Continue = [], ls_Offset = 1, ls_Limit = 1\<rparr> \<and>
      concat (sh_result (r_shared r)) = take (nat 1) (list_Objects ?l)"
    by (rule oversized_page_repeats [THEN conjunct1]) simp_all
  then show ?thesis by auto
qed

subsection \<open>A run can always be completed\<close>

lemma worker_returns:
  assumes "paged lister rest limit" and "nameable nm ps" and "token_ok nm lister limit ps state"
    and "run_inv nm lister rest limit ps state r" and "r_done r < started r" and "r_err r = None" and "\<not> r_cancelled r"
  shows "\<exists>res. worker_loop nm lister limit (ps ! r_done r) state (r_shared r) = Some res"
proof (cases "sh_state (r_shared r)")
  case (Some t)
  then show ?thesis by (subst worker_loop.simps) (auto simp: Let_def split: sum.splits)
next
  case None
  have d: "r_done r < length ps" and data: "run_data nm lister rest limit ps state (r_done r) (r_shared r)"
    using assms(4-7) by (auto simp: run_inv_def)
  have cap: "sh_capacity (r_shared r) = limit - int (length (concat (sh_result (r_shared r))))"
    and rem: "remaining nm rest ps state =
      concat (sh_result (r_shared r)) @ concat (map (left_of nm rest state) (drop (r_done r) ps))"
    and pos: "0 \<le> sh_capacity (r_shared r)"
    using data None by (simp_all add: run_data_def)
  have "sh_capacity (r_shared r) = limit" if "nm (ps ! r_done r) = ls_PartitionName state"
    using rem cap named_index [OF assms(2) d that] by (simp add: remaining_def)
  then show ?thesis
    using worker_spec [OF assms(1) None pos, of nm "ps ! r_done r" state] cap assms(3) d
    by (auto simp: token_ok_def)
qed

definition run_measure :: "nat \<Rightarrow> 'o run \<Rightarrow> nat" where
  "run_measure len r =
     (case r_feeder r of Checking n \<Rightarrow> 2 * (len - n) + 2 | Acquiring n \<Rightarrow> 2 * (len - n) + 1 | Stopped n \<Rightarrow> 0) +
     (len - r_done r)"

lemma run_progress:
  assumes "paged lister rest limit" and "nameable nm ps" and "token_ok nm lister limit ps state"
    and "run_inv nm lister rest limit ps state r" and "r_err r = None" and "\<not> finished r" and "\<not> r_cancelled r"
  shows "\<exists>r'. feeder_step nm lister limit ps state r r' \<and> \<not> r_cancelled r' \<and>
    (r_err r' \<noteq> None \<or> run_measure (length ps) r' < run_measure (length ps) r)"
proof -
  have work: ?thesis if d: "r_done r < started r"
  proof -
    have "r_done r < length ps" using assms(4) d by (auto simp: run_inv_def)
    moreover from worker_returns [OF assms(1-4) d assms(5,7)] obtain res where
      "worker_loop nm lister limit (ps ! r_done r) state (r_shared r) = Some res" by blast
    ultimately show ?thesis
      using Work [OF d assms(5), of nm lister limit ps state] Work_failed [OF d assms(5), of nm lister limit ps state]
      using assms(7) by (cases res) (fastforce simp: run_measure_def)+
  qed
  show ?thesis
  proof (cases "r_feeder r")
    case (Checking n)
    then show ?thesis
      using Check_ok [OF Checking _ _ assms(5,7), of ps nm lister limit state] Check_stop [OF Checking, of ps nm lister limit state]
      using assms(7) by (cases "n < length ps \<and> sh_capacity (r_shared r) > 0") (fastforce simp: run_measure_def)+
  next
    case (Acquiring n)
    then have "n < length ps" using assms(4) by (simp add: run_inv_def)
    with assms(7) Acquiring work Acquire [OF Acquiring _ assms(5), of state nm lister limit ps] show ?thesis
      by (cases "n - r_done r < slots state") (fastforce simp: run_measure_def slots_def started_def split: if_splits)+
  next
    case (Stopped n)
    with assms(4-7) work show ?thesis by (auto simp: run_inv_def finished_def started_def)
  qed
qed

text \<open>
  No run gets stuck. From every state a run can reach before its request's context is over, it can be completed: some continuation
  ends with all started workers done, or with the error of a call of the lister. In particular every
  worker returns.
\<close>

theorem run_can_complete:
  assumes "paged lister rest limit" and "nameable nm ps" and "token_ok nm lister limit ps state" and "limit > 0"
    and "(feeder_step nm lister limit ps state)\<^sup>*\<^sup>* (run_start nm limit ps state) r" and "\<not> r_cancelled r"
  shows "\<exists>r'. (feeder_step nm lister limit ps state)\<^sup>*\<^sup>* r r' \<and> (finished r' \<or> r_err r' \<noteq> None)"
proof -
  have "run_inv nm lister rest limit ps state r" using run_inv_reachable [OF assms(1-3) _ assms(5)] assms(4) by simp
  with assms(6) show ?thesis
  proof (induction "run_measure (length ps) r" arbitrary: r rule: less_induct)
    case less
    show ?case
    proof (cases "r_err r = None \<and> \<not> finished r")
      case True
      then obtain r1 where s: "feeder_step nm lister limit ps state r r1" and c: "\<not> r_cancelled r1"
        and m: "r_err r1 \<noteq> None \<or> run_measure (length ps) r1 < run_measure (length ps) r"
        using run_progress [OF assms(1-3) less.prems(2) _ _ less.prems(1)] by blast
      from m less.hyps [of r1] run_inv_step [OF assms(1-3) s less.prems(2)] c show ?thesis
        using converse_rtranclp_into_rtranclp [of "feeder_step nm lister limit ps state", OF s] by blast
    next
      case False
      then show ?thesis by blast
    qed
  qed
qed

lemma run_can_complete_witness:
  "\<exists>r'. (feeder_step id ex_lister 1 [''p'', ''q''] empty_list_state)\<^sup>*\<^sup>* ex_run r' \<and> (finished r' \<or> r_err r' \<noteq> None)"
proof -
  have "nameable id [''p'', ''q'']" by (auto simp: nameable_def nth_Cons split: nat.splits)
  moreover have "token_ok id ex_lister 1 [''p'', ''q''] empty_list_state"
    by (simp add: token_ok_def offset_ok_def empty_list_state_def)
  ultimately show ?thesis
    using run_can_complete [OF ex_lister_paged _ _ _ ex_run_reachable] by (simp add: ex_run_def)
qed

end
