(* ===== verification/Request_Parse.thy ===== *)
theory Request_Parse
  imports Proxy_Store
begin

section \<open>Parsing a request: pkg/parse\<close>

text \<open>
  How an HTTP request becomes an API request: response format, method, the parts of the URL that mux
  matched, the schema, and the check that the schema allows the method. \<open>Parse\<close> changes the API
  request it is given also when it returns an error, so it returns both here.

  The route variables of mux are the field \<open>rq_Vars\<close> of the request. Multipart and form parsing and the
  JSON and YAML decoders are library code: the record \<open>body_env\<close> holds what they return for a request.
\<close>

record parsed_url =
  pu_Type :: string
  pu_Name :: string
  pu_Namespace :: string
  pu_Link :: string
  pu_Method :: string
  pu_Action :: string
  pu_Prefix :: string
  pu_Query :: url_values

subsection \<open>browser.go\<close>

definition IsBrowser :: "http_request \<Rightarrow> bool \<Rightarrow> bool" where
  "IsBrowser r checkAccepts =
     (let accepts = to_lower (header_get (rq_Header r) ''Accept'');
          userAgent = to_lower (header_get (rq_Header r) ''User-Agent'');
          accepts = (if accepts = [] \<or> \<not> checkAccepts then ''*/*'' else accepts)
      in str_contains userAgent ''mozilla'' \<and> str_contains accepts ''*/*'')"

definition MatchBrowser :: "http_request \<Rightarrow> bool" where
  "MatchBrowser r = IsBrowser r True"

definition MatchNotBrowser :: "http_request \<Rightarrow> bool" where
  "MatchNotBrowser r = (\<not> MatchBrowser r)"

subsection \<open>mux.go\<close>

record vars =
  v_Type :: string
  v_Name :: string
  v_Namespace :: string
  v_Link :: string
  v_Prefix :: string
  v_Action :: string

definition set_var :: "string \<Rightarrow> string \<Rightarrow> (string, string) gomap \<Rightarrow> (string, string) gomap" where
  "set_var k x m = (if x \<noteq> [] then mput k x m else m)"

text \<open>The matcher \<open>Set\<close> returns, on the variables of the match; a nil map is made first.\<close>

definition Set :: "vars \<Rightarrow> (string, string) gomap option \<Rightarrow> (string, string) gomap" where
  "Set v m =
     (let m = (case m of None \<Rightarrow> [] | Some m \<Rightarrow> m);
          m = set_var ''type'' (v_Type v) m;
          m = set_var ''name'' (v_Name v) m;
          m = set_var ''link'' (v_Link v) m;
          m = set_var ''prefix'' (v_Prefix v) m;
          m = set_var ''action'' (v_Action v) m
      in set_var ''namespace'' (v_Namespace v) m)"

definition MuxURLParser :: "http_request \<Rightarrow> parsed_url \<times> go_err option" where
  "MuxURLParser r =
     (let vs = rq_Vars r in
      (\<lparr>pu_Type = mgetd [] vs ''type'', pu_Name = mgetd [] vs ''name'', pu_Namespace = mgetd [] vs ''namespace'',
        pu_Link = mgetd [] vs ''link'', pu_Method = rq_Method r, pu_Action = mgetd [] vs ''action'',
        pu_Prefix = mgetd [] vs ''prefix'', pu_Query = rq_Query r\<rparr>, None))"

subsection \<open>validate.go\<close>

definition supportedMethods :: "string list" where
  "supportedMethods = [MethodPost, MethodGet, MethodPut, MethodPatch, MethodDelete]"

definition ValidateMethod :: "api_request \<Rightarrow> go_err option" where
  "ValidateMethod op =
     (if op_Action op \<noteq> [] \<and> op_Method op = MethodPost then None
      else if op_Method op \<notin> set supportedMethods
      then Some (NewAPIError MethodNotAllowed (sprintf ''Invalid method %s not supported'' [op_Method op]))
      else (case op_Schema op of
          None \<Rightarrow> None
        | Some s \<Rightarrow>
            if op_Type op = [] \<or> op_Link op \<noteq> [] then None
            else
              let allowed = (if op_Name op = [] then CollectionMethods s else ResourceMethods s) in
              if list_ex (\<lambda>m. m = op_Method op \<or> (op_Name op = [] \<and> op_Method op = MethodGet \<and> m = MethodPost)) allowed
              then None
              else Some (NewAPIError PermissionDenied (sprintf ''Method %s not supported'' [op_Method op]))))"

subsection \<open>parse.go\<close>

definition allowedFormats :: "string list" where
  "allowedFormats = [''html'', ''json'', ''jsonl'', ''yaml'']"

text \<open>\<^verbatim>\<open>strings.TrimSpace\<close> on ASCII white space.\<close>

definition is_space :: "char \<Rightarrow> bool" where
  "is_space c = (let n = of_char c :: nat in n = 32 \<or> (9 \<le> n \<and> n \<le> 13))"

definition trim_space :: "string \<Rightarrow> string" where
  "trim_space s = rev (dropWhile is_space (rev (dropWhile is_space s)))"

definition isYaml :: "http_request \<Rightarrow> bool" where
  "isYaml r = str_contains (header_get (rq_Header r) ''Accept'') ''application/yaml''"

definition isJSONL :: "http_request \<Rightarrow> bool" where
  "isJSONL r = str_contains (header_get (rq_Header r) ''Accept'') ''application/jsonl''"

definition parseResponseFormat :: "http_request \<Rightarrow> string" where
  "parseResponseFormat r =
     (let format = values_get (rq_Query r) ''_format'';
          format = (if format \<noteq> [] then trim_space (to_lower format) else format)
      in if format \<in> set allowedFormats then format
         else if IsBrowser r True then ''html''
         else if isYaml r then ''yaml''
         else if isJSONL r then ''jsonl''
         else ''json'')"

definition parseMethod :: "http_request \<Rightarrow> string" where
  "parseMethod r = (let m = values_get (rq_Query r) ''_method'' in if m = [] then rq_Method r else m)"

definition or_else :: "string \<Rightarrow> string \<Rightarrow> string" where
  "or_else x y = (if x = [] then y else x)"

type_synonym url_parser = "http_request \<Rightarrow> parsed_url \<times> go_err option"

text \<open>The first part of \<open>Parse\<close>: what the request and the parsed URL fill in where nothing is set.\<close>

definition fill_request :: "http_request \<Rightarrow> parsed_url \<Rightarrow> api_request \<Rightarrow> api_request" where
  "fill_request r pu op =
     (let op = op\<lparr>op_Request := Some r,
                op_Method := or_else (op_Method op) (parseMethod r),
                op_ResponseFormat := or_else (op_ResponseFormat op) (parseResponseFormat r)\<rparr>
      in op\<lparr>op_Type := or_else (op_Type op) (pu_Type pu),
            op_Name := or_else (op_Name op) (pu_Name pu),
            op_Link := or_else (op_Link op) (pu_Link pu),
            op_Action := or_else (op_Action op) (pu_Action pu),
            op_Query := (case op_Query op of None \<Rightarrow> Some (pu_Query pu) | Some q \<Rightarrow> Some q),
            op_Method := (if op_Method op = [] \<and> pu_Method pu \<noteq> [] then pu_Method pu else op_Method op),
            op_URLPrefix := or_else (op_URLPrefix op) (pu_Prefix pu),
            op_Namespace := or_else (op_Namespace op) (pu_Namespace pu)\<rparr>)"

text \<open>The last part: schema, type, error handler.\<close>

definition resolve_schema :: "api_request \<Rightarrow> api_request" where
  "resolve_schema op =
     (let op = (case (op_Schema op, op_Schemas op) of
             (None, Some schemas) \<Rightarrow> op\<lparr>op_Schema := LookupSchema schemas (op_Type op)\<rparr>
           | _ \<Rightarrow> op);
          op = (case op_Schema op of None \<Rightarrow> op | Some s \<Rightarrow> op\<lparr>op_Type := ID s\<rparr>)
      in case (op_Schema op, op_ErrorHandler op) of
           (Some s, Some _) \<Rightarrow> op\<lparr>op_ErrorHandler := ErrorHandler s\<rparr>
         | _ \<Rightarrow> op)"

definition Parse :: "parse_url \<Rightarrow> url_parser \<Rightarrow> api_request \<Rightarrow> go_err option \<times> api_request" where
  "Parse parse urlParser op =
     (let r = (case op_Request op of None \<Rightarrow> new_request | Some r \<Rightarrow> r) in
      case urlParser r of
        (pu, err) \<Rightarrow>
          (let op = fill_request r pu op in
           case (case op_URLBuilder op of
                   Some b \<Rightarrow> Inr op
                 | None \<Rightarrow>
                     (case NewURLBuilder parse r (op_URLPrefix op) of
                        Inl e \<Rightarrow> Inl e
                      | Inr b \<Rightarrow> Inr (op\<lparr>op_URLBuilder := Some b\<rparr>))) of
             Inl e \<Rightarrow> (Some e, op)
           | Inr op \<Rightarrow>
               (case err of
                  Some e \<Rightarrow> (Some e, op)
                | None \<Rightarrow> (let op = resolve_schema op in (ValidateMethod op, op)))))"

subsection \<open>Bodies\<close>

record body_env =
  be_MultipartForm :: "http_request \<Rightarrow> (string, string list) gomap option"
  be_PostForm :: "http_request \<Rightarrow> (string, string list) gomap"
  be_Form :: "http_request \<Rightarrow> (string, string list) gomap"
  be_decode_yaml :: "http_request \<Rightarrow> string + obj"
  be_decode_json :: "http_request \<Rightarrow> string + obj"

definition bodyMethods :: "string list" where
  "bodyMethods = [MethodPut, MethodPost]"

definition body_toAPI :: "lib \<Rightarrow> obj \<Rightarrow> payload api_object" where
  "body_toAPI L m =
     \<lparr>obj_Type = L_ToString L (mgetd JNull m ''type''), obj_ID = L_ToString L (mgetd JNull m ''id''),
      obj_Object = Some (Value (JObj m))\<rparr>"

definition valuesToBody :: "lib \<Rightarrow> (string, string list) gomap \<Rightarrow> payload api_object" where
  "valuesToBody L input = body_toAPI L (map (\<lambda>(k, v). (k, JArr (map JStr v))) input)"

definition ReadBody :: "lib \<Rightarrow> body_env \<Rightarrow> http_request \<Rightarrow> go_err + payload api_object" where
  "ReadBody L B r =
     (if rq_Method r \<notin> set bodyMethods then Inr empty_object
      else (case (if header_get (rq_Header r) ''Content-type'' = ''application/yaml''
                  then be_decode_yaml B r else be_decode_json B r) of
          Inl err \<Rightarrow> Inl (NewAPIError InvalidBodyContent (sprintf ''Failed to parse body: %s'' [err]))
        | Inr m \<Rightarrow> Inr (body_toAPI L m)))"

definition Body :: "lib \<Rightarrow> body_env \<Rightarrow> http_request \<Rightarrow> go_err + payload api_object" where
  "Body L B r =
     (case be_MultipartForm B r of
        Some m \<Rightarrow> Inr (valuesToBody L m)
      | None \<Rightarrow>
          if length (be_PostForm B r) > 0 then Inr (valuesToBody L (be_Form B r))
          else ReadBody L B r)"

section \<open>What a parsed request satisfies\<close>

lemma fill_request_fields [simp]:
  "op_Request (fill_request r pu op) = Some r" "op_Schema (fill_request r pu op) = op_Schema op"
  "op_Schemas (fill_request r pu op) = op_Schemas op" "op_ErrorHandler (fill_request r pu op) = op_ErrorHandler op"
  "op_URLBuilder (fill_request r pu op) = op_URLBuilder op"
  "op_Name (fill_request r pu op) = or_else (op_Name op) (pu_Name pu)"
  "op_Type (fill_request r pu op) = or_else (op_Type op) (pu_Type pu)"
  "op_Namespace (fill_request r pu op) = or_else (op_Namespace op) (pu_Namespace pu)"
  "op_Link (fill_request r pu op) = or_else (op_Link op) (pu_Link pu)"
  "op_Action (fill_request r pu op) = or_else (op_Action op) (pu_Action pu)"
  "op_ResponseFormat (fill_request r pu op) = or_else (op_ResponseFormat op) (parseResponseFormat r)"
  "op_Query (fill_request r pu op) = (case op_Query op of None \<Rightarrow> Some (pu_Query pu) | Some q \<Rightarrow> Some q)"
  "op_URLPrefix (fill_request r pu op) = or_else (op_URLPrefix op) (pu_Prefix pu)"
  by (simp_all add: fill_request_def Let_def)

lemma fill_request_method:
  "op_Method (fill_request r pu op) = or_else (op_Method op) (or_else (parseMethod r) (pu_Method pu))"
  by (auto simp: fill_request_def Let_def or_else_def)

lemma resolve_schema_fields [simp]:
  "op_Request (resolve_schema op) = op_Request op" "op_Method (resolve_schema op) = op_Method op"
  "op_Name (resolve_schema op) = op_Name op" "op_Namespace (resolve_schema op) = op_Namespace op"
  "op_Link (resolve_schema op) = op_Link op" "op_Action (resolve_schema op) = op_Action op"
  "op_ResponseFormat (resolve_schema op) = op_ResponseFormat op" "op_Query (resolve_schema op) = op_Query op"
  "op_URLPrefix (resolve_schema op) = op_URLPrefix op" "op_URLBuilder (resolve_schema op) = op_URLBuilder op"
  by (auto simp: resolve_schema_def Let_def split: option.splits)

lemma resolve_schema_handler:
  "op_ErrorHandler (resolve_schema op) =
     (case (op_Schema (resolve_schema op), op_ErrorHandler op) of (Some s, Some _) \<Rightarrow> ErrorHandler s | _ \<Rightarrow> op_ErrorHandler op)"
  by (auto simp: resolve_schema_def Let_def split: option.splits)

lemma resolve_schema_type:
  "op_Schema (resolve_schema op) = Some s \<Longrightarrow> op_Type (resolve_schema op) = ID s"
  "op_Schema (resolve_schema op) = None \<Longrightarrow> op_Type (resolve_schema op) = op_Type op"
  "op_Schema op = Some s \<Longrightarrow> op_Schema (resolve_schema op) = Some s"
  by (auto simp: resolve_schema_def Let_def split: option.splits)

lemma parse_formats: "parseResponseFormat r \<in> set allowedFormats"
  by (auto simp: parseResponseFormat_def Let_def allowedFormats_def)

lemma ValidateMethod_None:
  assumes "ValidateMethod op = None"
  shows "(op_Action op \<noteq> [] \<and> op_Method op = MethodPost) \<or>
    (op_Method op \<in> set supportedMethods \<and>
     (\<forall>s. op_Schema op = Some s \<and> op_Type op \<noteq> [] \<and> op_Link op = [] \<longrightarrow>
        op_Method op \<in> set (if op_Name op = [] then CollectionMethods s else ResourceMethods s) \<or>
        (op_Name op = [] \<and> op_Method op = MethodGet \<and> MethodPost \<in> set (CollectionMethods s))))"
  using assms
  by (auto simp: ValidateMethod_def Let_def list_ex_iff split: if_splits option.splits)

lemma Parse_cases:
  assumes "Parse parse urlParser op = (err, op')"
    and "urlParser (case op_Request op of None \<Rightarrow> new_request | Some r \<Rightarrow> r) = (pu, e)"
    and "r = (case op_Request op of None \<Rightarrow> new_request | Some r \<Rightarrow> r)"
  shows "\<exists>b. (op_URLBuilder op \<noteq> None \<longrightarrow> b = op_URLBuilder op) \<and>
    ((op' = (fill_request r pu op)\<lparr>op_URLBuilder := b\<rparr> \<and> err \<noteq> None) \<or>
      (op' = resolve_schema ((fill_request r pu op)\<lparr>op_URLBuilder := b\<rparr>) \<and> err = ValidateMethod op'))"
proof -
  let ?f = "fill_request r pu op"
  have same: "?f = ?f\<lparr>op_URLBuilder := op_URLBuilder ?f\<rparr>" by simp
  have P: "Parse parse urlParser op =
      (case (case op_URLBuilder ?f of Some b \<Rightarrow> Inr ?f
             | None \<Rightarrow> (case NewURLBuilder parse r (op_URLPrefix ?f) of
                  Inl e \<Rightarrow> Inl e | Inr b \<Rightarrow> Inr (?f\<lparr>op_URLBuilder := Some b\<rparr>))) of
         Inl e \<Rightarrow> (Some e, ?f)
       | Inr op \<Rightarrow> (case e of Some e \<Rightarrow> (Some e, op) | None \<Rightarrow> (let op = resolve_schema op in (ValidateMethod op, op))))"
    using assms(2) unfolding Parse_def Let_def assms(3) [symmetric] by simp
  show ?thesis
  proof (cases "op_URLBuilder ?f")
    case (Some b)
    have eq: "?f\<lparr>op_URLBuilder := Some b\<rparr> = ?f" by (metis same Some)
    show ?thesis
      using assms(1) P Some by (intro exI [of _ "Some b"], unfold eq, cases e) (auto simp: Let_def)
  next
    case None
    show ?thesis
    proof (cases "NewURLBuilder parse r (op_URLPrefix ?f)")
      case (Inl x)
      have eq: "?f\<lparr>op_URLBuilder := None\<rparr> = ?f" by (metis same None)
      show ?thesis using assms(1) P None Inl by (intro exI [of _ "None"], unfold eq) auto
    next
      case (Inr b)
      then show ?thesis using assms(1) P None by (intro exI [of _ "Some b"], cases e) (auto simp: Let_def)
    qed
  qed
qed

text \<open>The fields of a request that came through to the last part of \<open>Parse\<close>, and of one that did not.\<close>

lemma Parse_fields:
  assumes "Parse parse urlParser op = (err, op')" and "r = (case op_Request op of None \<Rightarrow> new_request | Some r \<Rightarrow> r)"
  shows "\<exists>pu e. urlParser r = (pu, e) \<and>
    op_Name op' = or_else (op_Name op) (pu_Name pu) \<and> op_Namespace op' = or_else (op_Namespace op) (pu_Namespace pu) \<and>
    op_Method op' = or_else (op_Method op) (or_else (parseMethod r) (pu_Method pu)) \<and>
    op_Link op' = or_else (op_Link op) (pu_Link pu) \<and> op_Action op' = or_else (op_Action op) (pu_Action pu) \<and>
    op_ResponseFormat op' = or_else (op_ResponseFormat op) (parseResponseFormat r) \<and>
    op_URLPrefix op' = or_else (op_URLPrefix op) (pu_Prefix pu) \<and>
    op_Query op' = (case op_Query op of None \<Rightarrow> Some (pu_Query pu) | Some q \<Rightarrow> Some q) \<and>
    (op_URLBuilder op \<noteq> None \<longrightarrow> op_URLBuilder op' = op_URLBuilder op) \<and>
    (op_Schema op \<noteq> None \<longrightarrow> op_Schema op' = op_Schema op) \<and>
    (op_Type op' = or_else (op_Type op) (pu_Type pu) \<or> (\<exists>s. op_Schema op' = Some s \<and> op_Type op' = ID s)) \<and>
    (op_ErrorHandler op = None \<longrightarrow> op_ErrorHandler op' = None) \<and>
    (err = None \<longrightarrow> ValidateMethod op' = None \<and> (\<forall>s. op_Schema op' = Some s \<longrightarrow> op_Type op' = ID s \<and>
       (op_ErrorHandler op \<noteq> None \<longrightarrow> op_ErrorHandler op' = ErrorHandler s)))"
proof -
  obtain pu e where pu: "urlParser r = (pu, e)" by (cases "urlParser r")
  obtain b where b: "op_URLBuilder op \<noteq> None \<longrightarrow> b = op_URLBuilder op"
    and cases: "(op' = (fill_request r pu op)\<lparr>op_URLBuilder := b\<rparr> \<and> err \<noteq> None) \<or>
      (op' = resolve_schema ((fill_request r pu op)\<lparr>op_URLBuilder := b\<rparr>) \<and> err = ValidateMethod op')"
    using assms pu by (auto dest!: Parse_cases)
  let ?op = "(fill_request r pu op)\<lparr>op_URLBuilder := b\<rparr>"
  have handler: "op_ErrorHandler (resolve_schema ?op) =
      (case (op_Schema (resolve_schema ?op), op_ErrorHandler op) of (Some s, Some _) \<Rightarrow> ErrorHandler s | _ \<Rightarrow> op_ErrorHandler op)"
    using resolve_schema_handler [of ?op] by (simp split: option.splits)
  from cases show ?thesis
    using b handler resolve_schema_type [of ?op]
    by (intro exI [of _ pu] exI [of _ e] conjI pu; elim disjE conjE) (auto simp: fill_request_method split: option.splits)
qed

text \<open>
  C27. What \<open>Parse\<close> promises. Whatever the URL says, and also when it returns an error, the name, the namespace, the method, the link, the action, the query, the
  prefix, the response format, the schema and the URL builder stay as the caller has set them, and the URL and the request count only for those that are not set. The type does not always stay:
  once a schema is set or found, its id replaces the type. If the caller set no response
  format or one of the four formats, the response format is one of the four. Without an error the method is one
  the schema allows for the collection or the resource, or it is an action by POST, or there is a link, or
  there is no schema to ask. The schema's own error handler takes effect
  only if the request came with a handler already, which it then replaces, be it by none.
\<close>

theorem parse_result:
  assumes "Parse parse urlParser op = (err, op')"
  shows "(op_Name op \<noteq> [] \<longrightarrow> op_Name op' = op_Name op) \<and> (op_Namespace op \<noteq> [] \<longrightarrow> op_Namespace op' = op_Namespace op) \<and>
    (op_Method op \<noteq> [] \<longrightarrow> op_Method op' = op_Method op) \<and> (op_Link op \<noteq> [] \<longrightarrow> op_Link op' = op_Link op) \<and>
    (op_Action op \<noteq> [] \<longrightarrow> op_Action op' = op_Action op) \<and> (op_Query op \<noteq> None \<longrightarrow> op_Query op' = op_Query op) \<and>
    (op_URLPrefix op \<noteq> [] \<longrightarrow> op_URLPrefix op' = op_URLPrefix op) \<and> (op_URLBuilder op \<noteq> None \<longrightarrow> op_URLBuilder op' = op_URLBuilder op) \<and>
    (op_Schema op \<noteq> None \<longrightarrow> op_Schema op' = op_Schema op) \<and>
    (op_Type op \<noteq> [] \<longrightarrow> op_Type op' = op_Type op \<or> (\<exists>s. op_Schema op' = Some s \<and> op_Type op' = ID s)) \<and>
    (op_ResponseFormat op \<noteq> [] \<longrightarrow> op_ResponseFormat op' = op_ResponseFormat op) \<and>
    (op_ResponseFormat op \<in> {[]} \<union> set allowedFormats \<longrightarrow> op_ResponseFormat op' \<in> set allowedFormats) \<and>
    (op_ErrorHandler op = None \<longrightarrow> op_ErrorHandler op' = None) \<and>
    (err = None \<longrightarrow>
       (op_ErrorHandler op \<noteq> None \<longrightarrow> (\<forall>s. op_Schema op' = Some s \<longrightarrow> op_ErrorHandler op' = ErrorHandler s)) \<and>
       (\<forall>s. op_Schema op' = Some s \<longrightarrow> op_Type op' = ID s \<and>
         ((op_Action op' \<noteq> [] \<and> op_Method op' = MethodPost) \<or>
          (op_Method op' \<in> set supportedMethods \<and>
           (ID s \<noteq> [] \<and> op_Link op' = [] \<longrightarrow>
             op_Method op' \<in> set (if op_Name op' = [] then CollectionMethods s else ResourceMethods s) \<or>
             (op_Name op' = [] \<and> op_Method op' = MethodGet \<and> MethodPost \<in> set (CollectionMethods s)))))))"
proof -
  define r where "r = (case op_Request op of None \<Rightarrow> new_request | Some r \<Rightarrow> r)"
  obtain pu :: parsed_url where fields: "op_Name op' = or_else (op_Name op) (pu_Name pu)" "op_Namespace op' = or_else (op_Namespace op) (pu_Namespace pu)"
      "op_Method op' = or_else (op_Method op) (or_else (parseMethod r) (pu_Method pu))"
      "op_Link op' = or_else (op_Link op) (pu_Link pu)" "op_Action op' = or_else (op_Action op) (pu_Action pu)"
      "op_ResponseFormat op' = or_else (op_ResponseFormat op) (parseResponseFormat r)" "op_URLPrefix op' = or_else (op_URLPrefix op) (pu_Prefix pu)"
      "op_Query op' = (case op_Query op of None \<Rightarrow> Some (pu_Query pu) | Some q \<Rightarrow> Some q)"
    and rest: "op_URLBuilder op \<noteq> None \<longrightarrow> op_URLBuilder op' = op_URLBuilder op" "op_Schema op \<noteq> None \<longrightarrow> op_Schema op' = op_Schema op"
      "op_Type op' = or_else (op_Type op) (pu_Type pu) \<or> (\<exists>s. op_Schema op' = Some s \<and> op_Type op' = ID s)"
      "op_ErrorHandler op = None \<longrightarrow> op_ErrorHandler op' = None"
    and resolved: "err = None \<longrightarrow> ValidateMethod op' = None \<and> (\<forall>s. op_Schema op' = Some s \<longrightarrow> op_Type op' = ID s \<and>
       (op_ErrorHandler op \<noteq> None \<longrightarrow> op_ErrorHandler op' = ErrorHandler s))"
    using Parse_fields [OF assms r_def] by (elim exE conjE) (rule that, assumption+)
  have allowed: "op_Action op' \<noteq> [] \<and> op_Method op' = MethodPost \<or> op_Method op' \<in> set supportedMethods \<and>
      (ID s \<noteq> [] \<and> op_Link op' = [] \<longrightarrow> op_Method op' \<in> set (if op_Name op' = [] then CollectionMethods s else ResourceMethods s) \<or>
         (op_Name op' = [] \<and> op_Method op' = MethodGet \<and> MethodPost \<in> set (CollectionMethods s)))"
    if "err = None" "op_Schema op' = Some s" for s
    using resolved that ValidateMethod_None [of op'] by auto
  have "op_ResponseFormat op \<in> {[]} \<union> set allowedFormats \<longrightarrow> op_ResponseFormat op' \<in> set allowedFormats"
    using fields(6) parse_formats by (auto simp: or_else_def)
  moreover have "op_Name op \<noteq> [] \<longrightarrow> op_Name op' = op_Name op" "op_Namespace op \<noteq> [] \<longrightarrow> op_Namespace op' = op_Namespace op"
    "op_Method op \<noteq> [] \<longrightarrow> op_Method op' = op_Method op" "op_Link op \<noteq> [] \<longrightarrow> op_Link op' = op_Link op"
    "op_Action op \<noteq> [] \<longrightarrow> op_Action op' = op_Action op" "op_Query op \<noteq> None \<longrightarrow> op_Query op' = op_Query op"
    "op_URLPrefix op \<noteq> [] \<longrightarrow> op_URLPrefix op' = op_URLPrefix op" "op_ResponseFormat op \<noteq> [] \<longrightarrow> op_ResponseFormat op' = op_ResponseFormat op"
    "op_Type op \<noteq> [] \<longrightarrow> op_Type op' = op_Type op \<or> (\<exists>s. op_Schema op' = Some s \<and> op_Type op' = ID s)"
    using fields rest(3) by (auto simp: or_else_def)
  ultimately show ?thesis using rest(1,2,4) resolved allowed by (intro conjI impI allI) (simp_all, blast)
qed

definition ex_get :: http_request where
  "ex_get = new_request\<lparr>rq_Method := ''GET'', rq_Vars := [(''type'', ''pod''), (''namespace'', ''default''), (''name'', ''p1''), (''link'', ''log'')]\<rparr>"

text \<open>A caller that has set the name, the link, the method, the type and a format, and the schema of another type.\<close>

definition ex_preset :: api_request where
  "ex_preset = empty_request\<lparr>op_Request := Some ex_get, op_Name := ''mine'', op_Link := ''exec'', op_Method := ''PUT'', op_Type := ''node'',
     op_ResponseFormat := ''yaml'', op_ErrorHandler := Some 3, op_Schema := Some (ex_schema ''secret'' ''secrets'')\<rparr>"

theorem parse_result_witness:
  "(case Parse (\<lambda>s. Inr (''http'', ''h'')) MuxURLParser ex_preset of (err, op') \<Rightarrow>
     err = None \<and> op_Name op' = ''mine'' \<and> op_Link op' = ''exec'' \<and> op_Method op' = ''PUT'' \<and> op_ResponseFormat op' = ''yaml'' \<and>
     op_Type op' = ''secret'' \<and> op_ErrorHandler op' = None \<and> op_Namespace op' = ''default'')"
proof -
  obtain err op' where p: "Parse (\<lambda>s. Inr (''http'', ''h'')) MuxURLParser ex_preset = (err, op')" by (cases "Parse (\<lambda>s. Inr (''http'', ''h'')) MuxURLParser ex_preset")
  have set: "op_Name ex_preset = ''mine''" "op_Link ex_preset = ''exec''" "op_Method ex_preset = ''PUT''" "op_ResponseFormat ex_preset = ''yaml''"
    "op_ErrorHandler ex_preset = Some 3" "op_Schema ex_preset = Some (ex_schema ''secret'' ''secrets'')" by (simp_all add: ex_preset_def)
  note result = parse_result [OF p, unfolded set]
  have "case Parse (\<lambda>s. Inr (''http'', ''h'')) MuxURLParser ex_preset of (err, op') \<Rightarrow> err = None \<and> op_Namespace op' = ''default''" by code_simp
  moreover have "ID (ex_schema ''secret'' ''secrets'') = ''secret''" "ErrorHandler (ex_schema ''secret'' ''secrets'') = None" by code_simp+
  ultimately show ?thesis using result unfolding p by simp
qed

end
