(* ===== verification/Server_Handler.thy ===== *)
theory Server_Handler
  imports Request_Parse Access_Control
begin

section \<open>Serving a request: pkg/server/handler, pkg/handlers\<close>

text \<open>
  What happens to a parsed request: request modifiers, the CSRF check, actions, the handlers that ask
  for permission and call the store, and the one answer that is written.

  The state of a request is a world \<open>'w\<close> that stores and custom handlers change, and the answers given
  so far. A function value of a schema (store, custom handler, modifier, error handler) is a number; its
  behaviour is a field of the record \<open>server_env\<close>. The same record holds what the code gets from outside
  the repository: random bytes, the text of an error, the status and code of a named error code. Response
  writers are names. The permission checks are those of \<open>SchemaBasedAccess\<close>, which \<open>AccessControl\<close> embeds and
  does not override for the checks made here. A nil pointer or function that is used sets \<open>rs_panic\<close>.
\<close>

datatype answer =
    Body_object string int "payload api_object"
  | Body_list string int "payload api_object_list"
  | Header_only int
  | Text string
  | Handled func

record 'w rstate =
  rs_world :: 'w
  rs_out :: "answer list"
  rs_cookies :: "(string \<times> string) list"
  rs_panic :: bool

record 'w store =
  st_ByID :: "api_request \<Rightarrow> api_schema \<Rightarrow> string \<Rightarrow> 'w \<Rightarrow> (go_err + payload api_object) \<times> 'w"
  st_List :: "api_request \<Rightarrow> api_schema \<Rightarrow> 'w \<Rightarrow> (go_err + payload api_object_list) \<times> 'w"
  st_Create :: "api_request \<Rightarrow> api_schema \<Rightarrow> payload api_object \<Rightarrow> 'w \<Rightarrow> (go_err + payload api_object) \<times> 'w"
  st_Update :: "api_request \<Rightarrow> api_schema \<Rightarrow> payload api_object \<Rightarrow> string \<Rightarrow> 'w \<Rightarrow> (go_err + payload api_object) \<times> 'w"
  st_Delete :: "api_request \<Rightarrow> api_schema \<Rightarrow> string \<Rightarrow> 'w \<Rightarrow> (go_err + payload api_object) \<times> 'w"

record 'w server_env =
  e_lib :: lib
  e_body :: body_env
  e_store :: "func \<Rightarrow> 'w store"
  e_handler :: "func \<Rightarrow> api_request \<Rightarrow> 'w rstate \<Rightarrow> (go_err + payload api_object) \<times> 'w rstate"
  e_list_handler :: "func \<Rightarrow> api_request \<Rightarrow> 'w rstate \<Rightarrow> (go_err + payload api_object_list) \<times> 'w rstate"
  e_serve :: "func \<Rightarrow> api_request \<Rightarrow> 'w \<Rightarrow> 'w"
  e_modifier :: "func \<Rightarrow> api_request \<Rightarrow> api_schema \<Rightarrow> api_schema"
  e_error :: "func \<Rightarrow> api_request \<Rightarrow> go_err \<Rightarrow> 'w rstate \<Rightarrow> 'w rstate"
  e_rand :: "go_err + string"
  e_status :: "error_code \<Rightarrow> int"
  e_code :: "error_code \<Rightarrow> string"
  e_text :: "go_err \<Rightarrow> string"

record server =
  srv_ResponseWriters :: "(string, string) gomap"
  srv_Schemas :: api_schemas

definition answer :: "answer \<Rightarrow> 'w rstate \<Rightarrow> 'w rstate" where
  "answer a st = st\<lparr>rs_out := rs_out st @ [a]\<rparr>"

definition panic :: "'w rstate \<Rightarrow> 'w rstate" where
  "panic st = st\<lparr>rs_panic := True\<rparr>"

definition in_world :: "('w \<Rightarrow> 'r \<times> 'w) \<Rightarrow> 'w rstate \<Rightarrow> 'r \<times> 'w rstate" where
  "in_world f st = (case f (rs_world st) of (r, w) \<Rightarrow> (r, st\<lparr>rs_world := w\<rparr>))"

text \<open>\<^verbatim>\<open>handler.ServeHTTP(response, request)\<close>: the handler answers in its own way.\<close>

definition serve :: "'w server_env \<Rightarrow> func \<Rightarrow> api_request \<Rightarrow> 'w rstate \<Rightarrow> 'w rstate" where
  "serve E h op st = answer (Handled h) (st\<lparr>rs_world := e_serve E h op (rs_world st)\<rparr>)"

subsection \<open>The handlers of pkg/handlers\<close>

definition no_store :: go_err where
  "no_store = NewAPIError NotFound ''no store found''"

definition handlers_Create :: "'w server_env \<Rightarrow> api_request \<Rightarrow> api_schema \<Rightarrow> 'w rstate \<Rightarrow> (go_err + payload api_object) \<times> 'w rstate" where
  "handlers_Create E op s st =
     (case CanCreate s of
        Some err \<Rightarrow> (Inl err, st)
      | None \<Rightarrow>
          (case op_Request op of
             None \<Rightarrow> (Inl (Panic ''nil pointer dereference''), st)
           | Some r \<Rightarrow>
               (case Body (e_lib E) (e_body E) r of
                  Inl err \<Rightarrow> (Inl err, st)
                | Inr data \<Rightarrow>
                    (case Store s of
                       None \<Rightarrow> (Inl no_store, st)
                     | Some f \<Rightarrow> in_world (st_Create (e_store E f) op s data) st))))"

definition handlers_Delete :: "'w server_env \<Rightarrow> api_request \<Rightarrow> api_schema \<Rightarrow> 'w rstate \<Rightarrow> (go_err + payload api_object) \<times> 'w rstate" where
  "handlers_Delete E op s st =
     (case CanDelete s of
        Some err \<Rightarrow> (Inl err, st)
      | None \<Rightarrow>
          (case Store s of
             None \<Rightarrow> (Inl no_store, st)
           | Some f \<Rightarrow> in_world (st_Delete (e_store E f) op s (op_Name op)) st))"

definition handlers_ByID :: "'w server_env \<Rightarrow> api_request \<Rightarrow> api_schema \<Rightarrow> 'w rstate \<Rightarrow> (go_err + payload api_object) \<times> 'w rstate" where
  "handlers_ByID E op s st =
     (case CanGet s of
        Some err \<Rightarrow> (Inl err, st)
      | None \<Rightarrow>
          (case Store s of
             None \<Rightarrow> (Inl no_store, st)
           | Some f \<Rightarrow>
               (case (if op_Link op \<noteq> [] then mget (case LinkHandlers s of None \<Rightarrow> [] | Some m \<Rightarrow> m) (op_Link op) else None) of
                  Some h \<Rightarrow> (Inl ErrComplete, serve E h op st)
                | None \<Rightarrow> in_world (st_ByID (e_store E f) op s (op_Name op)) st)))"

definition handlers_List :: "'w server_env \<Rightarrow> api_request \<Rightarrow> api_schema \<Rightarrow> 'w rstate \<Rightarrow> (go_err + payload api_object_list) \<times> 'w rstate" where
  "handlers_List E op s st =
     (case (if op_Name op = [] then CanList s else CanGet s) of
        Some err \<Rightarrow> (Inl err, st)
      | None \<Rightarrow>
          (case Store s of
             None \<Rightarrow> (Inl no_store, st)
           | Some f \<Rightarrow> in_world (st_List (e_store E f) op s) st))"

definition handlers_Update :: "'w server_env \<Rightarrow> api_request \<Rightarrow> api_schema \<Rightarrow> 'w rstate \<Rightarrow> (go_err + payload api_object) \<times> 'w rstate" where
  "handlers_Update E op s st =
     (case CanUpdate s of
        Some err \<Rightarrow> (Inl err, st)
      | None \<Rightarrow>
          (case (if op_Method op \<noteq> MethodPatch
                 then (case op_Request op of None \<Rightarrow> Inl (Panic ''nil pointer dereference'') | Some r \<Rightarrow> Body (e_lib E) (e_body E) r)
                 else Inr empty_object) of
             Inl err \<Rightarrow> (Inl err, st)
           | Inr data \<Rightarrow>
               (case Store s of
                  None \<Rightarrow> (Inl no_store, st)
                | Some f \<Rightarrow> in_world (st_Update (e_store E f) op s data (op_Name op)) st)))"

subsection \<open>Errors: handlers/error.go\<close>

definition status_of :: "'w server_env \<Rightarrow> error_code \<Rightarrow> int" where
  "status_of E c = (case c of MkCode s _ \<Rightarrow> s | _ \<Rightarrow> e_status E c)"

definition code_of :: "'w server_env \<Rightarrow> error_code \<Rightarrow> string" where
  "code_of E c = (case c of MkCode _ k \<Rightarrow> k | _ \<Rightarrow> e_code E c)"

definition WriteResponse :: "api_request \<Rightarrow> int \<Rightarrow> payload api_object \<Rightarrow> 'w rstate \<Rightarrow> 'w rstate" where
  "WriteResponse op code obj st =
     (case op_ResponseWriter op of None \<Rightarrow> panic st | Some w \<Rightarrow> answer (Body_object w code obj) st)"

definition WriteResponseList :: "api_request \<Rightarrow> int \<Rightarrow> payload api_object_list \<Rightarrow> 'w rstate \<Rightarrow> 'w rstate" where
  "WriteResponseList op code l st =
     (case op_ResponseWriter op of None \<Rightarrow> panic st | Some w \<Rightarrow> answer (Body_list w code l) st)"

definition toError :: "'w server_env \<Rightarrow> error_code \<Rightarrow> string \<Rightarrow> string \<Rightarrow> payload api_object" where
  "toError E code message fieldName =
     (let e = [(''type'', JStr ''error''), (''status'', JNum (status_of E code)),
               (''code'', JStr (code_of E code)), (''message'', JStr message)];
          e = (if fieldName \<noteq> [] then mput ''fieldName'' (JStr fieldName) e else e)
      in \<lparr>obj_Type = ''error'', obj_ID = [], obj_Object = Some (Value (JObj e))\<rparr>)"

definition handlers_Error :: "'w server_env \<Rightarrow> api_request \<Rightarrow> go_err \<Rightarrow> 'w rstate \<Rightarrow> 'w rstate" where
  "handlers_Error E op err st =
     (if err = ErrComplete then st
      else
        let err = (case err of CodeError ec \<Rightarrow> NewAPIError ec [] | _ \<Rightarrow> err);
            (code, message, fieldName) =
              (case err of APIError c m _ f \<Rightarrow> (c, m, f) | _ \<Rightarrow> (ServerError, e_text E err, []))
        in if status_of E code = 204 then answer (Header_only 204) st
           else WriteResponse op (status_of E code) (toError E code message fieldName) st)"

text \<open>The number that stands for \<open>handlers.ErrorHandler\<close>; other numbers are handlers of a schema.\<close>

definition default_error_handler :: func where
  "default_error_handler = 0"

text \<open>An error that is a panic was never returned: the call did not come back.\<close>

definition WriteError :: "'w server_env \<Rightarrow> api_request \<Rightarrow> go_err \<Rightarrow> 'w rstate \<Rightarrow> 'w rstate" where
  "WriteError E op err st =
     (case err of
        Panic _ \<Rightarrow> panic st
      | _ \<Rightarrow>
          (case op_ErrorHandler op of
             None \<Rightarrow> panic st
           | Some h \<Rightarrow> if h = default_error_handler then handlers_Error E op err st else e_error E h op err st))"

subsection \<open>validate.go\<close>

definition csrfCookie :: string where "csrfCookie = ''CSRF''"
definition csrfHeader :: string where "csrfHeader = ''X-API-CSRF''"

definition ErrNoCookie :: go_err where
  "ErrNoCookie = OtherError ''http: named cookie not present''"

text \<open>\<^verbatim>\<open>Request.Cookie\<close> of the standard library has this one error.\<close>

definition request_Cookie :: "http_request \<Rightarrow> string \<Rightarrow> go_err + string" where
  "request_Cookie r k = (case mget (rq_Cookies r) k of None \<Rightarrow> Inl ErrNoCookie | Some v \<Rightarrow> Inr v)"

definition validateAction :: "api_request \<Rightarrow> api_schema \<Rightarrow> go_err + action option" where
  "validateAction op s =
     (if op_Action op = [] \<or> op_Link op \<noteq> [] \<or> op_Method op \<noteq> MethodPost then Inr None
      else (case CanAction s (op_Action op) of
          Some err \<Rightarrow> Inl err
        | None \<Rightarrow>
            (let actions = (if op_Name op \<noteq> [] then ResourceActions s else CollectionActions s) in
             case mget actions (op_Action op) of
               None \<Rightarrow> Inl (NewAPIError InvalidAction (sprintf ''Invalid action: %s'' [op_Action op]))
             | Some a \<Rightarrow> Inr (Some a))))"

definition checkCSRF :: "'w server_env \<Rightarrow> api_request \<Rightarrow> 'w rstate \<Rightarrow> go_err option \<times> 'w rstate" where
  "checkCSRF E op st =
     (case op_Request op of
        None \<Rightarrow> (Some (Panic ''nil pointer dereference''), st)
      | Some r \<Rightarrow>
          if \<not> IsBrowser r False then (None, st)
          else (case request_Cookie r csrfCookie of
              Inl err \<Rightarrow>
                if err = ErrNoCookie
                then (case e_rand E of
                    Inl err \<Rightarrow> (Some (WrapAPIError err ServerError ''Failed in CSRF processing''), st)
                  | Inr token \<Rightarrow> (None, st\<lparr>rs_cookies := rs_cookies st @ [(csrfCookie, token)]\<rparr>))
                else (Some (NewAPIError InvalidCSRFToken ''Failed to parse cookies''), st)
            | Inr cookie \<Rightarrow>
                if op_Method op \<noteq> MethodGet \<and> cookie \<noteq> header_get (rq_Header r) csrfHeader \<and>
                   cookie \<noteq> values_get (rq_Query r) csrfCookie
                then (Some (NewAPIError InvalidCSRFToken ''Invalid CSRF token''), st)
                else (None, st)))"

subsection \<open>server.go\<close>

definition setDefaults :: "server \<Rightarrow> api_request \<Rightarrow> api_request" where
  "setDefaults srv op =
     op\<lparr>op_ResponseWriter :=
          (case op_ResponseWriter op of
             Some w \<Rightarrow> Some w
           | None \<Rightarrow> (case mget (srv_ResponseWriters srv) (op_ResponseFormat op) of
                Some w \<Rightarrow> Some w
              | None \<Rightarrow> mget (srv_ResponseWriters srv) ''json'')),
        op_ErrorHandler := (case op_ErrorHandler op of None \<Rightarrow> Some default_error_handler | Some h \<Rightarrow> Some h),
        op_Schemas := (case op_Schemas op of None \<Rightarrow> Some (srv_Schemas srv) | Some s \<Rightarrow> Some s)\<rparr>"

text \<open>The loop over the schemas: the first modifier found makes the copy.\<close>

fun modify_schemas :: "'w server_env \<Rightarrow> api_request \<Rightarrow> api_schemas \<Rightarrow> api_schemas option \<Rightarrow> (string, api_schema) gomap \<Rightarrow> api_schemas option" where
  "modify_schemas E op orig cloned [] = cloned"
| "modify_schemas E op orig cloned ((i, s) # rest) =
     (case RequestModifier s of
        None \<Rightarrow> modify_schemas E op orig cloned rest
      | Some m \<Rightarrow>
          (let c = (case cloned of None \<Rightarrow> ShallowCopy orig | Some c \<Rightarrow> c) in
           modify_schemas E op orig
             (Some (c\<lparr>Schemas := mput i (e_modifier E m op (DeepCopy s)) (Schemas c)\<rparr>)) rest))"

definition run_modifiers :: "'w server_env \<Rightarrow> api_request \<Rightarrow> api_request" where
  "run_modifiers E op =
     (let op = (case op_Schemas op of
             None \<Rightarrow> op
           | Some schemas \<Rightarrow>
               (case modify_schemas E op schemas None (Schemas schemas) of
                  None \<Rightarrow> op
                | Some cloned \<Rightarrow> op\<lparr>op_Schemas := Some cloned\<rparr>))
      in case op_Schema op of
           None \<Rightarrow> op
         | Some s \<Rightarrow> (case RequestModifier s of None \<Rightarrow> op | Some m \<Rightarrow> op\<lparr>op_Schema := Some (e_modifier E m op s)\<rparr>))"

definition handle_custom :: "'w server_env \<Rightarrow> api_request \<Rightarrow> func option \<Rightarrow>
    ('w rstate \<Rightarrow> (go_err + payload api_object) \<times> 'w rstate) \<Rightarrow> 'w rstate \<Rightarrow> (go_err + payload api_object) \<times> 'w rstate" where
  "handle_custom E op custom handler st = (case custom of Some h \<Rightarrow> e_handler E h op st | None \<Rightarrow> handler st)"

definition handleList :: "'w server_env \<Rightarrow> api_request \<Rightarrow> func option \<Rightarrow>
    ('w rstate \<Rightarrow> (go_err + payload api_object_list) \<times> 'w rstate) \<Rightarrow> 'w rstate \<Rightarrow> (go_err + payload api_object_list) \<times> 'w rstate" where
  "handleList E op custom handler st = (case custom of Some h \<Rightarrow> e_list_handler E h op st | None \<Rightarrow> handler st)"

definition handleAction :: "'w server_env \<Rightarrow> api_request \<Rightarrow> api_schema \<Rightarrow> 'w rstate \<Rightarrow> go_err option \<times> 'w rstate" where
  "handleAction E op s st =
     (case CanAction s (op_Action op) of
        Some err \<Rightarrow> (Some err, st)
      | None \<Rightarrow>
          (case mget (case ActionHandlers s of None \<Rightarrow> [] | Some m \<Rightarrow> m) (op_Action op) of
             Some h \<Rightarrow> (Some ErrComplete, serve E h op st)
           | None \<Rightarrow> (None, st)))"

text \<open>The second result of \<open>handleOp\<close> is an object, a list or nil.\<close>

datatype op_data = DObject "payload api_object" | DList "payload api_object_list" | DNil

type_synonym op_result = "go_err + int \<times> op_data"

definition object_result :: "int \<Rightarrow> (go_err + payload api_object) \<times> 'w rstate \<Rightarrow> op_result \<times> 'w rstate" where
  "object_result code r = (case r of (Inl e, st) \<Rightarrow> (Inl e, st) | (Inr d, st) \<Rightarrow> (Inr (code, DObject d), st))"

definition list_result :: "int \<Rightarrow> (go_err + payload api_object_list) \<times> 'w rstate \<Rightarrow> op_result \<times> 'w rstate" where
  "list_result code r = (case r of (Inl e, st) \<Rightarrow> (Inl e, st) | (Inr d, st) \<Rightarrow> (Inr (code, DList d), st))"

definition dispatch :: "'w server_env \<Rightarrow> api_request \<Rightarrow> api_schema \<Rightarrow> 'w rstate \<Rightarrow> op_result \<times> 'w rstate" where
  "dispatch E op s st =
     (if op_Method op = MethodGet
      then (if op_Name op = []
            then list_result 200 (handleList E op (ListHandler s) (handlers_List E op s) st)
            else object_result 200 (handle_custom E op (ByIDHandler s) (handlers_ByID E op s) st))
      else if op_Method op = MethodPatch \<or> op_Method op = MethodPut
      then object_result 200 (handle_custom E op (UpdateHandler s) (handlers_Update E op s) st)
      else if op_Method op = MethodPost
      then object_result 201 (handle_custom E op (CreateHandler s) (handlers_Create E op s) st)
      else if op_Method op = MethodDelete
      then object_result 200 (handle_custom E op (DeleteHandler s) (handlers_Delete E op s) st)
      else (Inr (404, DNil), st))"

definition handleOp :: "'w server_env \<Rightarrow> api_request \<Rightarrow> 'w rstate \<Rightarrow> op_result \<times> 'w rstate" where
  "handleOp E op st =
     (case checkCSRF E op st of
        (Some err, st) \<Rightarrow> (Inl err, st)
      | (None, st) \<Rightarrow>
          (case op_Schema op of
             None \<Rightarrow> (Inr (404, DNil), st)
           | Some s \<Rightarrow>
               (case validateAction op s of
                  Inl err \<Rightarrow> (Inl err, st)
                | Inr (Some _) \<Rightarrow>
                    (case handleAction E op s st of
                       (Some err, st) \<Rightarrow> (Inl err, st)
                     | (None, st) \<Rightarrow> (Inr (200, DNil), st))
                | Inr None \<Rightarrow> dispatch E op s st)))"

definition write_result :: "'w server_env \<Rightarrow> api_request \<Rightarrow> op_result \<Rightarrow> 'w rstate \<Rightarrow> 'w rstate" where
  "write_result E op r st =
     (case r of
        Inl err \<Rightarrow> WriteError E op err st
      | Inr (code, DObject obj) \<Rightarrow> WriteResponse op code obj st
      | Inr (code, DList l) \<Rightarrow> WriteResponseList op code l st
      | Inr (code, DNil) \<Rightarrow>
          if code > 200
          then (if code = 404 \<and> GetUser op \<in> {''system:unauthenticated'', ''system:cattle:error''}
                then answer (Header_only 401) st
                else answer (Header_only code) st)
          else st)"

type_synonym parser = "api_request \<Rightarrow> go_err option \<times> api_request"

definition Server_handle :: "'w server_env \<Rightarrow> server \<Rightarrow> parser \<Rightarrow> api_request \<Rightarrow> 'w rstate \<Rightarrow> 'w rstate" where
  "Server_handle E srv parser op st =
     (let op = (case op_Schemas op of None \<Rightarrow> op\<lparr>op_Schemas := Some (srv_Schemas srv)\<rparr> | Some _ \<Rightarrow> op) in
      case parser op of
        (Some err, op) \<Rightarrow> WriteError E (setDefaults srv op) err st
      | (None, op) \<Rightarrow>
          (let op = run_modifiers E (setDefaults srv op) in
           case handleOp E op st of (r, st) \<Rightarrow> write_result E op r st))"

text \<open>The entry points: \<open>Handle\<close> with the parser of the server, and \<open>ServeHTTP\<close>, whose request has nothing but itself.\<close>

definition Server_Handle :: "'w server_env \<Rightarrow> server \<Rightarrow> parser \<Rightarrow> api_request \<Rightarrow> 'w rstate \<Rightarrow> 'w rstate" where
  "Server_Handle E srv srv_Parser op = Server_handle E srv srv_Parser op"

definition Server_ServeHTTP :: "'w server_env \<Rightarrow> server \<Rightarrow> parser \<Rightarrow> http_request \<Rightarrow> 'w rstate \<Rightarrow> 'w rstate" where
  "Server_ServeHTTP E srv srv_Parser r = Server_Handle E srv srv_Parser (empty_request\<lparr>op_Request := Some r\<rparr>)"

subsection \<open>handlers.go and apiserver.go\<close>

text \<open>The route variables are changed in place, the request and later \<open>MuxURLParser\<close> see them.\<close>

definition k8sAPI :: "convert \<Rightarrow> api_request \<Rightarrow> go_err + api_request" where
  "k8sAPI C op =
     (case op_Request op of
        None \<Rightarrow> Inl (Panic ''nil pointer dereference'')
      | Some r \<Rightarrow>
          (let vs = rq_Vars r;
               op = op\<lparr>op_Name := mgetd [] vs ''name'', op_Type := mgetd [] vs ''type''\<rparr>;
               nOrN = mgetd [] vs ''nameorns''
           in case (if nOrN = [] then Inr vs
                    else (case op_Schemas op of
                        None \<Rightarrow> Inl (Panic ''nil pointer dereference'')
                      | Some schemas \<Rightarrow>
                          Inr (mput (if Namespaced C (LookupSchema schemas (op_Type op)) then ''namespace'' else ''name'') nOrN vs))) of
                Inl e \<Rightarrow> Inl e
              | Inr vs \<Rightarrow>
                  (let ns = mgetd [] vs ''namespace'';
                       op = op\<lparr>op_Request := Some (r\<lparr>rq_Vars := vs\<rparr>)\<rparr>
                   in Inr (if ns \<noteq> [] then op\<lparr>op_Namespace := ns\<rparr> else op))))"

definition apiRoot :: "api_request \<Rightarrow> go_err + api_request" where
  "apiRoot op = Inr (op\<lparr>op_Type := ''apiRoot''\<rparr>)"

text \<open>
  \<open>common\<close>. After an error of \<open>Schemas\<close> it goes on, with nil schemas. \<^verbatim>\<open>rw.WriteHeader\<close> after
  \<^verbatim>\<open>rw.Write\<close> has no effect: the first write has sent the status 200.
\<close>

definition common :: "'w server_env \<Rightarrow> parse_url \<Rightarrow> (user \<Rightarrow> go_err + api_schemas) \<Rightarrow> http_request \<Rightarrow> 'w rstate \<Rightarrow> api_request option \<times> 'w rstate" where
  "common E parse sf r st =
     (case rq_User r of
        None \<Rightarrow> (None, st)
      | Some u \<Rightarrow>
          (let (schemas, st) = (case sf u of
                  Inl err \<Rightarrow> (None, answer (Text (e_text E err)) st)
                | Inr s \<Rightarrow> (Some s, st))
           in case NewURLBuilder parse r ''v1'' of
                Inl err \<Rightarrow> (None, answer (Text (e_text E err)) st)
              | Inr b \<Rightarrow>
                  (Some (empty_request\<lparr>op_Schemas := schemas, op_Request := Some r, op_URLBuilder := Some b\<rparr>), st)))"

definition apiHandler :: "'w server_env \<Rightarrow> parse_url \<Rightarrow> (user \<Rightarrow> go_err + api_schemas) \<Rightarrow> server \<Rightarrow>
    (api_request \<Rightarrow> go_err + api_request) \<Rightarrow> http_request \<Rightarrow> 'w rstate \<Rightarrow> 'w rstate" where
  "apiHandler E parse sf srv apiFunc r st =
     (case common E parse sf r st of
        (None, st) \<Rightarrow> st
      | (Some op, st) \<Rightarrow>
          (case apiFunc op of
             Inl _ \<Rightarrow> panic st
           | Inr op \<Rightarrow> Server_handle E srv (Parse parse MuxURLParser) op st))"


section \<open>Permission, CSRF and the one answer\<close>

lemma in_world_simps [simp]:
  "rs_out (snd (in_world f st)) = rs_out st" "rs_panic (snd (in_world f st)) = rs_panic st"
  "fst (in_world f st) = fst (f (rs_world st))"
  by (simp_all add: in_world_def split: prod.splits)

lemma serve_simps [simp]: "rs_out (serve E h op st) = rs_out st @ [Handled h]" "rs_panic (serve E h op st) = rs_panic st"
  by (simp_all add: serve_def answer_def)

lemma checkCSRF_world [simp]: "rs_world (snd (checkCSRF E op st)) = rs_world st" "rs_out (snd (checkCSRF E op st)) = rs_out st"
  by (simp_all add: checkCSRF_def split: option.splits sum.splits)

lemma answer_world [simp]: "rs_world (answer a st) = rs_world st" "rs_world (panic st) = rs_world st"
  by (simp_all add: answer_def panic_def)

lemma write_world [simp]:
  "rs_world (WriteResponse op code obj st) = rs_world st" "rs_world (WriteResponseList op code l st) = rs_world st"
  "rs_world (handlers_Error E op err st) = rs_world st"
  by (simp_all add: WriteResponse_def WriteResponseList_def handlers_Error_def Let_def split: option.splits prod.splits)

lemma object_result_simps [simp]:
  "snd (object_result code r) = snd r" "snd (list_result code r') = snd r'"
  "fst (object_result code r) = Inl e \<longleftrightarrow> fst r = Inl e" "fst (list_result code r') = Inl e \<longleftrightarrow> fst r' = Inl e"
  by (auto simp: object_result_def list_result_def split: prod.splits sum.splits)

definition action_allowed :: "api_request \<Rightarrow> api_schema \<Rightarrow> bool" where
  "action_allowed op s \<longleftrightarrow> op_Action op \<noteq> [] \<and> op_Method op = MethodPost \<and> CanAction s (op_Action op) = None \<and>
     mhas (if op_Name op \<noteq> [] then ResourceActions s else CollectionActions s) (op_Action op)"

definition own_handler :: "api_request \<Rightarrow> api_schema \<Rightarrow> func option" where
  "own_handler op s =
     (if op_Method op = MethodGet then (if op_Name op = [] then ListHandler s else ByIDHandler s)
      else if op_Method op = MethodPatch \<or> op_Method op = MethodPut then UpdateHandler s
      else if op_Method op = MethodPost then CreateHandler s
      else if op_Method op = MethodDelete then DeleteHandler s else None)"

definition permitted :: "api_request \<Rightarrow> api_schema \<Rightarrow> bool" where
  "permitted op s \<longleftrightarrow> Store s \<noteq> None \<and>
     (op_Method op = MethodGet \<and> op_Name op = [] \<and> CanList s = None \<or>
      op_Method op = MethodGet \<and> op_Name op \<noteq> [] \<and> CanGet s = None \<or>
      op_Method op \<in> {MethodPatch, MethodPut} \<and> CanUpdate s = None \<or>
      op_Method op = MethodPost \<and> CanCreate s = None \<or>
      op_Method op = MethodDelete \<and> CanDelete s = None)"

lemma handlers_need_permission:
  "rs_world (snd (handlers_Create E op s st)) \<noteq> rs_world st \<Longrightarrow> CanCreate s = None \<and> Store s \<noteq> None"
  "rs_world (snd (handlers_Delete E op s st)) \<noteq> rs_world st \<Longrightarrow> CanDelete s = None \<and> Store s \<noteq> None"
  "rs_world (snd (handlers_ByID E op s st)) \<noteq> rs_world st \<Longrightarrow> CanGet s = None \<and> Store s \<noteq> None"
  "rs_world (snd (handlers_Update E op s st)) \<noteq> rs_world st \<Longrightarrow> CanUpdate s = None \<and> Store s \<noteq> None"
  "rs_world (snd (handlers_List E op s st)) \<noteq> rs_world st \<Longrightarrow> (if op_Name op = [] then CanList s else CanGet s) = None \<and> Store s \<noteq> None"
  by (auto simp: handlers_Create_def handlers_Delete_def handlers_ByID_def handlers_Update_def handlers_List_def
      split: option.splits sum.splits)

lemma dispatch_needs_permission:
  "rs_world (snd (dispatch E op s st)) \<noteq> rs_world st \<Longrightarrow> own_handler op s \<noteq> None \<or> permitted op s"
  using handlers_need_permission [of E op s st]
  by (auto simp: dispatch_def own_handler_def permitted_def handle_custom_def handleList_def split: if_splits option.splits)

lemma handleOp_needs_permission:
  assumes "rs_world (snd (handleOp E op st)) \<noteq> rs_world st"
  shows "fst (checkCSRF E op st) = None \<and>
    (\<exists>s. op_Schema op = Some s \<and> (action_allowed op s \<or> own_handler op s \<noteq> None \<or> permitted op s))"
proof -
  obtain e st1 where c: "checkCSRF E op st = (e, st1)" by (cases "checkCSRF E op st")
  have w: "rs_world st1 = rs_world st" using checkCSRF_world(1) [of E op st] c by simp
  have n: "e = None" using assms c w by (auto simp: handleOp_def split: option.splits)
  obtain s where s: "op_Schema op = Some s" using assms c w n by (auto simp: handleOp_def split: option.splits)
  show ?thesis
  proof (cases "validateAction op s")
    case (Inl err)
    then show ?thesis using assms c w n s by (simp add: handleOp_def)
  next
    case (Inr a)
    show ?thesis
    proof (cases a)
      case None
      then have "snd (handleOp E op st) = snd (dispatch E op s st1)" using c n s Inr by (simp add: handleOp_def)
      then show ?thesis using dispatch_needs_permission [of E op s st1] assms c w n s by auto
    next
      case (Some x)
      have "action_allowed op s"
        using Inr Some by (auto simp: validateAction_def action_allowed_def mhas_def Let_def split: if_splits option.splits)
      then show ?thesis using c n s by simp
    qed
  qed
qed

lemma write_result_world:
  assumes "\<And>h op e st. rs_world (e_error E h op e st) = rs_world st"
  shows "rs_world (write_result E op r st) = rs_world st" "rs_world (WriteError E op err st) = rs_world st"
proof -
  show e: "rs_world (WriteError E op err st) = rs_world st" for err
    using assms by (auto simp: WriteError_def split: go_err.splits option.splits)
  show "rs_world (write_result E op r st) = rs_world st"
    by (auto simp: write_result_def e split: sum.splits prod.splits op_data.splits)
qed

text \<open>The request that \<open>handle\<close> gives to \<open>handleOp\<close>.\<close>

definition with_schemas :: "server \<Rightarrow> api_request \<Rightarrow> api_request" where
  "with_schemas srv op = (case op_Schemas op of None \<Rightarrow> op\<lparr>op_Schemas := Some (srv_Schemas srv)\<rparr> | Some _ \<Rightarrow> op)"

definition prepared :: "'w server_env \<Rightarrow> server \<Rightarrow> api_request \<Rightarrow> api_request" where
  "prepared E srv op = run_modifiers E (setDefaults srv op)"

lemma Server_handle_cases:
  "Server_handle E srv parser op st =
     (case parser (with_schemas srv op) of
        (Some err, op') \<Rightarrow> WriteError E (setDefaults srv op') err st
      | (None, op') \<Rightarrow> (case handleOp E (prepared E srv op') st of (r, st') \<Rightarrow> write_result E (prepared E srv op') r st'))"
  by (simp add: Server_handle_def with_schemas_def prepared_def Let_def cong: option.case_cong)

text \<open>
  C5. No request touches what the stores keep without permission. If serving a request changed the
  world, where error handlers of the program's users change nothing, then the parser accepted it, the CSRF check passed, and the schema it is handled under
  allows the action by name, or has a handler of its own for the method, or allows the very method on
  the collection or the resource and has a store.
\<close>

theorem changes_need_permission:
  assumes "rs_world (Server_handle E srv parser op st) \<noteq> rs_world st"
    and "\<And>h op e st. rs_world (e_error E h op e st) = rs_world st"
  shows "\<exists>op' s. parser (with_schemas srv op) = (None, op') \<and> op_Schema (prepared E srv op') = Some s \<and>
    fst (checkCSRF E (prepared E srv op') st) = None \<and>
    (action_allowed (prepared E srv op') s \<or> own_handler (prepared E srv op') s \<noteq> None \<or> permitted (prepared E srv op') s)"
proof -
  obtain e op' where p: "parser (with_schemas srv op) = (e, op')" by (cases "parser (with_schemas srv op)")
  have e: "e = None" using assms(1) p write_result_world(2) [OF assms(2)] by (auto simp: Server_handle_cases split: option.splits)
  have "rs_world (snd (handleOp E (prepared E srv op') st)) \<noteq> rs_world st"
    using assms(1) p e write_result_world(1) [OF assms(2)] by (auto simp: Server_handle_cases split: prod.splits)
  from handleOp_needs_permission [OF this] p e show ?thesis by auto
qed

text \<open>
  C25. The CSRF check guards every method but GET, for requests that the parser accepts and leaves to the default error handler. A browser request that brings the cookie, under a
  method that is not GET after all overrides, and repeats the token neither in the header nor in the
  query leaves the world as it is and is answered by the error \<open>InvalidCSRFToken\<close>; without the cookie the
  same request passes the check, and the answer only sets the cookie.
\<close>

theorem csrf_guard:
  assumes "parser (with_schemas srv op) = (None, op')" and "op_Request op' = Some r" and "IsBrowser r False"
    and "op_Method op' \<noteq> MethodGet" and "op_ErrorHandler op' = None"
  shows "(\<forall>c. mget (rq_Cookies r) csrfCookie = Some c \<and> c \<noteq> header_get (rq_Header r) csrfHeader \<and> c \<noteq> values_get (rq_Query r) csrfCookie \<longrightarrow>
      Server_handle E srv parser op st =
        handlers_Error E (prepared E srv op') (NewAPIError InvalidCSRFToken ''Invalid CSRF token'') st) \<and>
    (\<forall>t. mget (rq_Cookies r) csrfCookie = None \<and> e_rand E = Inr t \<longrightarrow>
      checkCSRF E (prepared E srv op') st = (None, st\<lparr>rs_cookies := rs_cookies st @ [(csrfCookie, t)]\<rparr>))"
proof -
  have keep: "op_Request (prepared E srv op') = Some r" "op_Method (prepared E srv op') = op_Method op'"
    "op_ErrorHandler (prepared E srv op') = Some default_error_handler"
    using assms(2,5) by (simp_all add: prepared_def run_modifiers_def setDefaults_def Let_def split: option.splits)
  show ?thesis
    using assms(1,3,4) keep
    by (auto simp: Server_handle_cases handleOp_def checkCSRF_def request_Cookie_def write_result_def WriteError_def
        NewAPIError_def)
qed


text \<open>
  What is asked of custom code: a custom handler either answers nothing and does not claim to be
  complete, or gives one answer and returns \<open>ErrComplete\<close>; a store does not return \<open>ErrComplete\<close>.
\<close>

definition answers_once :: "'w rstate \<Rightarrow> (go_err + 'r) \<times> 'w rstate \<Rightarrow> bool" where
  "answers_once st res \<longleftrightarrow>
     (rs_out (snd res) = rs_out st \<and> fst res \<noteq> Inl ErrComplete) \<or>
     ((\<exists>a. rs_out (snd res) = rs_out st @ [a]) \<and> fst res = Inl ErrComplete)"

definition store_returns :: "'w store \<Rightarrow> bool" where
  "store_returns S \<longleftrightarrow> (\<forall>op s d i w. fst (st_ByID S op s i w) \<noteq> Inl ErrComplete \<and> fst (st_List S op s w) \<noteq> Inl ErrComplete \<and>
     fst (st_Create S op s d w) \<noteq> Inl ErrComplete \<and> fst (st_Update S op s d i w) \<noteq> Inl ErrComplete \<and>
     fst (st_Delete S op s i w) \<noteq> Inl ErrComplete)"

definition env_ok :: "'w server_env \<Rightarrow> bool" where
  "env_ok E \<longleftrightarrow> (\<forall>h op st. answers_once st (e_handler E h op st) \<and> answers_once st (e_list_handler E h op st)) \<and>
     (\<forall>f. store_returns (e_store E f))"

lemma can_not_complete:
  "CanCreate s \<noteq> Some ErrComplete" "CanDelete s \<noteq> Some ErrComplete" "CanGet s \<noteq> Some ErrComplete"
  "CanList s \<noteq> Some ErrComplete" "CanUpdate s \<noteq> Some ErrComplete" "CanAction t n \<noteq> Some ErrComplete"
  by (simp_all add: can_defs CanAction_def NewAPIError_def)

lemma Body_not_complete: "Body L B r \<noteq> Inl ErrComplete"
  by (auto simp: Body_def ReadBody_def NewAPIError_def split: option.splits sum.splits)

lemma handlers_answer_once:
  assumes "env_ok E"
  shows "answers_once st (handlers_Create E op s st)" "answers_once st (handlers_Delete E op s st)"
    "answers_once st (handlers_ByID E op s st)" "answers_once st (handlers_Update E op s st)"
    "answers_once st (handlers_List E op s st)"
proof -
  have st: "store_returns (e_store E f)" for f using assms by (simp add: env_ok_def)
  note hs = answers_once_def can_not_complete Body_not_complete no_store_def NewAPIError_def
  show "answers_once st (handlers_Create E op s st)"
    using st Body_not_complete can_not_complete(1) by (auto simp: handlers_Create_def hs store_returns_def split: option.splits sum.splits)
  show "answers_once st (handlers_Delete E op s st)"
    using st can_not_complete(2) by (auto simp: handlers_Delete_def hs store_returns_def split: option.splits sum.splits)
  show "answers_once st (handlers_ByID E op s st)"
    using st can_not_complete(3) by (auto simp: handlers_ByID_def hs store_returns_def split: option.splits sum.splits)
  show "answers_once st (handlers_Update E op s st)"
    using st Body_not_complete can_not_complete(5) by (auto simp: handlers_Update_def hs store_returns_def split: option.splits sum.splits)
  show "answers_once st (handlers_List E op s st)"
    using st can_not_complete(3,4) by (auto simp: handlers_List_def hs store_returns_def split: option.splits sum.splits)
qed

lemma answers_once_result [simp]:
  "answers_once st (object_result code r) \<longleftrightarrow> answers_once st r" "answers_once st (list_result code r') \<longleftrightarrow> answers_once st r'"
  by (simp_all add: answers_once_def)

lemma dispatch_answers_once:
  assumes "env_ok E"
  shows "answers_once st (dispatch E op s st)"
proof -
  have "answers_once st (e_handler E h op st)" "answers_once st (e_list_handler E h op st)" for h
    using assms by (simp_all add: env_ok_def)
  moreover have "answers_once st (Inr (404, DNil) :: op_result, st)" by (simp add: answers_once_def)
  ultimately show ?thesis
    using handlers_answer_once [OF assms, of st op s]
    by (simp add: dispatch_def handle_custom_def handleList_def split: option.splits)
qed

lemma no_small_nil:
  "fst (dispatch E op s st) \<noteq> Inr (200, DNil)"
  by (auto simp: dispatch_def object_result_def list_result_def split: prod.splits sum.splits)

lemma dispatch_nil: "fst (dispatch E op s st) = Inr (code, DNil) \<Longrightarrow> code = 404"
  by (auto simp: dispatch_def object_result_def list_result_def split: prod.splits sum.splits if_splits)

lemma checkCSRF_not_complete: "fst (checkCSRF E op st) \<noteq> Some ErrComplete"
  by (auto simp: checkCSRF_def WrapAPIError_def NewAPIError_def split: option.splits sum.splits)

lemma validateAction_not_complete: "validateAction op s \<noteq> Inl ErrComplete"
  using can_not_complete(6) [of s "op_Action op"]
  by (auto simp: validateAction_def Let_def NewAPIError_def split: option.splits)

lemma handleOp_answers_once:
  assumes "env_ok E"
  shows "answers_once st (handleOp E op st) \<and> (\<forall>code. fst (handleOp E op st) = Inr (code, DNil) \<longrightarrow> code = 404)"
proof -
  obtain e st1 where c: "checkCSRF E op st = (e, st1)" by (cases "checkCSRF E op st")
  have out: "rs_out st1 = rs_out st" using checkCSRF_world(2) [of E op st] c by simp
  have e: "e \<noteq> Some ErrComplete" using checkCSRF_not_complete [of E op st] c by simp
  have same: "answers_once st r \<longleftrightarrow> answers_once st1 r" for r :: "op_result \<times> 'a rstate"
    using out by (simp add: answers_once_def)
  show ?thesis
  proof (cases e)
    case (Some x)
    then show ?thesis using c e out by (simp add: handleOp_def answers_once_def)
  next
    case None
    show ?thesis
    proof (cases "op_Schema op")
      case None': None
      then show ?thesis using c None out by (simp add: handleOp_def answers_once_def)
    next
      case (Some s)
      show ?thesis
      proof (cases "validateAction op s")
        case (Inl err)
        then show ?thesis
          using c None Some out validateAction_not_complete [of op s] by (simp add: handleOp_def answers_once_def)
      next
        case (Inr a)
        show ?thesis
        proof (cases a)
          case N: None
          then have "handleOp E op st = dispatch E op s st1" using c None Some Inr by (simp add: handleOp_def)
          then show ?thesis using dispatch_answers_once [OF assms, of st1 op s] dispatch_nil [of E op s st1] same by auto
        next
          case (Some y)
          have "CanAction s (op_Action op) = None"
            using Inr Some by (auto simp: validateAction_def Let_def split: if_splits option.splits)
          then have "\<exists>h. mget (case ActionHandlers s of None \<Rightarrow> [] | Some m \<Rightarrow> m) (op_Action op) = Some h"
            by (auto simp: CanAction_def mhas_def denied_def split: if_splits)
          then show ?thesis
            using c None \<open>op_Schema op = Some s\<close> Inr Some out \<open>CanAction s (op_Action op) = None\<close>
            by (auto simp: handleOp_def handleAction_def answers_once_def)
        qed
      qed
    qed
  qed
qed

lemma WriteError_default:
  assumes "op_ErrorHandler op = Some default_error_handler"
  shows "rs_panic (WriteError E op err st) \<or>
    (if err = ErrComplete then WriteError E op err st = st else \<exists>a. rs_out (WriteError E op err st) = rs_out st @ [a])"
  using assms
  by (auto simp: WriteError_def handlers_Error_def WriteResponse_def Let_def panic_def answer_def
      split: go_err.splits option.splits prod.splits)

lemma write_result_once:
  assumes "answers_once st0 (r, st)" and "op_ErrorHandler op = Some default_error_handler"
    and "\<And>code. r = Inr (code, DNil) \<Longrightarrow> code = 404"
  shows "rs_panic (write_result E op r st) \<or> (\<exists>a. rs_out (write_result E op r st) = rs_out st0 @ [a])"
proof (cases r)
  case (Inl err)
  then show ?thesis
    using WriteError_default [OF assms(2), of E err st] assms(1)
    by (auto simp: write_result_def answers_once_def split: if_splits)
next
  case (Inr p)
  obtain code d where p: "p = (code, d)" by (cases p)
  have "rs_out st = rs_out st0" using assms(1) Inr by (auto simp: answers_once_def)
  then show ?thesis
    using assms(3) Inr p
    by (cases d) (auto simp: write_result_def WriteResponse_def WriteResponseList_def panic_def answer_def split: option.splits)
qed

text \<open>
  C26. A request that has reached the server's \<open>Handle\<close> gets exactly one answer. With the default error handler, a parser and stores that never return \<open>ErrComplete\<close>
  (the error that says that the answer is already written) and custom handlers that return it exactly when they have written one answer, serving
  a request appends one answer, whatever else the parser, the checks, the modifiers and the stores do or return, unless it panics. (The entry point before \<open>Handle\<close> may have
  written one already, when the schemas of the user cannot be computed: \<open>schemas_error_goes_on\<close>.)
\<close>

theorem exactly_one_answer:
  assumes "env_ok E" and "parser (with_schemas srv op) = (e, op')" and "e \<noteq> Some ErrComplete"
    and "op_ErrorHandler op' = None"
  shows "rs_panic (Server_handle E srv parser op st) \<or>
    (\<exists>a. rs_out (Server_handle E srv parser op st) = rs_out st @ [a])"
proof (cases e)
  case (Some err)
  have "op_ErrorHandler (setDefaults srv op') = Some default_error_handler"
    using assms(4) by (simp add: setDefaults_def)
  then show ?thesis
    using WriteError_default [of "setDefaults srv op'" E err st] assms(2,3) Some by (simp add: Server_handle_cases)
next
  case None
  obtain r st' where h: "handleOp E (prepared E srv op') st = (r, st')" by (cases "handleOp E (prepared E srv op') st")
  have "op_ErrorHandler (prepared E srv op') = Some default_error_handler"
    using assms(4) by (simp add: prepared_def run_modifiers_def setDefaults_def Let_def split: option.splits)
  then show ?thesis
    using write_result_once [of st r st' "prepared E srv op'" E] handleOp_answers_once [OF assms(1), of st "prepared E srv op'"]
      assms(2) None h
    by (auto simp: Server_handle_cases)
qed

text \<open>
  A failed schema lookup does not stop the request. When the schema factory fails for the user,
  \<open>common\<close> writes the error as the answer and goes on without schemas: a request for the API root is then
  served a second time from the server's own schemas, and a request that names an object or a namespace
  panics.
\<close>

theorem schemas_error_goes_on:
  assumes "rq_User r = Some u" and "sf u = Inl err" and "NewURLBuilder parse r ''v1'' = Inr b"
  shows "apiHandler E parse sf srv apiRoot r st =
      Server_handle E srv (Parse parse MuxURLParser)
        (empty_request\<lparr>op_Type := ''apiRoot'', op_Schemas := Some (srv_Schemas srv), op_Request := Some r, op_URLBuilder := Some b\<rparr>)
        (answer (Text (e_text E err)) st) \<and>
    (mgetd [] (rq_Vars r) ''nameorns'' \<noteq> [] \<longrightarrow>
      apiHandler E parse sf srv (k8sAPI C) r st = panic (answer (Text (e_text E err)) st))"
  using assms
  by (auto simp: apiHandler_def common_def apiRoot_def k8sAPI_def Let_def Server_handle_def empty_request_def)


section \<open>A concrete server\<close>

definition ex_store :: "nat store" where
  "ex_store = \<lparr>st_ByID = (\<lambda>op s i w. (Inr empty_object, w)), st_List = (\<lambda>op s w. (Inr empty_list, w)),
     st_Create = (\<lambda>op s d w. (Inr d, w + 1)), st_Update = (\<lambda>op s d i w. (Inr d, w + 1)),
     st_Delete = (\<lambda>op s i w. (Inr empty_object, w + 1))\<rparr>"

definition ex_server_env :: "nat server_env" where
  "ex_server_env = \<lparr>e_lib = lib_std, e_body = \<lparr>be_MultipartForm = (\<lambda>r. None), be_PostForm = (\<lambda>r. []), be_Form = (\<lambda>r. []),
       be_decode_yaml = (\<lambda>r. Inr []), be_decode_json = (\<lambda>r. Inr [])\<rparr>,
     e_store = (\<lambda>f. ex_store), e_handler = (\<lambda>h op st. (Inr empty_object, st)),
     e_list_handler = (\<lambda>h op st. (Inr empty_list, st)), e_serve = (\<lambda>h op w. w), e_modifier = (\<lambda>m op s. s),
     e_error = (\<lambda>h op e st. st), e_rand = Inr ''0a0b0c0d0e'', e_status = (\<lambda>c. 422), e_code = (\<lambda>c. ''Code''),
     e_text = (\<lambda>e. ''error'')\<rparr>"

definition ex_server :: server where
  "ex_server = \<lparr>srv_ResponseWriters = [(''json'', ''json'')], srv_Schemas = EmptyAPISchemas\<rparr>"

definition ex_rstate :: "nat rstate" where
  "ex_rstate = \<lparr>rs_world = 0, rs_out = [], rs_cookies = [], rs_panic = False\<rparr>"

definition ex_item_schema :: api_schema where
  "ex_item_schema = (ex_schema ''item'' ''items'')\<lparr>CollectionMethods := [MethodPost], Store := Some 1\<rparr>"

definition ex_post :: api_request where
  "ex_post = empty_request\<lparr>op_Method := MethodPost, op_Schema := Some ex_item_schema, op_Request := Some (new_request\<lparr>rq_Method := MethodPost\<rparr>)\<rparr>"

definition ex_browser :: "(string, string) gomap \<Rightarrow> api_request" where
  "ex_browser cookies = empty_request\<lparr>op_Method := MethodPost, op_Schema := Some ex_item_schema,
     op_Request := Some (new_request\<lparr>rq_Method := MethodPost, rq_Cookies := cookies, rq_Header := [(''User-Agent'', [''Mozilla/5.0''])]\<rparr>)\<rparr>"

lemma ex_schema_methods: "CollectionMethods ex_item_schema = [MethodPost]" "Store ex_item_schema = Some 1"
  by (simp_all add: ex_item_schema_def)

lemma ex_item_plain:
  "RequestModifier ex_item_schema = None" "CreateHandler ex_item_schema = None" "ActionHandlers ex_item_schema = None"
  by (simp_all add: ex_item_schema_def ex_schema_def mk_api_schema_def schema.defs)

lemma ex_post_changes: "rs_world (Server_handle ex_server_env ex_server (\<lambda>op. (None, op)) ex_post ex_rstate) = 1"
  by code_simp

lemma changes_need_permission_witness:
  "\<exists>s. permitted (prepared ex_server_env ex_server (with_schemas ex_server ex_post)) s \<or>
     own_handler (prepared ex_server_env ex_server (with_schemas ex_server ex_post)) s \<noteq> None \<or>
     action_allowed (prepared ex_server_env ex_server (with_schemas ex_server ex_post)) s"
proof -
  have "rs_world (Server_handle ex_server_env ex_server (\<lambda>op. (None, op)) ex_post ex_rstate) \<noteq> rs_world ex_rstate"
    using ex_post_changes by (simp add: ex_rstate_def)
  from changes_need_permission [OF this] show ?thesis by (auto simp: ex_server_env_def)
qed

lemma ex_browser_is: "IsBrowser (new_request\<lparr>rq_Method := MethodPost, rq_Cookies := c, rq_Header := [(''User-Agent'', [''Mozilla/5.0''])]\<rparr>) False"
  by code_simp

lemma csrf_guard_witness:
  "Server_handle ex_server_env ex_server (\<lambda>op. (None, op)) (ex_browser [(csrfCookie, ''abc'')]) ex_rstate =
     handlers_Error ex_server_env (prepared ex_server_env ex_server (with_schemas ex_server (ex_browser [(csrfCookie, ''abc'')])))
       (NewAPIError InvalidCSRFToken ''Invalid CSRF token'') ex_rstate"
proof -
  let ?r = "new_request\<lparr>rq_Method := MethodPost, rq_Cookies := [(csrfCookie, ''abc'')], rq_Header := [(''User-Agent'', [''Mozilla/5.0''])]\<rparr>"
  have h: "header_get (rq_Header ?r) csrfHeader = []" "values_get (rq_Query ?r) csrfCookie = []" by code_simp+
  show ?thesis
    using csrf_guard [of "\<lambda>op. (None, op)" ex_server "ex_browser [(csrfCookie, ''abc'')]"
        "with_schemas ex_server (ex_browser [(csrfCookie, ''abc'')])" ?r ex_server_env ex_rstate]
      ex_browser_is [of "[(csrfCookie, ''abc'')]"] h
    by (simp add: with_schemas_def ex_browser_def empty_request_def methods)
qed

lemma ex_env_ok: "env_ok ex_server_env"
  by (simp add: env_ok_def ex_server_env_def answers_once_def store_returns_def ex_store_def)

lemma exactly_one_answer_witness:
  "\<exists>a. rs_out (Server_handle ex_server_env ex_server (\<lambda>op. (None, op)) ex_post ex_rstate) = [a]"
proof -
  have "\<not> rs_panic (Server_handle ex_server_env ex_server (\<lambda>op. (None, op)) ex_post ex_rstate)" by code_simp
  then show ?thesis
    using exactly_one_answer [OF ex_env_ok, of "\<lambda>op. (None, op)" ex_server ex_post None "with_schemas ex_server ex_post" ex_rstate]
    by (simp add: with_schemas_def ex_post_def empty_request_def ex_rstate_def)
qed

definition ex_user_request :: http_request where
  "ex_user_request = new_request\<lparr>rq_User := Some \<lparr>u_Name = ''u'', u_UID = [], u_Groups = [], u_Extra = []\<rparr>, rq_Vars := [(''nameorns'', ''n'')]\<rparr>"

lemma ex_builder: "\<exists>b. NewURLBuilder (\<lambda>s. Inr (''http'', ''h'')) ex_user_request ''v1'' = Inr b"
  by (simp add: NewURLBuilder_def ParseResponseURLBase_def Let_def split: option.splits sum.splits)

lemma schemas_error_goes_on_witness:
  "apiHandler ex_server_env (\<lambda>s. Inr (''http'', ''h'')) (\<lambda>u. Inl (OtherError ''down'')) ex_server (k8sAPI convert_std) ex_user_request ex_rstate =
     panic (answer (Text ''error'') ex_rstate)"
proof -
  obtain b where b: "NewURLBuilder (\<lambda>s. Inr (''http'', ''h'')) ex_user_request ''v1'' = Inr b" using ex_builder by blast
  show ?thesis
    using schemas_error_goes_on [OF _ _ b, of _ "\<lambda>u. Inl (OtherError ''down'')" "OtherError ''down''" ex_server_env ex_server ex_rstate convert_std]
    by (simp add: ex_user_request_def mgetd_def ex_server_env_def)
qed

end
