(* ===== verification/Simple_Stores.thy ===== *)
theory Simple_Stores
  imports Server_Handler
begin

section \<open>The empty store, API roots, API groups\<close>

text \<open>
  \<open>pkg/stores/empty\<close>, \<open>pkg/stores/apiroot\<close> and \<open>pkg/resources/apigroups\<close>: stores that list a fixed or discovered
  set and look up by id through \<open>DefaultByID\<close>. Both are instances of the locale \<open>listed_store\<close>. What
  they do not define they inherit from the empty store, which finds nothing.
\<close>

subsection \<open>empty\_store.go\<close>

definition empty_store :: "'w store" where
  "empty_store = \<lparr>st_ByID = (\<lambda>op s i w. (Inl (CodeError NotFound), w)), st_List = (\<lambda>op s w. (Inl (CodeError NotFound), w)),
     st_Create = (\<lambda>op s d w. (Inl (CodeError NotFound), w)), st_Update = (\<lambda>op s d i w. (Inl (CodeError NotFound), w)),
     st_Delete = (\<lambda>op s i w. (Inl (CodeError NotFound), w))\<rparr>"

definition empty_Watch :: "go_err + payload api_event list option" where
  "empty_Watch = Inr None"

subsection \<open>apiroot.go\<close>

record api_root_store =
  ar_roots :: "string list"
  ar_versions :: "string list"

definition NewAPIRootStore :: "string list \<Rightarrow> string list \<Rightarrow> api_root_store" where
  "NewAPIRootStore versions roots = \<lparr>ar_roots = roots, ar_versions = versions\<rparr>"

definition api_root_schema :: api_schema where
  "api_root_schema = mk_api_schema (empty_schema\<lparr>ID := ''apiRoot'', CollectionMethods := [''GET''], ResourceMethods := [''GET''],
     ResourceFields := [(''apiVersion'', typed_field ''map[json]''), (''path'', typed_field ''string'')]\<rparr>)"

definition apiVersionToAPIRootMap :: "string \<Rightarrow> obj" where
  "apiVersionToAPIRootMap ver =
     [(''id'', JStr ver), (''type'', JStr ''apiRoot''), (''apiVersion'', JObj [(''version'', JStr ver)]),
      (''path'', JStr (''/'' @ ver))]"

definition version_root :: "string \<Rightarrow> payload api_object" where
  "version_root ver = \<lparr>obj_Type = ''apiRoot'', obj_ID = ver, obj_Object = Some (Value (JObj (apiVersionToAPIRootMap ver)))\<rparr>"

text \<open>A root is written \<^verbatim>\<open>id:path\<close>; one without a colon is left out.\<close>

definition named_root :: "string \<Rightarrow> payload api_object list" where
  "named_root root =
     (case str_cut CHR '':'' root of
        (i, p, found) \<Rightarrow>
          if found then [\<lparr>obj_Type = ''apiRoot'', obj_ID = i, obj_Object = Some (Value (JObj [(''id'', JStr i), (''path'', JStr p)]))\<rparr>]
          else [])"

definition api_root_List :: "api_root_store \<Rightarrow> go_err + payload api_object_list" where
  "api_root_List a = Inr (empty_list\<lparr>list_Objects := map version_root (ar_versions a) @ concat (map named_root (ar_roots a))\<rparr>)"

definition api_root_ByID :: "api_root_store \<Rightarrow> string \<Rightarrow> go_err + payload api_object" where
  "api_root_ByID a i = DefaultByID (api_root_List a) i"

definition api_root_store_ops :: "api_root_store \<Rightarrow> 'w store" where
  "api_root_store_ops a = empty_store\<lparr>st_ByID := (\<lambda>op s i w. (api_root_ByID a i, w)), st_List := (\<lambda>op s w. (api_root_List a, w))\<rparr>"

interpretation api_roots: listed_store api_root_List api_root_ByID
  by unfold_locales (rule api_root_ByID_def)

text \<open>\<^verbatim>\<open>path.Base\<close>: the last element, without trailing slashes.\<close>

definition path_base :: "string \<Rightarrow> string" where
  "path_base p =
     (if p = [] then ''.''
      else let q = rev (dropWhile (\<lambda>c. c = CHR ''/'') (rev p)) in
        if q = [] then ''/'' else rev (takeWhile (\<lambda>c. c \<noteq> CHR ''/'') (rev q)))"

definition getSchemaCollectionLink :: "url_builder \<Rightarrow> api_schema \<Rightarrow> string" where
  "getSchemaCollectionLink u s = (if MethodGet \<in> set (CollectionMethods s) then CollectionURL u s else [])"

definition addCollectionLink :: "url_builder \<Rightarrow> string \<Rightarrow> api_schema \<Rightarrow> (string, string) gomap \<Rightarrow> (string, string) gomap" where
  "addCollectionLink u apiVersion s links =
     (let l = getSchemaCollectionLink u s in
      if l \<noteq> [] then mput (PluralName s) (RelativeToRoot u (path_join [apiVersion, path_base l])) links else links)"

definition str_or_empty :: "json \<Rightarrow> string" where
  "str_or_empty v = (case v of JStr s \<Rightarrow> s | _ \<Rightarrow> [])"

text \<open>The links the formatter adds, for the data of the object.\<close>

definition api_root_Formatter :: "url_builder \<Rightarrow> api_schemas \<Rightarrow> obj \<Rightarrow> (string, string) gomap \<Rightarrow> (string, string) gomap" where
  "api_root_Formatter u schemas data links =
     (let path = str_or_empty (mgetd JNull data ''path'') in
      if path = [] then links
      else
        let links = mput ''root'' (RelativeToRoot u path) links in
        case mget data ''apiVersion'' of
          Some (JObj m) \<Rightarrow>
            (let apiVersion = str_or_empty (mgetd JNull m ''version'');
                 links = fold (\<lambda>(_, s). addCollectionLink u apiVersion s) (Schemas schemas) links;
                 links = mput ''self'' (RelativeToRoot u apiVersion) links
             in mput ''schemas'' (RelativeToRoot u path) links)
        | _ \<Rightarrow> links)"

subsection \<open>apigroup.go\<close>

text \<open>A group of the discovery client: its name and the object itself.\<close>

record api_group =
  ag_Name :: string
  ag_Versions :: "string list"

definition group_object :: "api_schema \<Rightarrow> api_group \<Rightarrow> api_group api_object" where
  "group_object s g =
     (let g = (if ag_Name g = [] then g\<lparr>ag_Name := ''core''\<rparr> else g)
      in \<lparr>obj_Type = ID s, obj_ID = ag_Name g, obj_Object = Some g\<rparr>)"

text \<open>The store's state is what the discovery client answers and the schema it is asked under.\<close>

definition api_group_List :: "(go_err + api_group list) \<times> api_schema \<Rightarrow> go_err + api_group api_object_list" where
  "api_group_List = (\<lambda>(discovered, s). case discovered of
       Inl err \<Rightarrow> Inl err
     | Inr groups \<Rightarrow> Inr (empty_list\<lparr>list_Objects := map (group_object s) groups\<rparr>))"

definition api_group_ByID :: "(go_err + api_group list) \<times> api_schema \<Rightarrow> string \<Rightarrow> go_err + api_group api_object" where
  "api_group_ByID st i = DefaultByID (api_group_List st) i"

interpretation api_groups: listed_store api_group_List api_group_ByID
  by unfold_locales (rule api_group_ByID_def)

section \<open>What the lookups find\<close>

lemma api_root_objects:
  "api_root_List a = Inr l \<Longrightarrow> set (list_Objects l) = version_root ` set (ar_versions a) \<union> (\<Union>r \<in> set (ar_roots a). set (named_root r))"
  by (auto simp: api_root_List_def)

lemma named_root_iff: "x \<in> set (named_root r) \<longleftrightarrow> (\<exists>i p. r = i @ CHR '':'' # p \<and> CHR '':'' \<notin> set i \<and>
    x = \<lparr>obj_Type = ''apiRoot'', obj_ID = i, obj_Object = Some (Value (JObj [(''id'', JStr i), (''path'', JStr p)]))\<rparr>)"
proof (cases "str_cut CHR '':'' r")
  case (fields i p found)
  show ?thesis
  proof (cases found)
    case True
    with fields have r: "r = i @ CHR '':'' # p" "CHR '':'' \<notin> set i" using str_cut_found [of "CHR '':''" r i p] by auto
    have "r = j @ CHR '':'' # q \<Longrightarrow> CHR '':'' \<notin> set j \<Longrightarrow> j = i \<and> q = p" for j q
      using fields str_cut_join [of "CHR '':''" j q] by auto
    then show ?thesis using fields True r by (auto simp: named_root_def)
  next
    case False
    with fields have "CHR '':'' \<notin> set r" using str_cut_not_found [of "CHR '':''" r i p] by simp
    then show ?thesis using fields False by (auto simp: named_root_def)
  qed
qed

lemma find_by_id_append: "find_by_id (xs @ ys) i = (case find_by_id xs i of Some x \<Rightarrow> Some x | None \<Rightarrow> find_by_id ys i)"
  by (induction xs) auto

lemma find_version: "find_by_id (map version_root vs) i = (if i \<in> set vs then Some (version_root i) else None)"
  by (induction vs) (auto simp: version_root_def)

text \<open>
  API roots by id. A version is always found under its own name, with the path of that version, even if a
  named root has the same id; any other id is found exactly if some root \<^verbatim>\<open>id:path\<close> names it, and then with a
  path that a root gives it; a root without a colon is never found.
\<close>

theorem api_root_lookup:
  "(i \<in> set (ar_versions a) \<longrightarrow> api_root_ByID a i = Inr (version_root i)) \<and>
   (i \<notin> set (ar_versions a) \<longrightarrow>
      (case api_root_ByID a i of
         Inr x \<Rightarrow> \<exists>p. i @ CHR '':'' # p \<in> set (ar_roots a) \<and> obj_ID x = i \<and>
           obj_Object x = Some (Value (JObj [(''id'', JStr i), (''path'', JStr p)]))
       | Inl e \<Rightarrow> e = CodeError NotFound \<and> (CHR '':'' \<notin> set i \<longrightarrow> (\<forall>p. i @ CHR '':'' # p \<notin> set (ar_roots a)))))"
proof -
  obtain l where l: "api_root_List a = Inr l" by (simp add: api_root_List_def)
  have "api_root_ByID a i = Inr (version_root i)" if "i \<in> set (ar_versions a)"
    using that by (simp add: api_root_ByID_def api_root_List_def DefaultByID_def find_by_id_append find_version)
  moreover have "case api_root_ByID a i of
         Inr x \<Rightarrow> \<exists>p. i @ CHR '':'' # p \<in> set (ar_roots a) \<and> obj_ID x = i \<and>
           obj_Object x = Some (Value (JObj [(''id'', JStr i), (''path'', JStr p)]))
       | Inl e \<Rightarrow> e = CodeError NotFound \<and> (CHR '':'' \<notin> set i \<longrightarrow> (\<forall>p. i @ CHR '':'' # p \<notin> set (ar_roots a)))"
    if new: "i \<notin> set (ar_versions a)"
  proof (cases "api_root_ByID a i")
    case (Inr x)
    from api_roots.byID_found [OF Inr] l have i: "obj_ID x = i" and x: "x \<in> set (list_Objects l)" by auto
    from x i new show ?thesis
      unfolding api_root_objects [OF l] by (auto simp: Inr version_root_def named_root_iff)
  next
    case (Inl e)
    have e: "e = CodeError NotFound"
      using Inl l by (auto simp: api_root_ByID_def DefaultByID_def split: option.splits)
    with Inl api_roots.byID_missing [OF l, of i] have none: "\<forall>x \<in> set (list_Objects l). obj_ID x \<noteq> i" by simp
    have "i @ CHR '':'' # p \<notin> set (ar_roots a)" if "CHR '':'' \<notin> set i" for p
    proof
      assume r: "i @ CHR '':'' # p \<in> set (ar_roots a)"
      have "\<lparr>obj_Type = ''apiRoot'', obj_ID = i, obj_Object = Some (Value (JObj [(''id'', JStr i), (''path'', JStr p)]))\<rparr>
          \<in> set (named_root (i @ CHR '':'' # p))"
        using that by (auto simp: named_root_iff)
      with r have "\<exists>x \<in> set (list_Objects l). obj_ID x = i"
        unfolding api_root_objects [OF l] by (intro bexI [OF _ UnI2 [OF UN_I [OF r]]]) simp_all
      with none show False by blast
    qed
    with e Inl show ?thesis by simp
  qed
  ultimately show ?thesis by blast
qed

lemma api_root_lookup_witness:
  "api_root_ByID (NewAPIRootStore [''v1''] [''api:/x'', ''v1:/y'']) ''v1'' = Inr (version_root ''v1'')"
  using api_root_lookup [of "''v1''" "NewAPIRootStore [''v1''] [''api:/x'', ''v1:/y'']"]
  by (simp add: NewAPIRootStore_def)

text \<open>The core group, whose name is empty, is found under \<open>core\<close>, and under no other name.\<close>

lemma core_group_lookup:
  assumes "g \<in> set gs" and "ag_Name g = []"
  shows "\<exists>x. api_group_ByID (Inr gs, s) ''core'' = Inr x \<and> obj_ID x = ''core''"
    and "api_group_ByID (Inr gs, s) [] = Inl (CodeError NotFound)"
proof -
  obtain l where l: "api_group_List (Inr gs, s) = Inr l" by (simp add: api_group_List_def)
  have "group_object s g \<in> set (list_Objects l)" using l assms(1) by (auto simp: api_group_List_def)
  from api_groups.byID_complete [OF l this] assms(2) obtain x where x: "api_group_ByID (Inr gs, s) ''core'' = Inr x"
    by (auto simp: group_object_def)
  with api_groups.byID_found [OF x] show "\<exists>x. api_group_ByID (Inr gs, s) ''core'' = Inr x \<and> obj_ID x = ''core''" by auto
  have "\<forall>x \<in> set (list_Objects l). obj_ID x \<noteq> []"
    using l by (auto simp: api_group_List_def group_object_def Let_def split: if_splits)
  with api_groups.byID_missing [OF l, of "[]"] show "api_group_ByID (Inr gs, s) [] = Inl (CodeError NotFound)" by simp
qed

end
