(* ===== verification/Schema_Store.thy ===== *)
theory Schema_Store
  imports Requests "HOL-Library.While_Combinator"
begin

section \<open>The schemas as API objects: schema\_store.go and schemas/template.go\<close>

text \<open>
  The store that lists the schemas of a request, and the watch that tells a client how they change.
  A listing shows every schema with methods and whatever those refer to, by a depth-first search that
  marks what it has visited. Fuel bounds the depth of the search; the loop that unwraps a field type is
  a while loop that may not end. The function \<open>definition.SubType\<close> of the schemer package is the argument \<open>sub\<close>.
  The goroutines of the watch are in the theory \<open>Schema_Watch\<close>: \<open>sendSchemas\<close> is what each of them does on a notification.
\<close>

type_synonym schema_object = "api_schema api_object"

definition schema_object :: "api_schema \<Rightarrow> schema_object" where
  "schema_object s =
     \<lparr>obj_Type = ''schema'', obj_ID = ID s,
      obj_Object = Some ((DeepCopy s)\<lparr>Attributes := mdel ''access'' (Attributes s)\<rparr>)\<rparr>"

text \<open>The objects collected so far and the map \<open>included\<close>.\<close>

type_synonym search = "schema_object list \<times> (string, bool) gomap"

definition base_type :: "(string \<Rightarrow> string) \<Rightarrow> string \<Rightarrow> string option" where
  "base_type sub ty =
     map_option fst (while_option (\<lambda>(t, subType). subType \<noteq> t) (\<lambda>(t, subType). (subType, sub subType)) ([], ty))"

definition visit :: "(api_schema \<Rightarrow> search \<Rightarrow> search option) \<Rightarrow> (string, api_schema) gomap \<Rightarrow> string \<Rightarrow> search \<Rightarrow> search option" where
  "visit add m t st =
     (case mget m t of
        None \<Rightarrow> Some st
      | Some refSchema \<Rightarrow> if \<not> mgetd False (snd st) t then add refSchema st else Some st)"

fun visit_list :: "(api_schema \<Rightarrow> search \<Rightarrow> search option) \<Rightarrow> (string, api_schema) gomap \<Rightarrow> string list \<Rightarrow> search \<Rightarrow> search option" where
  "visit_list add m [] st = Some st"
| "visit_list add m (t # ts) st =
     (case visit add m t st of None \<Rightarrow> None | Some st \<Rightarrow> visit_list add m ts st)"

fun visit_fields :: "(api_schema \<Rightarrow> search \<Rightarrow> search option) \<Rightarrow> (string, api_schema) gomap \<Rightarrow> (string \<Rightarrow> string) \<Rightarrow>
    (string, field) gomap \<Rightarrow> search \<Rightarrow> search option" where
  "visit_fields add m sub [] st = Some st"
| "visit_fields add m sub ((_, f) # fs) st =
     (case base_type sub (f_Type f) of
        None \<Rightarrow> None
      | Some t \<Rightarrow> (case visit add m t st of None \<Rightarrow> None | Some st \<Rightarrow> visit_fields add m sub fs st))"

definition action_types :: "(string, action) gomap \<Rightarrow> string list" where
  "action_types acts = filter (\<lambda>t. t \<noteq> []) (concat (map (\<lambda>(_, a). [act_Output a, act_Input a]) acts))"

definition traverseAndAdd :: "(api_schema \<Rightarrow> search \<Rightarrow> search option) \<Rightarrow> (string \<Rightarrow> string) \<Rightarrow> (string, api_schema) gomap \<Rightarrow>
    api_schema \<Rightarrow> search \<Rightarrow> search option" where
  "traverseAndAdd add sub m s st =
     (case visit_fields add m sub (ResourceFields s) st of
        None \<Rightarrow> None
      | Some st \<Rightarrow>
          (case visit_list add m (action_types (ResourceActions s)) st of
             None \<Rightarrow> None
           | Some st \<Rightarrow> visit_list add m (action_types (CollectionActions s)) st))"

fun addSchema :: "nat \<Rightarrow> (string \<Rightarrow> string) \<Rightarrow> (string, api_schema) gomap \<Rightarrow> api_schema \<Rightarrow> search \<Rightarrow> search option" where
  "addSchema 0 sub m s st = None"
| "addSchema (Suc n) sub m s st =
     (case traverseAndAdd (addSchema n sub m) sub m s (fst st, mput (ID s) True (snd st)) of
        None \<Rightarrow> None
      | Some (objs, included) \<Rightarrow> Some (objs @ [schema_object s], included))"

definition has_methods :: "api_schema \<Rightarrow> bool" where
  "has_methods s \<longleftrightarrow> length (CollectionMethods s) > 0 \<or> length (ResourceMethods s) > 0"

fun filter_loop :: "nat \<Rightarrow> (string \<Rightarrow> string) \<Rightarrow> (string, api_schema) gomap \<Rightarrow> (string, api_schema) gomap \<Rightarrow> search \<Rightarrow> search option" where
  "filter_loop n sub m [] st = Some st"
| "filter_loop n sub m ((_, s) # rest) st =
     (if mgetd False (snd st) (ID s) then filter_loop n sub m rest st
      else if has_methods s
      then (case addSchema n sub m s st of None \<Rightarrow> None | Some st \<Rightarrow> filter_loop n sub m rest st)
      else filter_loop n sub m rest st)"

definition FilterSchemas :: "(string \<Rightarrow> string) \<Rightarrow> (string, api_schema) gomap \<Rightarrow> schema_object list option" where
  "FilterSchemas sub m = map_option fst (filter_loop (length m) sub m m ([], []))"

definition schema_ByID :: "api_schemas \<Rightarrow> string \<Rightarrow> go_err + schema_object" where
  "schema_ByID schemas i =
     (case LookupSchema schemas i of
        None \<Rightarrow> Inl (NewAPIError NotFound ''no such schema'')
      | Some s \<Rightarrow> Inr (schema_object s))"

definition schema_List :: "(string \<Rightarrow> string) \<Rightarrow> api_schemas \<Rightarrow> api_schema api_object_list option" where
  "schema_List sub schemas = map_option (\<lambda>objs. empty_list\<lparr>list_Objects := objs\<rparr>) (FilterSchemas sub (Schemas schemas))"

subsection \<open>The watch of schemas/template.go\<close>

text \<open>
  \<^verbatim>\<open>equality.Semantic.DeepEqual\<close> on the embedded schemas, the mappers aside: slices element by element,
  maps by their entries.
\<close>

definition meq :: "('k, 'v) gomap \<Rightarrow> ('k, 'v) gomap \<Rightarrow> bool" where
  "meq m m' \<longleftrightarrow> list_all (\<lambda>(k, _). mget m k = mget m' k) m \<and> list_all (\<lambda>(k, _). mget m k = mget m' k) m'"

definition schema_equal :: "'a schema_scheme \<Rightarrow> 'b schema_scheme \<Rightarrow> bool" where
  "schema_equal s t \<longleftrightarrow> ID s = ID t \<and> PluralName s = PluralName t \<and> CollectionMethods s = CollectionMethods t \<and>
     ResourceMethods s = ResourceMethods t \<and> meq (ResourceFields s) (ResourceFields t) \<and>
     meq (ResourceActions s) (ResourceActions t) \<and> meq (CollectionActions s) (CollectionActions t) \<and>
     meq (Attributes s) (Attributes t)"

definition schema_event :: "string \<Rightarrow> schema_object \<Rightarrow> api_schema api_event" where
  "schema_event nm x = empty_event\<lparr>ev_Name := nm, ev_ResourceType := ''schema'', ev_Object := x\<rparr>"

definition shown_event :: "api_schemas \<Rightarrow> schema_object \<Rightarrow> api_schema api_event list" where
  "shown_event old x =
     (case LookupSchema old (obj_ID x) of
        None \<Rightarrow> [schema_event CreateAPIEvent x]
      | Some o' \<Rightarrow>
          if (case obj_Object x of None \<Rightarrow> False | Some s \<Rightarrow> schema_equal s o') then []
          else [schema_event ChangeAPIEvent x])"

definition sendSchemas :: "(string \<Rightarrow> string) \<Rightarrow> (go_err + api_schemas) \<Rightarrow> api_schemas \<Rightarrow> (api_schema api_event list \<times> api_schemas) option" where
  "sendSchemas sub computed old =
     (case computed of
        Inl _ \<Rightarrow> Some ([], old)
      | Inr schemas \<Rightarrow>
          (case (FilterSchemas sub (Schemas schemas), FilterSchemas sub (Schemas old)) of
             (Some news, Some olds) \<Rightarrow>
               Some (concat (map (shown_event old) news) @
                 map (schema_event RemoveAPIEvent) (filter (\<lambda>x. obj_ID x \<notin> set (map obj_ID news)) olds), schemas)
           | _ \<Rightarrow> None))"

text \<open>\<open>userChangeNotify\<close>: the access set IDs of the polls, and how often it notifies.\<close>

fun userChangeNotify :: "string \<Rightarrow> string list \<Rightarrow> nat" where
  "userChangeNotify as [] = 0"
| "userChangeNotify as (newAS # polls) =
     (if newAS \<noteq> as then Suc (userChangeNotify newAS polls) else userChangeNotify as polls)"

section \<open>The search ends and shows what is reachable\<close>

definition keyed :: "(string, api_schema) gomap \<Rightarrow> bool" where
  "keyed m \<longleftrightarrow> mwf m \<and> (\<forall>k s. mget m k = Some s \<longrightarrow> ID s = k)"

text \<open>\<open>SubType\<close> strips a wrapper such as \<^verbatim>\<open>array[\<close>\<dots>\<^verbatim>\<open>]\<close>, or returns its argument.\<close>

definition sub_ok :: "(string \<Rightarrow> string) \<Rightarrow> bool" where
  "sub_ok sub \<longleftrightarrow> (\<forall>t. sub t = t \<or> length (sub t) < length t)"

lemma base_type_total:
  assumes "sub_ok sub"
  shows "\<exists>t. base_type sub ty = Some t"
proof -
  have "\<exists>t. while_option (\<lambda>(t, u). u \<noteq> t) (\<lambda>(t, u). (u, sub u)) (v, ty) = Some t" for v
  proof (induction "length ty" arbitrary: v ty rule: less_induct)
    case less
    show ?case
    proof (cases "ty = v")
      case True
      then show ?thesis by (subst while_option_unfold) simp
    next
      case False
      have "\<exists>t. while_option (\<lambda>(t, u). u \<noteq> t) (\<lambda>(t, u). (u, sub u)) (ty, sub ty) = Some t"
      proof (cases "sub ty = ty")
        case True
        then show ?thesis by (subst while_option_unfold) simp
      next
        case False
        then have "length (sub ty) < length ty" using assms by (auto simp: sub_ok_def)
        from less [OF this] show ?thesis .
      qed
      with False show ?thesis by (subst while_option_unfold) simp
    qed
  qed
  then show ?thesis by (auto simp: base_type_def)
qed

definition refs :: "(string \<Rightarrow> string) \<Rightarrow> api_schema \<Rightarrow> string list" where
  "refs sub s = map (\<lambda>(_, f). the (base_type sub (f_Type f))) (ResourceFields s) @
     action_types (ResourceActions s) @ action_types (CollectionActions s)"

lemma visit_list_append:
  "visit_list add m (ts @ us) st = (case visit_list add m ts st of None \<Rightarrow> None | Some st \<Rightarrow> visit_list add m us st)"
  by (induction ts arbitrary: st) (auto split: option.splits)

lemma visit_fields_list:
  assumes "sub_ok sub"
  shows "visit_fields add m sub fs st = visit_list add m (map (\<lambda>(_, f). the (base_type sub (f_Type f))) fs) st"
proof (induction fs arbitrary: st)
  case Nil
  then show ?case by simp
next
  case (Cons p fs)
  obtain k f where p: "p = (k, f)" by (cases p)
  from base_type_total [OF assms] obtain t where "base_type sub (f_Type f) = Some t" by blast
  with Cons.IH p show ?case by (simp split: option.splits)
qed

lemma traverse_refs: "sub_ok sub \<Longrightarrow> traverseAndAdd add sub m s st = visit_list add m (refs sub s) st"
  by (simp add: traverseAndAdd_def visit_fields_list refs_def visit_list_append split: option.splits)

definition ref_rel :: "(string \<Rightarrow> string) \<Rightarrow> (string, api_schema) gomap \<Rightarrow> (string \<times> string) set" where
  "ref_rel sub m = {(i, t). \<exists>s. mget m i = Some s \<and> t \<in> set (refs sub s) \<and> mhas m t}"

definition inc :: "search \<Rightarrow> string set" where
  "inc st = {t. mgetd False (snd st) t}"

definition visited :: "(string \<Rightarrow> string) \<Rightarrow> (string, api_schema) gomap \<Rightarrow> string set \<Rightarrow> search \<Rightarrow> search \<Rightarrow> bool" where
  "visited sub m S st st' \<longleftrightarrow> inc st \<subseteq> inc st' \<and>
     (\<exists>new. fst st' = fst st @ new \<and> distinct (map obj_ID new) \<and> obj_ID ` set new = inc st' - inc st \<and>
        (\<forall>x \<in> set new. \<exists>s. mget m (obj_ID x) = Some s \<and> x = schema_object s)) \<and>
     inc st' - inc st \<subseteq> (ref_rel sub m)\<^sup>* `` S \<and>
     (\<forall>i \<in> inc st' - inc st. \<forall>t. (i, t) \<in> ref_rel sub m \<longrightarrow> t \<in> inc st')"

lemma visited_refl: "visited sub m S st st"
  by (simp add: visited_def)

lemma visited_mono: "visited sub m S st st' \<Longrightarrow> S \<subseteq> T \<Longrightarrow> visited sub m T st st'"
  unfolding visited_def by (meson Image_mono order_refl subset_trans)

lemma visited_trans:
  assumes "visited sub m S a b" and "visited sub m S b c"
  shows "visited sub m S a c"
proof -
  from assms(1) obtain n1 where n1: "fst b = fst a @ n1" "distinct (map obj_ID n1)" "obj_ID ` set n1 = inc b - inc a"
    "\<forall>x \<in> set n1. \<exists>s. mget m (obj_ID x) = Some s \<and> x = schema_object s" by (auto simp: visited_def)
  from assms(2) obtain n2 where n2: "fst c = fst b @ n2" "distinct (map obj_ID n2)" "obj_ID ` set n2 = inc c - inc b"
    "\<forall>x \<in> set n2. \<exists>s. mget m (obj_ID x) = Some s \<and> x = schema_object s" by (auto simp: visited_def)
  have sub: "inc a \<subseteq> inc b" "inc b \<subseteq> inc c" using assms by (auto simp: visited_def)
  have "fst c = fst a @ n1 @ n2 \<and> distinct (map obj_ID (n1 @ n2)) \<and> obj_ID ` set (n1 @ n2) = inc c - inc a \<and>
      (\<forall>x \<in> set (n1 @ n2). \<exists>s. mget m (obj_ID x) = Some s \<and> x = schema_object s)"
    using n1 n2 sub by (auto simp: image_Un)
  moreover have "inc c - inc a \<subseteq> (ref_rel sub m)\<^sup>* `` S"
  proof -
    have "inc b - inc a \<subseteq> (ref_rel sub m)\<^sup>* `` S" "inc c - inc b \<subseteq> (ref_rel sub m)\<^sup>* `` S"
      using assms by (simp_all add: visited_def)
    then show ?thesis by auto
  qed
  moreover have "t \<in> inc c" if "i \<in> inc c - inc a" "(i, t) \<in> ref_rel sub m" for i t
  proof (cases "i \<in> inc b")
    case True
    with that assms(1) have "t \<in> inc b" by (auto simp: visited_def)
    with sub show ?thesis by auto
  next
    case False
    with that assms(2) show ?thesis by (auto simp: visited_def)
  qed
  ultimately show ?thesis using sub unfolding visited_def by auto
qed

lemma keyed_card: "finite (set (map fst m) - inc st)"
  by simp

lemma inc_mark [simp]: "inc (objs, mput i True (snd st)) = insert i (inc st)"
  by (auto simp: inc_def mgetd_mput)

lemma inc_fst [simp]: "inc (objs, snd st) = inc st"
  by (simp add: inc_def)

text \<open>What one call of \<open>addSchema\<close> with enough fuel does, and a sequence of visits made of such calls.\<close>

definition adds :: "(string \<Rightarrow> string) \<Rightarrow> (string, api_schema) gomap \<Rightarrow> nat \<Rightarrow> (api_schema \<Rightarrow> search \<Rightarrow> search option) \<Rightarrow> bool" where
  "adds sub m n add \<longleftrightarrow>
     (\<forall>s st. mget m (ID s) = Some s \<and> ID s \<notin> inc st \<and> card (set (map fst m) - inc st) \<le> n \<longrightarrow>
        (\<exists>st'. add s st = Some st' \<and> visited sub m {ID s} st st' \<and> ID s \<in> inc st'))"

lemma card_visited: "visited sub m S st st' \<Longrightarrow> card (set (map fst m) - inc st') \<le> card (set (map fst m) - inc st)"
  by (intro card_mono keyed_card) (auto simp: visited_def)

lemma visit_list_spec:
  assumes "keyed m" and "adds sub m n add" and "card (set (map fst m) - inc st) \<le> n"
  shows "\<exists>st'. visit_list add m ts st = Some st' \<and> visited sub m {t \<in> set ts. mhas m t} st st' \<and>
    {t \<in> set ts. mhas m t} \<subseteq> inc st'"
  using assms(3)
proof (induction ts arbitrary: st)
  case Nil
  then show ?case by (simp add: visited_refl)
next
  case (Cons t ts)
  have one: "\<exists>st1. visit add m t st = Some st1 \<and> visited sub m {u \<in> set (t # ts). mhas m u} st st1 \<and> (mhas m t \<longrightarrow> t \<in> inc st1)"
  proof (cases "mget m t")
    case None
    then show ?thesis by (simp add: visit_def visited_refl mhas_def)
  next
    case (Some s)
    show ?thesis
    proof (cases "t \<in> inc st")
      case True
      with Some show ?thesis by (simp add: visit_def visited_refl inc_def)
    next
      case False
      from Some assms(1) have "ID s = t" by (auto simp: keyed_def)
      with assms(2) Some False Cons.prems obtain st1 where "add s st = Some st1" "visited sub m {t} st st1" "t \<in> inc st1"
        unfolding adds_def by blast
      moreover have "{t} \<subseteq> {u \<in> set (t # ts). mhas m u}" using Some by (simp add: mhas_def)
      ultimately show ?thesis
        using Some False visited_mono [of sub m "{t}" st st1] by (auto simp: visit_def inc_def)
    qed
  qed
  then obtain st1 where st1: "visit add m t st = Some st1" "visited sub m {u \<in> set (t # ts). mhas m u} st st1" "mhas m t \<longrightarrow> t \<in> inc st1"
    by blast
  from Cons.IH [of st1] card_visited [OF st1(2)] Cons.prems obtain st2
    where st2: "visit_list add m ts st1 = Some st2" "visited sub m {t \<in> set ts. mhas m t} st1 st2" "{t \<in> set ts. mhas m t} \<subseteq> inc st2"
    by (meson le_trans)
  have "visited sub m {u \<in> set (t # ts). mhas m u} st1 st2" using st2(2) by (rule visited_mono) auto
  with st1(2) have "visited sub m {u \<in> set (t # ts). mhas m u} st st2" by (rule visited_trans)
  moreover have "{u \<in> set (t # ts). mhas m u} \<subseteq> inc st2"
    using st1(3) st2(2,3) by (auto simp: visited_def)
  ultimately show ?case using st1(1) st2(1) by simp
qed

lemma addSchema_adds:
  assumes "keyed m" and "sub_ok sub"
  shows "adds sub m n (addSchema n sub m)"
proof (induction n)
  case 0
  have "\<not> (mget m (ID s) = Some s \<and> ID s \<notin> inc st \<and> card (set (map fst m) - inc st) \<le> 0)" for s st
  proof
    assume a: "mget m (ID s) = Some s \<and> ID s \<notin> inc st \<and> card (set (map fst m) - inc st) \<le> 0"
    then have "set (map fst m) - inc st = {}" by (simp add: card_eq_0_iff)
    moreover have "ID s \<in> set (map fst m)" using a by (metis mhas_def mhas_keys option.distinct(1))
    ultimately show False using a by auto
  qed
  then show ?case unfolding adds_def by blast
next
  case (Suc n)
  show ?case unfolding adds_def
  proof (intro allI impI, elim conjE)
    fix s and st :: search
    assume s: "mget m (ID s) = Some s" and new: "ID s \<notin> inc st" and fuel: "card (set (map fst m) - inc st) \<le> Suc n"
    let ?st = "(fst st, mput (ID s) True (snd st))"
    have mark: "inc ?st = insert (ID s) (inc st)" by simp
    have key: "ID s \<in> set (map fst m)" using s by (metis mhas_def mhas_keys option.distinct(1))
    have "set (map fst m) - inc ?st = (set (map fst m) - inc st) - {ID s}" by (auto simp: mark)
    moreover have "ID s \<in> set (map fst m) - inc st" using key new by simp
    ultimately have "card (set (map fst m) - inc ?st) = card (set (map fst m) - inc st) - 1"
      by (simp only: card_Diff_singleton)
    with fuel have "card (set (map fst m) - inc ?st) \<le> n" by simp
    from visit_list_spec [OF assms(1) Suc.IH this] obtain st'
      where st': "visit_list (addSchema n sub m) m (refs sub s) ?st = Some st'"
        "visited sub m {t \<in> set (refs sub s). mhas m t} ?st st'" "{t \<in> set (refs sub s). mhas m t} \<subseteq> inc st'" by blast
    let ?st' = "(fst st' @ [schema_object s], snd st')"
    have run: "addSchema (Suc n) sub m s st = Some ?st'"
      using st'(1) by (simp add: traverse_refs [OF assms(2)] split: prod.splits)
    from st'(2) obtain new' where n: "fst st' = fst st @ new'" "distinct (map obj_ID new')" "obj_ID ` set new' = inc st' - inc ?st"
      "\<forall>x \<in> set new'. \<exists>s. mget m (obj_ID x) = Some s \<and> x = schema_object s" by (auto simp: visited_def)
    have sub': "insert (ID s) (inc st) \<subseteq> inc st'" using st'(2) by (auto simp: visited_def mark)
    have diff: "inc ?st' - inc st = insert (ID s) (inc st' - inc ?st)" using sub' new by (auto simp: mark)
    have objs: "fst ?st' = fst st @ (new' @ [schema_object s]) \<and> distinct (map obj_ID (new' @ [schema_object s])) \<and>
        obj_ID ` set (new' @ [schema_object s]) = inc ?st' - inc st \<and>
        (\<forall>x \<in> set (new' @ [schema_object s]). \<exists>s. mget m (obj_ID x) = Some s \<and> x = schema_object s)"
    proof -
      have "ID s \<notin> obj_ID ` set new'" using n(3) by (simp add: mark)
      then show ?thesis using n s sub' new by (auto simp: schema_object_def diff)
    qed
    have edges: "(ID s, t) \<in> ref_rel sub m" if "t \<in> set (refs sub s)" "mhas m t" for t
      using that s by (auto simp: ref_rel_def)
    have "inc ?st' - inc st \<subseteq> (ref_rel sub m)\<^sup>* `` {ID s}"
    proof -
      have "inc st' - inc ?st \<subseteq> (ref_rel sub m)\<^sup>* `` {t \<in> set (refs sub s). mhas m t}" using st'(2) by (simp add: visited_def)
      also have "\<dots> \<subseteq> (ref_rel sub m)\<^sup>* `` {ID s}" using edges by (auto intro: converse_rtrancl_into_rtrancl)
      finally show ?thesis by (auto simp: diff)
    qed
    moreover have "t \<in> inc ?st'" if "i \<in> inc ?st' - inc st" "(i, t) \<in> ref_rel sub m" for i t
    proof (cases "i = ID s")
      case True
      with that(2) s have "t \<in> set (refs sub s)" "mhas m t" by (auto simp: ref_rel_def)
      with st'(3) show ?thesis by auto
    next
      case False
      with that(1) diff have "i \<in> inc st' - inc ?st" by blast
      moreover have "\<forall>i \<in> inc st' - inc ?st. \<forall>t. (i, t) \<in> ref_rel sub m \<longrightarrow> t \<in> inc st'"
        using st'(2) by (simp add: visited_def)
      ultimately have "t \<in> inc st'" using that(2) by blast
      then show ?thesis by (simp only: inc_fst)
    qed
    ultimately have "visited sub m {ID s} st ?st'"
      using objs sub' unfolding visited_def by auto
    with run sub' show "\<exists>st'. addSchema (Suc n) sub m s st = Some st' \<and> visited sub m {ID s} st st' \<and> ID s \<in> inc st'" by auto
  qed
qed

lemma Image_closed_trancl:
  assumes "r `` X \<subseteq> X" and "Y \<subseteq> X"
  shows "r\<^sup>* `` Y \<subseteq> X"
proof
  fix z assume "z \<in> r\<^sup>* `` Y"
  then obtain y where y: "y \<in> Y" and step: "(y, z) \<in> r\<^sup>*" by blast
  from step show "z \<in> X"
  proof (induction rule: rtrancl_induct)
    case base
    with y assms(2) show ?case by blast
  next
    case (step z w)
    with assms(1) show ?case by blast
  qed
qed

definition roots :: "(string, api_schema) gomap \<Rightarrow> string set" where
  "roots m = {k. \<exists>s. mget m k = Some s \<and> has_methods s}"

definition shown :: "(string \<Rightarrow> string) \<Rightarrow> (string, api_schema) gomap \<Rightarrow> string set" where
  "shown sub m = (ref_rel sub m)\<^sup>* `` roots m"

lemma filter_loop_spec:
  assumes "keyed m" and "sub_ok sub" and "set rest \<subseteq> set m"
  shows "\<exists>st'. filter_loop (length m) sub m rest st = Some st' \<and> visited sub m (roots m) st st' \<and>
    {ID s | s k. (k, s) \<in> set rest \<and> has_methods s} \<subseteq> inc st'"
  using assms(3)
proof (induction rest arbitrary: st)
  case Nil
  then show ?case by (simp add: visited_refl)
next
  case (Cons p rest)
  obtain k s where p: "p = (k, s)" by (cases p)
  have s: "mget m k = Some s" "ID s = k" using Cons.prems p assms(1) by (auto simp: keyed_def mwf_mget_iff)
  have one: "\<exists>st1. filter_loop (length m) sub m (p # rest) st = filter_loop (length m) sub m rest st1 \<and>
      visited sub m (roots m) st st1 \<and> (has_methods s \<longrightarrow> ID s \<in> inc st1)"
  proof (cases "ID s \<in> inc st \<or> \<not> has_methods s")
    case True
    then show ?thesis by (intro exI [of _ st]) (auto simp: p inc_def visited_refl)
  next
    case False
    have fuel: "card (set (map fst m) - inc st) \<le> length m"
      using card_length [of "map fst m"] card_mono [of "set (map fst m)" "set (map fst m) - inc st"] by simp
    from addSchema_adds [OF assms(1,2), of "length m"] s False fuel obtain st1
      where "addSchema (length m) sub m s st = Some st1" "visited sub m {ID s} st st1" "ID s \<in> inc st1"
      unfolding adds_def by blast
    moreover have "{ID s} \<subseteq> roots m" using s False by (auto simp: roots_def)
    ultimately show ?thesis
      using False visited_mono [of sub m "{ID s}" st st1 "roots m"] by (intro exI [of _ st1]) (auto simp: p inc_def)
  qed
  then obtain st1 where st1: "filter_loop (length m) sub m (p # rest) st = filter_loop (length m) sub m rest st1"
    "visited sub m (roots m) st st1" "has_methods s \<longrightarrow> ID s \<in> inc st1" by blast
  from Cons.IH [of st1] Cons.prems obtain st2 where st2: "filter_loop (length m) sub m rest st1 = Some st2"
    "visited sub m (roots m) st1 st2" "{ID s | s k. (k, s) \<in> set rest \<and> has_methods s} \<subseteq> inc st2" by auto
  have "inc st1 \<subseteq> inc st2" using st2(2) by (simp add: visited_def)
  with st1(3) st2(3) p have "{ID s | s k. (k, s) \<in> set (p # rest) \<and> has_methods s} \<subseteq> inc st2" by auto
  moreover have "visited sub m (roots m) st st2" using st1(2) st2(2) by (rule visited_trans)
  ultimately show ?case using st1(1) st2(1) by auto
qed

lemma FilterSchemas_total:
  assumes "keyed m" and "sub_ok sub"
  shows "\<exists>objs. FilterSchemas sub m = Some objs \<and> distinct (map obj_ID objs) \<and> obj_ID ` set objs = shown sub m \<and>
    (\<forall>x \<in> set objs. \<exists>s. mget m (obj_ID x) = Some s \<and> x = schema_object s)"
proof -
  from filter_loop_spec [OF assms, of m "([], [])"] obtain st
    where st: "filter_loop (length m) sub m m ([], []) = Some st" "visited sub m (roots m) ([], []) st"
      "{ID s | s k. (k, s) \<in> set m \<and> has_methods s} \<subseteq> inc st" by auto
  have none: "inc ([], []) = {}" by (simp add: inc_def mgetd_def)
  have "roots m \<subseteq> inc st"
  proof
    fix k assume "k \<in> roots m"
    then obtain s where s: "mget m k = Some s" "has_methods s" by (auto simp: roots_def)
    moreover have "ID s = k" using s(1) assms(1) by (simp add: keyed_def)
    ultimately show "k \<in> inc st" using st(3) mget_in_set [OF s(1)] by blast
  qed
  moreover have "ref_rel sub m `` inc st \<subseteq> inc st" using st(2) none by (auto simp: visited_def)
  ultimately have "shown sub m \<subseteq> inc st"
    unfolding shown_def by (intro Image_closed_trancl)
  moreover have "inc st \<subseteq> shown sub m" using st(2) none by (simp add: visited_def shown_def)
  ultimately have "inc st = shown sub m" by simp
  with st(1,2) none show ?thesis by (auto simp: FilterSchemas_def visited_def)
qed

text \<open>
  C16. The listing of schemas ends and is exact. For a collection keyed by schema ids, the depth-first search
  of \<open>FilterSchemas\<close> returns, also when schemas refer to each other in cycles, and lists every schema
  reachable from one with methods through field types and action types once and no other, each as it is in
  the collection, without its access list.
\<close>

theorem filter_schemas_exact:
  assumes "keyed m" and "sub_ok sub"
  shows "\<exists>objs. FilterSchemas sub m = Some objs \<and> distinct (map obj_ID objs) \<and>
    (\<forall>x. x \<in> set objs \<longleftrightarrow> (\<exists>s. mget m (ID s) = Some s \<and> x = schema_object s \<and> ID s \<in> shown sub m)) \<and>
    (\<forall>x s. x \<in> set objs \<and> obj_Object x = Some s \<longrightarrow> get_attr s ''access'' = ANil)"
proof -
  from FilterSchemas_total [OF assms] obtain objs where o: "FilterSchemas sub m = Some objs" "distinct (map obj_ID objs)"
    "obj_ID ` set objs = shown sub m" "\<forall>x \<in> set objs. \<exists>s. mget m (obj_ID x) = Some s \<and> x = schema_object s" by blast
  have id: "obj_ID (schema_object s) = ID s" for s by (simp add: schema_object_def)
  have "x \<in> set objs \<longleftrightarrow> (\<exists>s. mget m (ID s) = Some s \<and> x = schema_object s \<and> ID s \<in> shown sub m)" for x
  proof
    assume x: "x \<in> set objs"
    with o(4) obtain s where s: "mget m (obj_ID x) = Some s" "x = schema_object s" by blast
    moreover have "ID s \<in> shown sub m" using x o(3) s id by (metis imageI)
    ultimately show "\<exists>s. mget m (ID s) = Some s \<and> x = schema_object s \<and> ID s \<in> shown sub m" using id by metis
  next
    assume "\<exists>s. mget m (ID s) = Some s \<and> x = schema_object s \<and> ID s \<in> shown sub m"
    then obtain s where s: "mget m (ID s) = Some s" "x = schema_object s" "ID s \<in> shown sub m" by blast
    from s(3) o(3) obtain y where y: "y \<in> set objs" "obj_ID y = ID s" by (metis imageE)
    with o(4) s(1) have "y = schema_object s" by auto
    with y s show "x \<in> set objs" by simp
  qed
  moreover have "get_attr s ''access'' = ANil" if "x \<in> set objs" "obj_Object x = Some s" for x s
  proof -
    from that o(4) obtain t where "x = schema_object t" by blast
    with that(2) show ?thesis by (auto simp: schema_object_def get_attr_def mgetd_def mget_mdel)
  qed
  ultimately show ?thesis using o(1,2) by blast
qed

section \<open>What a watch of the schemas tells its client\<close>

text \<open>The client keeps a schema under each id it was told.\<close>

definition view :: "schema_object list \<Rightarrow> string \<Rightarrow> schema_object option" where
  "view objs = mget (map (\<lambda>x. (obj_ID x, x)) objs)"

fun replay :: "(string \<Rightarrow> schema_object option) \<Rightarrow> api_schema api_event list \<Rightarrow> string \<Rightarrow> schema_object option" where
  "replay v [] = v"
| "replay v (e # es) =
     replay (if ev_Name e = RemoveAPIEvent then v(obj_ID (ev_Object e) := None)
             else v(obj_ID (ev_Object e) \<mapsto> ev_Object e)) es"

definition same_schema :: "schema_object \<Rightarrow> schema_object \<Rightarrow> bool" where
  "same_schema x y \<longleftrightarrow> rel_option schema_equal (obj_Object x) (obj_Object y)"

lemma meq_iff: "meq m m' \<longleftrightarrow> mget m = mget m'"
proof
  assume eq: "meq m m'"
  show "mget m = mget m'"
  proof
    fix k
    show "mget m k = mget m' k"
    proof (cases "mget m k = None \<and> mget m' k = None")
      case False
      then obtain v where "(k, v) \<in> set m \<or> (k, v) \<in> set m'" by (metis mget_in_set option.exhaust)
      with eq show ?thesis by (auto simp: meq_def list_all_iff)
    qed simp
  qed
qed (auto simp: meq_def list_all_iff)

lemma schema_equal_sym: "schema_equal s t \<Longrightarrow> schema_equal t s"
  by (simp add: schema_equal_def meq_iff)

lemma schema_equal_refl: "schema_equal s s"
  by (simp add: schema_equal_def meq_iff)

lemma view_Some: "distinct (map obj_ID objs) \<Longrightarrow> view objs i = Some x \<longleftrightarrow> x \<in> set objs \<and> obj_ID x = i"
proof -
  assume "distinct (map obj_ID objs)"
  then have "distinct (map fst (map (\<lambda>x. (obj_ID x, x)) objs))" by (simp add: comp_def)
  then show ?thesis unfolding view_def by (subst map_of_eq_Some_iff) auto
qed

lemma view_None: "view objs i = None \<longleftrightarrow> i \<notin> obj_ID ` set objs"
  by (auto simp: view_def map_of_eq_None_iff image_image)

definition ev_key :: "api_schema api_event \<Rightarrow> string" where
  "ev_key e = obj_ID (ev_Object e)"

lemma replay_other: "i \<notin> ev_key ` set es \<Longrightarrow> replay v es i = v i"
  by (induction es arbitrary: v) (auto simp: ev_key_def)

lemma replay_told:
  "distinct (map ev_key es) \<Longrightarrow> e \<in> set es \<Longrightarrow>
   replay v es (ev_key e) = (if ev_Name e = RemoveAPIEvent then None else Some (ev_Object e))"
proof (induction es arbitrary: v)
  case (Cons a es)
  show ?case
  proof (cases "e = a")
    case True
    with Cons.prems have "ev_key e \<notin> ev_key ` set es" by auto
    with True show ?thesis by (simp add: replay_other ev_key_def)
  next
    case False
    with Cons show ?thesis by simp
  qed
qed simp

lemma event_names [simp]: "CreateAPIEvent \<noteq> RemoveAPIEvent" "ChangeAPIEvent \<noteq> RemoveAPIEvent"
  by (simp_all add: CreateAPIEvent_def ChangeAPIEvent_def RemoveAPIEvent_def)

lemma schema_event_simps [simp]:
  "ev_key (schema_event n x) = obj_ID x" "ev_Object (schema_event n x) = x" "ev_Name (schema_event n x) = n"
  by (simp_all add: ev_key_def schema_event_def)

lemma shown_event_keys: "e \<in> set (shown_event old x) \<Longrightarrow> ev_key e = obj_ID x \<and> ev_Object e = x \<and> ev_Name e \<noteq> RemoveAPIEvent"
  by (auto simp: shown_event_def split: option.splits if_splits)

lemma shown_event_short: "shown_event old x = [] \<or> (\<exists>e. shown_event old x = [e])"
  by (auto simp: shown_event_def split: option.splits)

lemma shown_events_distinct: "distinct (map obj_ID news) \<Longrightarrow> distinct (map ev_key (concat (map (shown_event old) news)))"
proof (induction news)
  case (Cons x news)
  then have "ev_key e \<noteq> obj_ID x" if "e \<in> set (concat (map (shown_event old) news))" for e
  proof -
    from that obtain y where y: "y \<in> set news" "e \<in> set (shown_event old y)" by auto
    with shown_event_keys [OF y(2)] Cons.prems show ?thesis by (auto intro: rev_image_eqI)
  qed
  with Cons shown_event_short [of old x] shown_event_keys [of _ old x] show ?case by fastforce
qed simp

text \<open>The new schema equals the old one under its id, so no event is sent.\<close>

definition unchanged :: "api_schemas \<Rightarrow> api_schemas \<Rightarrow> string \<Rightarrow> bool" where
  "unchanged old new i \<longleftrightarrow> (\<exists>s o'. mget (Schemas new) i = Some s \<and> LookupSchema old i = Some o' \<and>
     schema_equal ((DeepCopy s)\<lparr>Attributes := mdel ''access'' (Attributes s)\<rparr>) o')"

lemma shown_event_unchanged:
  assumes "mget (Schemas new) (ID s) = Some s"
  shows "shown_event old (schema_object s) = [] \<longleftrightarrow> unchanged old new (ID s)"
  using assms by (auto simp: shown_event_def schema_object_def unchanged_def split: option.splits)

lemma schema_object_id [simp]: "obj_ID (schema_object s) = ID s"
  by (simp add: schema_object_def)

lemma unchanged_same:
  assumes "schema_equal ((DeepCopy s)\<lparr>Attributes := mdel ''access'' (Attributes s)\<rparr>) t"
  shows "same_schema (schema_object t) (schema_object s)"
proof -
  have "mget (Attributes t) = mget (mdel ''access'' (Attributes s))"
    using assms by (simp add: schema_equal_def meq_iff)
  then have "mget (mdel ''access'' (Attributes t)) = mget (mdel ''access'' (Attributes s))"
    by (auto simp: mget_mdel fun_eq_iff)
  with assms show ?thesis
    by (simp add: same_schema_def schema_object_def schema_equal_def meq_iff DeepCopy_def)
qed

subsection \<open>The events of one notification, replayed\<close>

text \<open>What \<open>sendSchemas\<close> sends, and what it does to the one schema under an id.\<close>

definition sent_events :: "api_schemas \<Rightarrow> schema_object list \<Rightarrow> schema_object list \<Rightarrow> api_schema api_event list" where
  "sent_events old olds news =
     concat (map (shown_event old) news) @ map (schema_event RemoveAPIEvent) (filter (\<lambda>x. obj_ID x \<notin> obj_ID ` set news) olds)"

lemma sent_event_keys:
  "ev_key ` set (sent_events old olds news) \<subseteq> obj_ID ` set news \<union> obj_ID ` set olds"
  by (auto simp: sent_events_def dest: shown_event_keys)

lemma sent_events_distinct:
  assumes "distinct (map obj_ID news)" and "distinct (map obj_ID olds)"
  shows "distinct (map ev_key (sent_events old olds news))"
proof -
  have "distinct (map ev_key (map (schema_event RemoveAPIEvent) (filter (\<lambda>x. obj_ID x \<notin> obj_ID ` set news) olds)))"
    using assms(2) by (simp add: comp_def distinct_map_filter)
  moreover have "ev_key ` set (concat (map (shown_event old) news)) \<inter>
      ev_key ` set (map (schema_event RemoveAPIEvent) (filter (\<lambda>x. obj_ID x \<notin> obj_ID ` set news) olds)) = {}"
  proof -
    have "ev_key ` set (concat (map (shown_event old) news)) \<subseteq> obj_ID ` set news" by (auto dest: shown_event_keys)
    moreover have "ev_key ` set (map (schema_event RemoveAPIEvent) (filter (\<lambda>x. obj_ID x \<notin> obj_ID ` set news) olds)) =
        obj_ID ` set (filter (\<lambda>x. obj_ID x \<notin> obj_ID ` set news) olds)" by (auto simp: image_image)
    moreover have "obj_ID ` set news \<inter> obj_ID ` set (filter (\<lambda>x. obj_ID x \<notin> obj_ID ` set news) olds) = {}"
      by (auto intro: rev_image_eqI)
    ultimately show ?thesis by blast
  qed
  ultimately show ?thesis
    using shown_events_distinct [OF assms(1), of old] unfolding sent_events_def map_append distinct_append set_map by blast
qed

lemma replay_sent_gone:
  assumes "distinct (map obj_ID news)" and "distinct (map obj_ID olds)" and "i \<notin> obj_ID ` set news"
  shows "replay (view olds) (sent_events old olds news) i = None"
proof (cases "i \<in> obj_ID ` set olds")
  case True
  then obtain x where x: "x \<in> set olds" "obj_ID x = i" by auto
  with assms(3) have "schema_event RemoveAPIEvent x \<in> set (sent_events old olds news)" by (auto simp: sent_events_def)
  from replay_told [OF sent_events_distinct [OF assms(1,2)] this, of "view olds"] x(2) show ?thesis by simp
next
  case False
  with assms(3) sent_event_keys [of old olds news] have "i \<notin> ev_key ` set (sent_events old olds news)" by blast
  with False show ?thesis by (simp add: replay_other view_None)
qed

lemma replay_sent_told:
  assumes "distinct (map obj_ID news)" and "distinct (map obj_ID olds)" and "x \<in> set news" and "shown_event old x \<noteq> []"
  shows "replay (view olds) (sent_events old olds news) (obj_ID x) = Some x"
proof -
  obtain e where e: "e \<in> set (shown_event old x)" using assms(4) by (cases "shown_event old x") auto
  then have "e \<in> set (sent_events old olds news)" using assms(3) by (auto simp: sent_events_def)
  from replay_told [OF sent_events_distinct [OF assms(1,2)] this, of "view olds"] shown_event_keys [OF e]
  show ?thesis by auto
qed

lemma replay_sent_kept:
  assumes "distinct (map obj_ID news)" and "x \<in> set news" and "shown_event old x = []"
  shows "replay (view olds) (sent_events old olds news) (obj_ID x) = view olds (obj_ID x)"
proof (rule replay_other)
  have "obj_ID x \<notin> ev_key ` set (concat (map (shown_event old) news))"
  proof
    assume "obj_ID x \<in> ev_key ` set (concat (map (shown_event old) news))"
    then obtain y e where y: "y \<in> set news" "e \<in> set (shown_event old y)" "ev_key e = obj_ID x" by auto
    from shown_event_keys [OF y(2)] y(3) have "obj_ID y = obj_ID x" by simp
    then have "y = x" using assms(1,2) y(1) by (simp add: distinct_map inj_on_def)
    with y(2) assms(3) show False by simp
  qed
  with assms(2) show "obj_ID x \<notin> ev_key ` set (sent_events old olds news)" by (auto simp: sent_events_def image_image intro: rev_image_eqI)
qed

text \<open>
  C17. What the events of the schema watch do to a client. Replaying the events of one notification on what
  the client knew gives, under every id, the schema that is now shown, equal up to the access list, or none,
  with one exception: a schema that is shown now and was not shown before, but that the user's schemas already
  held unchanged (a type that only now is referred to), is never sent.
\<close>

theorem send_schemas_replay:
  assumes "keyed (Schemas new)" and "keyed (Schemas old)" and "sub_ok sub"
    and "sendSchemas sub (Inr new) old = Some (evs, new')"
    and "FilterSchemas sub (Schemas old) = Some olds" and "FilterSchemas sub (Schemas new) = Some news"
  shows "new' = new \<and> (\<forall>i. rel_option same_schema (replay (view olds) evs i) (view news i) \<longleftrightarrow>
    \<not> (i \<in> shown sub (Schemas new) \<and> i \<notin> shown sub (Schemas old) \<and> unchanged old new i))"
proof -
  from FilterSchemas_total [OF assms(1,3)] assms(6) have n: "distinct (map obj_ID news)"
    "obj_ID ` set news = shown sub (Schemas new)" "\<forall>x \<in> set news. \<exists>s. mget (Schemas new) (obj_ID x) = Some s \<and> x = schema_object s"
    by auto
  from FilterSchemas_total [OF assms(2,3)] assms(5) have o: "distinct (map obj_ID olds)"
    "obj_ID ` set olds = shown sub (Schemas old)" "\<forall>x \<in> set olds. \<exists>s. mget (Schemas old) (obj_ID x) = Some s \<and> x = schema_object s"
    by auto
  have evs: "evs = sent_events old olds news" and new': "new' = new"
    using assms(4-6) by (simp_all add: sendSchemas_def sent_events_def)
  have "rel_option same_schema (replay (view olds) evs i) (view news i) \<longleftrightarrow>
    \<not> (i \<in> shown sub (Schemas new) \<and> i \<notin> shown sub (Schemas old) \<and> unchanged old new i)" for i
  proof (cases "i \<in> shown sub (Schemas new)")
    case False
    with n(2) replay_sent_gone [OF n(1) o(1), of i old] show ?thesis by (simp add: evs view_None)
  next
    case True
    with n(2) obtain x where x: "x \<in> set news" "obj_ID x = i" by (metis imageE)
    with n(3) obtain s where s: "mget (Schemas new) i = Some s" "x = schema_object s" by auto
    have now: "view news i = Some x" using x n(1) by (simp add: view_Some)
    have un: "shown_event old x = [] \<longleftrightarrow> unchanged old new i" using shown_event_unchanged [of new s old] s x(2) by simp
    show ?thesis
    proof (cases "shown_event old x = []")
      case False
      from replay_sent_told [OF n(1) o(1) x(1) this] now x(2) s(2) un False show ?thesis
        by (simp add: evs same_schema_def schema_object_def schema_equal_refl)
    next
      case unsent: True
      have rep: "replay (view olds) evs i = view olds i" using replay_sent_kept [OF n(1) x(1) unsent, of olds] x(2) by (simp add: evs)
      show ?thesis
      proof (cases "i \<in> shown sub (Schemas old)")
        case told: True
        with o(2) obtain y where y: "y \<in> set olds" "obj_ID y = i" by (metis imageE)
        with o(3) obtain t where t: "mget (Schemas old) i = Some t" "y = schema_object t" by auto
        then have "same_schema y x" using un unsent s by (auto simp: unchanged_def LookupSchema_def intro: unchanged_same)
        moreover have "view olds i = Some y" using y o(1) by (simp add: view_Some)
        ultimately show ?thesis using rep now told by simp
      next
        case False
        then have "view olds i = None" using o(2) by (simp add: view_None)
        with rep now False True un unsent show ?thesis by simp
      qed
    qed
  qed
  with new' show ?thesis by blast
qed

lemma concat_singletons:
  "(\<And>x. x \<in> set xs \<Longrightarrow> f x = (if P x then [g x] else [])) \<Longrightarrow> concat (map f xs) = map g (filter P xs)"
  by (induction xs) auto

text \<open>
  Every notification repeats every schema with an access list. When nothing has changed, the events are
  one change event for each shown schema that has an attribute \<open>access\<close>, because the copy that is
  compared has lost it and the old schema has not; schemas without one are left alone.
\<close>

theorem unchanged_schemas_resent:
  assumes "keyed (Schemas old)" and "sub_ok sub"
  shows "\<exists>objs. FilterSchemas sub (Schemas old) = Some objs \<and>
    sendSchemas sub (Inr old) old =
      Some (map (schema_event ChangeAPIEvent)
        (filter (\<lambda>x. \<exists>s. mget (Schemas old) (obj_ID x) = Some s \<and> mhas (Attributes s) ''access'') objs), old)"
proof -
  from FilterSchemas_total [OF assms] obtain objs where o: "FilterSchemas sub (Schemas old) = Some objs"
    "\<forall>x \<in> set objs. \<exists>s. mget (Schemas old) (obj_ID x) = Some s \<and> x = schema_object s" by blast
  have one: "shown_event old x =
      (if \<exists>s. mget (Schemas old) (obj_ID x) = Some s \<and> mhas (Attributes s) ''access'' then [schema_event ChangeAPIEvent x] else [])"
    if "x \<in> set objs" for x
  proof -
    from o(2) that obtain s where s: "mget (Schemas old) (obj_ID x) = Some s" "x = schema_object s" by blast
    have "schema_equal ((DeepCopy s)\<lparr>Attributes := mdel ''access'' (Attributes s)\<rparr>) s \<longleftrightarrow> \<not> mhas (Attributes s) ''access''"
      by (auto simp: schema_equal_def meq_iff DeepCopy_def mhas_def fun_eq_iff mget_mdel)
    with s show ?thesis by (simp add: shown_event_def LookupSchema_def schema_object_def)
  qed
  have "concat (map (shown_event old) objs) = map (schema_event ChangeAPIEvent)
      (filter (\<lambda>x. \<exists>s. mget (Schemas old) (obj_ID x) = Some s \<and> mhas (Attributes s) ''access'') objs)"
    using one by (rule concat_singletons)
  with o(1) show ?thesis by (auto simp: sendSchemas_def)
qed

section \<open>A schema that is referred to only after a change\<close>

definition ex_spec :: api_schema where
  "ex_spec = mk_api_schema (empty_schema\<lparr>ID := ''spec''\<rparr>)"

definition ex_cluster :: api_schema where
  "ex_cluster = mk_api_schema (empty_schema\<lparr>ID := ''cluster'', CollectionMethods := [''GET''], ResourceFields := [(''spec'', typed_field ''spec'')]\<rparr>)"

definition ex_old :: api_schemas where
  "ex_old = EmptyAPISchemas\<lparr>Schemas := [(''spec'', ex_spec)]\<rparr>"

definition ex_new :: api_schemas where
  "ex_new = EmptyAPISchemas\<lparr>Schemas := [(''cluster'', ex_cluster), (''spec'', ex_spec)]\<rparr>"

lemma ex_simps [simp]:
  "ID ex_spec = ''spec''" "ID ex_cluster = ''cluster''" "has_methods ex_cluster" "\<not> has_methods ex_spec"
  "ResourceFields ex_cluster = [(''spec'', typed_field ''spec'')]" "Attributes ex_spec = []"
  "Schemas ex_old = [(''spec'', ex_spec)]" "Schemas ex_new = [(''cluster'', ex_cluster), (''spec'', ex_spec)]"
  by (simp_all add: ex_spec_def ex_cluster_def mk_api_schema_def empty_schema_def schema.defs has_methods_def ex_old_def ex_new_def)

lemma ex_keyed: "keyed (Schemas ex_old)" "keyed (Schemas ex_new)"
  by (auto simp: keyed_def mwf_def)

lemma ex_sub_ok: "sub_ok (\<lambda>t. t)"
  by (simp add: sub_ok_def)

lemma ex_base_type: "base_type (\<lambda>t. t) ''spec'' = Some ''spec''"
  by (simp add: base_type_def while_option_unfold)

lemma ex_shown: "''spec'' \<in> shown (\<lambda>t. t) (Schemas ex_new)" "''spec'' \<notin> shown (\<lambda>t. t) (Schemas ex_old)"
proof -
  have "(''cluster'', ''spec'') \<in> ref_rel (\<lambda>t. t) (Schemas ex_new)"
    by (auto simp: ref_rel_def refs_def ex_base_type mhas_def)
  moreover have "''cluster'' \<in> roots (Schemas ex_new)" by (auto simp: roots_def)
  ultimately show "''spec'' \<in> shown (\<lambda>t. t) (Schemas ex_new)" by (auto simp: shown_def)
  have "roots (Schemas ex_old) = {}" by (auto simp: roots_def split: if_splits)
  then show "''spec'' \<notin> shown (\<lambda>t. t) (Schemas ex_old)" by (simp add: shown_def)
qed

lemma ex_unchanged: "unchanged ex_old ex_new ''spec''"
  by (auto simp: unchanged_def LookupSchema_def schema_equal_def meq_iff DeepCopy_def)

lemma filter_schemas_exact_witness:
  "\<exists>objs. FilterSchemas (\<lambda>t. t) (Schemas ex_new) = Some objs \<and> schema_object ex_spec \<in> set objs"
  using filter_schemas_exact [OF ex_keyed(2) ex_sub_ok] ex_shown(1) by fastforce

lemma send_schemas_replay_witness:
  "\<exists>evs olds news. sendSchemas (\<lambda>t. t) (Inr ex_new) ex_old = Some (evs, ex_new) \<and> view news ''spec'' \<noteq> None \<and>
     FilterSchemas (\<lambda>t. t) (Schemas ex_new) = Some news \<and> FilterSchemas (\<lambda>t. t) (Schemas ex_old) = Some olds \<and>
     \<not> rel_option same_schema (replay (view olds) evs ''spec'') (view news ''spec'')"
proof -
  from FilterSchemas_total [OF ex_keyed(1) ex_sub_ok] obtain olds where olds: "FilterSchemas (\<lambda>t. t) (Schemas ex_old) = Some olds" by blast
  from FilterSchemas_total [OF ex_keyed(2) ex_sub_ok] obtain news where news: "FilterSchemas (\<lambda>t. t) (Schemas ex_new) = Some news"
    "obj_ID ` set news = shown (\<lambda>t. t) (Schemas ex_new)" by blast
  obtain evs where evs: "sendSchemas (\<lambda>t. t) (Inr ex_new) ex_old = Some (evs, ex_new)"
    using olds news(1) by (simp add: sendSchemas_def)
  have "view news ''spec'' \<noteq> None" using news(2) ex_shown(1) by (simp add: view_None)
  then show ?thesis
    using send_schemas_replay [OF ex_keyed(2,1) ex_sub_ok evs olds news(1)] ex_shown ex_unchanged olds news(1) evs by blast
qed

lemma unchanged_schemas_resent_witness:
  "\<exists>objs. FilterSchemas (\<lambda>t. t) (Schemas ex_new) = Some objs \<and>
     sendSchemas (\<lambda>t. t) (Inr ex_new) ex_new \<noteq> None"
  using unchanged_schemas_resent [OF ex_keyed(2) ex_sub_ok] by auto

end
