(* ===== verification/Subscribe.thy ===== *)
theory Subscribe
  imports Proxy_Store Access_Control
begin

section \<open>Subscriptions over a websocket: pkg/subscribe/watcher.go\<close>

text \<open>
  A watch session reads messages of the client, keeps one stream for each subscription and writes into one
  buffered channel. The streams are goroutines that share the map of cancel functions under a mutex; the
  model is a step relation on the session, one rule for each thing that can happen next, labelled by who
  moves. A stream and its context have the same number. A critical section is one step; where the code sends
  while it holds the mutex, the step waits for room in the channel.
\<close>

record subscribe =
  sub_Stop :: bool
  sub_ResourceType :: string
  sub_ResourceVersion :: string
  sub_Namespace :: string
  sub_ID :: string
  sub_Selector :: string

definition zero_subscribe :: subscribe where
  "zero_subscribe = \<lparr>sub_Stop = False, sub_ResourceType = [], sub_ResourceVersion = [], sub_Namespace = [], sub_ID = [], sub_Selector = []\<rparr>"

definition sub_key :: "subscribe \<Rightarrow> string" where
  "sub_key s = sub_ResourceType s @ ''/'' @ sub_Namespace s @ ''/'' @ sub_ID s @ ''/'' @ sub_Selector s"

type_synonym event = "payload api_event"

text \<open>Where a stream is: before its start, delivering, waiting on a nil channel, about to stop, gone.\<close>

datatype phase = Starting | Streaming "event list" | Idle | Ending | Done

record stream =
  sg_sub :: subscribe
  sg_phase :: phase

record session =
  ss_watchers :: "(string, nat) gomap"
  ss_streams :: "stream list"
  ss_cancelled :: "nat list"
  ss_closed :: bool
  ss_request_done :: bool
  ss_resp :: "event list"

definition NewWatchSession :: session where
  "NewWatchSession = \<lparr>ss_watchers = [], ss_streams = [], ss_cancelled = [], ss_closed = False, ss_request_done = False, ss_resp = []\<rparr>"

text \<open>What a session uses: the schemas of its getter, the watch of a store, conversions.\<close>

record session_env =
  se_op :: api_request
  se_getter :: "api_request \<Rightarrow> api_schemas"
  se_convert :: convert
  se_watch :: "func \<Rightarrow> api_request \<Rightarrow> api_schema \<Rightarrow> watch_request \<Rightarrow> go_err + event list option"

definition channel_size :: nat where
  "channel_size = 100"

definition room :: "session \<Rightarrow> bool" where
  "room ss \<longleftrightarrow> length (ss_resp ss) < channel_size"

definition send :: "event \<Rightarrow> session \<Rightarrow> session" where
  "send e ss = ss\<lparr>ss_resp := ss_resp ss @ [e]\<rparr>"

definition sendErr :: "go_err \<Rightarrow> subscribe \<Rightarrow> event" where
  "sendErr err sub = empty_event\<lparr>ev_ResourceType := sub_ResourceType sub, ev_Namespace := sub_Namespace sub,
     ev_ID := sub_ID sub, ev_Selector := sub_Selector sub, ev_Error := Some err\<rparr>"

definition stop_event :: "subscribe \<Rightarrow> event" where
  "stop_event sub = empty_event\<lparr>ev_Name := ''resource.stop'', ev_ResourceType := sub_ResourceType sub,
     ev_Namespace := sub_Namespace sub, ev_ID := sub_ID sub, ev_Selector := sub_Selector sub\<rparr>"

definition start_event :: "subscribe \<Rightarrow> event" where
  "start_event sub = empty_event\<lparr>ev_Name := ''resource.start'', ev_ResourceType := sub_ResourceType sub,
     ev_ID := sub_ID sub, ev_Selector := sub_Selector sub\<rparr>"

definition session_stop :: "subscribe \<Rightarrow> session \<Rightarrow> session" where
  "session_stop sub ss =
     (let ss = (case mget (ss_watchers ss) (sub_key sub) of
             None \<Rightarrow> ss
           | Some c \<Rightarrow> send (stop_event sub) (ss\<lparr>ss_cancelled := c # ss_cancelled ss\<rparr>))
      in ss\<lparr>ss_watchers := mdel (sub_key sub) (ss_watchers ss)\<rparr>)"

definition can_stop :: "subscribe \<Rightarrow> session \<Rightarrow> bool" where
  "can_stop sub ss \<longleftrightarrow> mhas (ss_watchers ss) (sub_key sub) \<longrightarrow> room ss"

definition session_add :: "subscribe \<Rightarrow> session \<Rightarrow> session" where
  "session_add sub ss =
     ss\<lparr>ss_watchers := mput (sub_key sub) (length (ss_streams ss)) (ss_watchers ss),
        ss_streams := ss_streams ss @ [\<lparr>sg_sub = sub, sg_phase = Starting\<rparr>]\<rparr>"

text \<open>The part of \<open>stream\<close> up to the call of the store's watch.\<close>

definition stream_start :: "session_env \<Rightarrow> subscribe \<Rightarrow> go_err + event list option" where
  "stream_start E sub =
     (let schemas = se_getter E (se_op E) in
      case LookupSchema schemas (sub_ResourceType sub) of
        None \<Rightarrow> Inl (OtherError (sprintf ''failed to find schema %s'' [sub_ResourceType sub]))
      | Some s \<Rightarrow>
          (case Store s of
             None \<Rightarrow> Inl (OtherError (sprintf ''schema %s does not support watching'' [sub_ResourceType sub]))
           | Some f \<Rightarrow>
               (case CanWatch (se_convert E) s of
                  Some err \<Rightarrow> Inl err
                | None \<Rightarrow>
                    se_watch E f ((se_op E)\<lparr>op_Namespace := sub_Namespace sub, op_Schemas := Some schemas\<rparr>) s
                      \<lparr>wr_Revision = sub_ResourceVersion sub, wr_ID = sub_ID sub, wr_Selector = sub_Selector sub\<rparr>)))"

definition set_phase :: "nat \<Rightarrow> phase \<Rightarrow> session \<Rightarrow> session" where
  "set_phase i ph ss = ss\<lparr>ss_streams := (ss_streams ss)[i := (ss_streams ss ! i)\<lparr>sg_phase := ph\<rparr>]\<rparr>"

definition at_phase :: "session \<Rightarrow> nat \<Rightarrow> subscribe \<Rightarrow> phase \<Rightarrow> bool" where
  "at_phase ss i sub ph \<longleftrightarrow> i < length (ss_streams ss) \<and> ss_streams ss ! i = \<lparr>sg_sub = sub, sg_phase = ph\<rparr>"

definition context_done :: "session \<Rightarrow> nat \<Rightarrow> bool" where
  "context_done ss i \<longleftrightarrow> i \<in> set (ss_cancelled ss) \<or> ss_closed ss \<or> ss_request_done ss"

datatype move = ClientStop subscribe | ClientSubscribe subscribe | ClientGarbage go_err | Stream nat | Consume | CloseSession | RequestDone

inductive session_step :: "session_env \<Rightarrow> move \<Rightarrow> session \<Rightarrow> session \<Rightarrow> bool" for E where
  client_stop: "can_stop sub ss \<Longrightarrow> session_step E (ClientStop sub) ss (session_stop sub ss)"
| client_known: "mhas (ss_watchers ss) (sub_key sub) \<Longrightarrow> session_step E (ClientSubscribe sub) ss ss"
| client_add: "\<not> mhas (ss_watchers ss) (sub_key sub) \<Longrightarrow> session_step E (ClientSubscribe sub) ss (session_add sub ss)"
| client_garbage: "room ss \<Longrightarrow> session_step E (ClientGarbage err) ss (send (sendErr err zero_subscribe) ss)"
| stream_fail: "at_phase ss i sub Starting \<Longrightarrow> stream_start E sub = Inl err \<Longrightarrow> room ss \<Longrightarrow>
    session_step E (Stream i) ss (set_phase i Ending (send (sendErr err sub) ss))"
| stream_run: "at_phase ss i sub Starting \<Longrightarrow> stream_start E sub = Inr c \<Longrightarrow> room ss \<Longrightarrow>
    session_step E (Stream i) ss
      (set_phase i (case c of None \<Rightarrow> Idle | Some es \<Rightarrow> Streaming es) (send (start_event sub) ss))"
| stream_event: "at_phase ss i sub (Streaming (e # es)) \<Longrightarrow> ev_Error e = None \<Longrightarrow> room ss \<Longrightarrow>
    session_step E (Stream i) ss
      (set_phase i (Streaming es) (send (e\<lparr>ev_ID := sub_ID sub, ev_Selector := sub_Selector sub\<rparr>) ss))"
| stream_slow: "at_phase ss i sub (Streaming (e # es)) \<Longrightarrow> ev_Error e = None \<Longrightarrow> \<not> room ss \<Longrightarrow>
    session_step E (Stream i) ss (set_phase i Ending ss)"
| stream_error: "at_phase ss i sub (Streaming (e # es)) \<Longrightarrow> ev_Error e = Some err \<Longrightarrow> room ss \<Longrightarrow>
    session_step E (Stream i) ss (set_phase i (Streaming es) (send (sendErr err sub) ss))"
| stream_closed: "at_phase ss i sub (Streaming es) \<Longrightarrow> es = [] \<or> context_done ss i \<Longrightarrow>
    session_step E (Stream i) ss (set_phase i Ending ss)"
| stream_released: "at_phase ss i sub Idle \<Longrightarrow> ss_request_done ss \<Longrightarrow>
    session_step E (Stream i) ss (set_phase i Ending ss)"
| stream_stop: "at_phase ss i sub Ending \<Longrightarrow> can_stop sub ss \<Longrightarrow>
    session_step E (Stream i) ss (set_phase i Done (session_stop sub ss))"
| consume: "ss_resp ss = e # es \<Longrightarrow> session_step E Consume ss (ss\<lparr>ss_resp := es\<rparr>)"
| close: "session_step E CloseSession ss (ss\<lparr>ss_closed := True\<rparr>)"
| request_done: "session_step E RequestDone ss (ss\<lparr>ss_request_done := True\<rparr>)"

inductive_cases session_stepE: "session_step E m ss ss'"

inductive session_run :: "session_env \<Rightarrow> session \<Rightarrow> move list \<Rightarrow> session \<Rightarrow> bool" for E where
  run_nil: "session_run E ss [] ss"
| run_step: "session_run E ss ms ss' \<Longrightarrow> session_step E m ss' ss'' \<Longrightarrow> session_run E ss (ms @ [m]) ss''"

text \<open>\<^verbatim>\<open>s.wg.Wait()\<close> of \<open>Close\<close> returns when every stream is gone.\<close>

definition all_gone :: "session \<Rightarrow> bool" where
  "all_gone ss \<longleftrightarrow> (\<forall>s \<in> set (ss_streams ss). sg_phase s = Done)"

section \<open>One live stream for a subscription\<close>

text \<open>
  A registered number is that of a stream of this key which is not gone and whose context has not been
  cancelled; a stream whose context has not been cancelled is registered unless it is gone; numbers that are
  cancelled have been given out; the channel keeps to its size.
\<close>

definition registered_ok :: "session \<Rightarrow> bool" where
  "registered_ok ss \<longleftrightarrow> (\<forall>k c. mget (ss_watchers ss) k = Some c \<longrightarrow>
     c < length (ss_streams ss) \<and> c \<notin> set (ss_cancelled ss) \<and> sub_key (sg_sub (ss_streams ss ! c)) = k)"

definition live_ok :: "session \<Rightarrow> bool" where
  "live_ok ss \<longleftrightarrow> (\<forall>i < length (ss_streams ss). i \<notin> set (ss_cancelled ss) \<longrightarrow>
     sg_phase (ss_streams ss ! i) \<noteq> Done \<and> mget (ss_watchers ss) (sub_key (sg_sub (ss_streams ss ! i))) = Some i)"

definition session_inv :: "session \<Rightarrow> bool" where
  "session_inv ss \<longleftrightarrow> registered_ok ss \<and> live_ok ss \<and> (\<forall>i \<in> set (ss_cancelled ss). i < length (ss_streams ss)) \<and>
     length (ss_resp ss) \<le> channel_size"

lemmas inv_defs = session_inv_def registered_ok_def live_ok_def

lemma inv_new: "session_inv NewWatchSession"
  by (simp add: inv_defs NewWatchSession_def)

lemma inv_send: "session_inv ss \<Longrightarrow> room ss \<Longrightarrow> session_inv (send e ss)"
  by (simp add: inv_defs send_def room_def)

lemma set_phase_simps [simp]:
  "ss_watchers (set_phase i ph ss) = ss_watchers ss" "ss_cancelled (set_phase i ph ss) = ss_cancelled ss"
  "ss_resp (set_phase i ph ss) = ss_resp ss" "length (ss_streams (set_phase i ph ss)) = length (ss_streams ss)"
  "ss_closed (set_phase i ph ss) = ss_closed ss" "ss_request_done (set_phase i ph ss) = ss_request_done ss"
  by (simp_all add: set_phase_def)

lemma set_phase_sub [simp]: "sg_sub (ss_streams (set_phase i ph ss) ! j) = sg_sub (ss_streams ss ! j)"
  by (cases "i < length (ss_streams ss)") (auto simp: set_phase_def nth_list_update list_update_beyond)

lemma set_phase_phase:
  "i < length (ss_streams ss) \<Longrightarrow> sg_phase (ss_streams (set_phase i ph ss) ! j) = (if j = i then ph else sg_phase (ss_streams ss ! j))"
  by (auto simp: set_phase_def nth_list_update)

lemma inv_phase: "session_inv ss \<Longrightarrow> at_phase ss i sub ph0 \<Longrightarrow> ph \<noteq> Done \<Longrightarrow> session_inv (set_phase i ph ss)"
  by (simp add: inv_defs at_phase_def set_phase_phase)

lemma inv_gone: "session_inv ss \<Longrightarrow> at_phase ss i sub ph0 \<Longrightarrow> i \<in> set (ss_cancelled ss) \<Longrightarrow> session_inv (set_phase i Done ss)"
  by (auto simp: inv_defs at_phase_def set_phase_phase)

lemma inv_stop:
  assumes inv: "session_inv ss" and "can_stop sub ss"
  shows "session_inv (session_stop sub ss)"
proof (cases "mget (ss_watchers ss) (sub_key sub)")
  case None
  then have "mdel (sub_key sub) (ss_watchers ss) = ss_watchers ss"
    by (simp add: delete_id map_of_eq_None_iff)
  with inv None show ?thesis by (simp add: session_stop_def)
next
  case (Some c)
  have room: "length (ss_resp ss) < channel_size" using assms(2) Some by (simp add: can_stop_def mhas_def room_def)
  have c: "c < length (ss_streams ss)" "sub_key (sg_sub (ss_streams ss ! c)) = sub_key sub"
    using inv Some by (auto simp: inv_defs)
  let ?ss = "session_stop sub ss"
  have ss: "ss_watchers ?ss = mdel (sub_key sub) (ss_watchers ss)" "ss_streams ?ss = ss_streams ss"
    "ss_cancelled ?ss = c # ss_cancelled ss" "ss_resp ?ss = ss_resp ss @ [stop_event sub]"
    using Some by (simp_all add: session_stop_def send_def)
  have "d \<noteq> c" if "mget (ss_watchers ss) k = Some d" "k \<noteq> sub_key sub" for k d
  proof
    assume "d = c"
    moreover have "sub_key (sg_sub (ss_streams ss ! d)) = k" using inv that(1) by (simp add: session_inv_def registered_ok_def)
    ultimately show False using c(2) that(2) by simp
  qed
  note other = this
  have "registered_ok ?ss" unfolding registered_ok_def
  proof (intro allI impI)
    fix k d assume "mget (ss_watchers ?ss) k = Some d"
    then have k: "k \<noteq> sub_key sub" "mget (ss_watchers ss) k = Some d" by (auto simp: ss mget_mdel split: if_splits)
    with inv have "d < length (ss_streams ss) \<and> d \<notin> set (ss_cancelled ss) \<and> sub_key (sg_sub (ss_streams ss ! d)) = k"
      by (simp add: session_inv_def registered_ok_def)
    with other [OF k(2,1)] show "d < length (ss_streams ?ss) \<and> d \<notin> set (ss_cancelled ?ss) \<and> sub_key (sg_sub (ss_streams ?ss ! d)) = k"
      by (simp add: ss)
  qed
  moreover have "live_ok ?ss" unfolding live_ok_def
  proof (intro allI impI)
    fix i assume i: "i < length (ss_streams ?ss)" "i \<notin> set (ss_cancelled ?ss)"
    with inv have live: "sg_phase (ss_streams ss ! i) \<noteq> Done" "mget (ss_watchers ss) (sub_key (sg_sub (ss_streams ss ! i))) = Some i"
      by (simp_all add: session_inv_def live_ok_def ss)
    with i(2) Some have "sub_key (sg_sub (ss_streams ss ! i)) \<noteq> sub_key sub" by (auto simp: ss)
    with live show "sg_phase (ss_streams ?ss ! i) \<noteq> Done \<and> mget (ss_watchers ?ss) (sub_key (sg_sub (ss_streams ?ss ! i))) = Some i"
      by (simp add: ss mget_mdel)
  qed
  ultimately show ?thesis using inv c(1) room by (auto simp: session_inv_def ss)
qed

lemma stop_cancels:
  assumes "session_inv ss" and "at_phase ss i sub ph"
  shows "i \<in> set (ss_cancelled (session_stop sub ss))"
proof (cases "i \<in> set (ss_cancelled ss)")
  case True
  then show ?thesis by (simp add: session_stop_def send_def split: option.splits)
next
  case False
  with assms have "mget (ss_watchers ss) (sub_key sub) = Some i"
    by (auto simp: inv_defs at_phase_def)
  then show ?thesis by (simp add: session_stop_def send_def)
qed

lemma at_phase_kept [simp]:
  "at_phase (send e ss) i sub ph = at_phase ss i sub ph" "at_phase (session_stop sub' ss) i sub ph = at_phase ss i sub ph"
  "at_phase (ss\<lparr>ss_closed := b\<rparr>) i sub ph = at_phase ss i sub ph"
  by (simp_all add: at_phase_def send_def session_stop_def split: option.splits)

lemma inv_add:
  assumes inv: "session_inv ss" and new: "\<not> mhas (ss_watchers ss) (sub_key sub)"
  shows "session_inv (session_add sub ss)"
proof -
  let ?n = "length (ss_streams ss)"
  have fresh: "?n \<notin> set (ss_cancelled ss)" using inv by (auto simp: session_inv_def)
  have "registered_ok (session_add sub ss)"
    unfolding registered_ok_def
  proof (intro allI impI)
    fix k c assume k: "mget (ss_watchers (session_add sub ss)) k = Some c"
    show "c < length (ss_streams (session_add sub ss)) \<and> c \<notin> set (ss_cancelled (session_add sub ss)) \<and>
        sub_key (sg_sub (ss_streams (session_add sub ss) ! c)) = k"
    proof (cases "k = sub_key sub")
      case True
      with k fresh show ?thesis by (auto simp: session_add_def mget_mput nth_append)
    next
      case False
      with k have "mget (ss_watchers ss) k = Some c" by (simp add: session_add_def mget_mput)
      with inv have "c < ?n \<and> c \<notin> set (ss_cancelled ss) \<and> sub_key (sg_sub (ss_streams ss ! c)) = k"
        by (simp add: session_inv_def registered_ok_def)
      then show ?thesis by (simp add: session_add_def nth_append)
    qed
  qed
  moreover have "live_ok (session_add sub ss)" unfolding live_ok_def
  proof (intro allI impI)
    fix i assume i: "i < length (ss_streams (session_add sub ss))" "i \<notin> set (ss_cancelled (session_add sub ss))"
    show "sg_phase (ss_streams (session_add sub ss) ! i) \<noteq> Done \<and>
        mget (ss_watchers (session_add sub ss)) (sub_key (sg_sub (ss_streams (session_add sub ss) ! i))) = Some i"
    proof (cases "i = ?n")
      case True
      then show ?thesis by (simp add: session_add_def mget_mput)
    next
      case False
      then have old: "i < ?n" "i \<notin> set (ss_cancelled ss)" using i by (auto simp: session_add_def)
      with inv have "sg_phase (ss_streams ss ! i) \<noteq> Done"
        and reg: "mget (ss_watchers ss) (sub_key (sg_sub (ss_streams ss ! i))) = Some i"
        by (simp_all add: session_inv_def live_ok_def)
      moreover have "sub_key (sg_sub (ss_streams ss ! i)) \<noteq> sub_key sub" using new reg by (auto simp: mhas_def)
      ultimately show ?thesis using old by (simp add: session_add_def mget_mput nth_append)
    qed
  qed
  ultimately show ?thesis using inv by (auto simp: session_inv_def session_add_def)
qed

lemma inv_step: "session_step E m ss ss' \<Longrightarrow> session_inv ss \<Longrightarrow> session_inv ss'"
proof (induction rule: session_step.induct)
  case (stream_run ss i sub c)
  then show ?case by (intro inv_phase inv_send) (auto split: option.splits)
next
  case (stream_stop ss i sub)
  then show ?case by (intro inv_gone [of _ i sub] inv_stop) (auto intro: stop_cancels)
next
  case (consume ss e es)
  then show ?case by (auto simp: inv_defs)
next
  case (close ss)
  then show ?case by (simp add: inv_defs)
next
  case (request_done ss)
  then show ?case by (simp add: inv_defs)
qed (auto intro!: inv_phase inv_send inv_stop inv_add)

lemma inv_run: "session_run E ss ms ss' \<Longrightarrow> session_inv ss \<Longrightarrow> session_inv ss'"
  by (induction rule: session_run.induct) (auto intro: inv_step)

text \<open>
  C28. Whatever the interleaving of client messages, streams and shutdown, for one key at most one stream has a
  context that has not been cancelled; that stream is not gone and is the one registered, and subscribing again
  while it lives starts nothing. The channel never holds more than its 100 events.
\<close>

theorem one_live_stream:
  assumes "session_run E NewWatchSession ms ss" and "i < length (ss_streams ss)" and "i \<notin> set (ss_cancelled ss)"
    and "k = sub_key (sg_sub (ss_streams ss ! i))"
  shows "mget (ss_watchers ss) k = Some i \<and> sg_phase (ss_streams ss ! i) \<noteq> Done \<and> length (ss_resp ss) \<le> channel_size \<and>
    (\<forall>j < length (ss_streams ss). j \<notin> set (ss_cancelled ss) \<and> sub_key (sg_sub (ss_streams ss ! j)) = k \<longrightarrow> j = i) \<and>
    (\<forall>sub ss'. sub_key sub = k \<and> session_step E (ClientSubscribe sub) ss ss' \<longrightarrow> ss' = ss)"
proof -
  from inv_run [OF assms(1) inv_new] have inv: "session_inv ss" .
  with assms have reg: "mget (ss_watchers ss) k = Some i" "sg_phase (ss_streams ss ! i) \<noteq> Done"
    by (simp_all add: session_inv_def live_ok_def)
  have "j = i" if "j < length (ss_streams ss)" "j \<notin> set (ss_cancelled ss)" "sub_key (sg_sub (ss_streams ss ! j)) = k" for j
    using inv that reg by (auto simp: session_inv_def live_ok_def)
  moreover have "ss' = ss" if "sub_key sub = k" "session_step E (ClientSubscribe sub) ss ss'" for sub ss'
    using that(2) by (cases rule: session_step.cases) (use that(1) reg in \<open>auto simp: mhas_def\<close>)
  ultimately show ?thesis using inv reg by (auto simp: session_inv_def)
qed

definition ex_watch_store :: func where "ex_watch_store = 3"

definition ex_watched :: api_schema where
  "ex_watched = (ex_schema ''pod'' ''pods'')\<lparr>CollectionMethods := [MethodGet], Store := Some ex_watch_store\<rparr>"

definition ex_session_env :: "event list option \<Rightarrow> session_env" where
  "ex_session_env c = \<lparr>se_op = empty_request, se_getter = (\<lambda>op. EmptyAPISchemas\<lparr>Schemas := [(''pod'', ex_watched)]\<rparr>),
     se_convert = convert_std, se_watch = (\<lambda>f op s w. Inr c)\<rparr>"

definition ex_sub :: subscribe where
  "ex_sub = zero_subscribe\<lparr>sub_ResourceType := ''pod''\<rparr>"

lemma ex_starts: "stream_start (ex_session_env c) ex_sub = Inr c"
proof -
  have "Store ex_watched = Some ex_watch_store" "CollectionMethods ex_watched = [MethodGet]" by (simp_all add: ex_watched_def)
  then show ?thesis
    by (simp add: stream_start_def ex_session_env_def ex_sub_def zero_subscribe_def LookupSchema_def CanWatch_def
        Schema_CanWatch_def CanList_def)
qed

lemma ex_subscribed: "session_run (ex_session_env c) NewWatchSession [ClientSubscribe ex_sub] (session_add ex_sub NewWatchSession)"
proof -
  have "session_step (ex_session_env c) (ClientSubscribe ex_sub) NewWatchSession (session_add ex_sub NewWatchSession)"
    by (rule client_add) (simp add: NewWatchSession_def mhas_def)
  from run_step [OF run_nil this] show ?thesis by simp
qed

lemma one_live_stream_witness:
  "session_run (ex_session_env None) NewWatchSession [ClientSubscribe ex_sub] (session_add ex_sub NewWatchSession) \<and>
   mget (ss_watchers (session_add ex_sub NewWatchSession)) (sub_key ex_sub) = Some 0"
proof -
  let ?ss = "session_add ex_sub NewWatchSession"
  have "0 < length (ss_streams ?ss)" "0 \<notin> set (ss_cancelled ?ss)" "sub_key ex_sub = sub_key (sg_sub (ss_streams ?ss ! 0))"
    by (simp_all add: session_add_def NewWatchSession_def)
  from one_live_stream [OF ex_subscribed [of None] this] show ?thesis using ex_subscribed [of None] by blast
qed

subsection \<open>The deferred stop of an old stream\<close>

lemma run_cons: "session_run E b ms c \<Longrightarrow> session_step E m a b \<Longrightarrow> session_run E a (m # ms) c"
proof (induction rule: session_run.induct)
  case (run_nil ss)
  then show ?case using session_run.run_step [OF session_run.run_nil run_nil] by simp
next
  case (run_step ss ms ss' m' ss'')
  from session_run.run_step [OF run_step.IH [OF run_step.prems] run_step.hyps(2)] show ?case by simp
qed

lemma run_append: "session_run E b ms' c \<Longrightarrow> session_run E a ms b \<Longrightarrow> session_run E a (ms @ ms') c"
proof (induction rule: session_run.induct)
  case (run_step ss ms1 ss' m ss'')
  from session_run.run_step [OF run_step.IH [OF run_step.prems] run_step.hyps(2)] show ?case by simp
qed simp

text \<open>
  C29. The stop of a stream that ended can hit its successor. For every subscription whose watch opens there is a
  run in which the client subscribes, stops and subscribes again, and then the first stream, whose stop is
  deferred to its end, cancels the context of the second one, which has not even started, takes the key out and
  tells the client that the resource stopped: the client's last word was to subscribe, and nothing watches.
\<close>

theorem old_stop_ends_new_stream:
  assumes "stream_start E sub = Inr (Some es)"
  shows "\<exists>ss. session_run E NewWatchSession
      [ClientSubscribe sub, Stream 0, ClientStop sub, ClientSubscribe sub, Stream 0, Stream 0] ss \<and>
    at_phase ss 1 sub Starting \<and> context_done ss 1 \<and> \<not> mhas (ss_watchers ss) (sub_key sub) \<and>
    ss_resp ss = [start_event sub, stop_event sub, stop_event sub]"
proof -
  let ?k = "sub_key sub"
  let ?s0 = "NewWatchSession"
  let ?s1 = "session_add sub ?s0"
  let ?s2 = "set_phase 0 (Streaming es) (send (start_event sub) ?s1)"
  let ?s3 = "session_stop sub ?s2"
  let ?s4 = "session_add sub ?s3"
  let ?s5 = "set_phase 0 Ending ?s4"
  let ?s6 = "set_phase 0 Done (session_stop sub ?s5)"
  note defs = NewWatchSession_def session_add_def set_phase_def send_def session_stop_def at_phase_def can_stop_def room_def
    channel_size_def mhas_def mget_mput mget_mdel context_done_def
  have 1: "session_step E (ClientSubscribe sub) ?s0 ?s1" by (rule client_add) (simp add: defs)
  have 2: "session_step E (Stream 0) ?s1 ?s2" using stream_run [of ?s1 0 sub E "Some es"] assms by (simp add: defs)
  have 3: "session_step E (ClientStop sub) ?s2 ?s3" by (rule client_stop) (simp add: defs)
  have 4: "session_step E (ClientSubscribe sub) ?s3 ?s4" by (rule client_add) (simp add: defs)
  have 5: "session_step E (Stream 0) ?s4 ?s5" by (rule stream_closed [of _ 0 sub es]) (simp_all add: defs)
  have 6: "session_step E (Stream 0) ?s5 ?s6" by (rule stream_stop [of _ 0 sub]) (simp_all add: defs)
  have "session_run E ?s0 [ClientSubscribe sub, Stream 0, ClientStop sub, ClientSubscribe sub, Stream 0, Stream 0] ?s6"
    by (intro run_cons [OF _ 1] run_cons [OF _ 2] run_cons [OF _ 3] run_cons [OF _ 4] run_cons [OF _ 5] run_cons [OF _ 6] run_nil)
  moreover have "at_phase ?s6 1 sub Starting \<and> context_done ?s6 1 \<and> \<not> mhas (ss_watchers ?s6) ?k \<and>
      ss_resp ?s6 = [start_event sub, stop_event sub, stop_event sub]"
    by (simp add: defs)
  ultimately show ?thesis by blast
qed

subsection \<open>Ending a session\<close>

lemma idle_stays:
  assumes "session_step E m ss ss'" and "at_phase ss i sub Idle" and "\<not> ss_request_done ss" and "m \<noteq> RequestDone"
  shows "at_phase ss' i sub Idle \<and> \<not> ss_request_done ss'"
  using assms
proof (induction rule: session_step.induct)
  case (client_add ss sub')
  then show ?case by (simp add: at_phase_def session_add_def nth_append)
qed (auto simp: at_phase_def set_phase_def nth_list_update send_def session_stop_def split: option.splits)

lemma idle_run:
  "session_run E ss ms ss' \<Longrightarrow> at_phase ss i sub Idle \<Longrightarrow> \<not> ss_request_done ss \<Longrightarrow> RequestDone \<notin> set ms \<Longrightarrow>
   at_phase ss' i sub Idle \<and> \<not> ss_request_done ss'"
proof (induction rule: session_run.induct)
  case (run_step ss ms ss' m ss'')
  then show ?case using idle_stays [OF run_step.hyps(2)] by auto
qed simp

definition phase_weight :: "phase \<Rightarrow> nat" where
  "phase_weight ph = (case ph of Starting \<Rightarrow> 3 | Streaming _ \<Rightarrow> 2 | Idle \<Rightarrow> 2 | Ending \<Rightarrow> 1 | Done \<Rightarrow> 0)"

definition open_work :: "session \<Rightarrow> nat" where
  "open_work ss = sum_list (map (\<lambda>s. phase_weight (sg_phase s)) (ss_streams ss))"

text \<open>The session is closed and no stream waits, or will wait, on a nil channel.\<close>

definition closing :: "session_env \<Rightarrow> session \<Rightarrow> bool" where
  "closing E ss \<longleftrightarrow> ss_closed ss \<and> (\<forall>s \<in> set (ss_streams ss). sg_phase s \<noteq> Idle \<and> stream_start E (sg_sub s) \<noteq> Inr None)"

lemma consume_all: "\<exists>ms. session_run E ss ms (ss\<lparr>ss_resp := []\<rparr>) \<and> set ms \<subseteq> {Consume}"
proof (induction "ss_resp ss" arbitrary: ss)
  case Nil
  then have "ss\<lparr>ss_resp := []\<rparr> = ss" by simp
  then show ?case using run_nil [of E ss] by (metis empty_set empty_subsetI)
next
  case (Cons e es)
  from Cons(1) [of "ss\<lparr>ss_resp := es\<rparr>"] obtain ms where ms: "session_run E (ss\<lparr>ss_resp := es\<rparr>) ms (ss\<lparr>ss_resp := []\<rparr>)" "set ms \<subseteq> {Consume}"
    by auto
  have "session_step E Consume ss (ss\<lparr>ss_resp := es\<rparr>)" by (rule consume [OF Cons(2) [symmetric]])
  from run_cons [OF ms(1) this] ms(2) show ?case by (intro exI [of _ "Consume # ms"]) auto
qed

lemma open_work_phase:
  assumes "i < length (ss_streams ss)" and "phase_weight ph < phase_weight (sg_phase (ss_streams ss ! i))"
  shows "open_work (set_phase i ph ss) < open_work ss"
proof -
  let ?ws = "map (\<lambda>s. phase_weight (sg_phase s)) (ss_streams ss)"
  have "map (\<lambda>s. phase_weight (sg_phase s)) (ss_streams (set_phase i ph ss)) = ?ws[i := phase_weight ph]"
    by (simp add: set_phase_def map_update)
  moreover have "?ws ! i \<le> sum_list ?ws" using assms(1) by (intro elem_le_sum_list) simp
  ultimately show ?thesis using assms by (simp add: open_work_def sum_list_update)
qed

lemma closing_phase: "closing E ss \<Longrightarrow> ph \<noteq> Idle \<Longrightarrow> closing E (set_phase i ph ss)"
proof -
  assume c: "closing E ss" and ph: "ph \<noteq> Idle"
  have "sg_phase s \<noteq> Idle \<and> stream_start E (sg_sub s) \<noteq> Inr None" if "s \<in> set (ss_streams (set_phase i ph ss))" for s
  proof -
    from that obtain j where j: "j < length (ss_streams ss)" "s = ss_streams (set_phase i ph ss) ! j"
      by (metis in_set_conv_nth set_phase_simps(4))
    with c have "sg_phase (ss_streams ss ! j) \<noteq> Idle" "stream_start E (sg_sub (ss_streams ss ! j)) \<noteq> Inr None"
      by (simp_all add: closing_def)
    with j ph show ?thesis
      by (cases "i < length (ss_streams ss)") (auto simp: set_phase_phase, simp_all add: set_phase_def list_update_beyond)
  qed
  with c show ?thesis by (simp add: closing_def)
qed

lemma frame_simps [simp]:
  "closing E (send e ss) = closing E ss" "closing E (session_stop sub ss) = closing E ss"
  "ss_streams (send e ss) = ss_streams ss" "ss_streams (session_stop sub ss) = ss_streams ss"
  "open_work (send e ss) = open_work ss" "open_work (session_stop sub ss) = open_work ss"
  by (simp_all add: closing_def open_work_def send_def session_stop_def split: option.splits)

lemma closing_progress:
  assumes c: "closing E ss" and open_stream: "\<not> all_gone ss" and room: "room ss"
  shows "\<exists>i ss'. session_step E (Stream i) ss ss' \<and> closing E ss' \<and> open_work ss' < open_work ss"
proof -
  from open_stream obtain i where i: "i < length (ss_streams ss)" "sg_phase (ss_streams ss ! i) \<noteq> Done"
    by (auto simp: all_gone_def in_set_conv_nth)
  obtain sub ph where s: "ss_streams ss ! i = \<lparr>sg_sub = sub, sg_phase = ph\<rparr>" by (cases "ss_streams ss ! i") auto
  have at: "at_phase ss i sub ph" using i s by (simp add: at_phase_def)
  have sub: "ph \<noteq> Idle" "stream_start E sub \<noteq> Inr None" using c nth_mem [OF i(1)] s by (auto simp: closing_def)
  have less: "open_work (set_phase i ph' ss') < open_work ss'"
    if "ss_streams ss' = ss_streams ss" "phase_weight ph' < phase_weight ph" for ph' ss'
    using that i(1) s by (intro open_work_phase) simp_all
  show ?thesis
  proof (cases ph)
    case Starting
    show ?thesis
    proof (cases "stream_start E sub")
      case (Inl err)
      from stream_fail [OF _ Inl room, of i] at Starting
      have "session_step E (Stream i) ss (set_phase i Ending (send (sendErr err sub) ss))" by simp
      then show ?thesis using c less [of "send (sendErr err sub) ss" Ending] Starting
        by (intro exI conjI) (auto intro: closing_phase simp: phase_weight_def)
    next
      case (Inr ch)
      with sub obtain es where es: "ch = Some es" by (cases ch) auto
      from stream_run [OF _ Inr room, of i] at Starting es
      have "session_step E (Stream i) ss (set_phase i (Streaming es) (send (start_event sub) ss))" by simp
      then show ?thesis using c less [of "send (start_event sub) ss" "Streaming es"] Starting
        by (intro exI conjI) (auto intro: closing_phase simp: phase_weight_def)
    qed
  next
    case (Streaming es)
    have "context_done ss i" using c by (simp add: closing_def context_done_def)
    with at Streaming have "session_step E (Stream i) ss (set_phase i Ending ss)" by (intro stream_closed) auto
    then show ?thesis using c less [of ss Ending] Streaming
      by (intro exI conjI) (auto intro: closing_phase simp: phase_weight_def)
  next
    case Ending
    have "can_stop sub ss" using room by (simp add: can_stop_def)
    with at Ending have "session_step E (Stream i) ss (set_phase i Done (session_stop sub ss))" by (intro stream_stop) auto
    then show ?thesis using c less [of "session_stop sub ss" Done] Ending
      by (intro exI conjI) (auto intro: closing_phase simp: phase_weight_def)
  qed (use i s sub in simp_all)
qed

text \<open>
  When a session can be closed. Once it is closed and as long as no watch gave a nil channel, the streams and
  the consumer of the channel alone can always bring every stream to its end, so \<open>Close\<close> can return. A stream
  whose store answered the watch with a nil channel, as the stores of API roots and API groups do, waits for the
  context of the request itself: neither a stop by the client nor the closing of the session ends it, and
  \<open>Close\<close> does not return before the request is done.
\<close>

theorem close_needs_streams_to_end:
  "(closing E ss \<longrightarrow> (\<exists>ms ss'. session_run E ss ms ss' \<and> set ms \<subseteq> insert Consume (range Stream) \<and> all_gone ss')) \<and>
   (stream_start E sub = Inr None \<longrightarrow>
     (\<exists>ss1. session_run E NewWatchSession [ClientSubscribe sub, Stream 0] ss1 \<and>
        (\<forall>ms ss2. session_run E ss1 ms ss2 \<and> RequestDone \<notin> set ms \<longrightarrow> \<not> all_gone ss2)))"
proof (intro conjI impI)
  assume "closing E ss"
  then show "\<exists>ms ss'. session_run E ss ms ss' \<and> set ms \<subseteq> insert Consume (range Stream) \<and> all_gone ss'"
  proof (induction "open_work ss" arbitrary: ss rule: less_induct)
    case less
    show ?case
    proof (cases "all_gone ss")
      case True
      then show ?thesis using run_nil [of E ss] by (intro exI [of _ "[]"] exI [of _ ss]) simp
    next
      case False
      let ?e = "ss\<lparr>ss_resp := []\<rparr>"
      obtain ms0 where ms0: "session_run E ss ms0 ?e" "set ms0 \<subseteq> {Consume}" using consume_all by blast
      have "closing E ?e" "\<not> all_gone ?e" "room ?e" "open_work ?e = open_work ss"
        using less.prems False by (simp_all add: closing_def all_gone_def room_def channel_size_def open_work_def)
      with closing_progress [of E ?e] obtain i ss1 where
        one: "session_step E (Stream i) ?e ss1" "closing E ss1" "open_work ss1 < open_work ss" by auto
      from less.hyps [OF one(3,2)] obtain ms ss' where
        rest: "session_run E ss1 ms ss'" "set ms \<subseteq> insert Consume (range Stream)" "all_gone ss'" by blast
      from run_append [OF run_cons [OF rest(1) one(1)] ms0(1)]
      have "session_run E ss (ms0 @ Stream i # ms) ss'" .
      moreover have "set (ms0 @ Stream i # ms) \<subseteq> insert Consume (range Stream)" using ms0(2) rest(2) by auto
      ultimately show ?thesis using rest(3) by blast
    qed
  qed
next
  assume nil: "stream_start E sub = Inr None"
  let ?s1 = "session_add sub NewWatchSession"
  let ?s2 = "set_phase 0 Idle (send (start_event sub) ?s1)"
  note defs = NewWatchSession_def session_add_def at_phase_def room_def channel_size_def mhas_def
  have 1: "session_step E (ClientSubscribe sub) NewWatchSession ?s1" by (rule client_add) (simp add: defs)
  have 2: "session_step E (Stream 0) ?s1 ?s2" using stream_run [of ?s1 0 sub E None] nil by (simp add: defs)
  have idle: "at_phase ?s2 0 sub Idle" "\<not> ss_request_done ?s2" by (simp_all add: defs set_phase_def send_def)
  have "\<not> all_gone ss2" if "session_run E ?s2 ms ss2" "RequestDone \<notin> set ms" for ms ss2
  proof -
    have "at_phase ss2 0 sub Idle" using idle_run [OF that(1) idle that(2)] by simp
    then have "0 < length (ss_streams ss2)" "sg_phase (ss_streams ss2 ! 0) = Idle" by (simp_all add: at_phase_def)
    moreover from this(1) have "ss_streams ss2 ! 0 \<in> set (ss_streams ss2)" by (rule nth_mem)
    ultimately have "ss_streams ss2 ! 0 \<in> set (ss_streams ss2)" "sg_phase (ss_streams ss2 ! 0) = Idle" by simp_all
    then show ?thesis unfolding all_gone_def by (intro notI) (drule bspec, assumption, simp)
  qed
  then show "\<exists>ss1. session_run E NewWatchSession [ClientSubscribe sub, Stream 0] ss1 \<and>
      (\<forall>ms ss2. session_run E ss1 ms ss2 \<and> RequestDone \<notin> set ms \<longrightarrow> \<not> all_gone ss2)"
    using run_cons [OF run_cons [OF run_nil 2] 1] by blast
qed

lemma old_stop_ends_new_stream_witness:
  "\<exists>ss. session_run (ex_session_env (Some [])) NewWatchSession
      [ClientSubscribe ex_sub, Stream 0, ClientStop ex_sub, ClientSubscribe ex_sub, Stream 0, Stream 0] ss \<and> context_done ss 1"
  using old_stop_ends_new_stream [OF ex_starts [of "Some []"]] by blast

lemma close_needs_streams_to_end_witness:
  "(\<exists>ss1. session_run (ex_session_env None) NewWatchSession [ClientSubscribe ex_sub, Stream 0] ss1 \<and> \<not> all_gone ss1) \<and>
   (\<exists>ms ss'. session_run (ex_session_env (Some [])) ((session_add ex_sub NewWatchSession)\<lparr>ss_closed := True\<rparr>) ms ss' \<and> all_gone ss')"
proof -
  have "closing (ex_session_env (Some [])) ((session_add ex_sub NewWatchSession)\<lparr>ss_closed := True\<rparr>)"
    by (simp add: closing_def session_add_def NewWatchSession_def ex_starts)
  then show ?thesis
    using close_needs_streams_to_end [of "ex_session_env (Some [])" "(session_add ex_sub NewWatchSession)\<lparr>ss_closed := True\<rparr>" ex_sub]
      close_needs_streams_to_end [of "ex_session_env None" NewWatchSession ex_sub] ex_starts [of None] run_nil
    by (metis empty_iff empty_set)
qed

end
