(* ===== verification/Writer.thy ===== *)
theory Writer
  imports Server_Handler
begin

section \<open>From objects to response bodies: pkg/writer, types/encoder.go, subscribe/convert.go\<close>

text \<open>
  \<open>EncodingResponseWriter\<close> turns an API object into a \<open>RawResource\<close> with its links and actions and a list into
  a collection with pagination. The JSON and YAML encoders are library code: an encoder is an argument
  that gives a text or an error. \<open>RawResource.MarshalJSON\<close> joins two JSON objects by their bytes, as written.
  Nil pointers that the code would follow are a panic.
\<close>

record raw_resource =
  raw_ID :: string
  raw_Type :: string
  raw_Schema :: api_schema
  raw_Links :: "(string, string) gomap"
  raw_Actions :: "(string, string) gomap"
  raw_ActionLinks :: bool
  raw_Object :: "payload api_object"

record pagination =
  pg_Limit :: int
  pg_First :: string
  pg_Next :: string
  pg_Partial :: bool

record api_collection =
  gc_Type :: string
  gc_Links :: "(string, string) gomap"
  gc_CreateTypes :: "(string, string) gomap"
  gc_Actions :: "(string, string) gomap"
  gc_ResourceType :: string
  gc_Pagination :: "pagination option"
  gc_Revision :: string
  gc_Continue :: string
  gc_Data :: "raw_resource option list"

record writer_env =
  w_format :: "func \<Rightarrow> api_request \<Rightarrow> raw_resource \<Rightarrow> raw_resource"
  w_format_collection :: "func \<Rightarrow> api_request \<Rightarrow> api_collection \<Rightarrow> api_collection"

definition nil_pointer :: go_err where
  "nil_pointer = Panic ''nil pointer dereference''"

subsection \<open>encoding.go\<close>

definition if_missing :: "string \<Rightarrow> string \<Rightarrow> (string, string) gomap \<Rightarrow> (string, string) gomap" where
  "if_missing k v m = (if mhas m k then m else mput k v m)"

definition handler_map :: "(string, func) gomap option \<Rightarrow> (string, func) gomap" where
  "handler_map m = (case m of None \<Rightarrow> [] | Some m \<Rightarrow> m)"

definition addLinks :: "url_builder \<Rightarrow> api_schema \<Rightarrow> raw_resource \<Rightarrow> raw_resource" where
  "addLinks u s raw =
     (if raw_ID raw = [] then raw
      else
        let self = ResourceLink u (raw_Schema raw) (raw_ID raw);
            links = if_missing ''self'' self (raw_Links raw);
            links = (if CanUpdate s = None then if_missing ''update'' self links else links);
            links = (if CanDelete s = None then if_missing ''remove'' self links else links);
            links = fold (\<lambda>(l, _). mput l (Link u s (raw_ID raw) l)) (handler_map (LinkHandlers s)) links;
            actions = fold (\<lambda>(a, _). mput a (ActionURL u s (raw_ID raw) a)) (handler_map (ActionHandlers s)) (raw_Actions raw)
        in raw\<lparr>raw_Links := links, raw_Actions := actions\<rparr>)"

definition convert_object :: "writer_env \<Rightarrow> api_request \<Rightarrow> payload api_object \<Rightarrow> go_err + raw_resource option" where
  "convert_object E op input =
     (case op_Schemas op of
        None \<Rightarrow> Inl nil_pointer
      | Some schemas \<Rightarrow>
          (case (case LookupSchema schemas (obj_Type input) of Some s \<Rightarrow> Some s | None \<Rightarrow> op_Schema op) of
             None \<Rightarrow> Inr None
           | Some s \<Rightarrow>
               (case (op_Request op, op_URLBuilder op) of
                  (Some r, Some u) \<Rightarrow>
                    (let raw = \<lparr>raw_ID = obj_ID input, raw_Type = ID s, raw_Schema = s, raw_Links = [], raw_Actions = [],
                           raw_ActionLinks = (header_get (rq_Header r) ''X-API-Action-Links'' \<noteq> []), raw_Object = input\<rparr>;
                         raw = addLinks u s raw
                     in Inr (Some (case Formatter s of None \<Rightarrow> raw | Some f \<Rightarrow> run_formatter (\<lambda>f. w_format E f op) f raw)))
                | _ \<Rightarrow> Inl nil_pointer)))"

definition writer_getLimit :: "http_request \<Rightarrow> int" where
  "writer_getLimit r =
     (case atoi (header_get (rq_Header r) ''limit'') of Some n \<Rightarrow> (if n > 0 then n else 0) | None \<Rightarrow> 0)"

definition newCollection :: "api_request \<Rightarrow> payload api_object_list \<Rightarrow> go_err + api_collection" where
  "newCollection op l =
     (case (op_Request op, op_URLBuilder op) of
        (Some r, Some u) \<Rightarrow>
          (let partial = (list_Continue l \<noteq> [] \<or> values_get (case op_Query op of None \<Rightarrow> [] | Some q \<Rightarrow> q) ''continue'' \<noteq> []);
               result = \<lparr>gc_Type = ''collection'', gc_Links = [(''self'', Current u)], gc_CreateTypes = [], gc_Actions = [],
                 gc_ResourceType = op_Type op,
                 gc_Pagination =
                   (if partial then Some \<lparr>pg_Limit = writer_getLimit r, pg_First = Current u,
                      pg_Next = (if list_Continue l \<noteq> [] then Marker u (list_Continue l) else []), pg_Partial = True\<rparr>
                    else None),
                 gc_Revision = list_Revision l, gc_Continue = list_Continue l, gc_Data = []\<rparr>
           in if op_Method op = MethodGet
              then (case op_Schema op of
                      None \<Rightarrow> Inl nil_pointer
                    | Some s \<Rightarrow> Inr (if CanCreate s = None then result\<lparr>gc_CreateTypes := [(ID s, CollectionURL u s)]\<rparr> else result))
              else Inr result)
      | _ \<Rightarrow> Inl nil_pointer)"

fun convert_all :: "writer_env \<Rightarrow> api_request \<Rightarrow> payload api_object list \<Rightarrow> go_err + raw_resource option list" where
  "convert_all E op [] = Inr []"
| "convert_all E op (x # xs) =
     (case convert_object E op x of
        Inl e \<Rightarrow> Inl e
      | Inr r \<Rightarrow> (case convert_all E op xs of Inl e \<Rightarrow> Inl e | Inr rs \<Rightarrow> Inr (r # rs)))"

definition convertList :: "writer_env \<Rightarrow> api_request \<Rightarrow> payload api_object_list \<Rightarrow> go_err + api_collection" where
  "convertList E op l =
     (case newCollection op l of
        Inl e \<Rightarrow> Inl e
      | Inr c \<Rightarrow>
          (case convert_all E op (list_Objects l) of
             Inl e \<Rightarrow> Inl e
           | Inr rs \<Rightarrow>
               (case op_Schema op of
                  None \<Rightarrow> Inl nil_pointer
                | Some s \<Rightarrow>
                    (let c = c\<lparr>gc_Data := rs\<rparr>
                     in Inr (case CollectionFormatter s of None \<Rightarrow> c | Some f \<Rightarrow> w_format_collection E f op c)))))"

subsection \<open>headers.go\<close>

definition common_headers :: "api_request \<Rightarrow> header \<Rightarrow> header" where
  "common_headers op h =
     (let h = header_set ''Expires'' ''Wed 24 Feb 1982 18:42:00 GMT'' h in
      case (op_Schemas op, op_URLBuilder op) of
        (Some schemas, Some u) \<Rightarrow>
          (case mget (Schemas schemas) ''schema'' of
             None \<Rightarrow> h
           | Some s \<Rightarrow> header_set ''X-Api-Schemas'' (CollectionURL u s) h)
      | _ \<Rightarrow> h)"

subsection \<open>types/encoder.go\<close>

text \<open>What has been written when the encoder stops, and its error.\<close>

fun write_all :: "('x \<Rightarrow> go_err + string) \<Rightarrow> 'x list \<Rightarrow> string \<times> go_err option" where
  "write_all enc [] = ([], None)"
| "write_all enc (x # xs) =
     (case enc x of
        Inl e \<Rightarrow> ([], Some e)
      | Inr t \<Rightarrow> (case write_all enc xs of (out, e) \<Rightarrow> (t @ out, e)))"

datatype document = Doc_collection api_collection | Doc_resource "raw_resource option"

text \<open>The collection itself is encoded without its data, then the resources one by one.\<close>

definition jsonl_documents :: "api_collection + raw_resource option \<Rightarrow> document list" where
  "jsonl_documents v =
     (case v of
        Inl c \<Rightarrow> Doc_collection (c\<lparr>gc_Data := []\<rparr>) # map Doc_resource (gc_Data c)
      | Inr r \<Rightarrow> [Doc_resource r])"

definition JSONLinesEncoder :: "(document \<Rightarrow> go_err + string) \<Rightarrow> api_collection + raw_resource option \<Rightarrow> string \<times> go_err option" where
  "JSONLinesEncoder enc v =
     (case write_all enc (jsonl_documents v) of
        (out, Some e) \<Rightarrow> (out, Some e)
      | (out, None) \<Rightarrow> (out @ [CHR 0x0A], None))"

subsection \<open>RawResource.MarshalJSON\<close>

text \<open>
  \<open>outer\<close> is the encoding of the resource's own fields and \<open>data\<close> that of its object: the closing brace of
  the one and the opening brace of the other give way to a comma, or to a blank after an empty object.
\<close>

definition join_objects :: "string \<Rightarrow> string \<Rightarrow> string" where
  "join_objects outer data =
     (if length outer < 2 \<or> last outer \<noteq> CHR ''}'' then outer
      else if length data < 3 \<or> hd data \<noteq> CHR ''{'' \<or> last data \<noteq> CHR ''}'' then outer
      else butlast outer @ [if last (butlast outer) = CHR ''{'' then CHR '' '' else CHR '',''] @ tl data)"

definition MarshalJSON :: "(raw_resource \<Rightarrow> go_err + string) \<Rightarrow> (payload option \<Rightarrow> go_err + string) \<Rightarrow> raw_resource \<Rightarrow> go_err + string" where
  "MarshalJSON enc_outer enc_data r =
     (case enc_outer r of
        Inl e \<Rightarrow> Inl e
      | Inr outer \<Rightarrow>
          (if length outer < 2 \<or> last outer \<noteq> CHR ''}'' then Inr outer
           else (case enc_data (obj_Object (raw_Object r)) of
               Inl e \<Rightarrow> Inl e
             | Inr data \<Rightarrow> Inr (join_objects outer data))))"

subsection \<open>subscribe/convert.go and writeData\<close>

text \<open>An event with what is sent of it: a resource, an error text, or nothing.\<close>

datatype event_data = No_data | Resource_data "raw_resource option" | Error_data string

definition MarshallObject :: "writer_env \<Rightarrow> (api_request \<Rightarrow> api_schemas) \<Rightarrow> api_request \<Rightarrow> payload api_event \<Rightarrow>
    go_err + payload api_event \<times> event_data" where
  "MarshallObject E getter op event =
     (if ev_Error event \<noteq> None then Inr (event, No_data)
      else
        let schemas = getter op;
            op = op\<lparr>op_Schemas := Some schemas\<rparr>;
            op = (case LookupSchema schemas (obj_Type (ev_Object event)) of None \<Rightarrow> op | Some s \<Rightarrow> op\<lparr>op_Schema := Some s\<rparr>)
        in case convert_object E op (ev_Object event) of
             Inl e \<Rightarrow> Inl e
           | Inr raw \<Rightarrow> Inr (event, Resource_data raw))"

definition writeData :: "writer_env \<Rightarrow> (go_err \<Rightarrow> string) \<Rightarrow> (api_request \<Rightarrow> api_schemas) \<Rightarrow> api_request \<Rightarrow> payload api_event \<Rightarrow>
    go_err + payload api_event \<times> event_data" where
  "writeData E text getter op event =
     (case MarshallObject E getter op event of
        Inl e \<Rightarrow> Inl e
      | Inr (event, data) \<Rightarrow>
          Inr (case ev_Error event of
                 None \<Rightarrow> (event, data)
               | Some err \<Rightarrow> (event\<lparr>ev_Name := ''resource.error''\<rparr>, Error_data (text err))))"

section \<open>Links, pages and lines\<close>

lemma mget_fold_handlers:
  "mget (fold (\<lambda>(l, _). mput l (f l)) hs m) k = (if mhas hs k then Some (f k) else mget m k)"
proof (induction hs arbitrary: m)
  case (Cons p hs)
  then show ?case by (cases p) (auto simp: mget_mput mhas_def)
qed (simp add: mhas_def)

lemma mget_if_missing: "mget (if_missing k v m) k' = (if k' = k \<and> mget m k = None then Some v else mget m k')"
  by (auto simp: if_missing_def mhas_def mget_mput)

definition used_schema :: "api_request \<Rightarrow> payload api_object \<Rightarrow> api_schema option" where
  "used_schema op input =
     (case LookupSchema (case op_Schemas op of None \<Rightarrow> EmptyAPISchemas | Some s \<Rightarrow> s) (obj_Type input) of
        Some s \<Rightarrow> Some s | None \<Rightarrow> op_Schema op)"

lemma addLinks_links:
  assumes "raw_Links raw = []" and "raw_Actions raw = []" and "raw_Schema raw = s"
  shows "mget (raw_Links (addLinks u s raw)) k =
      (if raw_ID raw = [] then None
       else if mhas (handler_map (LinkHandlers s)) k then Some (Link u s (raw_ID raw) k)
       else if k = ''self'' \<or> (k = ''update'' \<and> CanUpdate s = None) \<or> (k = ''remove'' \<and> CanDelete s = None)
       then Some (ResourceLink u s (raw_ID raw)) else None)"
    and "mget (raw_Actions (addLinks u s raw)) a =
      (if raw_ID raw \<noteq> [] \<and> mhas (handler_map (ActionHandlers s)) a then Some (ActionURL u s (raw_ID raw) a) else None)"
    and "raw_ID (addLinks u s raw) = raw_ID raw" and "raw_Type (addLinks u s raw) = raw_Type raw"
    and "raw_Schema (addLinks u s raw) = raw_Schema raw" and "raw_Object (addLinks u s raw) = raw_Object raw"
    and "raw_ActionLinks (addLinks u s raw) = raw_ActionLinks raw"
  using assms by (simp_all add: addLinks_def Let_def mget_fold_handlers mget_if_missing)

text \<open>
  C31. The links of a resource say what the user may do with it. An object is converted under the schema of its
  type, or else that of the request. What the formatter of that schema is given, or what is written where it has none, is
  a resource with the id, the object and the schema's id as its type; if the object has an id, it has
  the links of the schema's link handlers, a link to itself, and the same link under \<open>update\<close>
  and \<open>remove\<close> exactly where the permission checks allow it, and one action link for each action handler; an
  object without an id has none. The answer is what the formatter makes of this, with nothing added afterwards.
\<close>

theorem links_follow_permissions:
  assumes "convert_object E op input = Inr (Some raw)" and "used_schema op input = Some s" and "op_URLBuilder op = Some u"
  shows "\<exists>base. raw = (case Formatter s of None \<Rightarrow> base | Some f \<Rightarrow> run_formatter (\<lambda>f. w_format E f op) f base) \<and>
    raw_ID base = obj_ID input \<and> raw_Type base = ID s \<and> raw_Schema base = s \<and> raw_Object base = input \<and>
    (\<forall>k. mget (raw_Links base) k =
      (if obj_ID input = [] then None
       else if mhas (handler_map (LinkHandlers s)) k then Some (Link u s (obj_ID input) k)
       else if k = ''self'' \<or> (k = ''update'' \<and> CanUpdate s = None) \<or> (k = ''remove'' \<and> CanDelete s = None)
       then Some (ResourceLink u s (obj_ID input)) else None)) \<and>
    (\<forall>a. mget (raw_Actions base) a =
      (if obj_ID input \<noteq> [] \<and> mhas (handler_map (ActionHandlers s)) a then Some (ActionURL u s (obj_ID input) a) else None))"
proof -
  obtain r schemas where r: "op_Request op = Some r" and schemas: "op_Schemas op = Some schemas"
    using assms by (auto simp: convert_object_def nil_pointer_def split: option.splits prod.splits)
  let ?raw = "\<lparr>raw_ID = obj_ID input, raw_Type = ID s, raw_Schema = s, raw_Links = [], raw_Actions = [],
      raw_ActionLinks = (header_get (rq_Header r) ''X-API-Action-Links'' \<noteq> []), raw_Object = input\<rparr>"
  have raw: "raw = (case Formatter s of None \<Rightarrow> addLinks u s ?raw | Some f \<Rightarrow> run_formatter (\<lambda>f. w_format E f op) f (addLinks u s ?raw))"
    using assms r schemas by (auto simp: convert_object_def used_schema_def Let_def split: option.splits)
  have "raw_Links ?raw = []" "raw_Actions ?raw = []" "raw_Schema ?raw = s" by simp_all
  note links = addLinks_links [OF this]
  show ?thesis
    by (rule exI [of _ "addLinks u s ?raw"]) (simp only: raw links, simp)
qed

lemma convert_all_map: "convert_all E op xs = Inr rs \<Longrightarrow> map (convert_object E op) xs = map Inr rs"
  by (induction xs arbitrary: rs) (auto split: sum.splits)

text \<open>
  A list is written whole and in order. Without a collection formatter, the collection holds what each object
  of the list converts to, the revision and the continue token of the list; it is marked partial exactly when it
  is the answer to a continue token or brings one, it links to the next page exactly when it brings one, and
  offers to create exactly when the request is a GET and the schema allows creating.
\<close>

theorem collection_of_list:
  assumes "convertList E op l = Inr c" and "op_Schema op = Some s" and "CollectionFormatter s = None"
    and "op_URLBuilder op = Some u"
  shows "map Inr (gc_Data c) = map (convert_object E op) (list_Objects l) \<and>
    gc_Revision c = list_Revision l \<and> gc_Continue c = list_Continue l \<and>
    (gc_Pagination c = None \<longleftrightarrow> list_Continue l = [] \<and> values_get (case op_Query op of None \<Rightarrow> [] | Some q \<Rightarrow> q) ''continue'' = []) \<and>
    (\<forall>p. gc_Pagination c = Some p \<longrightarrow> pg_Next p = (if list_Continue l = [] then [] else Marker u (list_Continue l))) \<and>
    gc_CreateTypes c = (if op_Method op = MethodGet \<and> CanCreate s = None then [(ID s, CollectionURL u s)] else [])"
proof -
  obtain c0 rs where c0: "newCollection op l = Inr c0" and rs: "convert_all E op (list_Objects l) = Inr rs"
    and c: "c = c0\<lparr>gc_Data := rs\<rparr>"
    using assms(1-3) by (auto simp: convertList_def Let_def split: sum.splits)
  from c0 assms(2,4) obtain r where "op_Request op = Some r"
    by (auto simp: newCollection_def nil_pointer_def split: option.splits)
  with c0 assms(2,4) have "gc_Revision c0 = list_Revision l" "gc_Continue c0 = list_Continue l"
    "gc_Pagination c0 = None \<longleftrightarrow> list_Continue l = [] \<and> values_get (case op_Query op of None \<Rightarrow> [] | Some q \<Rightarrow> q) ''continue'' = []"
    "\<forall>p. gc_Pagination c0 = Some p \<longrightarrow> pg_Next p = (if list_Continue l = [] then [] else Marker u (list_Continue l))"
    "gc_CreateTypes c0 = (if op_Method op = MethodGet \<and> CanCreate s = None then [(ID s, CollectionURL u s)] else [])"
    by (auto simp: newCollection_def Let_def split: if_splits)
  with convert_all_map [OF rs] c show ?thesis by simp
qed

lemma write_all_error: "write_all enc xs = (out, Some e) \<Longrightarrow> \<exists>x \<in> set xs. enc x = Inl e"
  by (induction xs arbitrary: out) (auto split: sum.splits prod.splits)

lemma write_all_ok: "write_all enc xs = (out, None) \<Longrightarrow> (\<forall>x \<in> set xs. \<exists>t. enc x = Inr t) \<and> out = concat (map (\<lambda>x. case enc x of Inr t \<Rightarrow> t | Inl _ \<Rightarrow> []) xs)"
  by (induction xs arbitrary: out) (auto split: sum.splits prod.splits)

lemma write_all_stops: "snd (write_all enc xs) = None \<longleftrightarrow> (\<forall>x \<in> set xs. \<exists>t. enc x = Inr t)"
  by (induction xs) (auto split: sum.splits prod.splits)

lemma write_all_lines:
  assumes "\<forall>x \<in> set xs. \<forall>t. enc x = Inr t \<longrightarrow> (\<exists>l. t = l @ [CHR 0x0A] \<and> CHR 0x0A \<notin> set l \<and> l \<noteq> [])"
  shows "\<not> (\<exists>p. fst (write_all enc xs) = p @ [CHR 0x0A, CHR 0x0A]) \<and> (\<forall>p. fst (write_all enc xs) \<noteq> [CHR 0x0A] @ p)"
  using assms
proof (induction xs)
  case Nil
  then show ?case by simp
next
  case (Cons x xs)
  show ?case
  proof (cases "enc x")
    case (Inl e)
    then show ?thesis by simp
  next
    case (Inr t)
    with Cons.prems obtain l where l: "t = l @ [CHR 0x0A]" "CHR 0x0A \<notin> set l" "l \<noteq> []" by auto
    define rest where "rest = fst (write_all enc xs)"
    have IH: "\<not> (\<exists>p. rest = p @ [CHR 0x0A, CHR 0x0A])" "\<And>p. rest \<noteq> [CHR 0x0A] @ p"
      using Cons by (simp_all add: rest_def)
    have out: "fst (write_all enc (x # xs)) = l @ [CHR 0x0A] @ rest"
      using Inr l by (simp add: rest_def split: prod.splits)
    have "\<not> (\<exists>p. l @ [CHR 0x0A] @ rest = p @ [CHR 0x0A, CHR 0x0A])"
    proof
      assume "\<exists>p. l @ [CHR 0x0A] @ rest = p @ [CHR 0x0A, CHR 0x0A]"
      then obtain p where p: "l @ [CHR 0x0A] @ rest = p @ [CHR 0x0A, CHR 0x0A]" by blast
      show False
      proof (cases rest rule: rev_cases)
        case Nil
        with p have "l = p @ [CHR 0x0A]" by simp
        with l(2) show False by simp
      next
        case (snoc r1 c1)
        with p have c1: "c1 = CHR 0x0A" "l @ [CHR 0x0A] @ r1 = p @ [CHR 0x0A]"
          using butlast_append [of "l @ [CHR 0x0A] @ r1" "[c1]"] by (simp_all add: append_eq_append_conv2) (metis append_assoc append_same_eq append1_eq_conv append.simps)+
        show False
        proof (cases r1 rule: rev_cases)
          case Nil
          with snoc c1 IH(2) [of "[]"] show False by simp
        next
          case (snoc r2 c2)
          with c1(2) have "c2 = CHR 0x0A" by (metis append_assoc last_snoc)
          with snoc \<open>rest = r1 @ [c1]\<close> c1(1) IH(1) show False by simp
        qed
      qed
    qed
    moreover have "l @ [CHR 0x0A] @ rest \<noteq> [CHR 0x0A] @ p" for p
      using l by (cases l) auto
    ultimately show ?thesis unfolding out by blast
  qed
qed

text \<open>
  The blank line at the end of a JSON lines answer tells that it is complete. When every document is encoded
  as one line that is not empty, what the encoder has written ends in two newlines exactly if it ended without
  an error, and then it is every line, the collection first, in order, and the blank line.
\<close>

theorem jsonl_complete_iff_blank_line:
  assumes "\<forall>x t. enc x = Inr t \<longrightarrow> (\<exists>l. t = l @ [CHR 0x0A] \<and> CHR 0x0A \<notin> set l \<and> l \<noteq> [])"
    and "JSONLinesEncoder enc v = (out, e)"
  shows "((\<exists>p. out = p @ [CHR 0x0A, CHR 0x0A]) \<longleftrightarrow> e = None) \<and>
    (e = None \<longrightarrow> out = concat (map (\<lambda>x. case enc x of Inr t \<Rightarrow> t | Inl _ \<Rightarrow> []) (jsonl_documents v)) @ [CHR 0x0A])"
proof -
  obtain out1 e1 where w: "write_all enc (jsonl_documents v) = (out1, e1)" by (cases "write_all enc (jsonl_documents v)")
  have docs: "jsonl_documents v \<noteq> []" by (simp add: jsonl_documents_def split: sum.splits)
  have no_blank: "\<not> (\<exists>p. out1 = p @ [CHR 0x0A, CHR 0x0A])"
    using write_all_lines [of "jsonl_documents v" enc] assms(1) w by simp
  show ?thesis
  proof (cases e1)
    case (Some x)
    with assms(2) w no_blank show ?thesis by (auto simp: JSONLinesEncoder_def)
  next
    case None
    with assms(2) w have out: "out = out1 @ [CHR 0x0A]" "e = None" by (auto simp: JSONLinesEncoder_def)
    from write_all_ok [OF w [unfolded None]] have
      ok: "\<forall>x \<in> set (jsonl_documents v). \<exists>t. enc x = Inr t"
      and out1: "out1 = concat (map (\<lambda>x. case enc x of Inr t \<Rightarrow> t | Inl _ \<Rightarrow> []) (jsonl_documents v))" by auto
    have "last (jsonl_documents v) \<in> set (jsonl_documents v)" using docs by simp
    with ok assms(1) obtain l where l: "(case enc (last (jsonl_documents v)) of Inr t \<Rightarrow> t | Inl _ \<Rightarrow> []) = l @ [CHR 0x0A]"
      by fastforce
    have "jsonl_documents v = butlast (jsonl_documents v) @ [last (jsonl_documents v)]" using docs by simp
    then have "out1 = concat (map (\<lambda>x. case enc x of Inr t \<Rightarrow> t | Inl _ \<Rightarrow> []) (butlast (jsonl_documents v))) @ l @ [CHR 0x0A]"
      unfolding out1 using l by (metis (no_types, lifting) concat.simps(1) concat.simps(2) concat_append list.simps(8) list.simps(9) map_append append_Nil2)
    then have "\<exists>p. out = p @ [CHR 0x0A, CHR 0x0A]" using out(1) by simp
    with out out1 show ?thesis by simp
  qed
qed

text \<open>
  The bytes of a resource are one JSON object: the fields of the resource, then those of its object; where
  one of the two is empty, the other one remains.
\<close>

lemma join_objects_fields:
  "a \<noteq> [] \<Longrightarrow> last a \<noteq> CHR ''{'' \<Longrightarrow> b \<noteq> [] \<Longrightarrow>
     join_objects (''{'' @ a @ ''}'') (''{'' @ b @ ''}'') = ''{'' @ a @ '','' @ b @ ''}''"
  "b \<noteq> [] \<Longrightarrow> join_objects ''{}'' (''{'' @ b @ ''}'') = ''{ '' @ b @ ''}''"
  "join_objects (''{'' @ a @ ''}'') ''{}'' = ''{'' @ a @ ''}''"
  by (auto simp: join_objects_def butlast_append Suc_le_eq not_less)

section \<open>Examples\<close>

definition ex_builder_v1 :: url_builder where
  "ex_builder_v1 = \<lparr>ub_Prefix = ''v1'', ub_currentURL = ''http://h/v1/items'', ub_responseURLBase = ''http://h'', ub_query = []\<rparr>"

definition ex_writer_env :: writer_env where
  "ex_writer_env = \<lparr>w_format = (\<lambda>f op r. r), w_format_collection = (\<lambda>f op c. c)\<rparr>"

definition ex_list_request :: api_request where
  "ex_list_request = empty_request\<lparr>op_Method := MethodGet, op_Schema := Some ex_item_schema, op_Schemas := Some EmptyAPISchemas,
     op_Request := Some new_request, op_URLBuilder := Some ex_builder_v1\<rparr>"

definition ex_item :: "payload api_object" where
  "ex_item = \<lparr>obj_Type = ''item'', obj_ID = ''a'', obj_Object = None\<rparr>"

lemma ex_item_rest: "Formatter ex_item_schema = None" "CollectionFormatter ex_item_schema = None" "LinkHandlers ex_item_schema = None"
  by (simp_all add: ex_item_schema_def ex_schema_def mk_api_schema_def schema.defs)

lemma ex_request_fields:
  "op_Schema ex_list_request = Some ex_item_schema" "op_Schemas ex_list_request = Some EmptyAPISchemas"
  "op_URLBuilder ex_list_request = Some ex_builder_v1" "op_Request ex_list_request = Some new_request"
  by (simp_all add: ex_list_request_def)

lemma ex_lookup: "LookupSchema EmptyAPISchemas i = None"
  by (simp add: LookupSchema_def EmptyAPISchemas_def)

lemma ex_converts: "\<exists>raw. convert_object ex_writer_env ex_list_request ex_item = Inr (Some raw)"
  by (simp add: convert_object_def ex_request_fields ex_lookup ex_item_rest Let_def)

text \<open>A schema with a formatter that hides the link to the resource itself and lists the names of those it was given in its type.\<close>

definition ex_hiding_env :: writer_env where
  "ex_hiding_env = ex_writer_env\<lparr>w_format := (\<lambda>f op r. r\<lparr>raw_Links := mdel ''self'' (raw_Links r), raw_Type := concat (map fst (raw_Links r))\<rparr>)\<rparr>"

definition ex_formatted_schema :: api_schema where
  "ex_formatted_schema = ex_item_schema\<lparr>Formatter := Some (Fmt 0)\<rparr>"

definition ex_formatted_request :: api_request where
  "ex_formatted_request = ex_list_request\<lparr>op_Schema := Some ex_formatted_schema\<rparr>"

lemma links_follow_permissions_witness:
  "\<exists>raw base. convert_object ex_hiding_env ex_formatted_request ex_item = Inr (Some raw) \<and>
     mget (raw_Links base) ''self'' = Some (ResourceLink ex_builder_v1 ex_formatted_schema ''a'') \<and>
     raw = base\<lparr>raw_Links := mdel ''self'' (raw_Links base), raw_Type := concat (map fst (raw_Links base))\<rparr> \<and>
     mget (raw_Links raw) ''self'' = None"
proof -
  have fields: "op_Schema ex_formatted_request = Some ex_formatted_schema" "op_Schemas ex_formatted_request = Some EmptyAPISchemas"
    "op_URLBuilder ex_formatted_request = Some ex_builder_v1" "op_Request ex_formatted_request = Some new_request"
    "Formatter ex_formatted_schema = Some (Fmt 0)" "LinkHandlers ex_formatted_schema = None"
    by (simp_all add: ex_formatted_request_def ex_request_fields ex_formatted_schema_def ex_item_rest)
  then obtain raw where raw: "convert_object ex_hiding_env ex_formatted_request ex_item = Inr (Some raw)"
    by (simp add: convert_object_def ex_lookup Let_def)
  have "used_schema ex_formatted_request ex_item = Some ex_formatted_schema"
    by (simp add: used_schema_def fields ex_lookup)
  from links_follow_permissions [OF raw this fields(3)] obtain base where
    "raw = base\<lparr>raw_Links := mdel ''self'' (raw_Links base), raw_Type := concat (map fst (raw_Links base))\<rparr>"
    "mget (raw_Links base) ''self'' = Some (ResourceLink ex_builder_v1 ex_formatted_schema ''a'')"
    by (auto simp: fields ex_hiding_env_def ex_item_def handler_map_def mhas_def)
  with raw show ?thesis by (auto simp: mget_mdel)
qed

lemma collection_of_list_witness:
  "\<exists>c. convertList ex_writer_env ex_list_request (empty_list\<lparr>list_Objects := [ex_item], list_Continue := ''t''\<rparr>) = Inr c \<and>
     gc_Continue c = ''t'' \<and> length (gc_Data c) = 1"
proof -
  let ?l = "empty_list\<lparr>list_Objects := [ex_item], list_Continue := ''t''\<rparr>"
  have "\<exists>c0. newCollection ex_list_request ?l = Inr c0"
    by (simp add: newCollection_def ex_request_fields Let_def split: if_split)
  then obtain c where c: "convertList ex_writer_env ex_list_request ?l = Inr c"
    using ex_converts by (auto simp: convertList_def ex_request_fields ex_item_rest Let_def)
  from collection_of_list [OF c ex_request_fields(1) ex_item_rest(2) ex_request_fields(3)] c show ?thesis
    by (auto dest: arg_cong [where f = length])
qed

lemma jsonl_complete_iff_blank_line_witness:
  "\<exists>p. fst (JSONLinesEncoder (\<lambda>d. Inr [CHR ''x'', CHR 0x0A]) (Inr None)) = p @ [CHR 0x0A, CHR 0x0A]"
proof -
  let ?enc = "\<lambda>d :: document. (Inr [CHR ''x'', CHR 0x0A] :: go_err + string)"
  have "JSONLinesEncoder ?enc (Inr None) = ([CHR ''x'', CHR 0x0A, CHR 0x0A], None)"
    by (simp add: JSONLinesEncoder_def jsonl_documents_def)
  moreover have "\<forall>x t. ?enc x = Inr t \<longrightarrow> (\<exists>l. t = l @ [CHR 0x0A] \<and> CHR 0x0A \<notin> set l \<and> l \<noteq> [])"
    by (auto intro: exI [of _ "''x''"])
  ultimately show ?thesis using jsonl_complete_iff_blank_line [of ?enc "Inr None"] by auto
qed

end
