(* ===== verification/Middleware.thy ===== *)
theory Middleware
  imports Url_Builder
begin

section \<open>Response writers around a handler: urlbuilder/redirect.go, pkg/middleware, writer/gzip.go\<close>

text \<open>
  A middleware hands its handler a response writer of its own. A handler is the list of calls it makes on its
  writer; \<open>response\<close> is what the writer of \<^verbatim>\<open>net/http\<close> does: headers can change until the head is sent, by
  \<open>WriteHeader\<close> or by the first \<open>Write\<close>, and the head is sent once. The wrappers here rewrite redirects, add
  a content type, and compress. \<open>url.Parse\<close> and the compressor are arguments.
\<close>

record response =
  hw_header :: header
  hw_sent :: "(int \<times> header) option"
  hw_body :: string

datatype rw_call = SetHeader string string | DelHeader string | WriteHeader int | Write string

fun answers :: "rw_call \<Rightarrow> bool" where
  "answers (WriteHeader _) = True"
| "answers (Write _) = True"
| "answers _ = False"

definition set_hdr :: "string \<Rightarrow> string \<Rightarrow> 'z response_scheme \<Rightarrow> 'z response_scheme" where
  "set_hdr k v w = w\<lparr>hw_header := header_set k v (hw_header w)\<rparr>"

definition del_hdr :: "string \<Rightarrow> 'z response_scheme \<Rightarrow> 'z response_scheme" where
  "del_hdr k w = w\<lparr>hw_header := header_del k (hw_header w)\<rparr>"

definition base_WriteHeader :: "int \<Rightarrow> 'z response_scheme \<Rightarrow> 'z response_scheme" where
  "base_WriteHeader code w = (if hw_sent w = None then w\<lparr>hw_sent := Some (code, hw_header w)\<rparr> else w)"

definition base_Write :: "string \<Rightarrow> 'z response_scheme \<Rightarrow> 'z response_scheme" where
  "base_Write b w = (let w = base_WriteHeader 200 w in w\<lparr>hw_body := hw_body w @ b\<rparr>)"

fun base_call :: "rw_call \<Rightarrow> 'z response_scheme \<Rightarrow> 'z response_scheme" where
  "base_call (SetHeader k v) w = set_hdr k v w"
| "base_call (DelHeader k) w = del_hdr k w"
| "base_call (WriteHeader code) w = base_WriteHeader code w"
| "base_call (Write b) w = base_Write b w"

definition fresh :: response where
  "fresh = \<lparr>hw_header = [], hw_sent = None, hw_body = []\<rparr>"

subsection \<open>What every response writer keeps\<close>

locale response_writer =
  fixes call :: "rw_call \<Rightarrow> 's \<Rightarrow> 's"
    and head :: "'s \<Rightarrow> (int \<times> header) option"
    and ok :: "'s \<Rightarrow> bool"
  assumes ok_call: "ok s \<Longrightarrow> ok (call c s)"
    and head_kept: "ok s \<Longrightarrow> head s = Some h \<Longrightarrow> head (call c s) = Some h"
    and head_sent: "ok s \<Longrightarrow> answers c \<Longrightarrow> head (call c s) \<noteq> None"
    and head_silent: "ok s \<Longrightarrow> \<not> answers c \<Longrightarrow> head (call c s) = head s"
begin

lemma ok_run: "ok s \<Longrightarrow> ok (fold call cs s)"
  by (induction cs arbitrary: s) (simp_all add: ok_call)

lemma head_once: "ok s \<Longrightarrow> head s = Some h \<Longrightarrow> head (fold call cs s) = Some h"
  by (induction cs arbitrary: s) (simp_all add: ok_call head_kept)

lemma head_iff: "ok s \<Longrightarrow> head (fold call cs s) = None \<longleftrightarrow> head s = None \<and> (\<forall>c \<in> set cs. \<not> answers c)"
proof (induction cs arbitrary: s)
  case (Cons c cs)
  have "head (call c s) = None \<longleftrightarrow> head s = None \<and> \<not> answers c"
    using Cons.prems head_kept [of s _ c] head_sent [of s c] head_silent [of s c] by (cases "head s") auto
  with Cons.IH [of "call c s"] Cons.prems show ?case by (auto simp: ok_call)
qed simp

end

lemma base_parts [simp]:
  "hw_sent (set_hdr k v w) = hw_sent w" "hw_sent (del_hdr k w) = hw_sent w"
  "hw_sent (base_WriteHeader code w) = (case hw_sent w of None \<Rightarrow> Some (code, hw_header w) | Some h \<Rightarrow> Some h)"
  "hw_sent (base_Write b w) = (case hw_sent w of None \<Rightarrow> Some (200, hw_header w) | Some h \<Rightarrow> Some h)"
  "hw_body (set_hdr k v w) = hw_body w" "hw_body (del_hdr k w) = hw_body w"
  "hw_body (base_WriteHeader code w) = hw_body w" "hw_body (base_Write b w) = hw_body w @ b"
  "hw_header (base_WriteHeader code w) = hw_header w" "hw_header (base_Write b w) = hw_header w"
  "hw_header (set_hdr k v w) = header_set k v (hw_header w)" "hw_header (del_hdr k w) = header_del k (hw_header w)"
  "response.more (base_WriteHeader code w) = response.more w" "response.more (base_Write b w) = response.more w"
  "response.more (set_hdr k v w) = response.more w" "response.more (del_hdr k w) = response.more w"
  by (auto simp: set_hdr_def del_hdr_def base_WriteHeader_def base_Write_def Let_def split: option.splits)

interpretation base: response_writer base_call hw_sent "\<lambda>_. True"
proof
  fix c s
  show "answers c \<Longrightarrow> hw_sent (base_call c s) \<noteq> None" by (cases c) (auto split: option.splits)
  show "\<not> answers c \<Longrightarrow> hw_sent (base_call c s) = hw_sent s" by (cases c) auto
  show "\<And>h. hw_sent s = Some h \<Longrightarrow> hw_sent (base_call c s) = Some h" by (cases c) auto
qed simp

subsection \<open>redirect.go\<close>

text \<open>
  \<open>url.Parse\<close>: the decoded path of a URL, if it can be parsed, and the text of the URL with another path.
\<close>

record url_env =
  ue_Path :: "string \<Rightarrow> string option"
  ue_WithPath :: "string \<Rightarrow> string \<Rightarrow> string"

text \<open>\<^verbatim>\<open>bytes.Replace(s, old, new, -1)\<close> for an \<open>old\<close> that is not empty.\<close>

function replace_all :: "string \<Rightarrow> string \<Rightarrow> string \<Rightarrow> string" where
  "replace_all old new s =
     (if s = [] then []
      else if old \<noteq> [] \<and> has_prefix old s then new @ replace_all old new (drop (length old) s)
      else hd s # replace_all old new (tl s))"
  by pat_completeness auto
termination
  by (relation "measure (\<lambda>(f, t, s). length s)") auto

declare replace_all.simps [simp del]

record redirector = response +
  rd_prefix :: string
  rd_from :: string
  rd_to :: string
  rd_tempBuffer :: "string option"
  rd_panic :: bool

definition redirect_Write :: "string \<Rightarrow> redirector \<Rightarrow> redirector" where
  "redirect_Write content r =
     (case rd_tempBuffer r of None \<Rightarrow> base_Write content r | Some t \<Rightarrow> r\<lparr>rd_tempBuffer := Some (t @ content)\<rparr>)"

text \<open>The deferred call sends the head also when a nil URL is dereferenced, with the status as it then is.\<close>

definition redirect_WriteHeader :: "url_env \<Rightarrow> int \<Rightarrow> redirector \<Rightarrow> redirector" where
  "redirect_WriteHeader E statusCode r =
     (if statusCode \<noteq> 301 \<and> statusCode \<noteq> 302 then base_WriteHeader statusCode r
      else
        let l = header_get (hw_header r) ''Location'' in
        if l = [] then base_WriteHeader statusCode r
        else (case ue_Path E l of
            None \<Rightarrow> (base_WriteHeader statusCode r)\<lparr>rd_panic := True\<rparr>
          | Some p \<Rightarrow>
              base_WriteHeader 302
                (if \<not> has_prefix (rd_prefix r) p
                 then (set_hdr ''Location'' (ue_WithPath E l (rd_prefix r @ p)) r)
                   \<lparr>rd_from := p, rd_to := rd_prefix r @ p, rd_tempBuffer := Some []\<rparr>
                 else r)))"

definition redirect_Close :: "redirector \<Rightarrow> redirector" where
  "redirect_Close r =
     (case rd_tempBuffer r of
        None \<Rightarrow> r
      | Some t \<Rightarrow>
          if rd_from r = [] \<or> rd_to r = [] then r
          else (base_Write (replace_all (rd_from r) (rd_to r) t) r)\<lparr>rd_tempBuffer := None\<rparr>)"

text \<open>After a panic the handler makes no further call.\<close>

definition redirect_call :: "url_env \<Rightarrow> rw_call \<Rightarrow> redirector \<Rightarrow> redirector" where
  "redirect_call E c r =
     (if rd_panic r then r
      else (case c of
          SetHeader k v \<Rightarrow> set_hdr k v r
        | DelHeader k \<Rightarrow> del_hdr k r
        | WriteHeader code \<Rightarrow> redirect_WriteHeader E code r
        | Write b \<Rightarrow> redirect_Write b r))"

definition new_redirector :: "string \<Rightarrow> response \<Rightarrow> redirector" where
  "new_redirector prefix w =
     response.extend w \<lparr>rd_prefix = prefix, rd_from = [], rd_to = [], rd_tempBuffer = None, rd_panic = False\<rparr>"

text \<open>The answer and whether the handler's goroutine panicked.\<close>

definition RedirectRewrite :: "url_env \<Rightarrow> string \<Rightarrow> rw_call list \<Rightarrow> response \<Rightarrow> response \<times> bool" where
  "RedirectRewrite E prefix calls w =
     (if prefix = [] then (fold base_call calls w, False)
      else
        let r = fold (redirect_call E) calls (new_redirector prefix w) in
        if rd_panic r then (response.truncate r, True) else (response.truncate (redirect_Close r), False))"

definition redirector_ok :: "redirector \<Rightarrow> bool" where
  "redirector_ok r \<longleftrightarrow> (rd_tempBuffer r \<noteq> None \<or> rd_panic r \<longrightarrow> hw_sent r \<noteq> None)"

lemma redirector_parts [simp]:
  "rd_tempBuffer (base_WriteHeader code w) = rd_tempBuffer w" "rd_panic (base_WriteHeader code w) = rd_panic w"
  "rd_tempBuffer (base_Write b w) = rd_tempBuffer w" "rd_panic (base_Write b w) = rd_panic w"
  "rd_tempBuffer (set_hdr k v w) = rd_tempBuffer w" "rd_panic (set_hdr k v w) = rd_panic w"
  "rd_tempBuffer (del_hdr k w) = rd_tempBuffer w" "rd_panic (del_hdr k w) = rd_panic w"
  "rd_from (base_WriteHeader code w) = rd_from w" "rd_to (base_WriteHeader code w) = rd_to w"
  "rd_prefix (base_WriteHeader code w) = rd_prefix w" "rd_prefix (set_hdr k v w) = rd_prefix w"
  by (simp_all add: base_WriteHeader_def base_Write_def set_hdr_def del_hdr_def Let_def)

interpretation redirects: response_writer "redirect_call E" hw_sent redirector_ok for E
proof
  fix c s h
  show "redirector_ok s \<Longrightarrow> answers c \<Longrightarrow> hw_sent (redirect_call E c s) \<noteq> None"
    by (cases c) (auto simp: redirect_call_def redirector_ok_def redirect_WriteHeader_def redirect_Write_def Let_def
        split: option.splits)
  show "\<not> answers c \<Longrightarrow> hw_sent (redirect_call E c s) = hw_sent s"
    by (cases c) (auto simp: redirect_call_def)
  show "hw_sent s = Some h \<Longrightarrow> hw_sent (redirect_call E c s) = Some h"
    by (cases c) (auto simp: redirect_call_def redirect_WriteHeader_def redirect_Write_def Let_def split: option.splits)
  show "redirector_ok s \<Longrightarrow> redirector_ok (redirect_call E c s)"
    by (cases c) (auto simp: redirect_call_def redirector_ok_def redirect_WriteHeader_def redirect_Write_def Let_def
        split: option.splits)
qed

lemma replace_all_Nil [simp]: "replace_all old new [] = []"
  by (simp add: replace_all.simps)

text \<open>What is replaced are occurrences of the old text, and none is left between them.\<close>

lemma join_with_Cons_char: "ps \<noteq> [] \<Longrightarrow> join_with sep ((c # hd ps) # tl ps) = c # join_with sep ps"
  by (cases ps; cases "tl ps") auto

lemma join_with_hd: "ps \<noteq> [] \<Longrightarrow> \<exists>t. join_with sep ps = hd ps @ t"
  by (cases ps; cases "tl ps") auto

lemma replace_all_parts:
  "old \<noteq> [] \<Longrightarrow> \<exists>ps. ps \<noteq> [] \<and> s = join_with old ps \<and> replace_all old new s = join_with new ps \<and>
     (\<forall>p \<in> set ps. \<not> str_contains p old)"
proof (induction old new s rule: replace_all.induct)
  case (1 old new s)
  show ?case
  proof (cases s)
    case Nil
    have "\<not> str_contains [] old" using 1(3) by (simp add: has_prefix_def)
    then show ?thesis using Nil by (intro exI [of _ "[[]]"]) simp
  next
    case (Cons c cs)
    show ?thesis
    proof (cases "has_prefix old s")
      case True
      with 1 Cons obtain ps where ps: "ps \<noteq> []" "drop (length old) s = join_with old ps"
        "replace_all old new (drop (length old) s) = join_with new ps" "\<forall>p \<in> set ps. \<not> str_contains p old" by auto
      have "s = old @ drop (length old) s" using True by (metis append_take_drop_id has_prefix_def)
      moreover have "\<not> str_contains [] old" using 1(3) by (simp add: has_prefix_def)
      moreover have "replace_all old new s = new @ replace_all old new (drop (length old) s)"
        using True Cons 1(3) by (subst replace_all.simps) simp
      ultimately show ?thesis using ps
        by (intro exI [of _ "[] # ps"]) (cases ps, auto)
    next
      case False
      with 1 Cons obtain ps where ps: "ps \<noteq> []" "cs = join_with old ps" "replace_all old new cs = join_with new ps"
        "\<forall>p \<in> set ps. \<not> str_contains p old" by auto
      have "\<not> has_prefix old (c # hd ps)"
      proof
        assume "has_prefix old (c # hd ps)"
        then obtain u where u: "c # hd ps = old @ u" by (auto simp: has_prefix_iff)
        obtain t where "cs = hd ps @ t" using join_with_hd [OF ps(1), of old] ps(2) by auto
        with u Cons have "s = old @ (u @ t)" by (metis append_Cons append_assoc)
        then show False using False by (auto simp: has_prefix_iff)
      qed
      then have "\<not> str_contains (c # hd ps) old" using ps(1,4) by (cases ps) auto
      moreover have "replace_all old new s = c # replace_all old new cs"
        using False Cons by (subst replace_all.simps) simp
      ultimately show ?thesis using ps Cons
        by (intro exI [of _ "(c # hd ps) # tl ps"]) (auto simp: join_with_Cons_char dest: list.set_sel(2))
    qed
  qed
qed

lemma truncate_calls:
  "response.truncate (set_hdr k v r) = set_hdr k v (response.truncate r)"
  "response.truncate (del_hdr k r) = del_hdr k (response.truncate r)"
  "response.truncate (base_WriteHeader code r) = base_WriteHeader code (response.truncate r)"
  "response.truncate (base_Write b r) = base_Write b (response.truncate r)"
  by (simp_all add: set_hdr_def del_hdr_def base_WriteHeader_def base_Write_def Let_def response.defs)

lemma redirect_plain_run:
  "rd_tempBuffer r = None \<Longrightarrow> \<not> rd_panic r \<Longrightarrow> WriteHeader 301 \<notin> set cs \<Longrightarrow> WriteHeader 302 \<notin> set cs \<Longrightarrow>
   response.truncate (fold (redirect_call E) cs r) = fold base_call cs (response.truncate r) \<and>
   rd_tempBuffer (fold (redirect_call E) cs r) = None \<and> \<not> rd_panic (fold (redirect_call E) cs r)"
proof (induction cs arbitrary: r)
  case (Cons c cs)
  have "response.truncate (redirect_call E c r) = base_call c (response.truncate r) \<and>
      rd_tempBuffer (redirect_call E c r) = None \<and> \<not> rd_panic (redirect_call E c r)"
    using Cons.prems by (cases c)
      (auto simp: redirect_call_def redirect_WriteHeader_def redirect_Write_def truncate_calls)
  with Cons.IH [of "redirect_call E c r"] Cons.prems show ?case by simp
qed simp

text \<open>The redirect rewriter is transparent but for redirects. A handler that never answers with status 301 or
  302 gets, with any prefix and whatever it does, the response it would get without the rewriter.\<close>

theorem redirect_transparent:
  assumes "WriteHeader 301 \<notin> set calls" and "WriteHeader 302 \<notin> set calls"
  shows "RedirectRewrite E prefix calls w = (fold base_call calls w, False)"
proof -
  let ?r = "new_redirector prefix w"
  have "rd_tempBuffer ?r = None" "\<not> rd_panic ?r" "response.truncate ?r = w"
    by (simp_all add: new_redirector_def response.defs)
  with redirect_plain_run [OF this(1,2) assms, of E] show ?thesis
    by (simp add: RedirectRewrite_def redirect_Close_def Let_def)
qed

lemma redirect_transparent_witness:
  "RedirectRewrite \<lparr>ue_Path = Some, ue_WithPath = (\<lambda>_ p. p)\<rparr> ''/k8s''
     [SetHeader ''Location'' ''/v1'', WriteHeader 201, Write ''/v1''] fresh =
   (\<lparr>hw_header = [(''Location'', [''/v1''])], hw_sent = Some (201, [(''Location'', [''/v1''])]), hw_body = ''/v1''\<rparr>, False)"
  by (subst redirect_transparent)
    (simp_all add: fresh_def set_hdr_def base_WriteHeader_def base_Write_def header_set_def canon_key_def upper_char_def lower_char_def)

lemma redirect_writes:
  "rd_tempBuffer r = Some t \<Longrightarrow> \<not> rd_panic r \<Longrightarrow>
   fold (redirect_call E) (map Write bs) r = r\<lparr>rd_tempBuffer := Some (t @ concat bs)\<rparr>"
  by (induction bs arbitrary: r t) (auto simp: redirect_call_def redirect_Write_def)

lemma redirect_plain_writes:
  "rd_tempBuffer r = None \<Longrightarrow> \<not> rd_panic r \<Longrightarrow>
   fold (redirect_call E) (map Write bs) r = (if bs = [] then r else base_Write (concat bs) r)"
proof (induction bs arbitrary: r)
  case (Cons b bs)
  have "redirect_call E (Write b) r = base_Write b r" using Cons.prems by (simp add: redirect_call_def redirect_Write_def)
  moreover have "base_Write y (base_Write x r) = base_Write (x @ y) r" for x y
    by (simp add: base_Write_def base_WriteHeader_def Let_def)
  ultimately show ?case using Cons.IH [of "base_Write b r"] Cons.prems by auto
qed simp

lemma redirect_panicked: "rd_panic r \<Longrightarrow> fold (redirect_call E) cs r = r"
  by (induction cs) (simp_all add: redirect_call_def)

text \<open>What becomes of a redirect under a prefix. If the location cannot be parsed the handler's goroutine
  panics, the head and no body sent. A location under the prefix is kept and the status becomes 302. Any other
  location gets the prefix in front of its path, the status becomes 302, and in the body, which is sent at the end,
  every occurrence of the path gets the prefix too; but if the path is empty, as of \<^verbatim>\<open>https://host\<close>, the
  body is lost.\<close>

theorem redirect_outcomes:
  assumes "prefix \<noteq> []" and "code = 301 \<or> code = 302" and "l \<noteq> []" and "hw_sent w = None" and "hw_body w = []"
  shows "RedirectRewrite E prefix (SetHeader ''Location'' l # WriteHeader code # map Write bs) w =
    (let head = header_set ''Location'' l (hw_header w) in
     case ue_Path E l of
       None \<Rightarrow> (\<lparr>hw_header = head, hw_sent = Some (code, head), hw_body = []\<rparr>, True)
     | Some p \<Rightarrow>
         if has_prefix prefix p then (\<lparr>hw_header = head, hw_sent = Some (302, head), hw_body = concat bs\<rparr>, False)
         else
           let head' = header_set ''Location'' (ue_WithPath E l (prefix @ p)) head in
           (\<lparr>hw_header = head', hw_sent = Some (302, head'),
             hw_body = (if p = [] then [] else replace_all p (prefix @ p) (concat bs))\<rparr>, False))"
proof -
  let ?r = "set_hdr ''Location'' l (new_redirector prefix w)"
  let ?h = "redirect_WriteHeader E code ?r"
  have r: "rd_tempBuffer ?r = None" "\<not> rd_panic ?r" "rd_prefix ?r = prefix" "hw_sent ?r = None" "hw_body ?r = []"
    "hw_header ?r = header_set ''Location'' l (hw_header w)" "rd_panic (new_redirector prefix w) = False"
    using assms(4,5) by (simp_all add: new_redirector_def response.defs)
  have l: "header_get (header_set ''Location'' l (hw_header w)) ''Location'' = l" by (simp add: header_get_set)
  have run: "fold (redirect_call E) (SetHeader ''Location'' l # WriteHeader code # map Write bs) (new_redirector prefix w) =
      fold (redirect_call E) (map Write bs) ?h"
    using r by (simp add: redirect_call_def)
  show ?thesis
  proof (cases "ue_Path E l")
    case None
    then have h: "?h = (base_WriteHeader code ?r)\<lparr>rd_panic := True\<rparr>"
      using assms(2,3) r l by (auto simp: redirect_WriteHeader_def)
    then have "rd_panic ?h" by simp
    from redirect_panicked [OF this] show ?thesis
      using None run h r assms(1) by (simp add: RedirectRewrite_def Let_def response.defs base_WriteHeader_def)
  next
    case (Some p)
    show ?thesis
    proof (cases "has_prefix prefix p")
      case True
      then have h: "?h = base_WriteHeader 302 ?r"
        using assms(2,3) r l Some by (auto simp: redirect_WriteHeader_def)
      then have "fold (redirect_call E) (map Write bs) ?h = (if bs = [] then ?h else base_Write (concat bs) ?h)"
        using r by (intro redirect_plain_writes) simp_all
      then show ?thesis using Some True run h r assms(1)
        by (auto simp: RedirectRewrite_def redirect_Close_def Let_def response.defs)
    next
      case False
      then have h: "?h = base_WriteHeader 302 ((set_hdr ''Location'' (ue_WithPath E l (prefix @ p)) ?r)
          \<lparr>rd_from := p, rd_to := prefix @ p, rd_tempBuffer := Some []\<rparr>)"
        using assms(2,3) r l Some by (auto simp: redirect_WriteHeader_def)
      then have "fold (redirect_call E) (map Write bs) ?h = ?h\<lparr>rd_tempBuffer := Some ([] @ concat bs)\<rparr>"
        using r by (intro redirect_writes) simp_all
      then show ?thesis using Some False run h r assms(1)
        by (auto simp: RedirectRewrite_def redirect_Close_def Let_def response.defs)
    qed
  qed
qed

lemma redirect_outcomes_witness:
  "hw_body (fst (RedirectRewrite \<lparr>ue_Path = Some, ue_WithPath = (\<lambda>_ p. p)\<rparr> ''/k''
     (SetHeader ''Location'' ''/v'' # WriteHeader 301 # map Write [''at '', ''/v'']) fresh)) = ''at /k/v''"
proof -
  have "replace_all ''/v'' ''/k/v'' ''at /v'' = ''at /k/v''" by code_simp
  then show ?thesis by (subst redirect_outcomes) (simp_all add: fresh_def has_prefix_def Let_def)
qed

subsection \<open>middleware/gzip.go and writer/gzip.go\<close>

text \<open>
  A gzip writer sends its header with the first thing written to it, or when it is closed; the argument gives
  that header and the rest of the stream for what was written. \<open>gz_in\<close> is what the compressor was given.
\<close>

record compressor =
  gz_head :: string
  gz_rest :: "string \<Rightarrow> string"

record gzip_writer = response +
  gz_in :: "string option"

definition new_gzip_writer :: "response \<Rightarrow> gzip_writer" where
  "new_gzip_writer w = response.extend w \<lparr>gz_in = None\<rparr>"

definition gz_compress :: "compressor \<Rightarrow> string \<Rightarrow> gzip_writer \<Rightarrow> gzip_writer" where
  "gz_compress E b g =
     (case gz_in g of
        None \<Rightarrow> (base_Write (gz_head E) g)\<lparr>gz_in := Some b\<rparr>
      | Some t \<Rightarrow> g\<lparr>gz_in := Some (t @ b)\<rparr>)"

definition gz_close :: "compressor \<Rightarrow> gzip_writer \<Rightarrow> gzip_writer" where
  "gz_close E g = (let g = gz_compress E [] g in base_Write (gz_rest E (the (gz_in g))) g)"

definition gzip_headers :: "'z response_scheme \<Rightarrow> 'z response_scheme" where
  "gzip_headers w = del_hdr ''Content-Length'' (set_hdr ''Content-Encoding'' ''gzip'' w)"

definition gzip_Write :: "compressor \<Rightarrow> string \<Rightarrow> gzip_writer \<Rightarrow> gzip_writer" where
  "gzip_Write E b g = gz_compress E b (gzip_headers g)"

definition gzip_WriteHeader :: "int \<Rightarrow> gzip_writer \<Rightarrow> gzip_writer" where
  "gzip_WriteHeader code g = base_WriteHeader code (gzip_headers g)"

definition gzip_Close :: "compressor \<Rightarrow> gzip_writer \<Rightarrow> gzip_writer" where
  "gzip_Close E g = (if header_get (hw_header g) ''Content-Encoding'' = ''gzip'' then gz_close E g else g)"

fun gzip_call :: "compressor \<Rightarrow> rw_call \<Rightarrow> gzip_writer \<Rightarrow> gzip_writer" where
  "gzip_call E (SetHeader k v) g = set_hdr k v g"
| "gzip_call E (DelHeader k) g = del_hdr k g"
| "gzip_call E (WriteHeader code) g = gzip_WriteHeader code g"
| "gzip_call E (Write b) g = gzip_Write E b g"

definition Gzip :: "compressor \<Rightarrow> string \<Rightarrow> rw_call list \<Rightarrow> response \<Rightarrow> response" where
  "Gzip E accept calls w =
     (if \<not> str_contains accept ''gzip'' then fold base_call calls w
      else response.truncate (gzip_Close E (fold (gzip_call E) calls (new_gzip_writer w))))"

text \<open>The API's own writer sets the headers before anything is written and always closes the stream.\<close>

fun api_gzip_call :: "compressor \<Rightarrow> rw_call \<Rightarrow> gzip_writer \<Rightarrow> gzip_writer" where
  "api_gzip_call E (SetHeader k v) g = set_hdr k v g"
| "api_gzip_call E (DelHeader k) g = del_hdr k g"
| "api_gzip_call E (WriteHeader code) g = base_WriteHeader code g"
| "api_gzip_call E (Write b) g = gz_compress E b g"

definition GzipWriter :: "compressor \<Rightarrow> string \<Rightarrow> rw_call list \<Rightarrow> response \<Rightarrow> response" where
  "GzipWriter E accept calls w =
     (if \<not> str_contains accept ''gzip'' then fold base_call calls w
      else response.truncate (gz_close E (fold (api_gzip_call E) calls (new_gzip_writer (gzip_headers w)))))"

lemma gz_compress_parts [simp]:
  "hw_sent (gz_compress E b g) = (if gz_in g = None then (case hw_sent g of None \<Rightarrow> Some (200, hw_header g) | Some h \<Rightarrow> Some h) else hw_sent g)"
  "hw_body (gz_compress E b g) = (if gz_in g = None then hw_body g @ gz_head E else hw_body g)"
  "gz_in (gz_compress E b g) = Some ((case gz_in g of None \<Rightarrow> [] | Some t \<Rightarrow> t) @ b)"
  "hw_header (gz_compress E b g) = hw_header g"
  by (auto simp: gz_compress_def split: option.splits)

lemma gzip_headers_parts [simp]:
  "hw_sent (gzip_headers w) = hw_sent w" "hw_body (gzip_headers w) = hw_body w"
  "header_get (hw_header (gzip_headers w)) ''Content-Encoding'' = ''gzip''"
  "header_get (hw_header (gzip_headers w)) ''Content-Length'' = []"
proof -
  have "canon_key ''Content-Encoding'' \<noteq> canon_key ''Content-Length''" by code_simp
  then show "header_get (hw_header (gzip_headers w)) ''Content-Encoding'' = ''gzip''"
    "header_get (hw_header (gzip_headers w)) ''Content-Length'' = []"
    by (simp_all add: gzip_headers_def header_get_set header_get_del)
qed (simp_all add: gzip_headers_def)

lemma gz_in_parts [simp]:
  "gz_in (gzip_headers g) = gz_in g" "gz_in (set_hdr k v g) = gz_in g" "gz_in (del_hdr k g) = gz_in g"
  "gz_in (base_WriteHeader code g) = gz_in g" "gz_in (base_Write b g) = gz_in g"
  by (simp_all add: gzip_headers_def set_hdr_def del_hdr_def base_WriteHeader_def base_Write_def Let_def)

definition gz_started :: "gzip_writer \<Rightarrow> bool" where
  "gz_started g \<longleftrightarrow> (gz_in g \<noteq> None \<longrightarrow> hw_sent g \<noteq> None)"

interpretation gzips: response_writer "gzip_call E" hw_sent gz_started for E
proof
  fix c s h
  show "gz_started s \<Longrightarrow> answers c \<Longrightarrow> hw_sent (gzip_call E c s) \<noteq> None"
    by (cases c) (auto simp: gzip_Write_def gzip_WriteHeader_def gz_started_def split: option.splits)
  show "\<not> answers c \<Longrightarrow> hw_sent (gzip_call E c s) = hw_sent s" by (cases c) auto
  show "hw_sent s = Some h \<Longrightarrow> hw_sent (gzip_call E c s) = Some h"
    by (cases c) (auto simp: gzip_Write_def gzip_WriteHeader_def)
  show "gz_started s \<Longrightarrow> gz_started (gzip_call E c s)"
    by (cases c) (auto simp: gzip_Write_def gzip_WriteHeader_def gz_started_def split: option.splits)
qed

interpretation api_gzips: response_writer "api_gzip_call E" hw_sent gz_started for E
proof
  fix c s h
  show "gz_started s \<Longrightarrow> answers c \<Longrightarrow> hw_sent (api_gzip_call E c s) \<noteq> None"
    by (cases c) (auto simp: gz_started_def split: option.splits)
  show "\<not> answers c \<Longrightarrow> hw_sent (api_gzip_call E c s) = hw_sent s" by (cases c) auto
  show "hw_sent s = Some h \<Longrightarrow> hw_sent (api_gzip_call E c s) = Some h" by (cases c) auto
  show "gz_started s \<Longrightarrow> gz_started (api_gzip_call E c s)"
    by (cases c) (auto simp: gz_started_def split: option.splits)
qed

text \<open>What a handler writes, and that it leaves the content encoding to the writer.\<close>

fun written :: "rw_call \<Rightarrow> string" where
  "written (Write b) = b"
| "written _ = []"

fun keeps_encoding :: "rw_call \<Rightarrow> bool" where
  "keeps_encoding (SetHeader k _) = (canon_key k \<noteq> canon_key ''Content-Encoding'')"
| "keeps_encoding (DelHeader k) = (canon_key k \<noteq> canon_key ''Content-Encoding'')"
| "keeps_encoding _ = True"

definition gzip_inv :: "compressor \<Rightarrow> string \<Rightarrow> gzip_writer \<Rightarrow> bool" where
  "gzip_inv E t g \<longleftrightarrow>
     hw_body g = (if gz_in g = None then [] else gz_head E) \<and> (case gz_in g of None \<Rightarrow> [] | Some u \<Rightarrow> u) = t \<and>
     (case hw_sent g of
        None \<Rightarrow> gz_in g = None \<and> header_get (hw_header g) ''Content-Encoding'' \<noteq> ''gzip''
      | Some (_, h) \<Rightarrow> header_get (hw_header g) ''Content-Encoding'' = ''gzip'' \<and>
          header_get h ''Content-Encoding'' = ''gzip'' \<and> header_get h ''Content-Length'' = [])"

lemma gzip_inv_call: "gzip_inv E t g \<Longrightarrow> keeps_encoding c \<Longrightarrow> gzip_inv E (t @ written c) (gzip_call E c g)"
  by (cases c; cases "hw_sent g")
    (auto simp: gzip_inv_def gzip_Write_def gzip_WriteHeader_def header_get_set header_get_del split: option.splits)

lemma gzip_inv_run:
  "gzip_inv E t g \<Longrightarrow> list_all keeps_encoding cs \<Longrightarrow> gzip_inv E (t @ concat (map written cs)) (fold (gzip_call E) cs g)"
proof (induction cs arbitrary: t g)
  case (Cons c cs)
  then have "gzip_inv E (t @ written c) (gzip_call E c g)" by (simp add: gzip_inv_call)
  from Cons.IH [OF this] Cons.prems show ?case by simp
qed simp

text \<open>The compressing middleware. For a request that accepts gzip, a handler that leaves the content encoding
  alone gets an answer whose head, sent once, says gzip and has no content length, and whose body is one complete
  stream of all it wrote, in order; one that answers nothing gets no head and no stream. A handler that sends only
  a status, such as 204 or 304, therefore still gets the bytes of an empty stream as a body.\<close>

theorem gzip_answers_whole:
  assumes "str_contains accept ''gzip''" and "list_all keeps_encoding calls" and "hw_sent w = None" and "hw_body w = []"
    and "header_get (hw_header w) ''Content-Encoding'' \<noteq> ''gzip''"
  shows "if \<exists>c \<in> set calls. answers c
    then \<exists>code h. hw_sent (Gzip E accept calls w) = Some (code, h) \<and> header_get h ''Content-Encoding'' = ''gzip'' \<and>
      header_get h ''Content-Length'' = [] \<and>
      hw_body (Gzip E accept calls w) = gz_head E @ gz_rest E (concat (map written calls))
    else hw_sent (Gzip E accept calls w) = None \<and> hw_body (Gzip E accept calls w) = []"
proof -
  let ?g = "new_gzip_writer w"
  let ?r = "fold (gzip_call E) calls ?g"
  have start: "gzip_inv E [] ?g" "gz_started ?g" "hw_sent ?g = None"
    using assms(3-5) by (simp_all add: gzip_inv_def gz_started_def new_gzip_writer_def response.defs)
  have inv: "gzip_inv E (concat (map written calls)) ?r"
    using gzip_inv_run [OF start(1) assms(2)] by simp
  have sent: "hw_sent ?r = None \<longleftrightarrow> (\<forall>c \<in> set calls. \<not> answers c)"
    using gzips.head_iff [OF start(2), of E calls] start(3) by simp
  have result: "hw_sent (Gzip E accept calls w) = hw_sent (gzip_Close E ?r)" "hw_body (Gzip E accept calls w) = hw_body (gzip_Close E ?r)"
    using assms(1) by (simp_all add: Gzip_def response.defs)
  show ?thesis
  proof (cases "hw_sent ?r")
    case None
    with inv sent show ?thesis unfolding result by (simp add: gzip_inv_def gzip_Close_def)
  next
    case (Some ch)
    with inv sent show ?thesis unfolding result
      by (cases ch) (auto simp: gzip_inv_def gzip_Close_def gz_close_def Let_def split: option.splits)
  qed
qed

lemma gzip_answers_whole_witness:
  "hw_body (Gzip \<lparr>gz_head = ''<'', gz_rest = (\<lambda>t. t @ ''>'')\<rparr> ''gzip, br'' [WriteHeader 200, Write ''a'', Write ''b''] fresh) = ''<ab>''"
  using gzip_answers_whole [of "''gzip, br''" "[WriteHeader 200, Write ''a'', Write ''b'']" fresh "\<lparr>gz_head = ''<'', gz_rest = (\<lambda>t. t @ ''>'')\<rparr>"]
  by (auto simp: fresh_def header_get_def has_prefix_def)

subsection \<open>content.go, cache.go and middleware.go\<close>

definition is_content_type :: "string \<Rightarrow> bool" where
  "is_content_type k \<longleftrightarrow> to_lower k = ''content-type''"

definition content_type_Write :: "(string \<Rightarrow> string) \<Rightarrow> string \<Rightarrow> response \<Rightarrow> response" where
  "content_type_Write detect b w =
     base_Write b (if list_ex (\<lambda>(k, _). is_content_type k) (hw_header w) then w else set_hdr ''Content-Type'' (detect b) w)"

fun content_type_call :: "(string \<Rightarrow> string) \<Rightarrow> rw_call \<Rightarrow> response \<Rightarrow> response" where
  "content_type_call detect (Write b) w = content_type_Write detect b w"
| "content_type_call detect c w = base_call c w"

interpretation content_types: response_writer "content_type_call detect" hw_sent "\<lambda>_. True" for detect
proof
  fix c s
  show "answers c \<Longrightarrow> hw_sent (content_type_call detect c s) \<noteq> None"
    by (cases c) (auto simp: content_type_Write_def split: option.splits)
  show "\<not> answers c \<Longrightarrow> hw_sent (content_type_call detect c s) = hw_sent s" by (cases c) auto
  show "\<And>h. hw_sent s = Some h \<Longrightarrow> hw_sent (content_type_call detect c s) = Some h"
    by (cases c) (auto simp: content_type_Write_def)
qed simp

text \<open>The part of the path after its last dot, if it has one.\<close>

definition path_suffix :: "string \<Rightarrow> string option" where
  "path_suffix p = (if CHR ''.'' \<in> set p then Some (rev (takeWhile (\<lambda>c. c \<noteq> CHR ''.'') (rev p))) else None)"

definition Cache :: "string list \<Rightarrow> string \<Rightarrow> rw_call list \<Rightarrow> rw_call list" where
  "Cache suffixes p calls =
     (case path_suffix p of
        None \<Rightarrow> calls
      | Some e \<Rightarrow> map (\<lambda>_. SetHeader ''Cache-Control'' ''max-age=31536000, public'') (filter (\<lambda>s. s = e) suffixes) @ calls)"

definition NoCache :: "rw_call list \<Rightarrow> rw_call list" where
  "NoCache calls = SetHeader ''Cache-Control'' ''no-cache, no-store, must-revalidate'' # calls"

definition FrameOptions :: "rw_call list \<Rightarrow> rw_call list" where
  "FrameOptions calls = SetHeader ''X-Frame-Options'' ''SAMEORIGIN'' # calls"

definition ContentTypeOptions :: "rw_call list \<Rightarrow> rw_call list" where
  "ContentTypeOptions calls = SetHeader ''X-Content-Type-Options'' ''nosniff'' # calls"

text \<open>\<open>Chain.Handler\<close>: from the last middleware to the first, so the first is outermost.\<close>

definition Chain_Handler :: "('h \<Rightarrow> 'h) list \<Rightarrow> 'h \<Rightarrow> 'h" where
  "Chain_Handler m handler = fold (\<lambda>w rtn. w rtn) (rev m) handler"

lemma Chain_Handler_Cons: "Chain_Handler (w # ws) h = w (Chain_Handler ws h)"
  by (simp add: Chain_Handler_def)

text \<open>
  A middleware that sets headers leaves it to the handler whether a head is sent, and the handler's own value
  of the header wins.
\<close>

lemma chain_order: "Chain_Handler [NoCache, FrameOptions] calls =
    SetHeader ''Cache-Control'' ''no-cache, no-store, must-revalidate'' # SetHeader ''X-Frame-Options'' ''SAMEORIGIN'' # calls"
  by (simp add: Chain_Handler_def NoCache_def FrameOptions_def)

end
