(* ===== verification/Auth_Proxy.thy ===== *)
theory Auth_Proxy
  imports Server_Handler Middleware
begin

section \<open>Authentication and the reverse proxy: pkg/auth/filter.go, pkg/proxy/proxy.go\<close>

text \<open>
  The middleware stores a user in every request; the proxy for the raw Kubernetes API forwards a request with
  credentials that impersonate that user. The review of a token, the parsing of the target's address and
  the making of a transport are calls out of the repository, arguments here. What the transports of client-go
  send is determined by the configuration a request is forwarded with, the record \<open>proxy_config\<close>.
\<close>

subsection \<open>filter.go\<close>

type_synonym authenticator = "http_request \<Rightarrow> user option \<times> bool \<times> go_err option"

definition ExistingContext :: authenticator where
  "ExistingContext r = (rq_User r, rq_User r \<noteq> None, None)"

definition bearer_prefix :: string where "bearer_prefix = ''Bearer ''"

definition request_token :: "http_request \<Rightarrow> go_err + string" where
  "request_token r =
     (let token = header_get (rq_Header r) ''Authorization'';
          token = (if has_prefix bearer_prefix token then trim_prefix bearer_prefix token else [])
      in if token \<noteq> [] then Inr token
         else (case request_Cookie r ''A_SESS'' of
             Inl err \<Rightarrow> if err \<noteq> ErrNoCookie then Inl err else Inr []
           | Inr v \<Rightarrow> Inr (if length v > 0 then ''cookie://'' @ v else [])))"

definition webhookAuth_Authenticate :: "(string \<Rightarrow> user option \<times> bool \<times> go_err option) \<Rightarrow> authenticator" where
  "webhookAuth_Authenticate review r =
     (case request_token r of
        Inl err \<Rightarrow> (None, False, Some err)
      | Inr token \<Rightarrow> if token = [] then (None, False, None) else review token)"

definition error_user :: user where
  "error_user = \<lparr>u_Name = ''system:cattle:error'', u_UID = ''system:cattle:error'',
     u_Groups = [''system:unauthenticated'', ''system:cattle:error''], u_Extra = []\<rparr>"

definition anonymous_user :: user where
  "anonymous_user = \<lparr>u_Name = ''system:unauthenticated'', u_UID = ''system:unauthenticated'',
     u_Groups = [''system:unauthenticated''], u_Extra = []\<rparr>"

text \<open>A nil user stored in the context is not found there again: \<open>None\<close>.\<close>

definition ToMiddleware :: "authenticator \<Rightarrow> http_request \<Rightarrow> http_request" where
  "ToMiddleware auth r =
     (case auth r of
        (info, ok, err) \<Rightarrow>
          r\<lparr>rq_User := (if err \<noteq> None then Some error_user else if \<not> ok then Some anonymous_user else info)\<rparr>)"

definition Middleware_Chain :: "(('h \<Rightarrow> 'h) \<Rightarrow> ('h \<Rightarrow> 'h) \<Rightarrow> 'h \<Rightarrow> 'h)" where
  "Middleware_Chain m middleware nxt = m (middleware nxt)"

definition AlwaysAdmin :: authenticator where
  "AlwaysAdmin r = (Some \<lparr>u_Name = ''admin'', u_UID = ''admin'', u_Groups = [''system:masters'', ''system:authenticated''], u_Extra = []\<rparr>,
     True, None)"

definition extra_prefix :: string where "extra_prefix = ''Impersonate-Extra-''"

definition Impersonation :: authenticator where
  "Impersonation r =
     (let userName = header_get (rq_Header r) ''Impersonate-User'' in
      if userName = [] then (None, False, None)
      else (Some \<lparr>u_Name = userName, u_UID = [], u_Groups = mgetd [] (rq_Header r) ''Impersonate-Group'',
              u_Extra = fold (\<lambda>(k, v) m. if has_prefix extra_prefix k then mput (drop (length extra_prefix) k) v m else m) (rq_Header r) []\<rparr>,
            True, None))"

subsection \<open>proxy.go\<close>

record proxy_config =
  pc_Host :: string
  pc_Username :: string
  pc_Password :: string
  pc_BearerToken :: string
  pc_BearerTokenFile :: string
  pc_CertFile :: string
  pc_CertData :: string
  pc_KeyFile :: string
  pc_KeyData :: string
  pc_ExecProvider :: bool
  pc_AuthProvider :: bool
  pc_AuthConfigPersister :: bool
  pc_UserName :: string
  pc_Groups :: "string list"
  pc_Extra :: "(string, string list) gomap"

record proxy_env =
  pe_parse_path :: "string \<Rightarrow> go_err + string"
  pe_transport :: "proxy_config \<Rightarrow> go_err option"
  pe_TransportConfig :: "proxy_config \<Rightarrow> go_err option"
  pe_HTTPWrappers :: "proxy_config \<Rightarrow> go_err option"

text \<open>The transport for upgraded connections: what its making may fail with.\<close>

definition makeUpgradeTransport :: "proxy_env \<Rightarrow> proxy_config \<Rightarrow> go_err option" where
  "makeUpgradeTransport E cfg =
     (case pe_TransportConfig E cfg of Some err \<Rightarrow> Some err | None \<Rightarrow> pe_HTTPWrappers E cfg)"

text \<open>The answer of the proxy when the target cannot be reached.\<close>

definition errorResponder_Error :: "string \<Rightarrow> rw_call list" where
  "errorResponder_Error err = [WriteHeader 500, Write err]"

text \<open>The configuration that sends the request's own token and nothing of the server's.\<close>

definition bearer_config :: "proxy_config \<Rightarrow> string \<Rightarrow> proxy_config" where
  "bearer_config cfg token =
     cfg\<lparr>pc_Username := [], pc_Password := [], pc_BearerTokenFile := [], pc_CertFile := [], pc_CertData := [],
         pc_ExecProvider := False, pc_AuthConfigPersister := False,
         pc_UserName := [], pc_Groups := [], pc_Extra := [], pc_BearerToken := token\<rparr>"

text \<open>The loop over the groups: it returns early, or says whether the user is authenticated.\<close>

fun group_loop :: "http_request \<Rightarrow> proxy_config \<Rightarrow> string list \<Rightarrow> bool \<Rightarrow> proxy_config + bool" where
  "group_loop r cfg [] authed = Inr authed"
| "group_loop r cfg (g # gs) authed =
     (if g = ''system:unauthenticated'' \<and> has_prefix bearer_prefix (header_get (rq_Header r) ''Authorization'')
      then Inl (bearer_config cfg (trim_prefix bearer_prefix (header_get (rq_Header r) ''Authorization'')))
      else group_loop r cfg gs (if g = ''system:unauthenticated'' then False else authed))"

definition setupUserAuth :: "http_request \<Rightarrow> user \<Rightarrow> proxy_config \<Rightarrow> proxy_config \<times> bool" where
  "setupUserAuth r u cfg =
     (case group_loop r cfg (u_Groups u) True of
        Inl cfg \<Rightarrow> (cfg, True)
      | Inr authed \<Rightarrow> (cfg\<lparr>pc_UserName := u_Name u, pc_Groups := u_Groups u, pc_Extra := u_Extra u\<rparr>, authed))"

definition proxyHeaders :: "http_request \<Rightarrow> http_request" where
  "proxyHeaders r =
     (let h = header_del ''Authorization'' (rq_Header r)
      in r\<lparr>rq_Header := (if header_get h ''X-Forwarded-Proto'' = [] \<and> rq_TLS r then header_set ''X-Forwarded-Proto'' ''https'' h else h)\<rparr>)"

definition prependPath :: "string \<Rightarrow> http_request \<Rightarrow> http_request" where
  "prependPath prefix r = r\<lparr>rq_Path := (if length (rq_Path r) > 1 then prefix @ rq_Path r else prefix)\<rparr>"

definition stripLeaveSlash :: "string \<Rightarrow> http_request \<Rightarrow> http_request" where
  "stripLeaveSlash prefix r =
     (let p = trim_prefix prefix (rq_Path r);
          p = (if length p > 0 \<and> hd p \<noteq> CHR ''/'' then ''/'' @ p else p)
      in r\<lparr>rq_Path := p\<rparr>)"

definition SetHost :: "string \<Rightarrow> http_request \<Rightarrow> http_request" where
  "SetHost host r = r\<lparr>rq_Host := host\<rparr>"

text \<open>What reaches the upgrade-aware handler of the target.\<close>

definition Proxy_Handler :: "proxy_env \<Rightarrow> string \<Rightarrow> proxy_config \<Rightarrow> go_err + (http_request \<Rightarrow> http_request)" where
  "Proxy_Handler E prefix cfg =
     (let host = (if has_suffix ''/'' (pc_Host cfg) then pc_Host cfg else pc_Host cfg @ ''/'') in
      case pe_parse_path E host of
        Inl err \<Rightarrow> Inl err
      | Inr path \<Rightarrow>
          (case pe_transport E cfg of
             Some err \<Rightarrow> Inl err
           | None \<Rightarrow>
               if makeUpgradeTransport E cfg \<noteq> None then Inl (the (makeUpgradeTransport E cfg))
               else Inr (\<lambda>r.
                 let r = proxyHeaders r;
                     r = (if length prefix > 2 then stripLeaveSlash prefix r else r)
                 in if length path > 1 then prependPath (butlast path) r else r)))"

text \<open>A handler for the cluster of a kubeconfig file, whose reading is the first argument.\<close>

definition HandlerFromConfig :: "(string \<Rightarrow> string \<Rightarrow> go_err + proxy_config) \<Rightarrow> proxy_env \<Rightarrow> string \<Rightarrow> string \<Rightarrow> go_err + (http_request \<Rightarrow> http_request)" where
  "HandlerFromConfig FromFile E prefix kubeConfig =
     (case FromFile kubeConfig [] of Inl err \<Rightarrow> Inl err | Inr cfg \<Rightarrow> Proxy_Handler E prefix cfg)"

datatype proxied = Refused int | Forwarded proxy_config http_request

definition impersonate_header :: "string \<Rightarrow> bool" where
  "impersonate_header k \<longleftrightarrow> has_prefix ''Impersonate-'' k"

definition ImpersonatingHandler :: "proxy_env \<Rightarrow> string \<Rightarrow> proxy_config \<Rightarrow> http_request \<Rightarrow> proxied" where
  "ImpersonatingHandler E prefix cfg r =
     (case rq_User r of
        None \<Rightarrow> Refused 401
      | Some u \<Rightarrow>
          (case setupUserAuth r u cfg of
             (cfg, authed) \<Rightarrow>
               if \<not> authed \<and> has_prefix ''/api'' (rq_Path r) then Refused 401
               else (case Proxy_Handler E prefix cfg of
                   Inl err \<Rightarrow> Refused 500
                 | Inr handler \<Rightarrow>
                     Forwarded cfg (handler (r\<lparr>rq_Header := filter (\<lambda>(k, _). \<not> impersonate_header k) (rq_Header r)\<rparr>)))))"

section \<open>Whose request is forwarded\<close>

definition own_token :: "http_request \<Rightarrow> string \<Rightarrow> bool" where
  "own_token r t \<longleftrightarrow> header_get (rq_Header r) ''Authorization'' = bearer_prefix @ t"

lemma bearer_token: "has_prefix bearer_prefix (header_get (rq_Header r) ''Authorization'') \<longleftrightarrow> (\<exists>t. own_token r t)"
  by (auto simp: has_prefix_iff own_token_def)

lemma group_loop_Inl: "group_loop r cfg gs b = Inl cfg' \<Longrightarrow> ''system:unauthenticated'' \<in> set gs \<and> (\<exists>t. own_token r t \<and> cfg' = bearer_config cfg t)"
proof (induction gs arbitrary: b)
  case (Cons g gs)
  then show ?case by (auto simp: bearer_token own_token_def split: if_splits)
qed simp

lemma group_loop_Inr: "group_loop r cfg gs b = Inr a \<Longrightarrow> a = (b \<and> ''system:unauthenticated'' \<notin> set gs) \<and>
    (''system:unauthenticated'' \<in> set gs \<longrightarrow> \<not> (\<exists>t. own_token r t))"
  by (induction gs arbitrary: b) (auto simp: bearer_token split: if_splits)

lemma mput_keys_sub: "(k, v) \<in> set (mput k0 v0 m) \<Longrightarrow> k = k0 \<or> (k, v) \<in> set m"
  by (induction m) (auto split: if_splits)

lemma proxyHeaders_keys:
  "(k, v) \<in> set (rq_Header (proxyHeaders r)) \<Longrightarrow> (k, v) \<in> set (rq_Header r) \<or> k = canon_key ''X-Forwarded-Proto''"
  by (auto simp: proxyHeaders_def Let_def header_del_def header_set_def AList.delete_eq split: if_splits dest!: mput_keys_sub)

lemma proxyHeaders_auth: "header_get (rq_Header (proxyHeaders r)) ''Authorization'' = []"
proof -
  have "canon_key ''Authorization'' \<noteq> canon_key ''X-Forwarded-Proto''" by code_simp
  then show ?thesis by (simp add: proxyHeaders_def Let_def header_get_set header_get_del)
qed

lemma path_frame [simp]: "rq_Header (prependPath p r) = rq_Header r" "rq_Header (stripLeaveSlash p r) = rq_Header r"
  by (simp_all add: prependPath_def stripLeaveSlash_def Let_def)

lemma handler_headers:
  assumes "Proxy_Handler E prefix cfg = Inr handler"
  shows "rq_Header (handler r) = rq_Header (proxyHeaders r)"
  using assms by (auto simp: Proxy_Handler_def Let_def split: sum.splits option.splits if_splits)

text \<open>The user the middleware stores.\<close>

definition middleware_user :: "authenticator \<Rightarrow> http_request \<Rightarrow> user option" where
  "middleware_user auth r = rq_User (ToMiddleware auth r)"

text \<open>
  C30. Through the middleware and the proxy a request is forwarded for its user and nobody else. No
  \<^verbatim>\<open>Impersonate-\<close> header and no authorization header of the request reaches Kubernetes. The request goes out with
  the server's configuration, in which exactly the name, groups and extra of the user whom the middleware stored
  are impersonated; or, only for a user in the group of the unauthenticated who brought a bearer token in the
  authorization header, with that very token as the bearer token, with user name, password, token file, client
  certificate and its data, exec plugin, persister and all impersonation empty, and with the host, the client key and the
  auth provider of the server's configuration. An unauthenticated user whose header has no bearer token never gets
  through to a path under \<^verbatim>\<open>/api\<close>; where authentication failed or gave no user, the user stored is an
  unauthenticated one.
\<close>

theorem proxied_as_user:
  assumes "ImpersonatingHandler E prefix cfg (ToMiddleware auth r) = Forwarded cfg' r'"
  shows "\<exists>u. middleware_user auth r = Some u \<and>
    (\<forall>k v. (k, v) \<in> set (rq_Header r') \<longrightarrow> \<not> impersonate_header k) \<and>
    header_get (rq_Header r') ''Authorization'' = [] \<and>
    (cfg' = cfg\<lparr>pc_UserName := u_Name u, pc_Groups := u_Groups u, pc_Extra := u_Extra u\<rparr> \<and>
       \<not> (''system:unauthenticated'' \<in> set (u_Groups u) \<and> has_prefix ''/api'' (rq_Path r)) \<or>
     ''system:unauthenticated'' \<in> set (u_Groups u) \<and>
       header_get (rq_Header r) ''Authorization'' = ''Bearer '' @ pc_BearerToken cfg' \<and>
       pc_Username cfg' = [] \<and> pc_Password cfg' = [] \<and> pc_BearerTokenFile cfg' = [] \<and>
       pc_CertFile cfg' = [] \<and> pc_CertData cfg' = [] \<and> \<not> pc_ExecProvider cfg' \<and> \<not> pc_AuthConfigPersister cfg' \<and>
       pc_UserName cfg' = [] \<and> pc_Groups cfg' = [] \<and> pc_Extra cfg' = [] \<and>
       pc_Host cfg' = pc_Host cfg \<and> pc_KeyFile cfg' = pc_KeyFile cfg \<and> pc_KeyData cfg' = pc_KeyData cfg \<and>
       pc_AuthProvider cfg' = pc_AuthProvider cfg) \<and>
    (\<forall>info ok err. auth r = (info, ok, err) \<and> (err \<noteq> None \<or> \<not> ok) \<longrightarrow> ''system:unauthenticated'' \<in> set (u_Groups u))"
proof -
  let ?r = "ToMiddleware auth r"
  have same: "rq_Header ?r = rq_Header r" "rq_Path ?r = rq_Path r"
    by (simp_all add: ToMiddleware_def split: prod.splits)
  then have own: "own_token ?r t = own_token r t" for t by (simp add: own_token_def)
  obtain u where u: "rq_User ?r = Some u" using assms by (auto simp: ImpersonatingHandler_def split: option.splits)
  obtain a where s: "setupUserAuth ?r u cfg = (cfg', a)" and notapi: "\<not> (\<not> a \<and> has_prefix ''/api'' (rq_Path r))"
    and h: "\<exists>handler. Proxy_Handler E prefix cfg' = Inr handler \<and>
      r' = handler (?r\<lparr>rq_Header := filter (\<lambda>(k, _). \<not> impersonate_header k) (rq_Header ?r)\<rparr>)"
    using assms u same(2) by (auto simp: ImpersonatingHandler_def split: prod.splits if_splits sum.splits)
  then obtain handler where "Proxy_Handler E prefix cfg' = Inr handler"
    and r': "r' = handler (?r\<lparr>rq_Header := filter (\<lambda>(k, _). \<not> impersonate_header k) (rq_Header ?r)\<rparr>)" by blast
  then have hd: "rq_Header r' = rq_Header (proxyHeaders (?r\<lparr>rq_Header := filter (\<lambda>(k, _). \<not> impersonate_header k) (rq_Header ?r)\<rparr>))"
    using handler_headers by blast
  have "\<not> impersonate_header (canon_key ''X-Forwarded-Proto'')" by code_simp
  then have 1: "\<forall>k v. (k, v) \<in> set (rq_Header r') \<longrightarrow> \<not> impersonate_header k"
    unfolding hd by (auto dest!: proxyHeaders_keys)
  have 2: "header_get (rq_Header r') ''Authorization'' = []" unfolding hd by (rule proxyHeaders_auth)
  have 3: "(''system:unauthenticated'' \<in> set (u_Groups u) \<and> (\<exists>t. own_token r t \<and> cfg' = bearer_config cfg t)) \<or>
      (cfg' = cfg\<lparr>pc_UserName := u_Name u, pc_Groups := u_Groups u, pc_Extra := u_Extra u\<rparr> \<and>
       a = (''system:unauthenticated'' \<notin> set (u_Groups u)))"
  proof (cases "group_loop ?r cfg (u_Groups u) True")
    case (Inl c)
    with s group_loop_Inl [OF Inl] own show ?thesis by (auto simp: setupUserAuth_def)
  next
    case (Inr b)
    with s group_loop_Inr [OF Inr] show ?thesis by (auto simp: setupUserAuth_def)
  qed
  have 4: "\<forall>info ok err. auth r = (info, ok, err) \<and> (err \<noteq> None \<or> \<not> ok) \<longrightarrow> ''system:unauthenticated'' \<in> set (u_Groups u)"
    using u by (auto simp: ToMiddleware_def error_user_def anonymous_user_def split: if_splits)
  have 5: "header_get (rq_Header r) ''Authorization'' = ''Bearer '' @ pc_BearerToken cfg'" if "own_token r t" "cfg' = bearer_config cfg t" for t
    using that by (simp add: own_token_def bearer_prefix_def bearer_config_def)
  have 6: "cfg' = cfg\<lparr>pc_UserName := u_Name u, pc_Groups := u_Groups u, pc_Extra := u_Extra u\<rparr> \<and>
       \<not> (''system:unauthenticated'' \<in> set (u_Groups u) \<and> has_prefix ''/api'' (rq_Path r)) \<or>
     ''system:unauthenticated'' \<in> set (u_Groups u) \<and>
       header_get (rq_Header r) ''Authorization'' = ''Bearer '' @ pc_BearerToken cfg' \<and> (\<exists>t. cfg' = bearer_config cfg t)"
    using 3 5 notapi by blast
  show ?thesis
    by (rule exI [of _ u]) (use u 1 2 4 6 in \<open>auto simp: middleware_user_def bearer_config_def\<close>)
qed

definition ex_proxy_config :: proxy_config where
  "ex_proxy_config = \<lparr>pc_Host = ''https://k8s'', pc_Username = [], pc_Password = [], pc_BearerToken = ''admin'', pc_BearerTokenFile = [],
     pc_CertFile = [], pc_CertData = [], pc_KeyFile = [], pc_KeyData = [], pc_ExecProvider = False, pc_AuthProvider = False,
     pc_AuthConfigPersister = False, pc_UserName = [], pc_Groups = [], pc_Extra = []\<rparr>"

definition ex_proxy_env :: proxy_env where
  "ex_proxy_env = \<lparr>pe_parse_path = (\<lambda>h. Inr ''/''), pe_transport = (\<lambda>c. None),
     pe_TransportConfig = (\<lambda>c. None), pe_HTTPWrappers = (\<lambda>c. None)\<rparr>"

text \<open>An unauthenticated user with a token of the user's own, and a server with a password, a certificate and a token.\<close>

definition ex_token_request :: http_request where
  "ex_token_request = new_request\<lparr>rq_Path := ''/api/v1/pods'', rq_Header := [(''Authorization'', [''Bearer t0'']), (''Impersonate-User'', [''root''])]\<rparr>"

definition ex_secret_config :: proxy_config where
  "ex_secret_config = ex_proxy_config\<lparr>pc_Password := ''secret'', pc_CertFile := ''c'', pc_ExecProvider := True, pc_UserName := ''root''\<rparr>"

lemma proxied_as_user_witness:
  "(\<exists>cfg' r'. ImpersonatingHandler ex_proxy_env ''/'' ex_proxy_config (ToMiddleware AlwaysAdmin new_request) = Forwarded cfg' r' \<and>
     pc_UserName cfg' = ''admin'') \<and>
   (\<exists>cfg' r'. ImpersonatingHandler ex_proxy_env ''/'' ex_secret_config (ToMiddleware ExistingContext ex_token_request) = Forwarded cfg' r' \<and>
     pc_BearerToken cfg' = ''t0'' \<and> pc_Password cfg' = [] \<and> pc_CertFile cfg' = [] \<and> \<not> pc_ExecProvider cfg' \<and> pc_UserName cfg' = [])"
proof
  obtain cfg' r' where f: "ImpersonatingHandler ex_proxy_env ''/'' ex_proxy_config (ToMiddleware AlwaysAdmin new_request) = Forwarded cfg' r'"
    by (simp add: ImpersonatingHandler_def ToMiddleware_def AlwaysAdmin_def setupUserAuth_def Proxy_Handler_def makeUpgradeTransport_def ex_proxy_env_def Let_def)
  have "middleware_user AlwaysAdmin new_request = fst (AlwaysAdmin new_request)"
    by (simp add: middleware_user_def ToMiddleware_def AlwaysAdmin_def)
  with f proxied_as_user [OF f] show "\<exists>cfg' r'. ImpersonatingHandler ex_proxy_env ''/'' ex_proxy_config (ToMiddleware AlwaysAdmin new_request) = Forwarded cfg' r' \<and>
     pc_UserName cfg' = ''admin''" by (auto simp: AlwaysAdmin_def)
next
  have own: "header_get (rq_Header ex_token_request) ''Authorization'' = ''Bearer t0''" by code_simp
  have user: "middleware_user ExistingContext ex_token_request = Some anonymous_user" "rq_Path ex_token_request = ''/api/v1/pods''"
    by (simp_all add: middleware_user_def ToMiddleware_def ExistingContext_def ex_token_request_def new_request_def)
  have "\<exists>cfg' r'. ImpersonatingHandler ex_proxy_env ''/'' ex_secret_config (ToMiddleware ExistingContext ex_token_request) = Forwarded cfg' r'"
    by (cases "ImpersonatingHandler ex_proxy_env ''/'' ex_secret_config (ToMiddleware ExistingContext ex_token_request)") (rule FalseE, code_simp?, simp_all)
  then obtain cfg' r' where f: "ImpersonatingHandler ex_proxy_env ''/'' ex_secret_config (ToMiddleware ExistingContext ex_token_request) = Forwarded cfg' r'" by blast
  from proxied_as_user [OF f] own user show "\<exists>cfg' r'. ImpersonatingHandler ex_proxy_env ''/'' ex_secret_config (ToMiddleware ExistingContext ex_token_request) = Forwarded cfg' r' \<and>
     pc_BearerToken cfg' = ''t0'' \<and> pc_Password cfg' = [] \<and> pc_CertFile cfg' = [] \<and> \<not> pc_ExecProvider cfg' \<and> pc_UserName cfg' = []"
    using f by (auto simp: anonymous_user_def has_prefix_iff)
qed

text \<open>A webhook is asked only with a token, and the header's token goes before the cookie's.\<close>

lemma webhook_needs_token:
  "webhookAuth_Authenticate review r =
     (if \<exists>t. own_token r t \<and> t \<noteq> [] then review (trim_prefix bearer_prefix (header_get (rq_Header r) ''Authorization''))
      else (case mget (rq_Cookies r) ''A_SESS'' of
          Some (c # v) \<Rightarrow> review (''cookie://'' @ c # v)
        | _ \<Rightarrow> (None, False, None)))"
  by (auto simp: webhookAuth_Authenticate_def request_token_def request_Cookie_def Let_def own_token_def trim_prefix_def
      has_prefix_iff bearer_prefix_def split: option.splits list.splits)

end
