(* ===== verification/Schema_Controller.thy ===== *)
theory Schema_Controller
  imports Schema_Factory Proxy_Store
begin

section \<open>Discovering the schemas: pkg/schema/converter and pkg/controllers/schema\<close>

text \<open>
  The controller turns what a cluster publishes, its OpenAPI models and the discovery of its groups, into
  schemas keyed by version, cuts them down to the preferred and permitted ones under ids without version and
  resets the schema collection with them. What the cluster answers is the record \<open>cluster_api\<close>; a schema
  of an OpenAPI document is a \<open>proto\<close>. Pointers to schemas are values here: a schema that the source
  changes in place is put back under its key.
\<close>

subsection \<open>k8stonorman.go\<close>

definition GVKToVersionedSchemaID :: "gvk \<Rightarrow> string" where
  "GVKToVersionedSchemaID g =
     (if gvk_Group g = [] then to_lower (sprintf ''core.%s.%s'' [gvk_Version g, gvk_Kind g])
      else to_lower (sprintf ''%s.%s.%s'' [gvk_Group g, gvk_Version g, gvk_Kind g]))"

definition gvrToPluralName :: "gvr \<Rightarrow> string" where
  "gvrToPluralName g =
     (if gvr_Group g = [] then sprintf ''core.%s.%s'' [gvr_Version g, gvr_Resource g]
      else sprintf ''%s.%s.%s'' [gvr_Group g, gvr_Version g, gvr_Resource g])"

definition GVKToSchemaID :: "gvk \<Rightarrow> string" where
  "GVKToSchemaID g = (if gvk_Group g = [] then to_lower (gvk_Kind g) else to_lower (sprintf ''%s.%s'' [gvk_Group g, gvk_Kind g]))"

definition GVRToPluralName :: "gvr \<Rightarrow> string" where
  "GVRToPluralName g = (if gvr_Group g = [] then gvr_Resource g else sprintf ''%s.%s'' [gvr_Group g, gvr_Resource g])"

subsection \<open>openapi.go\<close>

text \<open>A reference holds the type of a primitive it refers to, if it does, and its path.\<close>

datatype proto = PArray proto | PPrimitive string | PMap proto | PKind string | PReference "string option" string | PArbitrary | POther

record proto_kind =
  pk_Fields :: "(string, proto) gomap"
  pk_RequiredFields :: "string list"
  pk_GVKs :: "gvk list"

fun field_type :: "proto \<Rightarrow> string" where
  "field_type (PArray s) = ''array['' @ field_type s @ '']''"
| "field_type (PPrimitive t) = (if t = ''number'' \<or> t = ''integer'' then ''int'' else t)"
| "field_type (PMap s) = ''map['' @ field_type s @ '']''"
| "field_type (PKind path) = path"
| "field_type (PReference prim path) = (case prim of Some t \<Rightarrow> t | None \<Rightarrow> path)"
| "field_type PArbitrary = ''json''"
| "field_type POther = ''json''"

definition toField :: "proto \<Rightarrow> field" where
  "toField p = \<lparr>f_Type = field_type p, f_Required = False, f_Create = True, f_Update = True\<rparr>"

definition require_field :: "string \<Rightarrow> (string, field) gomap \<Rightarrow> (string, field) gomap" where
  "require_field n m = (case mget m n of None \<Rightarrow> m | Some f \<Rightarrow> mput n (f\<lparr>f_Required := True\<rparr>) m)"

definition escape_field :: "string \<times> field \<Rightarrow> (string, field) gomap \<Rightarrow> (string, field) gomap" where
  "escape_field p m = (case p of (k, v) \<Rightarrow> if k \<in> set ReservedFields then mdel k (mput (''_'' @ k) v m) else m)"

text \<open>
  \<open>pk_GVKs\<close> are the entries of the extension \<^verbatim>\<open>x-kubernetes-group-version-kind\<close> that are maps. The second
  loop ranges over the map it changes; an escaped name is not reserved, so it makes no difference whether Go's
  loop comes to it.
\<close>

definition modelToSchema :: "string \<Rightarrow> proto_kind \<Rightarrow> api_schema" where
  "modelToSchema modelName k =
     (let fields = fold (\<lambda>(n, p). mput n (toField p)) (pk_Fields k) [];
          fields = fold require_field (pk_RequiredFields k) fields;
          s = mk_api_schema (empty_schema\<lparr>ID := modelName, ResourceFields := fields\<rparr>);
          s = fold (\<lambda>g s. SetGVK g (s\<lparr>ID := GVKToVersionedSchemaID g\<rparr>)) (pk_GVKs k) s
      in s\<lparr>ResourceFields := fold escape_field (ResourceFields s) (ResourceFields s)\<rparr>)"

text \<open>Only models that are kinds become schemas; the others are \<open>None\<close> here.\<close>

definition AddOpenAPI :: "go_err + (string \<times> proto_kind option) list \<Rightarrow> (string, api_schema) gomap \<Rightarrow> go_err + (string, api_schema) gomap" where
  "AddOpenAPI models schemas =
     (case models of
        Inl err \<Rightarrow> Inl err
      | Inr ms \<Rightarrow>
          Inr (fold (\<lambda>(name, k) m. case k of None \<Rightarrow> m | Some k \<Rightarrow> (let s = modelToSchema name k in mput (ID s) s m)) ms schemas))"

subsection \<open>discovery.go\<close>

record group_info =
  gi_Name :: string
  gi_Preferred :: string
  gi_Versions :: "string list"

record resource_list =
  rl_GroupVersion :: string
  rl_Resources :: "api_resource list"

definition preferredGroups :: "(string, string) gomap" where
  "preferredGroups = [(''extensions'', ''apps'')]"

definition preferredVersionOverride :: "(string, string) gomap" where
  "preferredVersionOverride = [(''autoscaling/v1'', ''v2beta2'')]"

definition index_version :: "group_info \<Rightarrow> (string, string) gomap \<Rightarrow> (string, string) gomap" where
  "index_version g result =
     (let result = mput (gi_Name g) (gi_Preferred g) result in
      case mget preferredVersionOverride (gi_Name g @ ''/'' @ gi_Preferred g) of
        None \<Rightarrow> result
      | Some override \<Rightarrow> fold (\<lambda>v r. if v = override then mput (gi_Name g) override r else r) (gi_Versions g) result)"

definition indexVersions :: "group_info list \<Rightarrow> (string, string) gomap" where
  "indexVersions groups = fold index_version groups []"

definition refresh_one :: "string \<times> string \<Rightarrow> (string, string) gomap \<Rightarrow> api_resource \<Rightarrow> (string, api_schema) gomap \<Rightarrow> (string, api_schema) gomap" where
  "refresh_one gv preferred r m =
     (case gv of (g, v) \<Rightarrow>
        if str_contains (ar_Name r) ''/'' then m
        else
          let gvk = \<lparr>gvk_Group = g, gvk_Version = v, gvk_Kind = ar_Kind r\<rparr>;
              gvr = \<lparr>gvr_Group = g, gvr_Version = v, gvr_Resource = ar_Name r\<rparr>;
              s = (case mget m (GVKToVersionedSchemaID gvk) of
                     Some s \<Rightarrow> s
                   | None \<Rightarrow> SetGVK gvk (mk_api_schema (empty_schema\<lparr>ID := GVKToVersionedSchemaID gvk\<rparr>)));
              s = SetAPIResource r (s\<lparr>PluralName := gvrToPluralName gvr\<rparr>);
              pv = mgetd [] preferred g;
              s = (if pv \<noteq> [] \<and> pv \<noteq> v then SetPreferredVersion pv s else s);
              pg = mgetd [] preferredGroups g;
              s = (if pg \<noteq> [] then SetPreferredGroup pg s else s)
          in mput (ID s) s m)"

definition refresh :: "string \<times> string \<Rightarrow> (string, string) gomap \<Rightarrow> resource_list \<Rightarrow> (string, api_schema) gomap \<Rightarrow> (string, api_schema) gomap" where
  "refresh gv preferred rl m = fold (refresh_one gv preferred) (rl_Resources rl) m"

text \<open>
  The answer of \<open>ServerGroupsAndResources\<close>: a failed discovery of some groups is no error. A list of errors
  stands for the error they are joined to, the empty list for nil.
\<close>

record discovered =
  di_Groups :: "group_info list"
  di_Resources :: "resource_list list"
  di_Error :: "go_err option"
  di_ErrorIsPartial :: bool

record cluster_api =
  ca_OpenAPI :: "go_err + (string \<times> proto_kind option) list"
  ca_Discovery :: discovered
  ca_ParseGroupVersion :: "string \<Rightarrow> (string \<times> string) \<times> go_err option"
  ca_Review :: "gvr \<Rightarrow> go_err + bool \<times> bool"
  ca_Table :: "gvr \<Rightarrow> go_err + string list option"
  ca_Acquire :: "go_err option"

fun discovery_loop :: "(string \<Rightarrow> (string \<times> string) \<times> go_err option) \<Rightarrow> (string, string) gomap \<Rightarrow> resource_list list \<Rightarrow>
    (string, api_schema) gomap \<Rightarrow> go_err list \<times> (string, api_schema) gomap" where
  "discovery_loop parse preferred [] m = ([], m)"
| "discovery_loop parse preferred (rl # rls) m =
     (case parse (rl_GroupVersion rl) of
        (gv, err) \<Rightarrow>
          (case discovery_loop parse preferred rls (refresh gv preferred rl m) of
             (errs, m) \<Rightarrow> (case err of None \<Rightarrow> (errs, m) | Some e \<Rightarrow> (e # errs, m))))"

definition AddDiscovery :: "cluster_api \<Rightarrow> (string, api_schema) gomap \<Rightarrow> go_err list \<times> (string, api_schema) gomap" where
  "AddDiscovery A m =
     (let d = ca_Discovery A in
      case di_Error d of
        Some err \<Rightarrow>
          if di_ErrorIsPartial d then discovery_loop (ca_ParseGroupVersion A) (indexVersions (di_Groups d)) (di_Resources d) m
          else ([err], m)
      | None \<Rightarrow> discovery_loop (ca_ParseGroupVersion A) (indexVersions (di_Groups d)) (di_Resources d) m)"

definition ToSchemas :: "cluster_api \<Rightarrow> go_err list + (string, api_schema) gomap" where
  "ToSchemas A =
     (case AddOpenAPI (ca_OpenAPI A) [] of
        Inl err \<Rightarrow> Inl [err]
      | Inr m \<Rightarrow> (case AddDiscovery A m of ([], m) \<Rightarrow> Inr m | (errs, _) \<Rightarrow> Inl errs))"

subsection \<open>dynamiccolumns.go\<close>

definition column_field :: "nat \<Rightarrow> string" where
  "column_field i = ''$.metadata.fields['' @ nat_string i @ '']''"

definition DynamicColumns_SetColumns :: "(gvr \<Rightarrow> go_err + string list option) \<Rightarrow> convert \<Rightarrow> api_schema \<Rightarrow> api_schema" where
  "DynamicColumns_SetColumns table C s =
     (if Columns s \<noteq> ANil then s
      else let gvr = GVR C s in
        if gvr_Resource gvr = [] then s
        else (case table gvr of
            Inl _ \<Rightarrow> SetTable False s
          | Inr None \<Rightarrow> s
          | Inr (Some cols) \<Rightarrow>
              if length cols > 0 then SetColumns (zip cols (map column_field [0..<length cols])) s else s))"

subsection \<open>schemas.go\<close>

definition typeNameChanges :: "(string, string) gomap" where
  "typeNameChanges = [(''extensions.v1beta1.ingress'', ''networking.k8s.io.v1beta1.ingress'')]"

fun isListOrGetable_loop :: "string list \<Rightarrow> bool" where
  "isListOrGetable_loop [] = False"
| "isListOrGetable_loop (v # vs) = (if v = ''list'' then True else if v = ''get'' then True else isListOrGetable_loop vs)"

definition isListOrGetable :: "convert \<Rightarrow> api_schema \<Rightarrow> bool" where
  "isListOrGetable C s = isListOrGetable_loop (Verbs C s)"

definition isListWatchable :: "convert \<Rightarrow> api_schema \<Rightarrow> bool" where
  "isListWatchable C s =
     (case fold (\<lambda>v (l, w). if v = ''list'' then (True, w) else if v = ''watch'' then (l, True) else (l, w)) (Verbs C s) (False, False) of
        (canList, canWatch) \<Rightarrow> canList \<and> canWatch)"

definition preferredTypeExists :: "convert \<Rightarrow> api_schema \<Rightarrow> (string, api_schema) gomap \<Rightarrow> bool" where
  "preferredTypeExists C s schemas =
     ((case mget typeNameChanges (ID s) of None \<Rightarrow> False | Some replacement \<Rightarrow> mhas schemas replacement) \<or>
      (let pg = PreferredGroup C s; pv = PreferredVersion C s in
       if pg = [] \<and> pv = [] then False
       else
         let gvk = GVK C s;
             gvk = (if pg \<noteq> [] then gvk\<lparr>gvk_Group := pg\<rparr> else gvk);
             gvk = (if pv \<noteq> [] then gvk\<lparr>gvk_Version := pv\<rparr> else gvk)
         in mhas schemas (GVKToVersionedSchemaID gvk)))"

definition allowed :: "cluster_api \<Rightarrow> convert \<Rightarrow> api_schema \<Rightarrow> go_err + bool" where
  "allowed A C s = (case ca_Review A (GVR C s) of Inl err \<Rightarrow> Inl err | Inr (a, d) \<Rightarrow> Inr (a \<and> \<not> d))"

definition rename_schema :: "convert \<Rightarrow> api_schema \<Rightarrow> api_schema" where
  "rename_schema C s =
     (if gvk_Kind (GVK C s) \<noteq> [] then s\<lparr>ID := GVKToSchemaID (GVK C s), PluralName := GVRToPluralName (GVR C s)\<rparr> else s)"

fun filter_schemas :: "cluster_api \<Rightarrow> convert \<Rightarrow> (string, api_schema) gomap \<Rightarrow> (string, api_schema) gomap \<Rightarrow>
    (string, api_schema) gomap \<Rightarrow> go_err + (string, api_schema) gomap" where
  "filter_schemas A C schemas [] result = Inr result"
| "filter_schemas A C schemas ((_, s) # rest) result =
     (let keep = (let t = rename_schema C s in filter_schemas A C schemas rest (mput (ID t) t result)) in
      if isListWatchable C s then
        (if preferredTypeExists C s schemas then filter_schemas A C schemas rest result
         else (case allowed A C s of
             Inl err \<Rightarrow> Inl err
           | Inr ok \<Rightarrow> if ok then keep else filter_schemas A C schemas rest result))
      else keep)"

definition getColumns :: "cluster_api \<Rightarrow> convert \<Rightarrow> (string, api_schema) gomap \<Rightarrow> go_err + (string, api_schema) gomap" where
  "getColumns A C schemas =
     (if list_ex (\<lambda>(_, s). isListOrGetable C s) schemas \<and> ca_Acquire A \<noteq> None
      then Inl (the (ca_Acquire A))
      else Inr (map (\<lambda>(k, s). (k, if isListOrGetable C s then DynamicColumns_SetColumns (ca_Table A) C s else s)) schemas))"

definition refreshed :: "cluster_api \<Rightarrow> convert \<Rightarrow> go_err list + (string, api_schema) gomap" where
  "refreshed A C =
     (case ToSchemas A of
        Inl errs \<Rightarrow> Inl errs
      | Inr schemas \<Rightarrow>
          (case filter_schemas A C schemas schemas [] of
             Inl err \<Rightarrow> Inl [err]
           | Inr filtered \<Rightarrow> (case getColumns A C filtered of Inl err \<Rightarrow> Inl [err] | Inr filtered \<Rightarrow> Inr filtered)))"

record 'c controller =
  sc_toSync :: bool
  sc_schemas :: "'c collection"

definition needToSync :: "('c, 'z) controller_scheme \<Rightarrow> bool \<times> ('c, 'z) controller_scheme" where
  "needToSync h = (sc_toSync h, h\<lparr>sc_toSync := False\<rparr>)"

definition refreshAll :: "('c, 'v) lru \<Rightarrow> template_env \<Rightarrow> cluster_api \<Rightarrow> convert \<Rightarrow> 'c controller \<Rightarrow> go_err list \<times> func list \<times> 'c controller" where
  "refreshAll L E A C h =
     (case needToSync h of
        (False, h) \<Rightarrow> ([], [], h)
      | (True, h) \<Rightarrow>
          (case refreshed A C of
             Inl errs \<Rightarrow> (errs, [], h)
           | Inr filtered \<Rightarrow> (case Reset L E C filtered (sc_schemas h) of (notified, c) \<Rightarrow> ([], notified, h\<lparr>sc_schemas := c\<rparr>))))"

subsection \<open>The goroutines of queueRefresh\<close>

text \<open>
  Every change of an API service sets \<open>toSync\<close> and starts a goroutine, which sleeps, calls \<open>refreshAll\<close> and
  sets \<open>toSync\<close> again when that failed. \<open>refreshAll\<close> holds the handler's lock; setting \<open>toSync\<close> does not, so
  a change can come in while a refresh runs. The steps: a change, the entry of a sleeping goroutine into
  \<open>refreshAll\<close> up to \<open>needToSync\<close>, the end of a running refresh with what the cluster answered, and the
  store after a failure, outside the lock.
\<close>

record 'c refresher = "'c controller" +
  rf_sleeping :: nat
  rf_running :: bool
  rf_failed :: nat

text \<open>What \<open>Register\<close> makes: nothing to refresh until a first change.\<close>

definition schema_Register :: "'c collection \<Rightarrow> 'c refresher" where
  "schema_Register c = \<lparr>sc_toSync = False, sc_schemas = c, rf_sleeping = 0, rf_running = False, rf_failed = 0\<rparr>"

datatype refresh_event = Changed | Entered | Finished cluster_api | Stored

inductive refresh_step :: "('c, 'v) lru \<Rightarrow> template_env \<Rightarrow> convert \<Rightarrow> 'c refresher \<Rightarrow> refresh_event \<Rightarrow> 'c refresher \<Rightarrow> bool"
  for L E C where
  change: "refresh_step L E C h Changed (h\<lparr>sc_toSync := True, rf_sleeping := rf_sleeping h + 1\<rparr>)"
| enter: "rf_sleeping h > 0 \<Longrightarrow> \<not> rf_running h \<Longrightarrow> needToSync h = (sync, h') \<Longrightarrow>
    refresh_step L E C h Entered (h'\<lparr>rf_sleeping := rf_sleeping h - 1, rf_running := sync\<rparr>)"
| finish: "rf_running h \<Longrightarrow> refreshed A C = Inr filtered \<Longrightarrow>
    refresh_step L E C h (Finished A) (h\<lparr>rf_running := False, sc_schemas := snd (Reset L E C filtered (sc_schemas h))\<rparr>)"
| finish_error: "rf_running h \<Longrightarrow> refreshed A C = Inl errs \<Longrightarrow>
    refresh_step L E C h (Finished A) (h\<lparr>rf_running := False, rf_failed := rf_failed h + 1\<rparr>)"
| store: "rf_failed h > 0 \<Longrightarrow> refresh_step L E C h Stored (h\<lparr>sc_toSync := True, rf_failed := rf_failed h - 1\<rparr>)"

inductive_cases change_cases: "refresh_step L E C h Changed h'"
inductive_cases enter_cases: "refresh_step L E C h Entered h'"
inductive_cases finish_cases: "refresh_step L E C h (Finished A) h'"
inductive_cases store_cases: "refresh_step L E C h Stored h'"

text \<open>The events of a run, the latest one first.\<close>

inductive refresh_run :: "('c, 'v) lru \<Rightarrow> template_env \<Rightarrow> convert \<Rightarrow> 'c collection \<Rightarrow> refresh_event list \<Rightarrow> 'c refresher \<Rightarrow> bool"
  for L E C c where
  start: "refresh_run L E C c [] (schema_Register c)"
| step: "refresh_run L E C c es h \<Longrightarrow> refresh_step L E C h e h' \<Longrightarrow> refresh_run L E C c (e # es) h'"

subsection \<open>What a refresh keeps\<close>

definition passes :: "cluster_api \<Rightarrow> convert \<Rightarrow> (string, api_schema) gomap \<Rightarrow> api_schema \<Rightarrow> bool" where
  "passes A C schemas s \<longleftrightarrow> (isListWatchable C s \<longrightarrow> \<not> preferredTypeExists C s schemas \<and> allowed A C s = Inr True)"

lemma filter_schemas_acc:
  "filter_schemas A C schemas rest result = Inr r \<Longrightarrow> mwf result \<Longrightarrow>
   mwf r \<and> (\<forall>k. mhas result k \<longrightarrow> mhas r k) \<and>
   (\<forall>p \<in> set rest. passes A C schemas (snd p) \<longrightarrow> mhas r (ID (rename_schema C (snd p)))) \<and>
   (\<forall>k t. mget r k = Some t \<longrightarrow> mget result k = Some t \<or>
     (\<exists>p \<in> set rest. passes A C schemas (snd p) \<and> t = rename_schema C (snd p) \<and> k = ID t))"
proof (induction rest arbitrary: result)
  case Nil
  then show ?case by simp
next
  case (Cons p rest)
  obtain i s where p: "p = (i, s)" by (cases p)
  show ?case
  proof (cases "passes A C schemas s")
    case True
    let ?t = "rename_schema C s"
    have run: "filter_schemas A C schemas rest (mput (ID ?t) ?t result) = Inr r"
      using Cons.prems(1) p True by (auto simp: passes_def Let_def split: if_splits)
    have wf: "mwf (mput (ID ?t) ?t result)" using Cons.prems(2) by (rule mwf_mput)
    note ih = Cons.IH [OF run wf]
    show ?thesis
    proof (intro conjI)
      show "\<forall>k t. mget r k = Some t \<longrightarrow> mget result k = Some t \<or>
          (\<exists>p' \<in> set (p # rest). passes A C schemas (snd p') \<and> t = rename_schema C (snd p') \<and> k = ID t)"
      proof (intro allI impI)
        fix k t assume "mget r k = Some t"
        with ih consider "mget (mput (ID ?t) ?t result) k = Some t"
          | "\<exists>p' \<in> set rest. passes A C schemas (snd p') \<and> t = rename_schema C (snd p') \<and> k = ID t" by blast
        then show "mget result k = Some t \<or>
            (\<exists>p' \<in> set (p # rest). passes A C schemas (snd p') \<and> t = rename_schema C (snd p') \<and> k = ID t)"
          by cases (use p True in \<open>auto simp: mget_mput split: if_splits\<close>)
      qed
    qed (use ih p in \<open>auto simp: mhas_mput\<close>)
  next
    case False
    then have "filter_schemas A C schemas rest result = Inr r"
      using Cons.prems(1) p by (auto simp: passes_def split: if_splits sum.splits)
    from Cons.IH [OF this Cons.prems(2)] p False show ?thesis by auto
  qed
qed

text \<open>The tests of a refresh, as facts about the attributes of a schema.\<close>

lemma isListWatchable_iff: "isListWatchable C s \<longleftrightarrow> {''list'', ''watch''} \<subseteq> set (Verbs C s)"
proof -
  have "fold (\<lambda>v (l, w). if v = ''list'' then (True, w) else if v = ''watch'' then (l, True) else (l, w)) vs (a, b) =
      (a \<or> ''list'' \<in> set vs, b \<or> ''watch'' \<in> set vs)" for vs a b
    by (induction vs arbitrary: a b) auto
  then show ?thesis by (simp add: isListWatchable_def)
qed

text \<open>The id under which discovery files a version of a kind of a group.\<close>

definition versioned_id :: "string \<Rightarrow> string \<Rightarrow> string \<Rightarrow> string" where
  "versioned_id g v k = to_lower ((if g = [] then ''core'' else g) @ ''.'' @ v @ ''.'' @ k)"

lemma GVKToVersionedSchemaID_versioned: "GVKToVersionedSchemaID g = versioned_id (gvk_Group g) (gvk_Version g) (gvk_Kind g)"
  by (simp add: GVKToVersionedSchemaID_def versioned_id_def to_lower_def)

definition better_exists :: "convert \<Rightarrow> api_schema \<Rightarrow> (string, api_schema) gomap \<Rightarrow> bool" where
  "better_exists C s schemas \<longleftrightarrow>
     ID s = ''extensions.v1beta1.ingress'' \<and> ''networking.k8s.io.v1beta1.ingress'' \<in> fst ` set schemas \<or>
     (PreferredGroup C s \<noteq> [] \<or> PreferredVersion C s \<noteq> []) \<and>
     versioned_id (if PreferredGroup C s = [] then gvk_Group (GVK C s) else PreferredGroup C s)
       (if PreferredVersion C s = [] then gvk_Version (GVK C s) else PreferredVersion C s) (gvk_Kind (GVK C s)) \<in> fst ` set schemas"

lemma preferredTypeExists_iff: "preferredTypeExists C s schemas \<longleftrightarrow> better_exists C s schemas"
  by (auto simp: preferredTypeExists_def better_exists_def typeNameChanges_def mhas_keys GVKToVersionedSchemaID_versioned Let_def)

text \<open>What a refresh keeps of a schema: one that cannot be listed and watched, or that may be listed and has no better version.\<close>

definition refresh_keeps :: "cluster_api \<Rightarrow> convert \<Rightarrow> (string, api_schema) gomap \<Rightarrow> api_schema \<Rightarrow> bool" where
  "refresh_keeps A C schemas s \<longleftrightarrow>
     (''list'' \<in> set (Verbs C s) \<and> ''watch'' \<in> set (Verbs C s) \<longrightarrow>
        \<not> better_exists C s schemas \<and> ca_Review A (GVR C s) = Inr (True, False))"

lemma passes_kept: "passes A C schemas s \<longleftrightarrow> refresh_keeps A C schemas s"
  by (auto simp: passes_def refresh_keeps_def isListWatchable_iff preferredTypeExists_iff allowed_def split: sum.splits prod.splits)

lemma rename_schema_ID:
  "ID (rename_schema C s) =
     (if gvk_Kind (GVK C s) = [] then ID s
      else to_lower (if gvk_Group (GVK C s) = [] then gvk_Kind (GVK C s) else gvk_Group (GVK C s) @ ''.'' @ gvk_Kind (GVK C s)))"
  "PluralName (rename_schema C s) =
     (if gvk_Kind (GVK C s) = [] then PluralName s
      else if gvr_Group (GVR C s) = [] then gvr_Resource (GVR C s) else gvr_Group (GVR C s) @ ''.'' @ gvr_Resource (GVR C s))"
  "api_schema.more (rename_schema C s) = api_schema.more s"
  by (simp_all add: rename_schema_def GVKToSchemaID_def GVRToPluralName_def)

text \<open>C19. A refresh of the schemas keeps what the cluster offers and permits. The schemas left after
  filtering are keyed by their ids; each is a discovered schema, unchanged but for its id without version and its
  plural name (only with a kind), and if its verbs have both list and watch then the access review allowed listing it without
  denying it, no replacement of it and no preferred version or group of its kind was discovered; and every discovered
  schema that passes these tests has an entry under its id.\<close>

theorem refreshed_schemas_exact:
  assumes "filter_schemas A C schemas schemas [] = Inr r"
  shows "mwf r \<and>
    (\<forall>k t. mget r k = Some t \<longrightarrow>
      (\<exists>i s. (i, s) \<in> set schemas \<and> refresh_keeps A C schemas s \<and>
        k = (if gvk_Kind (GVK C s) = [] then ID s
             else to_lower (if gvk_Group (GVK C s) = [] then gvk_Kind (GVK C s) else gvk_Group (GVK C s) @ ''.'' @ gvk_Kind (GVK C s))) \<and>
        t = (if gvk_Kind (GVK C s) = [] then s
             else s\<lparr>ID := k, PluralName := (if gvr_Group (GVR C s) = [] then gvr_Resource (GVR C s) else gvr_Group (GVR C s) @ ''.'' @ gvr_Resource (GVR C s))\<rparr>))) \<and>
    (\<forall>i s. (i, s) \<in> set schemas \<and> refresh_keeps A C schemas s \<longrightarrow>
      (\<exists>t. mget r (if gvk_Kind (GVK C s) = [] then ID s
         else to_lower (if gvk_Group (GVK C s) = [] then gvk_Kind (GVK C s) else gvk_Group (GVK C s) @ ''.'' @ gvk_Kind (GVK C s))) = Some t))"
proof -
  from filter_schemas_acc [OF assms mwf_Nil]
  have "mwf r" and all: "\<And>p. p \<in> set schemas \<Longrightarrow> refresh_keeps A C schemas (snd p) \<Longrightarrow> mhas r (ID (rename_schema C (snd p)))"
    and only: "\<And>k t. mget r k = Some t \<Longrightarrow> \<exists>p \<in> set schemas. refresh_keeps A C schemas (snd p) \<and> t = rename_schema C (snd p) \<and> k = ID t"
    by (simp_all add: passes_kept)
  have rn: "rename_schema C s = (if gvk_Kind (GVK C s) = [] then s
     else s\<lparr>ID := ID (rename_schema C s), PluralName := PluralName (rename_schema C s)\<rparr>)" for s
    by (simp add: rename_schema_def)
  show ?thesis
  proof (intro conjI allI impI)
    fix k t assume "mget r k = Some t"
    from only [OF this] obtain i s where s: "(i, s) \<in> set schemas" "refresh_keeps A C schemas s" "t = rename_schema C s" "k = ID t" by force
    then show "\<exists>i s. (i, s) \<in> set schemas \<and> refresh_keeps A C schemas s \<and>
        k = (if gvk_Kind (GVK C s) = [] then ID s
             else to_lower (if gvk_Group (GVK C s) = [] then gvk_Kind (GVK C s) else gvk_Group (GVK C s) @ ''.'' @ gvk_Kind (GVK C s))) \<and>
        t = (if gvk_Kind (GVK C s) = [] then s
             else s\<lparr>ID := k, PluralName := (if gvr_Group (GVR C s) = [] then gvr_Resource (GVR C s) else gvr_Group (GVR C s) @ ''.'' @ gvr_Resource (GVR C s))\<rparr>)"
      using rn [of s] by (intro exI [of _ i] exI [of _ s]) (simp add: rename_schema_ID split: if_splits)
  next
    fix i s assume "(i, s) \<in> set schemas \<and> refresh_keeps A C schemas s"
    then show "\<exists>t. mget r (if gvk_Kind (GVK C s) = [] then ID s
         else to_lower (if gvk_Group (GVK C s) = [] then gvk_Kind (GVK C s) else gvk_Group (GVK C s) @ ''.'' @ gvk_Kind (GVK C s))) = Some t"
      using all [of "(i, s)"] by (simp add: mhas_def rename_schema_ID)
  qed (rule \<open>mwf r\<close>)
qed

definition ex_api :: cluster_api where
  "ex_api = \<lparr>ca_OpenAPI = Inr [(''m'', Some \<lparr>pk_Fields = [(''id'', PPrimitive ''integer'')], pk_RequiredFields = [''id''],
       pk_GVKs = [\<lparr>gvk_Group = ''a'', gvk_Version = ''1'', gvk_Kind = ''P''\<rparr>]\<rparr>)],
     ca_Discovery = \<lparr>di_Groups = [\<lparr>gi_Name = ''a'', gi_Preferred = ''1'', gi_Versions = [''1'', ''2'']\<rparr>],
       di_Resources = map (\<lambda>v. \<lparr>rl_GroupVersion = v, rl_Resources = [\<lparr>ar_Name = ''ps'', ar_Verbs = [''list'', ''watch''],
         ar_Namespaced = True, ar_Kind = ''P''\<rparr>]\<rparr>) [''a/1'', ''a/2''],
       di_Error = None, di_ErrorIsPartial = False\<rparr>,
     ca_ParseGroupVersion = (\<lambda>gv. case str_cut CHR ''/'' gv of (g, v, _) \<Rightarrow> ((g, v), None)),
     ca_Review = (\<lambda>_. Inr (True, False)), ca_Table = (\<lambda>_. Inr None), ca_Acquire = None\<rparr>"

lemma ex_api_schemas:
  "case ToSchemas ex_api of Inl _ \<Rightarrow> False | Inr m \<Rightarrow> map fst m = [''a.1.p'', ''a.2.p''] \<and>
     (case filter_schemas ex_api convert_std m m [] of Inl _ \<Rightarrow> False | Inr r \<Rightarrow> map fst r = [''a.p''])"
  by code_simp

lemma ex_api_attributes:
  "case ToSchemas ex_api of Inl _ \<Rightarrow> False | Inr m \<Rightarrow>
     (case m of [(k1, s1), (k2, s2)] \<Rightarrow> \<not> better_exists convert_std s1 m \<and> better_exists convert_std s2 m \<and>
        Verbs convert_std s1 = [''list'', ''watch''] \<and> Verbs convert_std s2 = [''list'', ''watch''] \<and>
        GVK convert_std s1 = \<lparr>gvk_Group = ''a'', gvk_Version = ''1'', gvk_Kind = ''P''\<rparr> \<and>
        GVR convert_std s1 = \<lparr>gvr_Group = ''a'', gvr_Version = ''1'', gvr_Resource = ''ps''\<rparr>
      | _ \<Rightarrow> False)"
  by code_simp

lemma refreshed_schemas_exact_witness:
  "\<exists>m r s1 s2. ToSchemas ex_api = Inr m \<and> m = [(''a.1.p'', s1), (''a.2.p'', s2)] \<and>
     filter_schemas ex_api convert_std m m [] = Inr r \<and> \<not> refresh_keeps ex_api convert_std m s2 \<and>
     mget r ''a.p'' = Some (s1\<lparr>ID := ''a.p'', PluralName := ''a.ps''\<rparr>)"
proof -
  from ex_api_schemas obtain m r where m: "ToSchemas ex_api = Inr m" "map fst m = [''a.1.p'', ''a.2.p'']"
    and r: "filter_schemas ex_api convert_std m m [] = Inr r" "map fst r = [''a.p'']"
    by (simp split: sum.splits)
  then obtain s1 s2 where ss: "m = [(''a.1.p'', s1), (''a.2.p'', s2)]" by (auto simp: map_eq_Cons_conv)
  have at: "\<not> better_exists convert_std s1 m" "better_exists convert_std s2 m" "Verbs convert_std s1 = [''list'', ''watch'']"
    "Verbs convert_std s2 = [''list'', ''watch'']" "GVK convert_std s1 = \<lparr>gvk_Group = ''a'', gvk_Version = ''1'', gvk_Kind = ''P''\<rparr>"
    "GVR convert_std s1 = \<lparr>gvr_Group = ''a'', gvr_Version = ''1'', gvr_Resource = ''ps''\<rparr>"
    using ex_api_attributes unfolding m(1) by (simp_all add: ss)
  then have no: "\<not> refresh_keeps ex_api convert_std m s2" by (simp add: refresh_keeps_def)
  obtain t where t: "mget r ''a.p'' = Some t" using r(2) by (auto simp: map_eq_Cons_conv)
  from refreshed_schemas_exact [OF r(1)] t obtain i s where "(i, s) \<in> set m" "refresh_keeps ex_api convert_std m s"
    and ts: "t = (if gvk_Kind (GVK convert_std s) = [] then s else s\<lparr>ID := ''a.p'', PluralName :=
      (if gvr_Group (GVR convert_std s) = [] then gvr_Resource (GVR convert_std s) else gvr_Group (GVR convert_std s) @ ''.'' @ gvr_Resource (GVR convert_std s))\<rparr>)"
    by blast
  with no have "s = s1" by (auto simp: ss)
  with ts at have "t = s1\<lparr>ID := ''a.p'', PluralName := ''a.ps''\<rparr>" by simp
  with m r ss no t show ?thesis by blast
qed

subsection \<open>The fields of a model\<close>

definition model_field :: "proto_kind \<Rightarrow> string \<Rightarrow> field option" where
  "model_field k n = map_option (\<lambda>p. (toField p)\<lparr>f_Required := n \<in> set (pk_RequiredFields k)\<rparr>) (mget (pk_Fields k) n)"

lemma fold_fields: "mwf fs \<Longrightarrow> fold (\<lambda>(n, p). mput n (toField p)) fs [] = map (\<lambda>(n, p). (n, toField p)) fs"
proof -
  have "mwf fs \<Longrightarrow> set (map fst fs) \<inter> set (map fst d) = {} \<Longrightarrow>
      fold (\<lambda>(n, p). mput n (toField p)) fs d = d @ map (\<lambda>(n, p). (n, toField p)) fs" for d
    by (induction fs arbitrary: d) (auto simp: mwf_def mput_new)
  then show "mwf fs \<Longrightarrow> ?thesis" by simp
qed

lemma mget_require:
  "mget (fold require_field ns m) n = map_option (\<lambda>f. if n \<in> set ns then f\<lparr>f_Required := True\<rparr> else f) (mget m n)"
proof (induction ns arbitrary: m)
  case Nil
  then show ?case by (simp add: option.map_ident)
next
  case (Cons a ns)
  then show ?case by (cases "mget m n"; cases "mget m a") (auto simp: require_field_def mget_mput)
qed

lemma mwf_require: "mwf m \<Longrightarrow> mwf (fold require_field ns m)"
  by (induction ns arbitrary: m) (auto simp: require_field_def mwf_mput split: option.splits)

lemma escaped_not_reserved: "''_'' @ k \<notin> set ReservedFields"
  by (simp add: ReservedFields_def)

lemma mget_escape_reserved:
  "f \<in> set ReservedFields \<Longrightarrow> mget (fold escape_field xs m) f = (if mhas xs f then None else mget m f)"
proof (induction xs arbitrary: m)
  case Nil
  then show ?case by (simp add: mhas_def)
next
  case (Cons p xs)
  obtain k v where "p = (k, v)" by (cases p)
  with Cons escaped_not_reserved [of k] show ?case
    by (auto simp: escape_field_def mget_mput mget_mdel mhas_def)
qed

lemma mget_escape_escaped:
  "mwf xs \<Longrightarrow> r \<in> set ReservedFields \<Longrightarrow>
   mget (fold escape_field xs m) (''_'' @ r) = (case mget xs r of Some v \<Rightarrow> Some v | None \<Rightarrow> mget m (''_'' @ r))"
proof (induction xs arbitrary: m)
  case Nil
  then show ?case by simp
next
  case (Cons p xs)
  obtain k v where p: "p = (k, v)" by (cases p)
  with Cons.prems have wf: "mwf xs" and new: "mget xs k = None" by (auto simp: mwf_def map_of_eq_None_iff)
  from Cons.IH [OF wf Cons.prems(2)] p new Cons.prems(2) escaped_not_reserved [of r] show ?case
    by (auto simp: escape_field_def mget_mput mget_mdel split: option.splits)
qed

lemma mget_escape_other:
  "f \<notin> set ReservedFields \<Longrightarrow> (\<forall>r \<in> set ReservedFields. f \<noteq> ''_'' @ r) \<Longrightarrow> mget (fold escape_field xs m) f = mget m f"
  by (induction xs arbitrary: m) (auto simp: escape_field_def mget_mput mget_mdel split: prod.splits)

lemma fields_SetGVK: "ResourceFields (fold (\<lambda>g s. SetGVK g (s\<lparr>ID := i g\<rparr>)) gs s) = ResourceFields s"
  by (induction gs arbitrary: s) (simp_all add: SetGVK_def SetKind_def SetVersion_def SetGroup_def setVal_def)

text \<open>A schema made of an OpenAPI model has the model's fields, each with its type, required if the model
  requires it, and none under a reserved name: a field called \<open>id\<close>, \<open>type\<close>, \<open>links\<close> or \<open>actions\<close> is found under
  the name with an underscore in front, where it replaces a field the model has under that name.\<close>

theorem model_fields:
  assumes "mwf (pk_Fields k)"
  shows "mget (ResourceFields (modelToSchema n k)) f =
    (if f \<in> set ReservedFields then None
     else if \<exists>r \<in> set ReservedFields. f = ''_'' @ r \<and> mhas (pk_Fields k) r then model_field k (tl f)
     else model_field k f)"
proof -
  let ?m = "fold require_field (pk_RequiredFields k) (fold (\<lambda>(n, p). mput n (toField p)) (pk_Fields k) [])"
  have get: "mget ?m x = model_field k x" for x
  proof -
    have "mget (map (\<lambda>(n, p). (n, toField p)) (pk_Fields k)) x = map_option toField (mget (pk_Fields k) x)"
      by (induction "pk_Fields k") (simp_all add: map_of_map)
    moreover have "(toField p)\<lparr>f_Required := False\<rparr> = toField p" for p by (simp add: toField_def)
    ultimately show ?thesis
      by (cases "mget (pk_Fields k) x") (simp_all add: mget_require fold_fields [OF assms] model_field_def)
  qed
  have wf: "mwf ?m" using assms by (auto simp: fold_fields mwf_def comp_def case_prod_beta intro!: mwf_require [unfolded mwf_def])
  have "ResourceFields (modelToSchema n k) = fold escape_field ?m ?m"
    by (simp add: modelToSchema_def Let_def fields_SetGVK mk_api_schema_def schema.defs)
  moreover have "mget (fold escape_field ?m ?m) f =
    (if f \<in> set ReservedFields then None
     else if \<exists>r \<in> set ReservedFields. f = ''_'' @ r \<and> mhas (pk_Fields k) r then model_field k (tl f)
     else model_field k f)"
  proof (cases "\<exists>r \<in> set ReservedFields. f = ''_'' @ r")
    case True
    then obtain r where "r \<in> set ReservedFields" "f = ''_'' @ r" by blast
    then show ?thesis using mget_escape_escaped [OF wf, of r ?m] escaped_not_reserved [of r] get
      by (auto simp: mhas_def model_field_def split: option.splits)
  next
    case False
    then show ?thesis using mget_escape_reserved [of f ?m ?m] mget_escape_other [of f ?m ?m] get
      by (auto simp: mhas_def)
  qed
  ultimately show ?thesis by simp
qed

lemma model_fields_witness:
  "let k = \<lparr>pk_Fields = [(''id'', PPrimitive ''integer''), (''spec'', PReference None ''apps.Spec'')], pk_RequiredFields = [''id''], pk_GVKs = []\<rparr>
   in mget (ResourceFields (modelToSchema ''m'' k)) ''id'' = None \<and>
      mget (ResourceFields (modelToSchema ''m'' k)) ''_id'' =
        Some \<lparr>f_Type = ''int'', f_Required = True, f_Create = True, f_Update = True\<rparr>"
proof -
  let ?k = "\<lparr>pk_Fields = [(''id'', PPrimitive ''integer''), (''spec'', PReference None ''apps.Spec'')], pk_RequiredFields = [''id''], pk_GVKs = []\<rparr>"
  have "mwf (pk_Fields ?k)" by (simp add: mwf_def)
  from model_fields [OF this, of "''m''" "''id''"] model_fields [OF this, of "''m''" "''_id''"]
  show ?thesis by (simp add: Let_def ReservedFields_def model_field_def toField_def mhas_def)
qed

subsection \<open>No change is lost, but a failure is not retried\<close>

text \<open>A refresh that is open: the latest goroutine that entered has not finished.\<close>

definition open_refresh :: "refresh_event list \<Rightarrow> bool" where
  "open_refresh es \<longleftrightarrow>
     (\<exists>during before. es = during @ Entered # before \<and> Entered \<notin> set during \<and> (\<forall>B. Finished B \<notin> set during))"

text \<open>The collection holds the schemas of a refresh that entered and finished among these events.\<close>

definition up_to_date :: "('c, 'v) lru \<Rightarrow> template_env \<Rightarrow> convert \<Rightarrow> refresh_event list \<Rightarrow> 'c collection \<Rightarrow> bool" where
  "up_to_date L E C es c \<longleftrightarrow>
     (\<exists>later A rest filtered c0. es = later @ Finished A # rest \<and> open_refresh rest \<and>
        refreshed A C = Inr filtered \<and> c = snd (Reset L E C filtered c0))"

lemma up_to_date_Cons:
  assumes "up_to_date L E C es c"
  shows "up_to_date L E C (e # es) c"
proof -
  from assms obtain later A rest filtered c0 where "e # es = (e # later) @ Finished A # rest" "open_refresh rest"
    "refreshed A C = Inr filtered" "c = snd (Reset L E C filtered c0)" unfolding up_to_date_def by auto
  then show ?thesis unfolding up_to_date_def by blast
qed

lemma up_to_date_Finished:
  "open_refresh es \<Longrightarrow> refreshed A C = Inr filtered \<Longrightarrow> up_to_date L E C (Finished A # es) (snd (Reset L E C filtered c0))"
  unfolding up_to_date_def by blast

lemma open_refresh_Entered: "open_refresh (Entered # es)"
  unfolding open_refresh_def by (intro exI [of _ "[]"] exI [of _ es]) simp

definition owed :: "('c, 'v) lru \<Rightarrow> template_env \<Rightarrow> convert \<Rightarrow> refresh_event list \<Rightarrow> 'c refresher \<Rightarrow> bool" where
  "owed L E C es h \<longleftrightarrow>
     (let since = takeWhile (\<lambda>e. e \<noteq> Changed) es in
      Changed \<in> set es \<longrightarrow>
        sc_toSync h \<or> rf_failed h > 0 \<or> (rf_running h \<and> open_refresh since) \<or>
        (\<not> rf_running h \<and> up_to_date L E C since (sc_schemas h)))"

lemma refresh_run_owed: "refresh_run L E C c es h \<Longrightarrow> owed L E C es h"
proof (induction rule: refresh_run.induct)
  case start
  then show ?case by (simp add: owed_def)
next
  case (step es h e h')
  from step.hyps(2) step.IH show ?case
    by cases (auto simp: owed_def needToSync_def Let_def up_to_date_Cons up_to_date_Finished open_refresh_Entered)
qed

text \<open>C18. No change of the cluster's API is lost while refreshes run concurrently. However the changes, the
  sleeping goroutines, the running refresh and the answers of the cluster interleave, once no refresh runs, none has
  failed and \<open>toSync\<close> is clear, the collection was reset with the schemas of a refresh that began after the
  latest change, entering \<open>refreshAll\<close> after it, and has ended: a change that comes in while a refresh runs sets \<open>toSync\<close>
  again, and the refresh already under way does not count for it. Events are listed with the latest first: after
  the latest change come the entry of that refresh, then, with no other entry or end in between, its end.\<close>

theorem no_change_lost:
  assumes "refresh_run L E C c es h"
    and "Changed \<in> set es" and "\<not> rf_running h" and "rf_failed h = 0" and "\<not> sc_toSync h"
  shows "\<exists>later A during before filtered c0.
    takeWhile (\<lambda>e. e \<noteq> Changed) es = later @ Finished A # during @ Entered # before \<and>
    Entered \<notin> set during \<and> (\<forall>B. Finished B \<notin> set during) \<and>
    refreshed A C = Inr filtered \<and> sc_schemas h = snd (Reset L E C filtered c0)"
proof -
  have "up_to_date L E C (takeWhile (\<lambda>e. e \<noteq> Changed) es) (sc_schemas h)"
    using refresh_run_owed [OF assms(1)] assms(2-) by (simp add: owed_def Let_def)
  then show ?thesis unfolding up_to_date_def open_refresh_def by blast
qed

definition ex_refresher :: "(string, api_schemas) gomap refresher" where
  "ex_refresher = \<lparr>sc_toSync = False, sc_schemas = ex_starting, rf_sleeping = 0, rf_running = True, rf_failed = 0\<rparr>"

lemma no_change_lost_witness:
  "\<exists>h. refresh_run map_lru ex_env convert_std ex_starting [Finished ex_api, Entered, Finished ex_api, Changed, Entered, Changed] h \<and>
     (\<exists>later A during before. [Finished ex_api, Entered, Finished ex_api] = later @ Finished A # during @ Entered # before \<and>
       (\<exists>filtered c0. refreshed A convert_std = Inr filtered \<and> sc_schemas h = snd (Reset map_lru ex_env convert_std filtered c0)))"
proof -
  obtain f where f: "refreshed ex_api convert_std = Inr f"
    using ex_api_schemas by (auto simp: refreshed_def getColumns_def ex_api_def split: sum.splits)
  let ?L = map_lru and ?E = ex_env and ?C = convert_std
  let ?reset = "\<lambda>h :: (string, api_schemas) gomap refresher. h\<lparr>rf_running := False, sc_schemas := snd (Reset ?L ?E ?C f (sc_schemas h))\<rparr>"
  let ?changed = "\<lambda>h :: (string, api_schemas) gomap refresher. h\<lparr>sc_toSync := True, rf_sleeping := rf_sleeping h + 1\<rparr>"
  let ?enter = "\<lambda>h :: (string, api_schemas) gomap refresher. h\<lparr>sc_toSync := False, rf_sleeping := rf_sleeping h - 1, rf_running := True\<rparr>"
  let ?h0 = "schema_Register ex_starting"
  have enter: "refresh_step ?L ?E ?C h Entered (?enter h)" if "rf_sleeping h > 0" "\<not> rf_running h" "sc_toSync h" for h
    using refresh_step.enter [of h True "h\<lparr>sc_toSync := False\<rparr>" ?L ?E ?C] that by (simp add: needToSync_def)
  have finish: "refresh_step ?L ?E ?C h (Finished ex_api) (?reset h)" if "rf_running h" for h
    by (rule refresh_step.finish [OF that f])
  have h0: "rf_sleeping ?h0 = 0" "\<not> rf_running ?h0" "rf_failed ?h0 = 0" by (simp_all add: schema_Register_def)
  have run: "refresh_run ?L ?E ?C ex_starting [Finished ex_api, Entered, Finished ex_api, Changed, Entered, Changed]
      (?reset (?enter (?reset (?changed (?enter (?changed ?h0))))))"
    by (intro refresh_run.step [OF _ finish] refresh_run.step [OF _ enter] refresh_run.step [OF _ refresh_step.change] refresh_run.start)
      (simp_all add: h0)
  let ?h = "?reset (?enter (?reset (?changed (?enter (?changed ?h0)))))"
  have since: "takeWhile (\<lambda>e. e \<noteq> Changed) [Finished ex_api, Entered, Finished ex_api, Changed, Entered, Changed] =
      [Finished ex_api, Entered, Finished ex_api]" by simp
  have idle: "\<not> rf_running ?h" "rf_failed ?h = 0" "\<not> sc_toSync ?h" by (simp_all add: h0)
  from no_change_lost [OF run _ idle] since show ?thesis using run by (intro exI [of _ ?h]) (simp only: list.set, blast)
qed

text \<open>A refresh that fails leaves the schemas as they were and is not retried. From the failure on nothing
  but another change of an API service leads to a new refresh: once the sleeping goroutines and the stores are done,
  \<open>toSync\<close> is set and no step but a change is possible.\<close>

theorem failed_refresh_waits_for_change:
  assumes "rf_running h" and "rf_sleeping h = 0" and "rf_failed h = 0" and "refreshed A C = Inl errs"
  shows "refresh_step L E C h (Finished A) h1 \<Longrightarrow> refresh_step L E C h1 e h2 \<Longrightarrow> e \<noteq> Changed \<Longrightarrow>
    e = Stored \<and> sc_schemas h2 = sc_schemas h \<and> sc_toSync h2 \<and>
    (\<forall>e' h3. refresh_step L E C h2 e' h3 \<longrightarrow> e' = Changed)"
proof -
  assume fin: "refresh_step L E C h (Finished A) h1" and st: "refresh_step L E C h1 e h2" and e: "e \<noteq> Changed"
  from fin assms have h1: "h1 = h\<lparr>rf_running := False, rf_failed := 1\<rparr>" by (auto elim!: finish_cases)
  from st e assms h1 have "e = Stored \<and> h2 = h1\<lparr>sc_toSync := True, rf_failed := 0\<rparr>"
    by (auto elim: refresh_step.cases)
  with assms h1 show ?thesis by (auto elim: refresh_step.cases)
qed

lemma failed_refresh_waits_for_change_witness:
  "\<exists>h1 h2. let A = ex_api\<lparr>ca_OpenAPI := Inl (OtherError ''timeout'')\<rparr> in
     refresh_step map_lru ex_env convert_std ex_refresher (Finished A) h1 \<and>
     refresh_step map_lru ex_env convert_std h1 Stored h2 \<and> sc_toSync h2 \<and> sc_schemas h2 = ex_starting \<and>
     (\<forall>e' h3. refresh_step map_lru ex_env convert_std h2 e' h3 \<longrightarrow> e' = Changed)"
proof -
  let ?A = "ex_api\<lparr>ca_OpenAPI := Inl (OtherError ''timeout'')\<rparr>"
  let ?h1 = "ex_refresher\<lparr>rf_running := False, rf_failed := 1\<rparr>"
  let ?h2 = "?h1\<lparr>sc_toSync := True, rf_failed := 0\<rparr>"
  have err: "refreshed ?A convert_std = Inl [OtherError ''timeout'']"
    by (simp add: refreshed_def ToSchemas_def AddOpenAPI_def)
  have s1: "refresh_step map_lru ex_env convert_std ex_refresher (Finished ?A) ?h1"
    using refresh_step.finish_error [OF _ err, of ex_refresher map_lru ex_env] by (simp add: ex_refresher_def)
  have s2: "refresh_step map_lru ex_env convert_std ?h1 Stored ?h2"
    using refresh_step.store [of ?h1 map_lru ex_env convert_std] by (simp add: ex_refresher_def)
  have "sc_schemas ?h2 = ex_starting" by (simp add: ex_refresher_def)
  moreover have "sc_toSync ?h2" by (simp add: ex_refresher_def)
  moreover have "\<forall>e' h3. refresh_step map_lru ex_env convert_std ?h2 e' h3 \<longrightarrow> e' = Changed"
    using failed_refresh_waits_for_change [OF _ _ _ err s1 s2] by (simp add: ex_refresher_def)
  ultimately show ?thesis using s1 s2 unfolding Let_def by blast
qed

end
