(* ===== verification/Formatter.thy ===== *)
theory Formatter
  imports Writer Schema_Factory
begin

section \<open>The default formatter and the summary: resources/common/formatter.go, pkg/summary\<close>

text \<open>
  Every discovered type gets the formatter of \<open>DefaultTemplate\<close>. It adds the link to the Kubernetes path, writes
  a summary of the object's state into its metadata, and cuts the object down to the fields the query asks for. The
  access to nested fields is the \<open>data\<close> package of schemer, a record of functions here, and so are the summarizers,
  which other packages register. Summarized objects, which carry a summary, are in the theory \<open>Summarized\<close>.
\<close>

subsection \<open>summary.go and condition.go\<close>

record summary =
  sm_State :: string
  sm_Error :: bool
  sm_Transitioning :: bool
  sm_Message :: "string list"

definition empty_summary :: summary where
  "empty_summary = \<lparr>sm_State = [], sm_Error = False, sm_Transitioning = False, sm_Message = []\<rparr>"

definition summary_String :: "summary \<Rightarrow> string" where
  "summary_String s =
     (if \<not> sm_Transitioning s \<and> \<not> sm_Error s then sm_State s
      else
        let msg = (if sm_Transitioning s then ''[progressing'' else []);
            msg = (if sm_Error s then (if length msg > 0 then msg @ '',error]'' else ''error]'') else msg @ '']'')
        in if length (sm_Message s) > 0 then msg @ '' '' @ join_with '', '' (sm_Message s) else msg)"

definition IsReady :: "summary \<Rightarrow> bool" where
  "IsReady s \<longleftrightarrow> \<not> sm_Error s \<and> \<not> sm_Transitioning s"

fun dedup_loop :: "string list \<Rightarrow> (string, bool) gomap \<Rightarrow> string list \<Rightarrow> string list" where
  "dedup_loop [] seen result = result"
| "dedup_loop (m # ms) seen result =
     (let message = trim_space m in
      if message = [] then dedup_loop ms seen result
      else if mgetd False seen message then dedup_loop ms seen result
      else dedup_loop ms (mput message True seen) (result @ [message]))"

definition dedupMessage :: "string list \<Rightarrow> string list" where
  "dedupMessage messages = (if length messages \<le> 1 then messages else dedup_loop messages [] [])"

record field_lib = lib +
  F_GetValue :: "obj \<Rightarrow> string list \<Rightarrow> json option"
  F_RemoveValue :: "obj \<Rightarrow> string list \<Rightarrow> obj"
  F_Slice :: "obj \<Rightarrow> string list \<Rightarrow> obj list"
  F_Set :: "obj \<Rightarrow> string \<Rightarrow> json \<Rightarrow> obj"
  F_Summarizers :: "(obj \<Rightarrow> obj list \<Rightarrow> summary \<Rightarrow> summary) list"
  F_ConditionSummarizers :: "(obj \<Rightarrow> obj list \<Rightarrow> summary \<Rightarrow> summary) list"
  F_Accessor :: "payload option \<Rightarrow> (string \<times> string) option"

definition getConditions :: "field_lib \<Rightarrow> obj \<Rightarrow> obj list" where
  "getConditions F m = F_Slice F m [''status'', ''conditions'']"

definition Summarize :: "field_lib \<Rightarrow> obj \<Rightarrow> summary" where
  "Summarize F m =
     (let conditions = getConditions F m;
          s = fold (\<lambda>summarizer s. summarizer m conditions s) (F_Summarizers F) empty_summary;
          s = (if sm_State s = [] then s\<lparr>sm_State := ''active''\<rparr> else s)
      in s\<lparr>sm_State := to_lower (sm_State s), sm_Message := dedupMessage (sm_Message s)\<rparr>)"

definition Condition_Equals :: "lib \<Rightarrow> obj \<Rightarrow> obj \<Rightarrow> bool" where
  "Condition_Equals L c other \<longleftrightarrow> list_all (\<lambda>k. L_String L c [k] = L_String L other [k]) [''type'', ''status'', ''reason'', ''message'']"

definition normalize_condition :: "field_lib \<Rightarrow> obj \<Rightarrow> obj \<Rightarrow> obj" where
  "normalize_condition F m condition =
     (let s = fold (\<lambda>summarizer s. summarizer m [condition] s) (F_ConditionSummarizers F) empty_summary;
          condition = F_Set F (F_Set F condition ''error'' (JBool (sm_Error s))) ''transitioning'' (JBool (sm_Transitioning s))
      in if L_String (lib.truncate F) condition [''lastUpdateTime''] = []
         then F_Set F condition ''lastUpdateTime'' (JStr (L_String (lib.truncate F) condition [''lastTransitionTime'']))
         else condition)"

definition NormalizeConditions :: "field_lib \<Rightarrow> obj \<Rightarrow> obj" where
  "NormalizeConditions F m =
     (let newConditions = map (normalize_condition F m) (getConditions F m)
      in if length newConditions > 0 then L_SetNested F m (JArr (map JObj newConditions)) [''status'', ''conditions''] else m)"

subsection \<open>formatter.go\<close>

definition selfLink :: "gvr \<Rightarrow> string \<Rightarrow> string \<Rightarrow> string" where
  "selfLink g namespace name =
     (if gvr_Group g = [] then ''/api/v1/'' else ''/apis/'' @ gvr_Group g @ ''/'' @ gvr_Version g @ ''/'') @
     (if namespace \<noteq> [] then ''namespaces/'' @ namespace @ ''/'' else []) @ gvr_Resource g @ ''/'' @ name"

definition includeFields :: "field_lib \<Rightarrow> url_values \<Rightarrow> obj \<Rightarrow> obj" where
  "includeFields F q m =
     (case mget q ''include'' of
        None \<Rightarrow> m
      | Some names \<Rightarrow>
          fold (\<lambda>f newObj. let fieldParts = split_on CHR ''.'' f in
              case F_GetValue F m fieldParts of Some val \<Rightarrow> L_PutValue F newObj val fieldParts | None \<Rightarrow> newObj) names [])"

definition excludeManagedFields :: "field_lib \<Rightarrow> obj \<Rightarrow> obj" where
  "excludeManagedFields F m = F_RemoveValue F m [''metadata'', ''managedFields'']"

definition excludeFields :: "field_lib \<Rightarrow> url_values \<Rightarrow> obj \<Rightarrow> obj" where
  "excludeFields F q m =
     (case mget q ''exclude'' of
        None \<Rightarrow> m
      | Some names \<Rightarrow> fold (\<lambda>f m. F_RemoveValue F m (split_on CHR ''.'' f)) names m)"

definition exclude_value :: "field_lib \<Rightarrow> string \<Rightarrow> obj \<Rightarrow> obj" where
  "exclude_value F f m =
     (let fieldParts = split_on CHR ''.'' f in
      case L_GetValueN F m fieldParts of
        JObj o' \<Rightarrow> fold (\<lambda>(k, _) m. L_PutValue F m (JStr []) (fieldParts @ [k])) o' m
      | _ \<Rightarrow> m)"

definition excludeValues :: "field_lib \<Rightarrow> url_values \<Rightarrow> obj \<Rightarrow> obj" where
  "excludeValues F q m = (case mget q ''excludeValues'' of None \<Rightarrow> m | Some names \<Rightarrow> fold (exclude_value F) names m)"

definition state_value :: "summary \<Rightarrow> json" where
  "state_value s = JObj [(''name'', JStr (sm_State s)), (''error'', JBool (sm_Error s)),
     (''transitioning'', JBool (sm_Transitioning s)), (''message'', JStr (join_with '':'' (sm_Message s)))]"

definition format_object :: "field_lib \<Rightarrow> url_values \<Rightarrow> obj \<Rightarrow> obj" where
  "format_object F q m =
     (let s = Summarize F m;
          m = L_PutValue F m (state_value s) [''metadata'', ''state''];
          m = NormalizeConditions F m;
          m = includeFields F q m;
          m = excludeManagedFields F m;
          m = excludeFields F q m
      in excludeValues F q m)"

definition format_links :: "api_schema \<Rightarrow> string \<Rightarrow> (string, string) gomap \<Rightarrow> (string, string) gomap" where
  "format_links s u links =
     (let links = mput ''view'' u links;
          links = (if \<not> mhas links ''update'' \<and> ''PUT'' \<in> set (CollectionMethods s) then mput ''update'' u links else links);
          links = (if \<not> mhas links ''update'' \<and> ''blocked-PUT'' \<in> set (ResourceMethods s) then mput ''update'' ''blocked'' links else links)
      in if \<not> mhas links ''remove'' \<and> ''blocked-DELETE'' \<in> set (ResourceMethods s) then mput ''remove'' ''blocked'' links else links)"

definition default_formatter :: "field_lib \<Rightarrow> convert \<Rightarrow> url_builder \<Rightarrow> url_values \<Rightarrow> raw_resource \<Rightarrow> raw_resource" where
  "default_formatter F C u q resource =
     (let g = GVR C (raw_Schema resource) in
      if gvr_Version g = [] then resource
      else (case F_Accessor F (obj_Object (raw_Object resource)) of
          None \<Rightarrow> resource
        | Some (namespace, name) \<Rightarrow>
            (let resource = resource\<lparr>raw_Links := format_links (raw_Schema resource) (RelativeToRoot u (selfLink g namespace name)) (raw_Links resource)\<rparr>
             in case obj_Object (raw_Object resource) of
                  Some (Unstr m) \<Rightarrow> resource\<lparr>raw_Object := (raw_Object resource)\<lparr>obj_Object := Some (Unstr (format_object F q m))\<rparr>\<rparr>
                | _ \<Rightarrow> resource)))"

section \<open>What the formatter guarantees\<close>

text \<open>The messages without blanks at their ends, without empty ones, each at its first place.\<close>

definition distinct_messages :: "string list \<Rightarrow> string list" where
  "distinct_messages ms = rev (remdups (rev (filter (\<lambda>m. m \<noteq> []) (map trim_space ms))))"

lemma dedup_loop_eq:
  "(\<forall>m. mgetd False seen m \<longleftrightarrow> m \<in> set result) \<Longrightarrow> distinct result \<Longrightarrow>
   dedup_loop ms seen result = rev (remdups (rev (result @ filter (\<lambda>m. m \<noteq> []) (map trim_space ms))))"
proof (induction ms arbitrary: seen result)
  case Nil
  then show ?case by (simp add: distinct_remdups_id)
next
  case (Cons m ms)
  let ?t = "trim_space m"
  have dup: "x \<in> set b \<Longrightarrow> rev (remdups (rev (b @ x # c))) = rev (remdups (rev (b @ c)))" for x :: string and b c
    by (induction c rule: rev_induct) auto
  consider "?t = []" | "?t \<noteq> []" "?t \<in> set result" | "?t \<noteq> []" "?t \<notin> set result" by blast
  then show ?case
  proof cases
    case 3
    then have "dedup_loop (m # ms) seen result = dedup_loop ms (mput ?t True seen) (result @ [?t])"
      using Cons.prems by (simp add: Let_def)
    also have "\<dots> = rev (remdups (rev ((result @ [?t]) @ filter (\<lambda>m. m \<noteq> []) (map trim_space ms))))"
      using Cons.prems 3 by (intro Cons.IH) (auto simp: mgetd_mput)
    finally show ?thesis using 3 by simp
  qed (use Cons.IH [OF Cons.prems] Cons.prems(1) dup in \<open>simp_all add: Let_def\<close>)
qed

lemma trim_space_idem: "trim_space (trim_space s) = trim_space s"
proof -
  let ?d = "dropWhile is_space"
  define t where "t = rev (?d (rev (?d s)))"
  have "?d t = t"
  proof (cases "?d s")
    case (Cons c cs)
    then have c: "\<not> is_space c" by (metis hd_dropWhile list.distinct(1) list.sel(1))
    then have "?d (rev (?d s)) = ?d (rev cs) @ [c] \<or> ?d (rev (?d s)) = [c]"
      using Cons by (simp add: dropWhile_append)
    then show ?thesis using c by (auto simp: t_def)
  next
    case Nil
    then have "t = []" by (simp only: t_def) simp
    then show ?thesis by simp
  qed
  moreover have "rev (?d (rev t)) = t" by (simp add: t_def)
  ultimately show ?thesis by (simp add: trim_space_def t_def [symmetric])
qed

lemma distinct_messages_idem: "distinct_messages (distinct_messages ms) = distinct_messages ms"
proof -
  have "\<forall>m \<in> set (distinct_messages ms). m \<noteq> [] \<and> trim_space m = m"
    by (auto simp: distinct_messages_def trim_space_idem)
  then have "filter (\<lambda>m. m \<noteq> []) (map trim_space (distinct_messages ms)) = distinct_messages ms"
    by (simp add: map_idI)
  moreover have "distinct (rev (distinct_messages ms))" by (simp add: distinct_messages_def)
  ultimately show ?thesis
    by (simp add: distinct_messages_def [of "distinct_messages ms"] distinct_remdups_id del: distinct_rev)
qed

text \<open>The loop that drops repeated messages computes, for more than one message, the messages trimmed, the
  empty ones left out, each kept at its first place only; a single message is passed on as it is, even one that
  is blank.\<close>

theorem dedup_is_distinct:
  "dedupMessage ms = (if length ms \<le> 1 then ms else distinct_messages ms) \<and>
   distinct (dedupMessage ms) \<and> dedupMessage (dedupMessage ms) = dedupMessage ms"
proof -
  have eq: "dedupMessage ms = (if length ms \<le> 1 then ms else distinct_messages ms)" for ms
    using dedup_loop_eq [of "[]" "[]" ms] by (simp add: dedupMessage_def distinct_messages_def mgetd_def)
  have "distinct ms" if "length ms \<le> 1" using that by (cases ms) auto
  then show ?thesis by (auto simp: eq distinct_messages_idem) (simp add: distinct_messages_def)
qed

lemma mget_put_missing:
  "mget (if \<not> mhas m x \<and> b then mput x v m else m) k = (if k = x \<and> b \<and> mget m x = None then Some v else mget m k)"
  by (simp add: mhas_def mget_mput)

text \<open>The links the default formatter adds. A resource of a type with a version gets the link \<open>view\<close> to its
  Kubernetes path; a missing \<open>update\<close> link becomes that link if the collection methods of the schema have PUT, or
  else the word \<open>blocked\<close> if the resource methods have \<open>blocked-PUT\<close>, and a missing \<open>remove\<close> link becomes
  \<open>blocked\<close> if they have \<open>blocked-DELETE\<close>; links that were there, such as those the permissions gave, and all
  others stay. On the schemas made for a subject the methods of the collection never contain PUT, which is a method
  of the resource, so the first case never adds a link.\<close>

theorem formatter_links:
  "mget (format_links s u links) k =
    (if k = ''view'' then Some u
     else if k = ''update'' \<and> mget links k = None then
       (if ''PUT'' \<in> set (CollectionMethods s) then Some u
        else if ''blocked-PUT'' \<in> set (ResourceMethods s) then Some ''blocked'' else None)
     else if k = ''remove'' \<and> mget links k = None then
       (if ''blocked-DELETE'' \<in> set (ResourceMethods s) then Some ''blocked'' else None)
     else mget links k) \<and>
   (snd (subject_schema C access d) = Some s \<and> ''PUT'' \<notin> set (CollectionMethods d) \<longrightarrow> ''PUT'' \<notin> set (CollectionMethods s))"
proof
  show "mget (format_links s u links) k =
    (if k = ''view'' then Some u
     else if k = ''update'' \<and> mget links k = None then
       (if ''PUT'' \<in> set (CollectionMethods s) then Some u
        else if ''blocked-PUT'' \<in> set (ResourceMethods s) then Some ''blocked'' else None)
     else if k = ''remove'' \<and> mget links k = None then
       (if ''blocked-DELETE'' \<in> set (ResourceMethods s) then Some ''blocked'' else None)
     else mget links k)"
  proof -
    consider "k = ''view''" | "k = ''update''" | "k = ''remove''" | "k \<notin> {''view'', ''update'', ''remove''}" by blast
    then show ?thesis unfolding format_links_def Let_def mget_put_missing mget_mput by cases simp_all
  qed
  show "snd (subject_schema C access d) = Some s \<and> ''PUT'' \<notin> set (CollectionMethods d) \<longrightarrow> ''PUT'' \<notin> set (CollectionMethods s)"
    by (auto simp: subject_schema_def Let_def add_methods_set MethodGet_def MethodPost_def DeepCopy_def
        simp del: ByVerb_AnyVerb.simps split: if_splits)
qed

subsection \<open>Cutting the object down\<close>

text \<open>
  What is asked of the \<open>data\<close> package: removing a path leaves no value there and adds none elsewhere, and
  overwriting an entry that exists with a string adds no path.
\<close>

definition fields_ok :: "field_lib \<Rightarrow> bool" where
  "fields_ok F \<longleftrightarrow>
     (\<forall>m p. p \<noteq> [] \<longrightarrow> F_GetValue F (F_RemoveValue F m p) p = None) \<and>
     (\<forall>m p q. F_GetValue F m q = None \<longrightarrow> F_GetValue F (F_RemoveValue F m p) q = None) \<and>
     (\<forall>m p k o' q t. L_GetValueN F m p = JObj o' \<and> mhas o' k \<and> F_GetValue F m q = None \<longrightarrow>
        F_GetValue F (L_PutValue F m (JStr t) (p @ [k])) q = None \<and>
        (\<forall>k'. mhas o' k' \<longrightarrow> (\<exists>o''. L_GetValueN F (L_PutValue F m (JStr t) (p @ [k])) p = JObj o'' \<and> mhas o'' k')))"

lemma split_on_nonempty [simp]: "split_on c s \<noteq> []"
  by (induction s) (auto split: list.splits)

lemma remove_all_gone:
  assumes "fields_ok F"
  shows "(F_GetValue F m q = None \<or> q \<in> split_on CHR ''.'' ` set names) \<Longrightarrow>
    F_GetValue F (fold (\<lambda>f m. F_RemoveValue F m (split_on CHR ''.'' f)) names m) q = None"
proof (induction names arbitrary: m)
  case (Cons f names)
  then have "F_GetValue F (F_RemoveValue F m (split_on CHR ''.'' f)) q = None \<or> q \<in> split_on CHR ''.'' ` set names"
    using assms by (auto simp: fields_ok_def)
  from Cons.IH [OF this] show ?case by simp
qed simp

lemma put_existing_gone:
  assumes "fields_ok F" and "F_GetValue F m q = None" and "L_GetValueN F m p = JObj o'" and "\<forall>(k, v) \<in> set ks. mhas o' k"
  shows "F_GetValue F (fold (\<lambda>(k, _) m. L_PutValue F m (JStr []) (p @ [k])) ks m) q = None"
  using assms(2-)
proof (induction ks arbitrary: m o')
  case (Cons kv ks)
  obtain k v where kv: "kv = (k, v)" by (cases kv)
  let ?m = "L_PutValue F m (JStr []) (p @ [k])"
  have put: "F_GetValue F ?m q = None" "\<forall>k'. mhas o' k' \<longrightarrow> (\<exists>o''. L_GetValueN F ?m p = JObj o'' \<and> mhas o'' k')"
    using assms(1) Cons.prems kv unfolding fields_ok_def by auto
  then obtain o'' where o'': "L_GetValueN F ?m p = JObj o''" using Cons.prems kv by auto
  with put have "\<forall>(k, v) \<in> set ks. mhas o'' k" using Cons.prems by fastforce
  from Cons.IH [OF put(1) o'' this] kv show ?case by simp
qed simp

lemma exclude_value_gone:
  assumes "fields_ok F" and "F_GetValue F m q = None"
  shows "F_GetValue F (exclude_value F f m) q = None"
proof (cases "L_GetValueN F m (split_on CHR ''.'' f)")
  case (JObj o')
  have "\<forall>(k, v) \<in> set o'. mhas o' k" by (force simp: mhas_keys)
  from put_existing_gone [OF assms JObj this] JObj show ?thesis by (simp add: exclude_value_def Let_def)
qed (use assms(2) in \<open>simp_all add: exclude_value_def Let_def\<close>)

lemma exclude_values_gone:
  "fields_ok F \<Longrightarrow> F_GetValue F m q = None \<Longrightarrow> F_GetValue F (fold (exclude_value F) names m) q = None"
  by (induction names arbitrary: m) (simp_all add: exclude_value_gone)

subsection \<open>A library that keeps these laws\<close>

fun jfind :: "json \<Rightarrow> string list \<Rightarrow> json option" where
  "jfind v [] = Some v"
| "jfind (JObj m) (k # ks) = (case mget m k of None \<Rightarrow> None | Some x \<Rightarrow> jfind x ks)"
| "jfind _ (k # ks) = None"

fun jremove :: "obj \<Rightarrow> string list \<Rightarrow> obj" where
  "jremove m [] = m"
| "jremove m [k] = mdel k m"
| "jremove m (k # k2 # ks) =
     (case mget m k of Some (JObj m') \<Rightarrow> mput k (JObj (jremove m' (k2 # ks))) m | _ \<Rightarrow> m)"

lemma jfind_removed: "p \<noteq> [] \<Longrightarrow> jfind (JObj (jremove m p)) p = None"
  by (induction m p rule: jremove.induct) (auto simp: mget_mput mget_mdel split: option.splits json.splits)

lemma jfind_remove_adds_none: "jfind (JObj m) q = None \<Longrightarrow> jfind (JObj (jremove m p)) q = None"
proof (induction m p arbitrary: q rule: jremove.induct)
  case (2 m k)
  then show ?case by (cases q) (auto simp: mget_mdel split: option.splits)
next
  case (3 m k k2 ks)
  show ?case
  proof (cases q)
    case Nil
    with "3.prems" show ?thesis by simp
  next
    case (Cons a q')
    with 3 show ?thesis by (auto simp: mget_mput split: option.splits json.splits)
  qed
qed simp

lemma jfind_put_existing:
  "jget (JObj m) p = JObj o' \<Longrightarrow> mhas o' k \<Longrightarrow> jfind (JObj m) q = None \<Longrightarrow>
   jfind (JObj (jset m (JStr t) (p @ [k]))) q = None"
proof (induction p arbitrary: m q)
  case Nil
  then show ?case by (cases q; cases "tl q") (auto simp: mget_mput mhas_def split: option.splits)
next
  case (Cons a p)
  then obtain m' where m': "mget m a = Some (JObj m')" "jget (JObj m') p = JObj o'"
    by (cases p) (auto split: option.splits elim: jget.elims)
  show ?case
  proof (cases q)
    case Nil
    with Cons.prems show ?thesis by simp
  next
    case q: (Cons b q')
    have "jset m (JStr t) ((a # p) @ [k]) = mput a (JObj (jset m' (JStr t) (p @ [k]))) m"
      using m' by (cases "p @ [k]") (simp_all add: jobj_def)
    then show ?thesis using Cons.IH [OF m'(2) Cons.prems(2), of q'] Cons.prems(3) m' q by (auto simp: mget_mput)
  qed
qed

lemma jget_put_existing:
  "jget (JObj m) p = JObj o' \<Longrightarrow> jget (JObj (jset m v (p @ [k]))) p = JObj (mput k v o')"
proof (induction p arbitrary: m)
  case (Cons a p)
  then obtain m' where m': "mget m a = Some (JObj m')" "jget (JObj m') p = JObj o'"
    by (cases p) (auto split: option.splits elim: jget.elims)
  have "jset m v ((a # p) @ [k]) = mput a (JObj (jset m' v (p @ [k]))) m"
    using m' by (cases "p @ [k]") (simp_all add: jobj_def)
  with Cons.IH [OF m'(2)] show ?case by (simp add: mget_mput)
qed simp

definition field_lib_std :: field_lib where
  "field_lib_std = lib.extend lib_std
     \<lparr>F_GetValue = (\<lambda>m. jfind (JObj m)), F_RemoveValue = jremove,
      F_Slice = (\<lambda>m p. case jget (JObj m) p of JArr xs \<Rightarrow> concat (map (\<lambda>x. case x of JObj c \<Rightarrow> [c] | _ \<Rightarrow> []) xs) | _ \<Rightarrow> []),
      F_Set = (\<lambda>m k v. mput k v m), F_Summarizers = [], F_ConditionSummarizers = [],
      F_Accessor = (\<lambda>p. case p of Some (Unstr m) \<Rightarrow> Some (L_GetNamespace lib_std m, L_GetName lib_std m) | _ \<Rightarrow> None)\<rparr>"

lemma field_lib_std_ok: "fields_ok field_lib_std"
proof -
  have parts: "F_GetValue field_lib_std = (\<lambda>m. jfind (JObj m))" "F_RemoveValue field_lib_std = jremove"
    "L_GetValueN field_lib_std = (\<lambda>m. jget (JObj m))" "L_PutValue field_lib_std = jset"
    by (simp_all add: field_lib_std_def lib_std_def lib.defs)
  show ?thesis unfolding fields_ok_def parts
    by (auto simp: jfind_removed jfind_remove_adds_none jfind_put_existing jget_put_existing mhas_mput)
qed

text \<open>What the query excludes is gone. However the summarizers, the conditions and the query's \<open>include\<close> fill
  the object, the formatted object has no value at any path the query excludes and none at
  \<open>metadata.managedFields\<close>; blanking values under other paths at the end brings none back.\<close>

theorem excluded_fields_gone:
  assumes "fields_ok F"
    and "p = [''metadata'', ''managedFields''] \<or> (\<exists>names f. mget q ''exclude'' = Some names \<and> f \<in> set names \<and> p = split_on CHR ''.'' f)"
  shows "F_GetValue F (format_object F q m) p = None"
proof -
  have blanked: "F_GetValue F (excludeValues F q x) p = None" if "F_GetValue F x p = None" for x
    using that exclude_values_gone [OF assms(1)] by (simp add: excludeValues_def split: option.splits)
  have "F_GetValue F (excludeFields F q (excludeManagedFields F x)) p = None" for x
  proof (cases "mget q ''exclude''")
    case None
    then show ?thesis using assms by (simp add: excludeFields_def excludeManagedFields_def fields_ok_def)
  next
    case (Some names)
    then have "F_GetValue F (excludeManagedFields F x) p = None \<or> p \<in> split_on CHR ''.'' ` set names"
      using assms by (auto simp: excludeManagedFields_def fields_ok_def)
    from remove_all_gone [OF assms(1) this] Some show ?thesis by (simp add: excludeFields_def)
  qed
  then show ?thesis unfolding format_object_def Let_def by (intro blanked)
qed

lemma excluded_fields_gone_witness:
  "F_GetValue field_lib_std (format_object field_lib_std [(''exclude'', [''spec.a''])]
     [(''spec'', JObj [(''a'', JNum 1), (''b'', JNum 2)])]) [''spec'', ''a''] = None \<and>
   F_GetValue field_lib_std [(''spec'', JObj [(''a'', JNum 1), (''b'', JNum 2)])] [''spec'', ''a''] = Some (JNum 1)"
proof -
  have "split_on CHR ''.'' ''spec.a'' = [''spec'', ''a'']" by code_simp
  moreover have "F_GetValue field_lib_std [(''spec'', JObj [(''a'', JNum 1), (''b'', JNum 2)])] [''spec'', ''a''] = Some (JNum 1)"
    by (simp add: field_lib_std_def lib.defs)
  ultimately show ?thesis
    using excluded_fields_gone [OF field_lib_std_ok, of "[''spec'', ''a'']" "[(''exclude'', [''spec.a''])]"] by simp
qed

lemma formatter_links_witness:
  "\<exists>t. snd (subject_schema convert_std ex_set1 ex_pod_schema) = Some t \<and> ''PUT'' \<notin> set (CollectionMethods t) \<and>
     mget (format_links t ''/api/v1/pods/x'' []) ''update'' = None"
proof -
  have "case snd (subject_schema convert_std ex_set1 ex_pod_schema) of None \<Rightarrow> False
      | Some t \<Rightarrow> ''blocked-PUT'' \<notin> set (ResourceMethods t)" by code_simp
  then obtain t where t: "snd (subject_schema convert_std ex_set1 ex_pod_schema) = Some t" "''blocked-PUT'' \<notin> set (ResourceMethods t)"
    by (auto split: option.splits)
  moreover have "''PUT'' \<notin> set (CollectionMethods ex_pod_schema)" by code_simp
  ultimately show ?thesis
    using formatter_links [of t "''/api/v1/pods/x''" "[]" "''update''" convert_std ex_set1 ex_pod_schema] by auto
qed

end
