(* ===== verification/Wiring.thy ===== *)
theory Wiring
  imports Simple_Stores Subscribe Schema_Factory Auth_Proxy Schema_Store
begin

section \<open>Putting the server together: pkg/server, builtin/schema.go, resources/schema.go, subscribe/register.go\<close>

text \<open>
  The schemas that every server has, and how the handlers are chosen. Handlers, formatters and stores are names of
  functions, as in the theories of the components. A call of \<^verbatim>\<open>logrus.Fatalf\<close> or a panic is the error of the
  result. \<open>imp\<close> is the import of a Go type by the schemer package. The routes are in the theory \<open>Router\<close>, the
  construction of clients and controllers in \<open>Server_Setup\<close>.
\<close>

subsection \<open>Importing schemas: types/schemas.go\<close>

text \<open>
  \<open>addInternalSchema\<close> adds a schema and those its fields refer to, as far as they are known internally. Every
  call adds one more id, which bounds the depth.
\<close>

fun add_fields :: "(schema \<Rightarrow> api_schemas \<Rightarrow> api_schemas option) \<Rightarrow> (string, field) gomap \<Rightarrow> api_schemas \<Rightarrow> api_schemas option" where
  "add_fields add [] a = Some a"
| "add_fields add ((_, f) # fs) a =
     (case mget (InternalSchemas a) (f_Type f) of
        None \<Rightarrow> add_fields add fs a
      | Some subType \<Rightarrow>
          if mhas (Schemas a) (ID subType) then add_fields add fs a
          else (case add subType a of None \<Rightarrow> None | Some a \<Rightarrow> add_fields add fs a))"

fun addInternalSchema :: "nat \<Rightarrow> schema \<Rightarrow> api_schemas \<Rightarrow> api_schemas option" where
  "addInternalSchema 0 s a = None"
| "addInternalSchema (Suc n) s a =
     add_fields (addInternalSchema n) (ResourceFields s)
       (addToIndex (mk_api_schema s) (a\<lparr>Schemas := mput (ID s) (mk_api_schema s) (Schemas a)\<rparr>))"

type_synonym importer = "internal_schemas \<Rightarrow> go_err + schema \<times> internal_schemas"

definition import_fuel :: "internal_schemas \<Rightarrow> nat" where
  "import_fuel ints = Suc (length ints)"

definition Import :: "importer \<Rightarrow> api_schemas \<Rightarrow> (go_err + api_schemas) option" where
  "Import imp a =
     (case imp (InternalSchemas a) of
        Inl err \<Rightarrow> Some (Inl err)
      | Inr (s, ints) \<Rightarrow> map_option Inr (addInternalSchema (import_fuel ints) s (a\<lparr>InternalSchemas := ints\<rparr>)))"

text \<open>
  The customization changes the schema that was just added in place. Whether the schemer package keeps the same
  pointer cannot be seen here; nothing in the repository reads it from there before it is added again.
\<close>

definition customize_entry :: "string \<Rightarrow> (api_schema \<Rightarrow> api_schema) \<Rightarrow> api_schemas \<Rightarrow> api_schemas" where
  "customize_entry i f a =
     (case mget (Schemas a) i of
        None \<Rightarrow> a
      | Some s \<Rightarrow> a\<lparr>Schemas := mput i (f s) (Schemas a)\<rparr>)"

definition MustImportAndCustomize :: "importer \<Rightarrow> (api_schema \<Rightarrow> api_schema) \<Rightarrow> api_schemas \<Rightarrow> (go_err + api_schemas) option" where
  "MustImportAndCustomize imp f a =
     (case imp (InternalSchemas a) of
        Inl err \<Rightarrow> Some (Inl err)
      | Inr (s, ints) \<Rightarrow>
          map_option (\<lambda>a. Inr (customize_entry (ID s) f a)) (addInternalSchema (import_fuel ints) s (a\<lparr>InternalSchemas := ints\<rparr>)))"

subsection \<open>builtin/schema.go\<close>

definition string_fields :: "string \<Rightarrow> string list \<Rightarrow> (string, field) gomap" where
  "string_fields t names = map (\<lambda>n. (n, typed_field t)) names"

definition builtin_Schema :: "func \<Rightarrow> func \<Rightarrow> api_schema" where
  "builtin_Schema formatter store =
     (mk_api_schema (empty_schema\<lparr>ID := ''schema'', PluralName := ''schemas'', CollectionMethods := [''GET''], ResourceMethods := [''GET''],
        ResourceFields := string_fields ''map[json]'' [''collectionActions'', ''collectionFields'', ''collectionFilters'',
            ''resourceActions'', ''attributes'', ''resourceFields'', ''version''] @
          string_fields ''array[string]'' [''collectionMethods'', ''resourceMethods''] @ string_fields ''string'' [''pluralName'']\<rparr>))
     \<lparr>Formatter := Some (Fmt formatter), Store := Some store\<rparr>"

definition builtin_Error :: api_schema where
  "builtin_Error = mk_api_schema (empty_schema\<lparr>ID := ''error'',
     ResourceFields := string_fields ''string'' [''code'', ''detail'', ''message'', ''fieldName''] @ string_fields ''int'' [''status'']\<rparr>)"

definition builtin_Collection :: api_schema where
  "builtin_Collection = mk_api_schema (empty_schema\<lparr>ID := ''collection'',
     ResourceFields := string_fields ''array[json]'' [''data''] @ string_fields ''map[json]'' [''pagination'', ''sort'', ''filters'']\<rparr>)"

fun add_all :: "add_internal \<Rightarrow> api_schema list \<Rightarrow> api_schemas \<Rightarrow> go_err + api_schemas" where
  "add_all add [] a = Inr a"
| "add_all add (s # ss) a = (case AddSchema add a s of Inl err \<Rightarrow> Inl err | Inr a \<Rightarrow> add_all add ss a)"

definition builtin_Schemas :: "add_internal \<Rightarrow> func \<Rightarrow> func \<Rightarrow> go_err + api_schemas" where
  "builtin_Schemas add formatter store =
     add_all add [builtin_Schema formatter store, builtin_Error, builtin_Collection] EmptyAPISchemas"

definition schema_CollectionLink :: "url_builder \<Rightarrow> api_schema option \<Rightarrow> string" where
  "schema_CollectionLink u s =
     (case s of
        None \<Rightarrow> []
      | Some s \<Rightarrow>
          if MethodGet \<in> set (CollectionMethods s) \<or> MethodPost \<in> set (CollectionMethods s) then CollectionURL u s else [])"

definition SchemaFormatter :: "url_builder \<Rightarrow> api_schema option \<Rightarrow> (string, string) gomap \<Rightarrow> (string, string) gomap" where
  "SchemaFormatter u s links =
     (let collectionLink = schema_CollectionLink u s in if collectionLink \<noteq> [] then mput ''collection'' collectionLink links else links)"

subsection \<open>resources/schema.go and subscribe/register.go\<close>

text \<open>The getter of a subscription: the schemas of the user now, or else those of the request.\<close>

definition DefaultSchemas_getter :: "(user \<Rightarrow> go_err + api_schemas) \<Rightarrow> api_request \<Rightarrow> api_schemas option" where
  "DefaultSchemas_getter factory op =
     (case (case op_Request op of None \<Rightarrow> None | Some r \<Rightarrow> rq_User r) of
        None \<Rightarrow> op_Schemas op
      | Some user \<Rightarrow> (case factory user of Inr schemas \<Rightarrow> Some schemas | Inl _ \<Rightarrow> op_Schemas op))"

definition subscribe_Register :: "importer \<Rightarrow> func \<Rightarrow> api_schemas \<Rightarrow> (go_err + api_schemas) option" where
  "subscribe_Register imp handler a =
     MustImportAndCustomize imp
       (\<lambda>s. s\<lparr>CollectionMethods := [MethodGet], ResourceMethods := [], ListHandler := Some handler, PluralName := ''subscribe''\<rparr>) a"

subsection \<open>server.go\<close>

record wiring =
  wi_imp :: importer
  wi_add :: add_internal
  wi_subscribe_handler :: func
  wi_root_formatter :: func
  wi_root_store :: func
  wi_schema_formatter :: func
  wi_schema_store :: func
  wi_schema_watch_store :: func

text \<open>What \<open>setup\<close> puts into the base schemas: \<open>DefaultSchemas\<close>, then \<open>SetupWatcher\<close>.\<close>

definition DefaultSchemas :: "wiring \<Rightarrow> api_schemas \<Rightarrow> (go_err + api_schemas) option" where
  "DefaultSchemas W a =
     (case subscribe_Register (wi_imp W) (wi_subscribe_handler W) a of
        None \<Rightarrow> None
      | Some (Inl err) \<Rightarrow> Some (Inl err)
      | Some (Inr a) \<Rightarrow>
          Some (AddSchema (wi_add W) a (api_root_schema\<lparr>Formatter := Some (Fmt (wi_root_formatter W)), Store := Some (wi_root_store W)\<rparr>)))"

definition SetupWatcher :: "wiring \<Rightarrow> api_schemas \<Rightarrow> go_err + api_schemas" where
  "SetupWatcher W a = AddSchema (wi_add W) a ((builtin_Schema (wi_schema_formatter W) (wi_schema_store W))\<lparr>Store := Some (wi_schema_watch_store W)\<rparr>)"

definition setup_base :: "wiring \<Rightarrow> api_schemas \<Rightarrow> (go_err + api_schemas) option" where
  "setup_base W a =
     (case DefaultSchemas W a of
        None \<Rightarrow> None
      | Some (Inl err) \<Rightarrow> Some (Inl err)
      | Some (Inr a) \<Rightarrow> Some (SetupWatcher W a))"

definition defaultAPIServer :: "wiring \<Rightarrow> (go_err + server) option" where
  "defaultAPIServer W =
     (case builtin_Schemas (wi_add W) (wi_schema_formatter W) (wi_schema_store W) of
        Inl err \<Rightarrow> Some (Inl err)
      | Inr b \<Rightarrow>
          (case AddSchemas (wi_add W) EmptyAPISchemas b of
             Inl err \<Rightarrow> Some (Inl err)
           | Inr a \<Rightarrow>
               (case subscribe_Register (wi_imp W) (wi_subscribe_handler W) a of
                  None \<Rightarrow> None
                | Some (Inl err) \<Rightarrow> Some (Inl err)
                | Some (Inr a) \<Rightarrow>
                    Some (Inr \<lparr>srv_ResponseWriters = map (\<lambda>f. (f, f)) [''json'', ''jsonl'', ''html'', ''yaml''], srv_Schemas = a\<rparr>))))"

subsection \<open>apiserver.go: New\<close>

text \<open>The middleware in use and what the proxied paths lead to.\<close>

record proxy_choice =
  pc_auth :: "http_request \<Rightarrow> http_request"
  pc_proxy :: "http_request \<Rightarrow> proxied"

definition New_proxy :: "proxy_env \<Rightarrow> proxy_config \<Rightarrow> (http_request \<Rightarrow> http_request) option \<Rightarrow> go_err + proxy_choice" where
  "New_proxy E cfg authMiddleware =
     (case authMiddleware of
        None \<Rightarrow>
          (case Proxy_Handler E ''/'' cfg of
             Inl err \<Rightarrow> Inl err
           | Inr handler \<Rightarrow> Inr \<lparr>pc_auth = ToMiddleware AlwaysAdmin, pc_proxy = (\<lambda>r. Forwarded cfg (handler r))\<rparr>)
      | Some w \<Rightarrow> Inr \<lparr>pc_auth = w, pc_proxy = ImpersonatingHandler E ''/'' cfg\<rparr>)"

definition K8sProxy :: "proxy_choice \<Rightarrow> http_request \<Rightarrow> proxied" where
  "K8sProxy p r = pc_proxy p (pc_auth p r)"

section \<open>Imports end and are closed\<close>

definition keys :: "('k, 'v) gomap \<Rightarrow> 'k set" where
  "keys m = set (map fst m)"

lemma keys_iff: "k \<in> keys m \<longleftrightarrow> mhas m k"
  by (simp add: keys_def mhas_keys)

lemma keys_put [simp]: "keys (mput k v m) = insert k (keys m)"
  by (simp only: keys_def keys_mput)

lemma keys_finite [simp]: "finite (keys m)"
  by (simp add: keys_def)

definition internal_ok :: "internal_schemas \<Rightarrow> bool" where
  "internal_ok ints \<longleftrightarrow> (\<forall>t s. mget ints t = Some s \<longrightarrow> ID s = t)"

text \<open>The schemas after an addition: old entries stay, new ones are internal, and what they refer to is there.\<close>

definition closed_in :: "internal_schemas \<Rightarrow> string set \<Rightarrow> (string, field) gomap \<Rightarrow> bool" where
  "closed_in ints ks fs \<longleftrightarrow> (\<forall>(_, f) \<in> set fs. f_Type f \<in> keys ints \<longrightarrow> f_Type f \<in> ks)"

definition extends :: "internal_schemas \<Rightarrow> api_schemas \<Rightarrow> api_schemas \<Rightarrow> bool" where
  "extends ints a a' \<longleftrightarrow> InternalSchemas a' = ints \<and> keys (Schemas a) \<subseteq> keys (Schemas a') \<and>
     keys (Schemas a') \<subseteq> keys (Schemas a) \<union> keys ints \<and>
     (\<forall>i \<in> keys (Schemas a). mget (Schemas a') i = mget (Schemas a) i) \<and>
     (\<forall>i s. mget (Schemas a') i = Some s \<and> i \<notin> keys (Schemas a) \<longrightarrow> closed_in ints (keys (Schemas a')) (ResourceFields s))"

lemma closed_in_mono: "closed_in ints ks fs \<Longrightarrow> ks \<subseteq> ks' \<Longrightarrow> closed_in ints ks' fs"
  by (auto simp: closed_in_def)

lemma extends_refl: "InternalSchemas a = ints \<Longrightarrow> extends ints a a"
  by (auto simp: extends_def keys_iff mhas_def)

lemma extends_trans:
  assumes "extends ints a b" and "extends ints b c"
  shows "extends ints a c"
proof -
  have "closed_in ints (keys (Schemas c)) (ResourceFields s)"
    if "mget (Schemas c) i = Some s" "i \<notin> keys (Schemas a)" for i s
  proof (cases "i \<in> keys (Schemas b)")
    case True
    then have "mget (Schemas b) i = Some s" using assms(2) that(1) by (auto simp: extends_def)
    then show ?thesis using assms that(2) closed_in_mono by (fastforce simp: extends_def)
  qed (use assms(2) that(1) in \<open>auto simp: extends_def\<close>)
  with assms show ?thesis by (auto simp: extends_def)
qed

lemma mk_api_schema_fields [simp]: "ResourceFields (mk_api_schema s) = ResourceFields s"
  by (cases s) (simp add: mk_api_schema_def schema.defs)

lemma extends_new:
  assumes "extends ints (a\<lparr>Schemas := mput i x (Schemas a)\<rparr>) b" and "i \<notin> keys (Schemas a)" and "i \<in> keys ints"
    and "mget (Schemas b) i = Some x" and "closed_in ints (keys (Schemas b)) (ResourceFields x)"
  shows "extends ints a b"
proof -
  have "mget (Schemas b) j = mget (Schemas a) j" if "j \<in> keys (Schemas a)" for j
    using assms(1,2) that by (auto simp: extends_def mget_mput split: if_splits)
  moreover have "closed_in ints (keys (Schemas b)) (ResourceFields s)"
    if "mget (Schemas b) j = Some s" "j \<notin> keys (Schemas a)" for j s
    using assms that by (cases "j = i") (auto simp: extends_def)
  moreover have "keys (Schemas a) \<subseteq> keys (Schemas b)" "keys (Schemas b) \<subseteq> keys (Schemas a) \<union> keys ints" "InternalSchemas b = ints"
    using assms(1,3) by (auto simp: extends_def)
  ultimately show ?thesis unfolding extends_def by blast
qed

definition adds_below :: "internal_schemas \<Rightarrow> nat \<Rightarrow> bool" where
  "adds_below ints n \<longleftrightarrow>
     (\<forall>s a. InternalSchemas a = ints \<and> card (keys ints - insert (ID s) (keys (Schemas a))) < n \<longrightarrow>
        (\<exists>a'. addInternalSchema n s a = Some a' \<and> mget (Schemas a') (ID s) = Some (mk_api_schema s) \<and>
           closed_in ints (keys (Schemas a')) (ResourceFields s) \<and>
           extends ints (a\<lparr>Schemas := mput (ID s) (mk_api_schema s) (Schemas a)\<rparr>) a'))"

lemma add_fields_total:
  assumes "adds_below ints n" and "internal_ok ints"
  shows "InternalSchemas a = ints \<Longrightarrow> card (keys ints - keys (Schemas a)) \<le> n \<Longrightarrow>
    \<exists>a'. add_fields (addInternalSchema n) fs a = Some a' \<and> extends ints a a' \<and> closed_in ints (keys (Schemas a')) fs"
proof (induction fs arbitrary: a)
  case Nil
  then show ?case by (simp add: extends_refl closed_in_def)
next
  case (Cons e fs)
  obtain nm f where e: "e = (nm, f)" by (cases e)
  have step: "\<exists>a1. add_fields (addInternalSchema n) (e # fs) a = add_fields (addInternalSchema n) fs a1 \<and> extends ints a a1 \<and>
      (f_Type f \<in> keys ints \<longrightarrow> f_Type f \<in> keys (Schemas a1))"
  proof (cases "mget ints (f_Type f)")
    case None
    then show ?thesis using Cons.prems(1) e by (intro exI [of _ a]) (simp add: extends_refl keys_iff mhas_def)
  next
    case (Some t)
    then have t: "ID t = f_Type f" using assms(2) by (simp add: internal_ok_def)
    show ?thesis
    proof (cases "mhas (Schemas a) (ID t)")
      case True
      then show ?thesis using Cons.prems(1) e Some t by (intro exI [of _ a]) (simp add: extends_refl keys_iff)
    next
      case False
      have "ID t \<in> keys ints" using Some t by (simp add: keys_iff mhas_def)
      moreover have new: "ID t \<notin> keys (Schemas a)" using False by (simp add: keys_iff)
      ultimately have "keys ints - insert (ID t) (keys (Schemas a)) \<subset> keys ints - keys (Schemas a)" by blast
      then have "card (keys ints - insert (ID t) (keys (Schemas a))) < card (keys ints - keys (Schemas a))"
        by (intro psubset_card_mono) simp_all
      then have "card (keys ints - insert (ID t) (keys (Schemas a))) < n"
        using Cons.prems(2) by (rule less_le_trans)
      then obtain a1 where a1: "addInternalSchema n t a = Some a1" "mget (Schemas a1) (ID t) = Some (mk_api_schema t)"
        "closed_in ints (keys (Schemas a1)) (ResourceFields t)"
        "extends ints (a\<lparr>Schemas := mput (ID t) (mk_api_schema t) (Schemas a)\<rparr>) a1"
        using assms(1) Cons.prems(1) unfolding adds_below_def by blast
      have "ID t \<in> keys ints" using Some t by (simp add: keys_iff mhas_def)
      then have "extends ints a a1"
        using a1(2,3) new by (intro extends_new [OF a1(4)]) simp_all
      moreover have "add_fields (addInternalSchema n) (e # fs) a = add_fields (addInternalSchema n) fs a1"
        using Cons.prems(1) e Some False a1(1) by simp
      moreover have "f_Type f \<in> keys (Schemas a1)" using a1(2) t by (simp add: keys_iff mhas_def)
      ultimately show ?thesis by blast
    qed
  qed
  then obtain a1 where a1: "add_fields (addInternalSchema n) (e # fs) a = add_fields (addInternalSchema n) fs a1"
    "extends ints a a1" "f_Type f \<in> keys ints \<longrightarrow> f_Type f \<in> keys (Schemas a1)" by blast
  have "InternalSchemas a1 = ints" using a1(2) by (simp add: extends_def)
  moreover have "card (keys ints - keys (Schemas a1)) \<le> card (keys ints - keys (Schemas a))"
    using a1(2) by (intro card_mono) (auto simp: extends_def)
  ultimately obtain a2 where a2: "add_fields (addInternalSchema n) fs a1 = Some a2" "extends ints a1 a2"
    "closed_in ints (keys (Schemas a2)) fs" using Cons.IH [of a1] Cons.prems(2) by auto
  have "closed_in ints (keys (Schemas a2)) (e # fs)"
    using a2(2,3) a1(3) e by (auto simp: closed_in_def extends_def)
  with a1 a2 show ?case using extends_trans by auto
qed

lemma adds_below_all:
  assumes "internal_ok ints"
  shows "adds_below ints n"
proof (induction n)
  case 0
  then show ?case by (simp add: adds_below_def)
next
  case (Suc n)
  show ?case unfolding adds_below_def
  proof (intro allI impI)
    fix s :: schema and a :: api_schemas assume a: "InternalSchemas a = ints \<and> card (keys ints - insert (ID s) (keys (Schemas a))) < Suc n"
    let ?put = "a\<lparr>Schemas := mput (ID s) (mk_api_schema s) (Schemas a)\<rparr>"
    let ?start = "addToIndex (mk_api_schema s) ?put"
    have "InternalSchemas ?start = ints" "card (keys ints - keys (Schemas ?start)) \<le> n"
      using a by (simp_all add: addToIndex_def)
    from add_fields_total [OF Suc assms this, of "ResourceFields s"] obtain a' where
      a': "add_fields (addInternalSchema n) (ResourceFields s) ?start = Some a'" "extends ints ?start a'"
      "closed_in ints (keys (Schemas a')) (ResourceFields s)" by blast
    have "mget (Schemas a') (ID s) = Some (mk_api_schema s)"
      using a'(2) by (auto simp: extends_def addToIndex_def keys_iff mhas_def mget_mput)
    moreover have "extends ints ?put a'" using a'(2) by (auto simp: extends_def addToIndex_def)
    ultimately show "\<exists>a'. addInternalSchema (Suc n) s a = Some a' \<and> mget (Schemas a') (ID s) = Some (mk_api_schema s) \<and>
        closed_in ints (keys (Schemas a')) (ResourceFields s) \<and> extends ints ?put a'"
      using a' by (intro exI [of _ a']) simp
  qed
qed

text \<open>C37. Importing a type ends and brings all it needs. When the internal schemas are filed under their ids, the
  recursion of \<open>addInternalSchema\<close> returns, also when types refer to each other in cycles: the imported schema is
  in the collection, nothing that was there under another id is changed, only internal schemas are added, and for
  the imported schema and each added one, every internal schema that a field has as its type is there too.\<close>

theorem import_returns:
  assumes "imp (InternalSchemas a) = Inr (s, ints)" and "internal_ok ints"
  shows "\<exists>a'. Import imp a = Some (Inr a') \<and> mget (Schemas a') (ID s) = Some (mk_api_schema s) \<and>
    (\<forall>i. i \<noteq> ID s \<and> mhas (Schemas a) i \<longrightarrow> mget (Schemas a') i = mget (Schemas a) i) \<and>
    (\<forall>i. mhas (Schemas a') i \<longrightarrow> i = ID s \<or> mhas (Schemas a) i \<or> mhas ints i) \<and>
    (\<forall>i t n f. mget (Schemas a') i = Some t \<and> (i = ID s \<or> \<not> mhas (Schemas a) i) \<and> (n, f) \<in> set (ResourceFields t) \<and>
       mhas ints (f_Type f) \<longrightarrow> mhas (Schemas a') (f_Type f))"
proof -
  let ?start = "a\<lparr>InternalSchemas := ints\<rparr>"
  let ?put = "?start\<lparr>Schemas := mput (ID s) (mk_api_schema s) (Schemas ?start)\<rparr>"
  have "card (keys ints - insert (ID s) (keys (Schemas ?start))) \<le> card (keys ints)"
    by (intro card_mono) auto
  also have "\<dots> \<le> length ints" unfolding keys_def by (metis card_length length_map)
  finally have "card (keys ints - insert (ID s) (keys (Schemas ?start))) < import_fuel ints"
    by (simp add: import_fuel_def)
  then have "InternalSchemas ?start = ints \<and> card (keys ints - insert (ID s) (keys (Schemas ?start))) < import_fuel ints"
    by simp
  from adds_below_all [OF assms(2), unfolded adds_below_def, THEN spec, THEN spec, THEN mp, OF this] obtain a' where
    a': "addInternalSchema (import_fuel ints) s ?start = Some a'" "mget (Schemas a') (ID s) = Some (mk_api_schema s)"
      "closed_in ints (keys (Schemas a')) (ResourceFields s)" "extends ints ?put a'" by blast
  have "Import imp a = Some (Inr a')" using assms(1) a'(1) by (simp add: Import_def)
  moreover have "mget (Schemas a') i = mget (Schemas a) i" if "i \<noteq> ID s" "mhas (Schemas a) i" for i
    using a'(4) that by (auto simp: extends_def keys_iff mget_mput)
  moreover have "i = ID s \<or> mhas (Schemas a) i \<or> mhas ints i" if "mhas (Schemas a') i" for i
    using a'(4) that unfolding extends_def by (auto simp: keys_iff [symmetric])
  moreover have "mhas (Schemas a') (f_Type f)"
    if "mget (Schemas a') i = Some t" "i = ID s \<or> \<not> mhas (Schemas a) i" "(n, f) \<in> set (ResourceFields t)" "mhas ints (f_Type f)"
    for i t n f
  proof -
    have "closed_in ints (keys (Schemas a')) (ResourceFields t)"
      using that(1,2) a'(2-4) by (cases "i = ID s") (auto simp: extends_def keys_iff mhas_mput)
    with that(3,4) show ?thesis by (auto simp: closed_in_def keys_iff)
  qed
  ultimately show ?thesis using a'(2) by blast
qed

text \<open>Without an authentication middleware everybody is an administrator. The handlers are then given the user
  \<open>admin\<close> of the group \<^verbatim>\<open>system:masters\<close> for every request, and every request for a proxied path is forwarded with
  the server's own credentials, whatever the client sent; with a middleware, a proxied request goes through the
  impersonating handler with the user that the middleware found.\<close>

theorem no_auth_is_admin:
  assumes "New_proxy E cfg mw = Inr p"
  shows "case mw of
      None \<Rightarrow> \<exists>u. rq_User (pc_auth p r) = Some u \<and> u_Name u = ''admin'' \<and> ''system:masters'' \<in> set (u_Groups u) \<and>
        (\<exists>r'. K8sProxy p r = Forwarded cfg r')
    | Some w \<Rightarrow> pc_auth p r = w r \<and> K8sProxy p r = ImpersonatingHandler E ''/'' cfg (w r)"
  using assms
  by (auto simp: New_proxy_def K8sProxy_def ToMiddleware_def AlwaysAdmin_def split: option.splits sum.splits)

definition ex_subscribe_type :: schema where
  "ex_subscribe_type = empty_schema\<lparr>ID := ''subscribe'', ResourceFields := [(''stop'', typed_field ''boolean'')]\<rparr>"

definition ex_wiring :: wiring where
  "ex_wiring = \<lparr>wi_imp = (\<lambda>ints. Inr (ex_subscribe_type, mput ''subscribe'' ex_subscribe_type ints)), wi_add = add_plain,
     wi_subscribe_handler = 0, wi_root_formatter = 1, wi_root_store = 2, wi_schema_formatter = 3, wi_schema_store = 4,
     wi_schema_watch_store = 5\<rparr>"

definition ex_cyclic :: internal_schemas where
  "ex_cyclic = [(''a'', empty_schema\<lparr>ID := ''a'', ResourceFields := [(''x'', typed_field ''b'')]\<rparr>),
     (''b'', empty_schema\<lparr>ID := ''b'', ResourceFields := [(''y'', typed_field ''a'')]\<rparr>)]"

lemma import_returns_witness:
  "\<exists>a'. Import (\<lambda>_. Inr (snd (hd ex_cyclic), ex_cyclic)) EmptyAPISchemas = Some (Inr a') \<and> mhas (Schemas a') ''b''"
proof -
  have ok: "internal_ok ex_cyclic" by (simp add: internal_ok_def ex_cyclic_def)
  have "(''x'', typed_field ''b'') \<in> set (ResourceFields (mk_api_schema (snd (hd ex_cyclic))))" "ID (snd (hd ex_cyclic)) = ''a''"
    "mhas ex_cyclic ''b''" by (simp_all add: ex_cyclic_def mhas_def)
  with import_returns [OF _ ok, of "\<lambda>_. Inr (snd (hd ex_cyclic), ex_cyclic)" EmptyAPISchemas "snd (hd ex_cyclic)"]
  show ?thesis by (metis typed_field_type)
qed

lemma no_auth_is_admin_witness:
  "\<exists>p r'. New_proxy ex_proxy_env ex_proxy_config None = Inr p \<and> K8sProxy p new_request = Forwarded ex_proxy_config r'"
proof -
  have "\<exists>p. New_proxy ex_proxy_env ex_proxy_config None = Inr p"
    by (simp add: New_proxy_def Proxy_Handler_def makeUpgradeTransport_def ex_proxy_env_def Let_def)
  then obtain p where p: "New_proxy ex_proxy_env ex_proxy_config None = Inr p" by blast
  with no_auth_is_admin [OF p, of new_request] show ?thesis by auto
qed

end
