(* ===== verification/Default_Store.thy ===== *)
theory Default_Store
  imports Server_Handler Rbac_Partition
begin

section \<open>The store of discovered types, assembled: NewProxyStore and partition/store.go\<close>

text \<open>
  \<open>NewProxyStore\<close> wraps the proxy store in the partitioned store, the watch refresher and the error store. What
  the partitioned store does with single objects is here; how it lists is the theory \<open>Listing\<close>, an argument
  here. The result is a store as the request handlers use it. A Go call returns an object and an error;
  its caller takes the object only without an error.
\<close>

definition getStore :: "string \<Rightarrow> go_err + partition" where
  "getStore verb = Lookup verb"

definition partition_ByID :: "'w proxy \<Rightarrow> 'w \<Rightarrow> api_request \<Rightarrow> 'a schema_scheme \<Rightarrow> string \<Rightarrow> payload api_object \<times> go_err option" where
  "partition_ByID px w op s i =
     (case getStore ''get'' of Inl err \<Rightarrow> (empty_object, Some err) | Inr _ \<Rightarrow> proxy_ByID px w op s i)"

definition partition_Create :: "'w proxy \<Rightarrow> 'w \<Rightarrow> api_request \<Rightarrow> 'a schema_scheme \<Rightarrow> payload api_object \<Rightarrow>
    (payload api_object \<times> go_err option) \<times> 'w" where
  "partition_Create px w op s data =
     (case getStore ''create'' of Inl err \<Rightarrow> ((empty_object, Some err), w) | Inr _ \<Rightarrow> proxy_Create px w op s data)"

definition partition_Update :: "'w proxy \<Rightarrow> 'w \<Rightarrow> api_request \<Rightarrow> 'a schema_scheme \<Rightarrow> payload api_object \<Rightarrow> (go_err + string) \<Rightarrow> string \<Rightarrow>
    (payload api_object \<times> go_err option) \<times> 'w" where
  "partition_Update px w op s data body i =
     (case getStore ''update'' of Inl err \<Rightarrow> ((empty_object, Some err), w) | Inr _ \<Rightarrow> proxy_Update px w op s data body i)"

definition partition_Delete :: "'w proxy \<Rightarrow> 'w \<Rightarrow> api_request \<Rightarrow> 'a schema_scheme \<Rightarrow> string \<Rightarrow>
    (payload api_object \<times> go_err option) \<times> 'w" where
  "partition_Delete px w op s i =
     (case getStore ''delete'' of Inl err \<Rightarrow> ((empty_object, Some err), w) | Inr _ \<Rightarrow> proxy_Delete px w op s i)"

definition returned :: "'d \<times> go_err option \<Rightarrow> go_err + 'd" where
  "returned r = (case snd r of None \<Rightarrow> Inr (fst r) | Some err \<Rightarrow> Inl err)"

definition answered :: "('d \<times> go_err option) \<times> 'w \<Rightarrow> (go_err + 'd) \<times> 'w" where
  "answered r = (returned (errorStore_wrap (fst r)), snd r)"

definition NewProxyStore :: "'w proxy \<Rightarrow> (api_request \<Rightarrow> go_err + string) \<Rightarrow>
    (api_request \<Rightarrow> api_schema \<Rightarrow> 'w \<Rightarrow> payload api_object_list \<times> go_err option) \<Rightarrow> 'w store" where
  "NewProxyStore px body listing =
     \<lparr>st_ByID = (\<lambda>op s i w. answered (partition_ByID px w op s i, w)),
      st_List = (\<lambda>op s w. answered (listing op s w, w)),
      st_Create = (\<lambda>op s data w. answered (partition_Create px w op s data)),
      st_Update = (\<lambda>op s data i w. answered (partition_Update px w op s data (body op) i)),
      st_Delete = (\<lambda>op s i w. answered (partition_Delete px w op s i))\<rparr>"

section \<open>Who writes, and which errors come out\<close>

lemma getStore_verbs [simp]:
  "getStore ''get'' = Inr passthrough_partition" "getStore ''create'' = Inr passthrough_partition"
  "getStore ''update'' = Inr passthrough_partition" "getStore ''delete'' = Inr passthrough_partition"
  by (simp_all add: getStore_def Lookup_def)

text \<open>One call of the Kubernetes API that writes, through the client.\<close>

definition write_call :: "'w k8s \<Rightarrow> client \<Rightarrow> 'w \<Rightarrow> 'w \<Rightarrow> bool" where
  "write_call K cl w w' \<longleftrightarrow>
     (\<exists>m q. w' = snd (k_Create K cl m q w)) \<or> (\<exists>m q. w' = snd (k_Update K cl m q w)) \<or>
     (\<exists>i t b q. w' = snd (k_Patch K cl i t b q w)) \<or> (\<exists>i q. w' = snd (k_Delete K cl i q w))"

definition written_for :: "'w proxy \<Rightarrow> api_request \<Rightarrow> 'a schema_scheme \<Rightarrow> 'w \<Rightarrow> 'w \<Rightarrow> bool" where
  "written_for px op s w w' \<longleftrightarrow>
     (\<exists>cl. acts_for (px_factory px) op cl \<and> cl_gvr cl = GVR (px_convert px) s \<and> write_call (px_k8s px) cl w w')"

lemma table_client_user:
  "px_factory px = NewFactory imp \<Longrightarrow> table_client px op s ns = Inr cl \<Longrightarrow> acts_for (px_factory px) op cl \<and> cl_gvr cl = GVR (px_convert px) s"
  by (auto simp: acts_for_def table_client_def client_defs NewFactory_def Let_def split: if_splits dest!: newClient_cases)

lemma proxy_Create_writes:
  assumes "px_factory px = NewFactory imp" and "snd (proxy_Create px w op s data) \<noteq> w"
  shows "written_for px op s w (snd (proxy_Create px w op s data))"
proof -
  obtain ns input cl opts where parts: "create_input px op s data = Inr (ns, input)" "table_client px op s ns = Inr cl"
    "decodeParams px ''CreateOptions'' op = Inr opts"
    using assms(2) by (auto simp: proxy_Create_def split: sum.splits prod.splits)
  then have "snd (proxy_Create px w op s data) = snd (k_Create (px_k8s px) cl (moveFromUnderscore input) opts w)"
    by (simp add: proxy_Create_def split: prod.splits)
  with table_client_user [OF assms(1) parts(2)] show ?thesis unfolding written_for_def write_call_def by metis
qed

lemma proxy_Patch_calls:
  "(\<exists>err. proxy_Patch px w op s cl body i = ((empty_object, Some err), w)) \<or>
   (\<exists>t b q. proxy_Patch px w op s cl body i =
      (case k_Patch (px_k8s px) cl i t b q w of
         (Inl err, w') \<Rightarrow> ((empty_object, Some err), w')
       | (Inr resp, w') \<Rightarrow> ((toAPI (px_lib px) s (Some resp), None), w')))"
proof (cases "(\<exists>all. body = Inr all) \<and> (\<exists>r. op_Request op = Some r)")
  case True
  then obtain all r where in0: "body = Inr all" "op_Request op = Some r" by blast
  define pt where "pt = (if header_get (rq_Header r) ''content-type'' = JSONPatchType then JSONPatchType else StrategicMergePatchType)"
  define bs where "bs = (if pt = StrategicMergePatchType
    then (case L_Unmarshal (px_lib px) (take (2 * 2 ^ 20) all) of Inl err \<Rightarrow> Inl err
          | Inr m \<Rightarrow> L_Marshal (px_lib px) (moveFromUnderscore m))
    else Inr (take (2 * 2 ^ 20) all))"
  have patch: "proxy_Patch px w op s cl body i =
    (case decodeParams px ''PatchOptions'' op of
       Inl err \<Rightarrow> ((empty_object, Some err), w)
     | Inr opts \<Rightarrow> (case bs of
           Inl err \<Rightarrow> ((empty_object, Some err), w)
         | Inr bytes \<Rightarrow> (case k_Patch (px_k8s px) cl i pt bytes opts w of
               (Inl err, w') \<Rightarrow> ((empty_object, Some err), w')
             | (Inr resp, w') \<Rightarrow> ((toAPI (px_lib px) s (Some resp), None), w'))))"
    unfolding proxy_Patch_def in0 Let_def sum.case option.case bs_def pt_def by (rule refl)
  show ?thesis
  proof (cases "decodeParams px ''PatchOptions'' op")
    case (Inr opts)
    with patch show ?thesis by (cases bs) auto
  qed (simp add: patch)
qed (auto simp: proxy_Patch_def split: sum.splits option.splits)

lemma proxy_Patch_writes:
  "snd (proxy_Patch px w op s cl body i) = w \<or> (\<exists>t b q. snd (proxy_Patch px w op s cl body i) = snd (k_Patch (px_k8s px) cl i t b q w))"
proof (cases "\<exists>err. proxy_Patch px w op s cl body i = ((empty_object, Some err), w)")
  case False
  then obtain t b q where "proxy_Patch px w op s cl body i =
      (case k_Patch (px_k8s px) cl i t b q w of
         (Inl err, w') \<Rightarrow> ((empty_object, Some err), w')
       | (Inr resp, w') \<Rightarrow> ((toAPI (px_lib px) s (Some resp), None), w'))"
    using proxy_Patch_calls [of px w op s cl body i] by blast
  then have "snd (proxy_Patch px w op s cl body i) = snd (k_Patch (px_k8s px) cl i t b q w)" by (simp split: prod.splits sum.splits)
  then show ?thesis by blast
qed auto

lemma proxy_Update_writes:
  assumes "px_factory px = NewFactory imp" and "snd (proxy_Update px w op s data body i) \<noteq> w"
  shows "written_for px op s w (snd (proxy_Update px w op s data body i))"
proof -
  let ?ns = "Namespace (px_lib px) (or_empty (Data (px_lib px) data))"
  obtain cl where cl: "table_client px op s ?ns = Inr cl"
    using assms(2) by (auto simp: proxy_Update_def Let_def split: sum.splits)
  have "write_call (px_k8s px) cl w (snd (proxy_Update px w op s data body i))"
  proof (cases "op_Method op = MethodPatch")
    case True
    then have "proxy_Update px w op s data body i = proxy_Patch px w op s cl body i" by (simp add: proxy_Update_def Let_def cl)
    with proxy_Patch_writes [of px w op s cl body i] assms(2) show ?thesis by (auto simp: write_call_def)
  next
    case False
    then show ?thesis using assms(2)
      by (auto simp: proxy_Update_def Let_def cl write_call_def split: if_splits sum.splits prod.splits) (metis snd_conv)+
  qed
  with table_client_user [OF assms(1) cl] show ?thesis by (auto simp: written_for_def)
qed

lemma proxy_Delete_writes:
  assumes "px_factory px = NewFactory imp" and "snd (proxy_Delete px w op s i) \<noteq> w"
  shows "written_for px op s w (snd (proxy_Delete px w op s i))"
proof -
  obtain q cl opts where parts: "request_query op = Inr q" "table_client px op s (op_Namespace op) = Inr cl"
    "decodeParams px ''DeleteOptions'' op = Inr opts"
    using assms(2) by (auto simp: proxy_Delete_def split: sum.splits)
  then have "snd (proxy_Delete px w op s i) = snd (k_Delete (px_k8s px) cl i opts w)"
    by (simp add: proxy_Delete_def split: prod.splits option.splits)
  with table_client_user [OF assms(1) parts(2)] show ?thesis unfolding written_for_def write_call_def by metis
qed

definition kubernetes_status :: "go_err \<Rightarrow> bool" where
  "kubernetes_status err \<longleftrightarrow> (\<exists>c r m. err = StatusError c r m)"

lemma answered_no_status: "fst (answered r) = Inl err \<Longrightarrow> \<not> kubernetes_status err"
  by (auto simp: answered_def returned_def errorStore_wrap_def translateError_def kubernetes_status_def NewAPIError_def
      split: option.splits go_err.splits)

lemma assembled_reads: "snd (st_ByID (NewProxyStore px body listing) op s i w) = w" "snd (st_List (NewProxyStore px body listing) op s w) = w"
  by (simp_all add: NewProxyStore_def answered_def)

lemma assembled_writes:
  assumes "px_factory px = NewFactory imp" and "S = NewProxyStore px body listing"
  shows "snd (st_Create S op s data w) \<noteq> w \<Longrightarrow> written_for px op s w (snd (st_Create S op s data w))"
    and "snd (st_Update S op s data i w) \<noteq> w \<Longrightarrow> written_for px op s w (snd (st_Update S op s data i w))"
    and "snd (st_Delete S op s i w) \<noteq> w \<Longrightarrow> written_for px op s w (snd (st_Delete S op s i w))"
  using proxy_Create_writes [OF assms(1), of w op s data] proxy_Update_writes [OF assms(1), of w op s data "body op" i]
    proxy_Delete_writes [OF assms(1), of w op s i]
  by (simp_all add: assms(2) NewProxyStore_def answered_def partition_Create_def partition_Update_def partition_Delete_def)

text \<open>The assembled store acts for the user and translates errors. Whatever \<open>Create\<close>,
  \<open>Update\<close>, a patch or \<open>Delete\<close> of the store changes, it changes by exactly one writing call to Kubernetes, through a
  client that is bound to the schema's resource and acts as the authenticated user of the request with impersonation on, and without it
  impersonates nobody; reading and
  listing change nothing; and no operation answers with a raw Kubernetes status, each is turned into an API error.\<close>

theorem store_writes_as_user:
  assumes "px_factory px = NewFactory imp" and "S = NewProxyStore px body listing"
    and "(r, w') \<in> {st_ByID S op s i w, st_Create S op s data w, st_Update S op s data i w, st_Delete S op s i w}"
  shows "(w' \<noteq> w \<longrightarrow> written_for px op s w w') \<and> snd (st_ByID S op s i w) = w \<and> snd (st_List S op s w) = w \<and>
    (\<forall>err. r = Inl err \<or> fst (st_List S op s w) = Inl err \<longrightarrow> \<not> kubernetes_status err)"
proof -
  have reads: "snd (st_ByID S op s i w) = w" "snd (st_List S op s w) = w" by (simp_all add: assms(2) assembled_reads)
  have creates: "st_Create S op s data w = answered (proxy_Create px w op s data)"
    and updates: "st_Update S op s data i w = answered (proxy_Update px w op s data (body op) i)"
    and deletes: "st_Delete S op s i w = answered (proxy_Delete px w op s i)"
    by (simp_all add: assms(2) NewProxyStore_def partition_Create_def partition_Update_def partition_Delete_def)
  have "w' \<in> {snd (st_ByID S op s i w), snd (st_Create S op s data w), snd (st_Update S op s data i w), snd (st_Delete S op s i w)}"
    using assms(3) by (metis (no_types, lifting) image_insert image_empty image_eqI snd_conv)
  with reads assembled_writes [OF assms(1,2), where op = op and s = s and w = w]
  have "written_for px op s w w'" if "w' \<noteq> w" using that by auto
  moreover have "\<not> kubernetes_status err" if "r = Inl err" for err
  proof -
    have "r \<in> fst ` {st_ByID S op s i w, st_Create S op s data w, st_Update S op s data i w, st_Delete S op s i w}"
      using assms(3) by (rule image_eqI [rotated]) simp
    with that show ?thesis by (auto simp: creates updates deletes assms(2) NewProxyStore_def dest!: answered_no_status sym [of "Inl err"])
  qed
  moreover have "\<not> kubernetes_status err" if "fst (st_List S op s w) = Inl err" for err
    using that by (simp add: assms(2) NewProxyStore_def answered_no_status)
  ultimately show ?thesis using reads by blast
qed

definition ex_user_request :: api_request where
  "ex_user_request = empty_request\<lparr>op_Request :=
     Some (new_request\<lparr>rq_User := Some \<lparr>u_Name = ''alice'', u_UID = [], u_Groups = [], u_Extra = []\<rparr>\<rparr>)\<rparr>"

lemma store_writes_as_user_witness:
  "let px = ex_proxy\<lparr>px_factory := NewFactory True\<rparr>; s = ex_schema ''pod'' ''pods'';
       S = NewProxyStore px (\<lambda>_. Inr []) (\<lambda>_ _ _. (empty_list, None))
   in snd (st_Delete S ex_user_request s ''a'' 0) = 1 \<and> written_for px ex_user_request s 0 1"
proof -
  let ?px = "ex_proxy\<lparr>px_factory := NewFactory True\<rparr>"
  let ?s = "ex_schema ''pod'' ''pods''"
  let ?S = "NewProxyStore ?px (\<lambda>_. Inr []) (\<lambda>_ _ _. (empty_list, None))"
  have del: "snd (st_Delete ?S ex_user_request ?s ''a'' 0) = 1"
    by (simp add: NewProxyStore_def answered_def partition_Delete_def proxy_Delete_def request_query_def decodeParams_def
        ex_user_request_def empty_request_def ex_proxy_def ex_k8s_def table_client_def client_defs newClient_def newDynamicClient_def
        setupConfig_def NewFactory_def Let_def split: prod.splits option.splits)
  have "(fst (st_Delete ?S ex_user_request ?s ''a'' 0), snd (st_Delete ?S ex_user_request ?s ''a'' 0)) \<in>
      {st_ByID ?S ex_user_request ?s ''a'' 0, st_Create ?S ex_user_request ?s empty_object 0,
       st_Update ?S ex_user_request ?s empty_object ''a'' 0, st_Delete ?S ex_user_request ?s ''a'' 0}" by simp
  from store_writes_as_user [of ?px True, OF _ refl this] del show ?thesis by (simp add: Let_def)
qed

end
