(* ===== verification/Router.thy ===== *)
theory Router
  imports Wiring
begin

section \<open>The route table: pkg/server/router/router.go, server/handler/apiserver.go\<close>

text \<open>
  The table of routes, what the handlers behind it are, and where the URLs that the server writes lead. A template is
  the list of its path elements. The matching itself is the gorilla mux package: an argument that gives, for a
  router and a request, what serves the request, the route variables and whether the middleware of the router runs. What its
  documentation says of it is \<open>mux_ok\<close>: routes are tested in the order they were added, a variable stands for one path
  element, a pattern restricts it, a query matcher needs the key and binds its value, and what no route matches goes to
  the handler for not found, without the middleware. With \<^verbatim>\<open>StrictSlash\<close> a path that has a slash after what the template of a route
  matches is not served but redirected, permanently, to the path without the slash; a route made of a prefix is not
  subject to this. All this is assumed only of requests whose path consists of nonempty segments with nothing to clean or escape, with or without a slash
  at the end: the path of a request is one string here, and of a path whose encoded form (Go's \<^verbatim>\<open>RawPath\<close>, which the router is told to match) differs
  from it nothing is said.
\<close>

datatype seg = Lit string | Var string | VarIs string string

datatype route_template = Path "seg list" | PathPrefix string

record 'h route =
  rt_template :: route_template
  rt_Queries :: "(string \<times> string) option"
  rt_Handler :: 'h

record 'h mux_router =
  mr_UseEncodedPath :: bool
  mr_StrictSlash :: bool
  mr_Use_RedirectRewrite :: bool
  mr_routes :: "'h route list"
  mr_NotFoundHandler :: 'h

record 'h Handlers =
  h_K8sResource :: 'h
  h_APIRoot :: 'h
  h_K8sProxy :: 'h
  h_Next :: 'h

definition Routes :: "'h Handlers \<Rightarrow> 'h mux_router" where
  "Routes h = \<lparr>mr_UseEncodedPath = True, mr_StrictSlash = True, mr_Use_RedirectRewrite = True,
     mr_routes =
      [\<lparr>rt_template = Path [], rt_Queries = None, rt_Handler = h_APIRoot h\<rparr>,
       \<lparr>rt_template = Path [VarIs ''name'' ''v1''], rt_Queries = None, rt_Handler = h_APIRoot h\<rparr>,
       \<lparr>rt_template = Path [Lit ''v1'', Var ''type''], rt_Queries = None, rt_Handler = h_K8sResource h\<rparr>,
       \<lparr>rt_template = Path [Lit ''v1'', Var ''type'', Var ''nameorns''], rt_Queries = Some (''link'', ''link''), rt_Handler = h_K8sResource h\<rparr>,
       \<lparr>rt_template = Path [Lit ''v1'', Var ''type'', Var ''nameorns''], rt_Queries = Some (''action'', ''action''), rt_Handler = h_K8sResource h\<rparr>,
       \<lparr>rt_template = Path [Lit ''v1'', Var ''type'', Var ''nameorns''], rt_Queries = None, rt_Handler = h_K8sResource h\<rparr>,
       \<lparr>rt_template = Path [Lit ''v1'', Var ''type'', Var ''namespace'', Var ''name''], rt_Queries = Some (''action'', ''action''), rt_Handler = h_K8sResource h\<rparr>,
       \<lparr>rt_template = Path [Lit ''v1'', Var ''type'', Var ''namespace'', Var ''name''], rt_Queries = Some (''link'', ''link''), rt_Handler = h_K8sResource h\<rparr>,
       \<lparr>rt_template = Path [Lit ''v1'', Var ''type'', Var ''namespace'', Var ''name''], rt_Queries = None, rt_Handler = h_K8sResource h\<rparr>,
       \<lparr>rt_template = Path [Lit ''v1'', Var ''type'', Var ''namespace'', Var ''name'', Var ''link''], rt_Queries = None, rt_Handler = h_K8sResource h\<rparr>,
       \<lparr>rt_template = Path [Lit ''api''], rt_Queries = None, rt_Handler = h_K8sProxy h\<rparr>,
       \<lparr>rt_template = PathPrefix ''/api/'', rt_Queries = None, rt_Handler = h_K8sProxy h\<rparr>,
       \<lparr>rt_template = PathPrefix ''/apis'', rt_Queries = None, rt_Handler = h_K8sProxy h\<rparr>,
       \<lparr>rt_template = PathPrefix ''/openapi'', rt_Queries = None, rt_Handler = h_K8sProxy h\<rparr>,
       \<lparr>rt_template = PathPrefix ''/version'', rt_Queries = None, rt_Handler = h_K8sProxy h\<rparr>],
     mr_NotFoundHandler = h_Next h\<rparr>"

subsection \<open>What mux documents\<close>

definition path_of :: "string list \<Rightarrow> string" where
  "path_of segs = ''/'' @ join_with ''/'' segs"

definition route_seg :: "string \<Rightarrow> bool" where
  "route_seg s \<longleftrightarrow> plain_seg s \<and> list_all (\<lambda>c. unreserved c \<or> c = CHR '':'') s"

fun match_segs :: "seg list \<Rightarrow> string list \<Rightarrow> (string, string) gomap option" where
  "match_segs [] [] = Some []"
| "match_segs (Lit l # ts) (s # ss) = (if s = l then match_segs ts ss else None)"
| "match_segs (Var v # ts) (s # ss) = map_option ((#) (v, s)) (match_segs ts ss)"
| "match_segs (VarIs v p # ts) (s # ss) = (if s = p then map_option ((#) (v, s)) (match_segs ts ss) else None)"
| "match_segs _ _ = None"

definition request_path :: "string list \<Rightarrow> bool \<Rightarrow> string" where
  "request_path segs slash = path_of segs @ (if slash then ''/'' else [])"

text \<open>The variables, and whether the request is to be redirected. No template but the one of the root ends in a slash.\<close>

definition match_template :: "bool \<Rightarrow> route_template \<Rightarrow> string list \<Rightarrow> bool \<Rightarrow> ((string, string) gomap \<times> bool) option" where
  "match_template strict t segs slash =
     (case t of
        Path ts \<Rightarrow> if slash \<and> \<not> strict then None else map_option (\<lambda>vs. (vs, slash)) (match_segs ts segs)
      | PathPrefix p \<Rightarrow> if has_prefix p (request_path segs slash) then Some ([], False) else None)"

definition match_query :: "(string \<times> string) option \<Rightarrow> url_values \<Rightarrow> (string, string) gomap option" where
  "match_query q vs =
     (case q of
        None \<Rightarrow> Some []
      | Some (k, v) \<Rightarrow> (case mget vs k of Some (x # _) \<Rightarrow> Some [(v, x)] | _ \<Rightarrow> None))"

text \<open>A handler of the router, or the answer that the URL has moved permanently to another path, its query kept.\<close>

datatype 'h routed = Served 'h | Moved string

fun first_match :: "bool \<Rightarrow> 'h route list \<Rightarrow> string list \<Rightarrow> bool \<Rightarrow> url_values \<Rightarrow> ('h routed \<times> (string, string) gomap) option" where
  "first_match strict [] segs slash q = None"
| "first_match strict (rt # rts) segs slash q =
     (case (match_template strict (rt_template rt) segs slash, match_query (rt_Queries rt) q) of
        (Some (v, redirect), Some w) \<Rightarrow> Some (if redirect then Moved (path_of segs) else Served (rt_Handler rt), v @ w)
      | _ \<Rightarrow> first_match strict rts segs slash q)"

type_synonym 'h mux = "'h mux_router \<Rightarrow> http_request \<Rightarrow> 'h routed \<times> (string, string) gomap \<times> bool"

definition documented_mux :: "'h mux_router \<Rightarrow> string list \<Rightarrow> bool \<Rightarrow> url_values \<Rightarrow> 'h routed \<times> (string, string) gomap \<times> bool" where
  "documented_mux M segs slash q =
     (case first_match (mr_StrictSlash M) (mr_routes M) segs slash q of
        None \<Rightarrow> (Served (mr_NotFoundHandler M), [], False)
      | Some (h, vs) \<Rightarrow> (h, vs, mr_Use_RedirectRewrite M))"

definition mux_ok :: "'h mux \<Rightarrow> bool" where
  "mux_ok mux \<longleftrightarrow> (\<forall>M r segs slash.
     mr_UseEncodedPath M \<and> list_all route_seg segs \<and> (slash \<longrightarrow> segs \<noteq> []) \<and> rq_Path r = request_path segs slash \<longrightarrow>
     mux M r = documented_mux M segs slash (rq_Query r))"

lemma mux_okD:
  assumes "mux_ok mux" and "mr_UseEncodedPath M" and "list_all route_seg segs" and "rq_Path r = path_of segs"
  shows "mux M r = documented_mux M segs False (rq_Query r)"
  using assms unfolding mux_ok_def request_path_def by (metis append_Nil2)

subsection \<open>The handlers behind the routes: handler.New\<close>

type_synonym 'w http_handler = "http_request \<Rightarrow> 'w rstate \<Rightarrow> 'w rstate"

text \<open>What is outside: the server environment, the factory of schemas, what the proxy does with a request, and what a redirection of the mux package answers.\<close>

record 'w app =
  ap_env :: "'w server_env"
  ap_parse :: parse_url
  ap_convert :: convert
  ap_schemas :: "user \<Rightarrow> go_err + api_schemas"
  ap_server :: server
  ap_proxy_env :: proxy_env
  ap_forward :: "proxied \<Rightarrow> 'w rstate \<Rightarrow> 'w rstate"
  ap_mux :: "'w http_handler mux"
  ap_moved :: "string \<Rightarrow> 'w http_handler"

definition serve_mux :: "'w http_handler mux \<Rightarrow> (string \<Rightarrow> 'w http_handler) \<Rightarrow> 'w http_handler mux_router \<Rightarrow> 'w http_handler" where
  "serve_mux mux moved M r st =
     (case mux M r of (to, vs, _) \<Rightarrow> (case to of Served h \<Rightarrow> h | Moved path \<Rightarrow> moved path) (r\<lparr>rq_Vars := vs\<rparr>) st)"

definition New_handlers :: "'w app \<Rightarrow> proxy_choice \<Rightarrow> 'w http_handler \<Rightarrow> 'w http_handler Handlers" where
  "New_handlers A p nxt =
     (let w = pc_auth p in
      \<lparr>h_K8sResource = (\<lambda>r. apiHandler (ap_env A) (ap_parse A) (ap_schemas A) (ap_server A) (k8sAPI (ap_convert A)) (w r)),
       h_APIRoot = (\<lambda>r. apiHandler (ap_env A) (ap_parse A) (ap_schemas A) (ap_server A) apiRoot (w r)),
       h_K8sProxy = (\<lambda>r. ap_forward A (K8sProxy p r)),
       h_Next = nxt\<rparr>)"

definition New_handler :: "'w app \<Rightarrow> proxy_config \<Rightarrow> (http_request \<Rightarrow> http_request) option \<Rightarrow> 'w http_handler \<Rightarrow>
    ('w http_handler Handlers \<Rightarrow> 'w http_handler) option \<Rightarrow> go_err + 'w http_handler" where
  "New_handler A cfg authMiddleware nxt routerFunc =
     (case New_proxy (ap_proxy_env A) cfg authMiddleware of
        Inl err \<Rightarrow> Inl err
      | Inr p \<Rightarrow>
          (let handlers = New_handlers A p nxt in
           case routerFunc of
             None \<Rightarrow> Inr (serve_mux (ap_mux A) (ap_moved A) (Routes handlers))
           | Some f \<Rightarrow> Inr (f handlers)))"

section \<open>Where requests go\<close>

lemma path_cut: "\<exists>rest. request_path (s # ss) slash = CHR ''/'' # s @ rest \<and> (rest = [] \<or> hd rest = CHR ''/'')"
  by (cases ss) (auto simp: path_of_def request_path_def)

lemma path_prefix:
  assumes "list_all route_seg (s # ss)" and "CHR ''/'' \<notin> set p"
  shows "has_prefix (CHR ''/'' # p) (request_path (s # ss) slash) \<longleftrightarrow> has_prefix p s"
proof -
  have s: "CHR ''/'' \<notin> set s" using assms(1) by (simp add: route_seg_def plain_seg_def)
  obtain rest where path: "request_path (s # ss) slash = CHR ''/'' # s @ rest" and rest: "rest = [] \<or> hd rest = CHR ''/''"
    using path_cut by blast
  have "take (length p) (s @ rest) = p \<longleftrightarrow> take (length p) s = p"
  proof (cases "length p \<le> length s")
    case False
    then have "take (length p) (s @ rest) \<noteq> p"
    proof (cases rest)
      case (Cons c cs)
      with rest False have "CHR ''/'' \<in> set (take (length p) (s @ rest))"
        by (cases "length p - length s") auto
      with assms(2) show ?thesis by metis
    qed (use False in auto)
    moreover have "take (length p) s \<noteq> p" using False by (metis length_take min.cobounded1)
    ultimately show ?thesis by blast
  qed simp
  then show ?thesis by (simp add: path has_prefix_def)
qed

lemma api_slash_prefix:
  assumes "list_all route_seg (s # ss)"
  shows "has_prefix ''/api/'' (request_path (s # ss) slash) \<longleftrightarrow> s = ''api'' \<and> (ss \<noteq> [] \<or> slash)"
proof -
  have s: "CHR ''/'' \<notin> set s" using assms by (simp add: route_seg_def plain_seg_def)
  have path: "\<exists>t. request_path (s # ss) slash = CHR ''/'' # s @ (if ss \<noteq> [] \<or> slash then CHR ''/'' # t else [])"
    by (cases ss) (auto simp: path_of_def request_path_def)
  then obtain t where t: "request_path (s # ss) slash = CHR ''/'' # s @ (if ss \<noteq> [] \<or> slash then CHR ''/'' # t else [])" by blast
  show ?thesis
  proof (cases "ss \<noteq> [] \<or> slash")
    case True
    have "(\<exists>u. s @ CHR ''/'' # t = ''api'' @ CHR ''/'' # u) \<longleftrightarrow> s = ''api''"
    proof
      assume "\<exists>u. s @ CHR ''/'' # t = ''api'' @ CHR ''/'' # u"
      then obtain u where "s @ CHR ''/'' # t = ''api'' @ CHR ''/'' # u" by blast
      moreover have "CHR ''/'' \<notin> set ''api''" by simp
      ultimately show "s = ''api''" using s by (metis str_cut_join prod.inject)
    qed simp
    then show ?thesis using True by (simp add: t has_prefix_iff)
  next
    case False
    with t have "request_path (s # ss) slash = CHR ''/'' # s" by simp
    with s False show ?thesis by (simp only: has_prefix_iff) auto
  qed
qed

text \<open>The variables of a path below \<^verbatim>\<open>/v1\<close>.\<close>

definition query_var :: "string list \<Rightarrow> url_values \<Rightarrow> (string, string) gomap" where
  "query_var ks q =
     (case filter (\<lambda>k. match_query (Some (k, k)) q \<noteq> None) ks of [] \<Rightarrow> [] | k # _ \<Rightarrow> [(k, values_get q k)])"

lemma match_query_get: "match_query (Some (k, k)) q = (if mgetd [] q k = [] then None else Some [(k, values_get q k)])"
  by (auto simp: match_query_def values_get_def mgetd_def split: option.splits list.splits)

lemma match_query_None [simp]: "match_query None q = Some []"
  by (simp add: match_query_def)

lemmas route_simps = documented_mux_def Routes_def match_template_def match_query_get query_var_def

lemma resource_routes:
  "documented_mux (Routes h) [''v1'', t] False q = (Served (h_K8sResource h), [(''type'', t)], True)"
  "documented_mux (Routes h) [''v1'', t, n] False q =
     (Served (h_K8sResource h), [(''type'', t), (''nameorns'', n)] @ query_var [''link'', ''action''] q, True)"
  "documented_mux (Routes h) [''v1'', t, ns, n] False q =
     (Served (h_K8sResource h), [(''type'', t), (''namespace'', ns), (''name'', n)] @ query_var [''action'', ''link''] q, True)"
  "documented_mux (Routes h) [''v1'', t, ns, n, l] False q =
     (Served (h_K8sResource h), [(''type'', t), (''namespace'', ns), (''name'', n), (''link'', l)], True)"
  by (simp_all add: route_simps)

lemma root_routes:
  "documented_mux (Routes h) [] False q = (Served (h_APIRoot h), [], True)"
  "documented_mux (Routes h) [''v1''] False q = (Served (h_APIRoot h), [(''name'', ''v1'')], True)"
  by (simp_all add: route_simps)

lemma moved_routes:
  "length rest \<le> 4 \<Longrightarrow> fst (documented_mux (Routes h) (''v1'' # rest) True q) = Moved (path_of (''v1'' # rest))"
  "fst (documented_mux (Routes h) [''api''] True q) = Moved (path_of [''api''])"
proof -
  assume "length rest \<le> 4"
  then consider "rest = []" | t where "rest = [t]" | t a where "rest = [t, a]" | t a b where "rest = [t, a, b]"
    | t a b c where "rest = [t, a, b, c]"
    by (cases rest; cases "tl rest"; cases "tl (tl rest)"; cases "tl (tl (tl rest))") auto
  then show "fst (documented_mux (Routes h) (''v1'' # rest) True q) = Moved (path_of (''v1'' # rest))"
    by cases (simp_all add: route_simps)
qed (simp add: route_simps)

lemma other_routes:
  assumes "list_all route_seg (s # ss)" and "s \<noteq> ''v1'' \<or> length ss > 4" and "\<not> (s = ''api'' \<and> ss = [] \<and> slash)"
  shows "documented_mux (Routes h) (s # ss) slash q =
    (if s = ''api'' \<or> has_prefix ''apis'' s \<or> has_prefix ''openapi'' s \<or> has_prefix ''version'' s
     then (Served (h_K8sProxy h), [], True) else (Served (h_Next h), [], False))"
proof -
  note prefixes = path_prefix [OF assms(1), of "''apis''" slash] path_prefix [OF assms(1), of "''openapi''" slash]
    path_prefix [OF assms(1), of "''version''" slash] api_slash_prefix [OF assms(1), of slash]
  have "match_segs (Lit ''v1'' # ts) (s # ss) = None" if "length ts \<le> 4" for ts
  proof -
    have "length ss' \<noteq> length ts' \<Longrightarrow> match_segs ts' ss' = None" for ts' ss'
      by (induction ts' ss' rule: match_segs.induct) auto
    with that assms(2) show ?thesis by auto
  qed
  note none = this
  have api: "match_segs [Lit ''api''] (s # ss) = (if s = ''api'' \<and> ss = [] then Some [] else None)"
    by (cases ss) auto
  have v1: "match_segs [VarIs ''name'' ''v1''] (s # ss) = None"
    using assms(2) by (cases ss) auto
  show ?thesis
    using prefixes assms(3)
    by (auto simp: documented_mux_def Routes_def match_template_def none api v1 simp del: match_segs.simps(2,4))
qed

text \<open>C32. The table of routes, for paths made of nonempty segments of unreserved characters, with or without a slash at the end. By the documented
  matching of the mux package the root and \<open>/v1\<close> go to the API root, one to four segments below \<open>/v1\<close> to the resources, and each of these with a slash at the end is
  redirected to the same path without it; \<open>/api\<close> and all below it, and every path whose first segment begins with apis, openapi or
  version, with a slash at the end or not, go to the proxy of the cluster, save that \<open>/api/\<close> itself is redirected to \<open>/api\<close>; all else goes to the next
  handler, longer paths below \<open>/v1\<close> among it. Paths with other characters, empty segments or an encoded form are not covered.
\<close>

theorem routing_table:
  assumes "mux_ok mux" and "list_all route_seg segs" and "slash \<longrightarrow> segs \<noteq> []" and "rq_Path r = path_of segs @ (if slash then ''/'' else [])"
  shows "fst (mux (Routes h) r) =
    (case segs of
       [] \<Rightarrow> Served (h_APIRoot h)
     | s # rest \<Rightarrow>
         if slash \<and> (s = ''v1'' \<and> length rest \<le> 4 \<or> s = ''api'' \<and> rest = []) then Moved (path_of segs)
         else if s = ''v1'' then
           Served (if rest = [] then h_APIRoot h else if length rest \<le> 4 then h_K8sResource h else h_Next h)
         else if s = ''api'' \<or> has_prefix ''apis'' s \<or> has_prefix ''openapi'' s \<or> has_prefix ''version'' s then Served (h_K8sProxy h)
         else Served (h_Next h))"
proof -
  have mux: "mux (Routes h) r = documented_mux (Routes h) segs slash (rq_Query r)"
    using assms unfolding mux_ok_def by (auto simp: Routes_def request_path_def)
  show ?thesis
  proof (cases segs)
    case Nil
    with assms(3) show ?thesis by (simp add: mux root_routes)
  next
    case (Cons s rest)
    consider (moved) "slash" "s = ''v1'' \<and> length rest \<le> 4 \<or> s = ''api'' \<and> rest = []" | (v1) "\<not> slash" "s = ''v1''" "length rest \<le> 4"
      | (other) "s \<noteq> ''v1'' \<or> length rest > 4" "\<not> (s = ''api'' \<and> rest = [] \<and> slash)"
      by fastforce
    then show ?thesis
    proof cases
      case moved
      then show ?thesis using moved_routes Cons by (auto simp: mux)
    next
      case v1
      then consider "rest = []" | t where "rest = [t]" | t a where "rest = [t, a]" | t a b where "rest = [t, a, b]"
        | t a b c where "rest = [t, a, b, c]"
        by (cases rest; cases "tl rest"; cases "tl (tl rest)"; cases "tl (tl (tl rest))") auto
      then show ?thesis using v1 Cons by cases (simp_all add: mux root_routes resource_routes)
    next
      case other
      have "list_all route_seg (s # rest)" using assms(2) Cons by simp
      note o = other_routes [OF this other, of h "rq_Query r"]
      show ?thesis
      proof (cases "s = ''v1''")
        case True
        then show ?thesis using other Cons o by (auto simp: mux has_prefix_def)
      next
        case False
        then show ?thesis using Cons o other(2) by (auto simp: mux)
      qed
    qed
  qed
qed

section \<open>The URLs of a resource lead back to it\<close>

datatype link_target = Self | Linked string | Acting string

fun link_url :: "url_builder \<Rightarrow> api_schema \<Rightarrow> string \<Rightarrow> link_target \<Rightarrow> string" where
  "link_url u s i Self = ResourceLink u s i"
| "link_url u s i (Linked l) = Link u s i l"
| "link_url u s i (Acting a) = ActionURL u s i a"

text \<open>What a client that follows the URL asks the server for.\<close>

definition request_uri :: "http_request \<Rightarrow> string" where
  "request_uri r = rq_Path r @ (if rq_Query r = [] then [] else ''?'' @ values_encode (rq_Query r))"

fun target_segs :: "api_schema \<Rightarrow> string list \<Rightarrow> link_target \<Rightarrow> string list" where
  "target_segs s ps (Linked l) = [''v1'', PluralName s] @ ps @ (if length ps > 1 then [l] else [])"
| "target_segs s ps _ = [''v1'', PluralName s] @ ps"

fun target_query :: "string list \<Rightarrow> link_target \<Rightarrow> url_values" where
  "target_query ps Self = []"
| "target_query ps (Linked l) = (if length ps > 1 then [] else [(''link'', [l])])"
| "target_query ps (Acting a) = [(''action'', [a])]"

lemma str_contains_slash: "str_contains s [c] \<longleftrightarrow> c \<in> set s"
  by (induction s) (auto simp: has_prefix_def)

lemma join_slash: "list_all plain_seg ps \<Longrightarrow> CHR ''/'' \<in> set (join_with ''/'' ps) \<longleftrightarrow> length ps > 1"
  by (induction "''/''" ps rule: join_with.induct) (auto simp: plain_seg_def)

lemma values_encode_single: "values_encode [(k, [v])] = QueryEscape k @ ''='' @ QueryEscape v"
  by (simp add: values_encode_def mgetd_def)

lemma escape_names: "QueryEscape ''link'' = ''link''" "QueryEscape ''action'' = ''action''"
  by code_simp+

lemma link_url_requests:
  assumes "ub_Prefix u = ''v1''" and "\<not> has_suffix ''/'' (ub_responseURLBase u)"
    and "list_all plain_seg (PluralName s # ps)" and "ps \<noteq> []" and "\<And>l. t = Linked l \<Longrightarrow> length ps > 1 \<Longrightarrow> plain_seg l"
    and "rq_Path r = path_of (target_segs s ps t)" and "rq_Query r = target_query ps t"
  shows "link_url u s (join_with ''/'' ps) t = ub_responseURLBase u @ request_uri r"
proof -
  have v1: "plain_seg (ub_Prefix u)" by (simp add: assms(1) plain_seg_def)
  have ps: "list_all plain_seg ps" "plain_seg (PluralName s)" using assms(3) by simp_all
  note shape = resource_link_shape [OF v1 ps(2) ps(1) assms(4,2)]
  have path: "path_of ([''v1'', PluralName s] @ qs) = ''/v1/'' @ PluralName s @ ''/'' @ join_with ''/'' qs" if "qs \<noteq> []" for qs
    using that by (cases qs) (simp_all add: path_of_def)
  have contains: "str_contains (join_with ''/'' ps) ''/'' \<longleftrightarrow> length ps > 1"
    using join_slash [OF ps(1)] by (simp add: str_contains_slash)
  show ?thesis
  proof (cases t)
    case Self
    then show ?thesis using shape path [OF assms(4)] assms(1,6,7) by (simp add: request_uri_def)
  next
    case (Acting a)
    have "link_url u s (join_with ''/'' ps) t = ResourceLink u s (join_with ''/'' ps) @ ''?action='' @ QueryEscape a"
      using shape [of a] Acting by simp
    then show ?thesis
      using shape path [OF assms(4)] assms(1,6,7) Acting by (simp add: request_uri_def values_encode_single escape_names del: QueryEscape.simps)
  next
    case (Linked l)
    show ?thesis
    proof (cases "length ps > 1")
      case False
      then show ?thesis
        using shape path [OF assms(4)] assms(1,6,7) Linked contains
        by (simp add: Link_def ResourceLink_def request_uri_def values_encode_single escape_names del: QueryEscape.simps)
    next
      case True
      with assms(5) Linked have l: "list_all plain_seg (ps @ [l])" "ps @ [l] \<noteq> []" "l \<noteq> []" using ps by (auto simp: plain_seg_def)
      have "join_with ''/'' ps \<noteq> []" using join_first_char [OF ps(1) assms(4), of "''/''"] by auto
      with l(3) have "path_join [join_with ''/'' ps, l] = path_join [join_with ''/'' (ps @ [l])]"
        using join_with_append [OF assms(4), of "[l]" "''/''"] by (simp add: path_join_def)
      then have "Link u s (join_with ''/'' ps) l = ResourceLink u s (join_with ''/'' (ps @ [l]))"
        using True contains by (simp add: Link_def ResourceLink_def schemaURL_def ConstructBasicURL_def)
      then show ?thesis
        using resource_link_shape [OF v1 ps(2) l(1,2) assms(2)] path [OF l(2)] True assms(1,6,7) Linked by (simp add: request_uri_def)
    qed
  qed
qed

definition finds_user :: "(http_request \<Rightarrow> http_request) option \<Rightarrow> http_request \<Rightarrow> user \<Rightarrow> bool" where
  "finds_user mw r usr \<longleftrightarrow> (\<forall>vs. (case mw of None \<Rightarrow> ToMiddleware AlwaysAdmin | Some w \<Rightarrow> w) (r\<lparr>rq_Vars := vs\<rparr>) =
     r\<lparr>rq_Vars := vs, rq_User := Some usr\<rparr>)"

lemma New_handler_routed:
  fixes A :: "'w app"
  assumes "New_handler A cfg mw nxt None = Inr handler" and "mux_ok (ap_mux A)" and "finds_user mw r usr"
    and "list_all route_seg segs" and "rq_Path r = path_of segs"
    and "\<And>h :: 'w http_handler Handlers. documented_mux (Routes h) segs False (rq_Query r) = (Served (h_K8sResource h), vs, True)"
  shows "handler r st = apiHandler (ap_env A) (ap_parse A) (ap_schemas A) (ap_server A) (k8sAPI (ap_convert A))
    (r\<lparr>rq_Vars := vs, rq_User := Some usr\<rparr>) st"
proof -
  obtain p where p: "New_proxy (ap_proxy_env A) cfg mw = Inr p" and h: "handler = serve_mux (ap_mux A) (ap_moved A) (Routes (New_handlers A p nxt))"
    using assms(1) by (auto simp: New_handler_def Let_def split: sum.splits)
  have "pc_auth p = (case mw of None \<Rightarrow> ToMiddleware AlwaysAdmin | Some w \<Rightarrow> w)"
    using p by (auto simp: New_proxy_def split: option.splits sum.splits)
  with assms(3) have w: "pc_auth p (r\<lparr>rq_Vars := vs\<rparr>) = r\<lparr>rq_Vars := vs, rq_User := Some usr\<rparr>" by (simp add: finds_user_def)
  have "ap_mux A (Routes H) r = documented_mux (Routes H) segs False (rq_Query r)" for H :: "'w http_handler Handlers"
    by (rule mux_okD [OF assms(2) _ assms(4,5)]) (simp add: Routes_def)
  then show ?thesis by (simp add: h serve_mux_def assms(6) New_handlers_def Let_def w)
qed

lemma Parse_routed:
  assumes "op_Request op = Some r" and "op_Schemas op = Some a" and "op_Schema op = None" and "op_URLBuilder op = Some b"
    and "op_Type op = t" and "t \<noteq> []" and "LookupSchema a t = Some s" and "op_Query op = None"
  shows "\<exists>op'. Parse parse MuxURLParser op = (ValidateMethod op', op') \<and> op_Schema op' = Some s \<and> op_Type op' = ID s \<and>
    op_Name op' = or_else (op_Name op) (mgetd [] (rq_Vars r) ''name'') \<and>
    op_Namespace op' = or_else (op_Namespace op) (mgetd [] (rq_Vars r) ''namespace'') \<and>
    op_Link op' = or_else (op_Link op) (mgetd [] (rq_Vars r) ''link'') \<and>
    op_Action op' = or_else (op_Action op) (mgetd [] (rq_Vars r) ''action'') \<and>
    op_Method op' = or_else (op_Method op) (or_else (parseMethod r) (rq_Method r))"
proof -
  let ?f = "fill_request r (fst (MuxURLParser r)) op"
  have "op_Schema (resolve_schema ?f) = Some s" "op_Type (resolve_schema ?f) = ID s"
    using assms by (auto simp: resolve_schema_def or_else_def Let_def split: option.splits)
  moreover have "Parse parse MuxURLParser op = (ValidateMethod (resolve_schema ?f), resolve_schema ?f)"
    using assms(1,4) by (simp add: Parse_def MuxURLParser_def Let_def)
  ultimately show ?thesis
    by (intro exI [of _ "resolve_schema ?f"]) (simp add: fill_request_method, simp add: MuxURLParser_def Let_def)
qed

text \<open>What the handler of resources makes of a routed request.\<close>

lemma k8sAPI_vars:
  assumes "op_Request op = Some r" and "op_Schemas op = Some a" and "op_Namespace op = []"
    and "LookupSchema a (mgetd [] (rq_Vars r) ''type'') = Some s" and "n = mgetd [] (rq_Vars r) ''nameorns''"
    and "vs' = (if n = [] then rq_Vars r else mput (if Namespaced C (Some s) then ''namespace'' else ''name'') n (rq_Vars r))"
  shows "k8sAPI C op = Inr (op\<lparr>op_Name := mgetd [] (rq_Vars r) ''name'', op_Type := mgetd [] (rq_Vars r) ''type'',
    op_Request := Some (r\<lparr>rq_Vars := vs'\<rparr>), op_Namespace := mgetd [] vs' ''namespace''\<rparr>)"
proof -
  have keep: "op\<lparr>op_Name := x, op_Type := y, op_Request := z, op_Namespace := []\<rparr> = op\<lparr>op_Name := x, op_Type := y, op_Request := z\<rparr>" for x y z
    using assms(3) by (cases op) simp
  have eq: "k8sAPI C op = Inr (let op = op\<lparr>op_Name := mgetd [] (rq_Vars r) ''name'', op_Type := mgetd [] (rq_Vars r) ''type'',
      op_Request := Some (r\<lparr>rq_Vars := vs'\<rparr>)\<rparr> in if mgetd [] vs' ''namespace'' \<noteq> [] then op\<lparr>op_Namespace := mgetd [] vs' ''namespace''\<rparr> else op)"
    by (cases "n = []") (simp_all add: k8sAPI_def Let_def assms(1,2,4,6) assms(5) [symmetric])
  show ?thesis
    by (cases "mgetd [] vs' ''namespace'' = []") (simp_all add: eq keep Let_def)
qed

lemma apiHandler_routed:
  assumes "ap_schemas A usr = Inr a" and "LookupSchema a t = Some s" and "t \<noteq> []" and "mgetd [] vs ''type'' = t"
    and "rq_Query r = q" and "values_get q ''_method'' = []"
    and "n = mgetd [] vs ''nameorns''"
    and "vs' = (if n = [] then vs else mput (if Namespaced (ap_convert A) (Some s) then ''namespace'' else ''name'') n vs)"
  shows "\<exists>op op'. apiHandler (ap_env A) (ap_parse A) (ap_schemas A) (ap_server A) (k8sAPI (ap_convert A))
      (r\<lparr>rq_Vars := vs, rq_User := Some usr\<rparr>) st =
      Server_handle (ap_env A) (ap_server A) (Parse (ap_parse A) MuxURLParser) op st \<and>
    Parse (ap_parse A) MuxURLParser op = (ValidateMethod op', op') \<and> op_Schema op' = Some s \<and> op_Type op' = ID s \<and>
    op_Name op' = or_else (mgetd [] vs ''name'') (mgetd [] vs' ''name'') \<and> op_Namespace op' = mgetd [] vs' ''namespace'' \<and>
    op_Link op' = mgetd [] vs' ''link'' \<and> op_Action op' = mgetd [] vs' ''action'' \<and> op_Method op' = rq_Method r"
proof -
  let ?r = "r\<lparr>rq_Vars := vs, rq_User := Some usr\<rparr>" and ?r' = "r\<lparr>rq_Vars := vs', rq_User := Some usr\<rparr>"
  obtain b where b: "NewURLBuilder (ap_parse A) ?r ''v1'' = Inr b" using response_base_is_prefix by blast
  let ?start = "empty_request\<lparr>op_Schemas := Some a, op_Request := Some ?r, op_URLBuilder := Some b\<rparr>"
  have common: "common (ap_env A) (ap_parse A) (ap_schemas A) ?r st = (Some ?start, st)"
    using assms(1) b by (simp add: common_def)
  let ?op = "?start\<lparr>op_Name := mgetd [] vs ''name'', op_Type := t, op_Request := Some ?r', op_Namespace := mgetd [] vs' ''namespace''\<rparr>"
  have k8s: "k8sAPI (ap_convert A) ?start = Inr ?op"
  proof -
    have op0: "op_Request ?start = Some ?r" "op_Schemas ?start = Some a" "op_Namespace ?start = []" by (simp_all add: empty_request_def)
    have vars: "rq_Vars ?r = vs" by simp
    have "LookupSchema a (mgetd [] (rq_Vars ?r) ''type'') = Some s" using assms(2,4) by simp
    from k8sAPI_vars [OF op0 this, unfolded vars, OF assms(7,8)]
    have "k8sAPI (ap_convert A) ?start = Inr (?start\<lparr>op_Name := mgetd [] vs ''name'', op_Type := t, op_Request := Some (?r\<lparr>rq_Vars := vs'\<rparr>),
        op_Namespace := mgetd [] vs' ''namespace''\<rparr>)" unfolding assms(4) .
    moreover have "?r\<lparr>rq_Vars := vs'\<rparr> = ?r'" by simp
    ultimately show ?thesis by (simp only:)
  qed
  have sent_method: "parseMethod ?r' = rq_Method r" using assms(5,6) by (simp add: parseMethod_def)
  have fields: "op_Request ?op = Some ?r'" "op_Schemas ?op = Some a" "op_Schema ?op = None" "op_URLBuilder ?op = Some b"
    "op_Type ?op = t" "op_Query ?op = None" "op_Link ?op = []" "op_Action ?op = []" "op_Method ?op = []"
    "op_Namespace ?op = mgetd [] vs' ''namespace''" "op_Name ?op = mgetd [] vs ''name''"
    by (simp_all add: empty_request_def)
  obtain op' where op': "Parse (ap_parse A) MuxURLParser ?op = (ValidateMethod op', op')" "op_Schema op' = Some s" "op_Type op' = ID s"
    "op_Name op' = or_else (op_Name ?op) (mgetd [] (rq_Vars ?r') ''name'')"
    "op_Namespace op' = or_else (op_Namespace ?op) (mgetd [] (rq_Vars ?r') ''namespace'')"
    "op_Link op' = or_else (op_Link ?op) (mgetd [] (rq_Vars ?r') ''link'')"
    "op_Action op' = or_else (op_Action ?op) (mgetd [] (rq_Vars ?r') ''action'')"
    "op_Method op' = or_else (op_Method ?op) (or_else (parseMethod ?r') (rq_Method ?r'))"
    using Parse_routed [OF fields(1-5) assms(3,2) fields(6), of "ap_parse A"] by (elim exE conjE) (rule that)
  have vars: "rq_Vars ?r' = vs'" "rq_Method ?r' = rq_Method r" by simp_all
  have "apiHandler (ap_env A) (ap_parse A) (ap_schemas A) (ap_server A) (k8sAPI (ap_convert A)) ?r st =
      Server_handle (ap_env A) (ap_server A) (Parse (ap_parse A) MuxURLParser) ?op st"
    by (simp only: apiHandler_def common k8s prod.case option.case sum.case)
  moreover have "op_Name op' = or_else (mgetd [] vs ''name'') (mgetd [] vs' ''name'')" "op_Namespace op' = mgetd [] vs' ''namespace''"
    "op_Link op' = mgetd [] vs' ''link''" "op_Action op' = mgetd [] vs' ''action''" "op_Method op' = rq_Method r"
    using op'(4-8) unfolding fields vars sent_method by (simp_all add: or_else_def)
  ultimately show ?thesis using op'(1-3) by blast
qed

fun target_Link :: "link_target \<Rightarrow> string" where
  "target_Link (Linked l) = l"
| "target_Link _ = []"

fun target_Action :: "link_target \<Rightarrow> string" where
  "target_Action (Acting a) = a"
| "target_Action _ = []"

text \<open>The variables that the handler of resources reads for the URL of an object.\<close>

fun target_vars :: "api_schema \<Rightarrow> string list \<Rightarrow> link_target \<Rightarrow> (string, string) gomap" where
  "target_vars s [n] t = [(''type'', PluralName s), (''nameorns'', n)] @ query_var [''link'', ''action''] (target_query [n] t)"
| "target_vars s [ns, n] t =
     [(''type'', PluralName s), (''namespace'', ns), (''name'', n)] @
       (case t of Linked l \<Rightarrow> [(''link'', l)] | _ \<Rightarrow> query_var [''action'', ''link''] (target_query [ns, n] t))"
| "target_vars s _ t = []"

lemma target_routes:
  "ps = [n] \<or> ps = [ns, n] \<Longrightarrow>
     documented_mux (Routes h) (target_segs s ps t) False (target_query ps t) = (Served (h_K8sResource h), target_vars s ps t, True)"
  by (cases t) (auto simp: resource_routes)

lemma target_vars_get:
  assumes "ps = (if c then [ns, n] else [n])"
  shows "mgetd [] (target_vars s ps t) ''type'' = PluralName s" "mgetd [] (target_vars s ps t) ''nameorns'' = (if c then [] else n)"
    "mgetd [] (target_vars s ps t) ''name'' = (if c then n else [])" "mgetd [] (target_vars s ps t) ''namespace'' = (if c then ns else [])"
    "mgetd [] (target_vars s ps t) ''link'' = target_Link t" "mgetd [] (target_vars s ps t) ''action'' = target_Action t"
  using assms by (cases t; simp add: query_var_def match_query_get mgetd_def values_get_def)+

text \<open>C11. Links lead back, where nothing in them needs to be escaped: the plural name of the schema, the namespace and name of the object and the
  name of the link are made of unreserved characters (the builder does not escape them, so that the URL of a name with a space or a question mark leads
  elsewhere), the base URL does not end in a slash, and the collection of the user finds the schema under its plural name. Then every URL that the URL builder makes for the object, to
  itself, to one of its links or to one of its actions (whatever the name of the action, which is escaped), is the base URL followed by a path and query
  whose request is routed to the handler of resources, and is parsed there to the very schema,
  namespace, name, link and action that the URL was built of; it reaches the API server with the method it was sent with.
\<close>

theorem links_lead_back:
  assumes "New_handler A cfg mw nxt None = Inr handler" and "mux_ok (ap_mux A)" and "finds_user mw r usr"
    and "ap_schemas A usr = Inr a" and "LookupSchema a (PluralName s) = Some s"
    and "ub_Prefix u = ''v1''" and "\<not> has_suffix ''/'' (ub_responseURLBase u)"
    and "ps = (if Namespaced (ap_convert A) (Some s) then [ns, n] else [n])" and "list_all route_seg (PluralName s # ps)"
    and "\<And>l. t = Linked l \<Longrightarrow> route_seg l"
    and "rq_Path r = path_of (target_segs s ps t)" and "rq_Query r = target_query ps t"
  shows "link_url u s (join_with ''/'' ps) t = ub_responseURLBase u @ request_uri r \<and>
    (\<exists>op op'. handler r st = Server_handle (ap_env A) (ap_server A) (Parse (ap_parse A) MuxURLParser) op st \<and>
       Parse (ap_parse A) MuxURLParser op = (ValidateMethod op', op') \<and> op_Schema op' = Some s \<and> op_Type op' = ID s \<and>
       op_Name op' = n \<and> op_Namespace op' = (if Namespaced (ap_convert A) (Some s) then ns else []) \<and>
       op_Link op' = target_Link t \<and> op_Action op' = target_Action t \<and> op_Method op' = rq_Method r)"
proof
  have plain: "list_all plain_seg (PluralName s # ps)" using assms(9) by (auto simp: route_seg_def list_all_iff)
  show "link_url u s (join_with ''/'' ps) t = ub_responseURLBase u @ request_uri r"
  proof (rule link_url_requests [OF assms(6,7) plain _ _ assms(11,12)])
    show "ps \<noteq> []" using assms(8) by simp
    show "plain_seg l" if "t = Linked l" for l using assms(10) [OF that] by (simp add: route_seg_def)
  qed
  let ?c = "Namespaced (ap_convert A) (Some s)" and ?vs = "target_vars s ps t"
  have ps: "ps = [n] \<or> ps = [ns, n]" "n \<noteq> []" "PluralName s \<noteq> []"
    using assms(8) plain by (auto simp: plain_seg_def split: if_splits)
  have segs: "list_all route_seg (target_segs s ps t)"
    using assms(9,10) by (cases t) (auto simp: route_seg_def plain_seg_def unreserved_def)
  note target = target_vars_get [OF assms(8), where s = s and t = t]
  have route: "documented_mux (Routes h) (target_segs s ps t) False (rq_Query r) = (Served (h_K8sResource h), ?vs, True)" for h :: "'a http_handler Handlers"
    using target_routes [OF ps(1)] assms(12) by simp
  note handler = New_handler_routed [OF assms(1-3) segs assms(11) route]
  have no_method: "values_get (target_query ps t) ''_method'' = []" by (cases t) (simp_all add: values_get_def)
  define vs' where "vs' = (if (if ?c then [] else n) = [] then ?vs else mput (if ?c then ''namespace'' else ''name'') (if ?c then [] else n) ?vs)"
  have target': "or_else (mgetd [] ?vs ''name'') (mgetd [] vs' ''name'') = n" "mgetd [] vs' ''namespace'' = (if ?c then ns else [])"
    "mgetd [] vs' ''link'' = target_Link t" "mgetd [] vs' ''action'' = target_Action t"
    using ps(2) target by (auto simp: vs'_def mgetd_mput or_else_def)
  from apiHandler_routed [OF assms(4,5) ps(3) target(1) assms(12) no_method target(2) [symmetric] vs'_def, of st]
  show "\<exists>op op'. handler r st = Server_handle (ap_env A) (ap_server A) (Parse (ap_parse A) MuxURLParser) op st \<and>
       Parse (ap_parse A) MuxURLParser op = (ValidateMethod op', op') \<and> op_Schema op' = Some s \<and> op_Type op' = ID s \<and>
       op_Name op' = n \<and> op_Namespace op' = (if ?c then ns else []) \<and>
       op_Link op' = target_Link t \<and> op_Action op' = target_Action t \<and> op_Method op' = rq_Method r"
    unfolding target' handler .
qed

text \<open>What \<open>setDefaults\<close> and the modifiers of schemas leave alone.\<close>

lemma prepared_fields [simp]:
  "op_Action (prepared E srv op) = op_Action op" "op_Name (prepared E srv op) = op_Name op"
  "op_Link (prepared E srv op) = op_Link op" "op_Method (prepared E srv op) = op_Method op"
  "op_Type (prepared E srv op) = op_Type op" "op_Namespace (prepared E srv op) = op_Namespace op"
  by (simp_all add: prepared_def run_modifiers_def setDefaults_def Let_def split: option.splits)

text \<open>
  Actions of a collection are not routed. The URL that \<open>CollectionAction\<close> builds is a URL of this server, but the routes with an
  action need a name: a POST to it is parsed without action, passes the check of actions and is served as a create.
\<close>

theorem collection_action_creates:
  assumes "New_handler A cfg mw nxt None = Inr handler" and "mux_ok (ap_mux A)" and "finds_user mw r usr"
    and "ap_schemas A usr = Inr a" and "LookupSchema a (PluralName s) = Some s"
    and "ub_Prefix u = ''v1''" and "\<not> has_suffix ''/'' (ub_responseURLBase u)" and "route_seg (PluralName s)"
    and "rq_Method r = MethodPost" and "rq_Path r = path_of [''v1'', PluralName s]" and "rq_Query r = [(''action'', [act])]"
  shows "CollectionAction u s act = ub_responseURLBase u @ request_uri r \<and>
    (\<exists>op op'. handler r st = Server_handle (ap_env A) (ap_server A) (Parse (ap_parse A) MuxURLParser) op st \<and>
       Parse (ap_parse A) MuxURLParser op = (ValidateMethod op', op') \<and> op_Schema op' = Some s \<and>
       (let q = prepared (ap_env A) (ap_server A) op' in
          validateAction q s = Inr None \<and>
          dispatch (ap_env A) q s st =
            object_result 201 (handle_custom (ap_env A) q (CreateHandler s) (handlers_Create (ap_env A) q s) st)))"
proof
  have plain: "plain_seg (PluralName s)" using assms(8) by (simp add: route_seg_def)
  have v1: "plain_seg (ub_Prefix u)" by (simp add: assms(6) plain_seg_def)
  have "CollectionURL u s = ub_responseURLBase u @ ''/v1/'' @ PluralName s"
    using resource_link_shape [OF v1 plain, of "[''x'']"] assms(6,7) by (simp add: plain_seg_def)
  then show "CollectionAction u s act = ub_responseURLBase u @ request_uri r"
    using assms(10,11) by (simp add: CollectionAction_def CollectionURL_def request_uri_def path_of_def values_encode_single escape_names
        del: QueryEscape.simps)
  let ?vs = "[(''type'', PluralName s)]"
  have segs: "list_all route_seg [''v1'', PluralName s]"
    using assms(8) by (simp add: route_seg_def plain_seg_def unreserved_def)
  have route: "documented_mux (Routes h) [''v1'', PluralName s] False (rq_Query r) = (Served (h_K8sResource h), ?vs, True)" for h :: "'a http_handler Handlers"
    by (simp add: resource_routes)
  note handler = New_handler_routed [OF assms(1-3) segs assms(10) route]
  have found: "PluralName s \<noteq> []" "mgetd [] ?vs ''type'' = PluralName s" "values_get [(''action'', [act])] ''_method'' = []"
    "[] = mgetd [] ?vs ''nameorns''" "?vs = (if [] = [] then ?vs else mput x [] ?vs)" for x :: string
    using plain by (simp_all add: plain_seg_def mgetd_def values_get_def)
  obtain op op' where op: "handler r st = Server_handle (ap_env A) (ap_server A) (Parse (ap_parse A) MuxURLParser) op st"
    "Parse (ap_parse A) MuxURLParser op = (ValidateMethod op', op')" "op_Schema op' = Some s"
    and fields: "op_Name op' = or_else (mgetd [] ?vs ''name'') (mgetd [] ?vs ''name'')" "op_Action op' = mgetd [] ?vs ''action''"
      "op_Method op' = rq_Method r"
    using apiHandler_routed [OF assms(4,5) found(1,2) assms(11) found(3,4,5), of st] unfolding handler by blast
  have "op_Action op' = []" "op_Method op' = MethodPost" "op_Name op' = []"
    using fields assms(9) by (simp_all add: mgetd_def or_else_def)
  with op show "\<exists>op op'. handler r st = Server_handle (ap_env A) (ap_server A) (Parse (ap_parse A) MuxURLParser) op st \<and>
       Parse (ap_parse A) MuxURLParser op = (ValidateMethod op', op') \<and> op_Schema op' = Some s \<and>
       (let q = prepared (ap_env A) (ap_server A) op' in
          validateAction q s = Inr None \<and>
          dispatch (ap_env A) q s st =
            object_result 201 (handle_custom (ap_env A) q (CreateHandler s) (handlers_Create (ap_env A) q s) st))"
    by (intro exI [of _ op] exI [of _ op']) (simp add: validateAction_def dispatch_def Let_def methods)
qed

section \<open>A concrete application\<close>

definition ex_mux :: "'h mux" where
  "ex_mux M r =
     (let ps = split_on CHR ''/'' (tl (rq_Path r))
      in documented_mux M (filter (\<lambda>p. p \<noteq> []) ps) (length ps > 1 \<and> last ps = []) (rq_Query r))"

lemma ex_mux_ok: "mux_ok ex_mux"
proof -
  have "ex_mux M r = documented_mux M segs slash (rq_Query r)"
    if path: "rq_Path r = request_path segs slash" and segs: "list_all route_seg segs" and slash: "slash \<longrightarrow> segs \<noteq> []"
    for M :: "'a mux_router" and r segs slash
  proof (cases "segs = []")
    case True
    with path slash show ?thesis by (simp add: ex_mux_def request_path_def path_of_def)
  next
    case False
    let ?ps = "segs @ (if slash then [[]] else [])"
    have plain: "list_all (\<lambda>p. p \<noteq> [] \<and> CHR ''/'' \<notin> set p) segs" using segs by (auto simp: route_seg_def plain_seg_def list_all_iff)
    have "tl (rq_Path r) = join_with ''/'' ?ps"
      using join_with_append [OF False, of "[[]]" "''/''"] by (simp add: path request_path_def path_of_def)
    moreover have "split_on CHR ''/'' (join_with ''/'' ?ps) = ?ps"
      using plain False by (intro split_on_join) (auto simp: list_all_iff)
    moreover have "filter (\<lambda>p. p \<noteq> []) ?ps = segs" using plain by (auto simp: list_all_iff filter_id_conv)
    moreover have "(length ?ps > 1 \<and> last ?ps = []) = slash" using plain False by (auto simp: list_all_iff)
    ultimately show ?thesis by (simp only: ex_mux_def Let_def)
  qed
  then show ?thesis unfolding mux_ok_def by blast
qed

definition ex_schemas :: api_schemas where
  "ex_schemas = addToIndex ex_pod_schema (EmptyAPISchemas\<lparr>Schemas := [(''pod'', ex_pod_schema)]\<rparr>)"

definition ex_app :: "nat app" where
  "ex_app = \<lparr>ap_env = ex_server_env, ap_parse = (\<lambda>s. Inr (''http'', ''h'')), ap_convert = convert_std, ap_schemas = (\<lambda>u. Inr ex_schemas),
     ap_server = ex_server, ap_proxy_env = ex_proxy_env, ap_forward = (\<lambda>p st. st), ap_mux = ex_mux, ap_moved = (\<lambda>path r st. st)\<rparr>"

definition ex_builder :: url_builder where
  "ex_builder = \<lparr>ub_Prefix = ''v1'', ub_currentURL = [], ub_responseURLBase = ''http://h'', ub_query = []\<rparr>"

lemma ex_app_handler: "\<exists>handler. New_handler ex_app ex_proxy_config None (\<lambda>r st. st) None = Inr handler"
  by (simp add: New_handler_def New_proxy_def ex_app_def Proxy_Handler_def makeUpgradeTransport_def ex_proxy_env_def Let_def)

lemma admin_found: "finds_user None r \<lparr>u_Name = ''admin'', u_UID = ''admin'', u_Groups = [''system:masters'', ''system:authenticated''], u_Extra = []\<rparr>"
  by (simp add: finds_user_def ToMiddleware_def AlwaysAdmin_def)

lemma ex_pod_names: "PluralName ex_pod_schema = ''pods''" "ID ex_pod_schema = ''pod''" "Namespaced convert_std (Some ex_pod_schema)"
  by code_simp+

lemma ex_pods_found: "LookupSchema ex_schemas ''pods'' = Some ex_pod_schema"
  by (simp add: ex_schemas_def LookupSchema_def addToIndex_def ex_pod_names mget_mput EmptyAPISchemas_def)

lemma ex_base: "\<not> has_suffix ''/'' (ub_responseURLBase ex_builder)" "ub_Prefix ex_builder = ''v1''"
  "ub_responseURLBase ex_builder = ''http://h''"
  by (simp_all add: ex_builder_def has_suffix_def has_prefix_def)

lemma ex_segs: "list_all route_seg [''pods'', ''default'', ''web-0'', ''log'']"
  by code_simp

lemma routing_table_witness:
  "let H = \<lparr>h_K8sResource = 1, h_APIRoot = 2, h_K8sProxy = 3, h_Next = 4 :: nat\<rparr>; to = (\<lambda>p. fst (ex_mux (Routes H) (new_request\<lparr>rq_Path := p\<rparr>)))
   in to ''/apikeys'' = Served 4 \<and> to ''/apis/'' = Served 3 \<and> to ''/api/'' = Moved ''/api''"
proof -
  have segs: "list_all route_seg [''apikeys'']" "list_all route_seg [''apis'']" "list_all route_seg [''api'']" by code_simp+
  let ?H = "\<lparr>h_K8sResource = 1, h_APIRoot = 2, h_K8sProxy = 3, h_Next = 4 :: nat\<rparr>"
  from routing_table [OF ex_mux_ok segs(1), of False "new_request\<lparr>rq_Path := ''/apikeys''\<rparr>" ?H]
    routing_table [OF ex_mux_ok segs(2), of True "new_request\<lparr>rq_Path := ''/apis/''\<rparr>" ?H]
    routing_table [OF ex_mux_ok segs(3), of True "new_request\<lparr>rq_Path := ''/api/''\<rparr>" ?H]
  show ?thesis by (simp add: path_of_def has_prefix_def)
qed

lemma links_lead_back_witness:
  "link_url ex_builder ex_pod_schema ''default/web-0'' (Linked ''log'') = ''http://h/v1/pods/default/web-0/log'' \<and>
   (\<exists>handler op op'. New_handler ex_app ex_proxy_config None (\<lambda>r st. st) None = Inr handler \<and>
      handler (new_request\<lparr>rq_Path := ''/v1/pods/default/web-0/log''\<rparr>) ex_rstate =
        Server_handle ex_server_env ex_server (Parse (\<lambda>s. Inr (''http'', ''h'')) MuxURLParser) op ex_rstate \<and>
      snd (Parse (\<lambda>s. Inr (''http'', ''h'')) MuxURLParser op) = op' \<and> op_Name op' = ''web-0'' \<and> op_Link op' = ''log'')"
proof -
  obtain handler where handler: "New_handler ex_app ex_proxy_config None (\<lambda>r st. st) None = Inr handler" using ex_app_handler by blast
  let ?r = "new_request\<lparr>rq_Path := ''/v1/pods/default/web-0/log''\<rparr>"
  have app: "mux_ok (ap_mux ex_app)" "ap_schemas ex_app u = Inr ex_schemas" "ap_convert ex_app = convert_std"
    "ap_env ex_app = ex_server_env" "ap_server ex_app = ex_server" "ap_parse ex_app = (\<lambda>s. Inr (''http'', ''h''))" for u
    using ex_mux_ok by (simp_all add: ex_app_def)
  have segs: "list_all route_seg (PluralName ex_pod_schema # [''default'', ''web-0''])" "route_seg ''log''"
    using ex_segs by (simp_all add: ex_pod_names)
  have path: "rq_Path ?r = path_of (target_segs ex_pod_schema [''default'', ''web-0''] (Linked ''log''))"
    by (simp add: ex_pod_names path_of_def)
  have found: "LookupSchema ex_schemas (PluralName ex_pod_schema) = Some ex_pod_schema" by (simp add: ex_pod_names ex_pods_found)
  from links_lead_back [OF handler app(1) admin_found app(2) found ex_base(2,1), of "[''default'', ''web-0'']" "''default''" "''web-0''" "Linked ''log''" ?r]
  have "link_url ex_builder ex_pod_schema (join_with ''/'' [''default'', ''web-0'']) (Linked ''log'') = ub_responseURLBase ex_builder @ request_uri ?r \<and>
    (\<exists>op op'. handler ?r ex_rstate = Server_handle ex_server_env ex_server (Parse (\<lambda>s. Inr (''http'', ''h'')) MuxURLParser) op ex_rstate \<and>
       Parse (\<lambda>s. Inr (''http'', ''h'')) MuxURLParser op = (ValidateMethod op', op') \<and> op_Name op' = ''web-0'' \<and> op_Link op' = ''log'')"
    using segs path by (simp only: app ex_pod_names) (simp add: new_request_def, blast)
  then show ?thesis using handler by (auto simp: ex_base request_uri_def new_request_def)
qed

lemma collection_action_creates_witness:
  "CollectionAction ex_builder ex_pod_schema ''import'' = ''http://h/v1/pods?action=import'' \<and>
   (\<exists>handler op op'. New_handler ex_app ex_proxy_config None (\<lambda>r st. st) None = Inr handler \<and>
      handler (new_request\<lparr>rq_Method := MethodPost, rq_Path := ''/v1/pods'', rq_Query := [(''action'', [''import''])]\<rparr>) ex_rstate =
        Server_handle ex_server_env ex_server (Parse (\<lambda>s. Inr (''http'', ''h'')) MuxURLParser) op ex_rstate \<and>
      snd (Parse (\<lambda>s. Inr (''http'', ''h'')) MuxURLParser op) = op' \<and>
      validateAction (prepared ex_server_env ex_server op') ex_pod_schema = Inr None)"
proof -
  obtain handler where handler: "New_handler ex_app ex_proxy_config None (\<lambda>r st. st) None = Inr handler" using ex_app_handler by blast
  let ?r = "new_request\<lparr>rq_Method := MethodPost, rq_Path := ''/v1/pods'', rq_Query := [(''action'', [''import''])]\<rparr>"
  have app: "mux_ok (ap_mux ex_app)" "ap_schemas ex_app u = Inr ex_schemas"
    "ap_env ex_app = ex_server_env" "ap_server ex_app = ex_server" "ap_parse ex_app = (\<lambda>s. Inr (''http'', ''h''))" for u
    using ex_mux_ok by (simp_all add: ex_app_def)
  have seg: "route_seg (PluralName ex_pod_schema)" using ex_segs by (simp add: ex_pod_names)
  have req: "rq_Method ?r = MethodPost" "rq_Path ?r = path_of [''v1'', PluralName ex_pod_schema]" "rq_Query ?r = [(''action'', [''import''])]"
    by (simp_all add: ex_pod_names path_of_def)
  have found: "LookupSchema ex_schemas (PluralName ex_pod_schema) = Some ex_pod_schema" by (simp add: ex_pod_names ex_pods_found)
  have uri: "request_uri ?r = ''/v1/pods?action=import''" by code_simp
  note created = collection_action_creates [OF handler app(1) admin_found app(2) found ex_base(2,1) seg req, of ex_rstate, unfolded app uri Let_def]
  from created [THEN conjunct2] obtain op op' where op: "handler ?r ex_rstate = Server_handle ex_server_env ex_server (Parse (\<lambda>s. Inr (''http'', ''h'')) MuxURLParser) op ex_rstate"
    "snd (Parse (\<lambda>s. Inr (''http'', ''h'')) MuxURLParser op) = op'" "validateAction (prepared ex_server_env ex_server op') ex_pod_schema = Inr None"
    by (metis snd_conv)
  have "CollectionAction ex_builder ex_pod_schema ''import'' = ''http://h/v1/pods?action=import''"
    using created [THEN conjunct1] by (simp only: ex_base(3) append.simps)
  with op handler show ?thesis by (intro conjI exI)
qed

end
