(* ===== verification/Schema_Watch.thy ===== *)
theory Schema_Watch
  imports Schema_Store
begin

section \<open>The goroutines of a schema watch: resources/schemas/template.go\<close>

text \<open>
  \<open>Store.Watch\<close> starts two workers that send to one unbuffered channel. The first hears of changes of the
  collection through a broadcaster, the second of changes of the user's access set through a goroutine that polls. Each
  keeps the schemas it last sent as its own baseline; \<open>sendSchemas\<close> of \<open>Schema_Store\<close> gives what it sends next. A
  third goroutine closes the channel when both workers are done.

  The schemas of the user and the id of the access set are functions of a world that changes at any time. The
  broadcaster is not in the repository: a change that it takes is one more notification to read, a change it is not
  ready for is dropped by the \<^verbatim>\<open>select\<close> of \<open>schemaChangeNotifier\<close>, and closing the subscription ends the channel once it
  is read empty. A send of the unbuffered channel is one step together with the receive.
\<close>

datatype watch_worker =
    Fresh
  | Subscribed
  | Based api_schemas
  | Ready api_schemas
  | Sending "api_schema api_event list" api_schemas
  | Finished

datatype poller = Not_started | Sleeping string | Notifying string | Stopped

record 'w watch_env =
  we_sub :: "string \<Rightarrow> string"
  we_schemas :: "'w \<Rightarrow> go_err + api_schemas"
  we_access :: "'w \<Rightarrow> string"

record 'w watch_state =
  ws_world :: 'w
  ws_ctx_done :: bool
  ws_open :: bool
  ws_pending :: nat
  ws_changes :: watch_worker
  ws_users :: watch_worker
  ws_poller :: poller
  ws_sent :: "api_schema api_event list"
  ws_closed :: bool

text \<open>A request without a user is refused; otherwise both workers start.\<close>

definition schema_Watch :: "api_request \<Rightarrow> 'w \<Rightarrow> go_err + 'w watch_state" where
  "schema_Watch op w =
     (case (case op_Request op of None \<Rightarrow> None | Some r \<Rightarrow> rq_User r) of
        None \<Rightarrow> Inl (CodeError Unauthorized)
      | Some _ \<Rightarrow> Inr \<lparr>ws_world = w, ws_ctx_done = False, ws_open = False, ws_pending = 0, ws_changes = Fresh, ws_users = Fresh,
          ws_poller = Not_started, ws_sent = [], ws_closed = False\<rparr>)"

text \<open>
  A change of the collection: the notifier offers it to the broadcaster, which takes it if it is ready, and passes it
  on to an open subscription.
\<close>

definition schemaChangeNotifier :: "bool \<Rightarrow> bool \<Rightarrow> nat \<Rightarrow> nat" where
  "schemaChangeNotifier ready subscribed pending = (if ready \<and> subscribed then Suc pending else pending)"

text \<open>Schemas at a time, or the end of a worker.\<close>

definition baseline :: "'w watch_env \<Rightarrow> 'w \<Rightarrow> (api_schemas \<Rightarrow> watch_worker) \<Rightarrow> watch_worker" where
  "baseline E w next = (case we_schemas E w of Inl _ \<Rightarrow> Finished | Inr b \<Rightarrow> next b)"

datatype watch_label = Internal | Receive "api_schema api_event"

inductive watch_step :: "'w watch_env \<Rightarrow> watch_label \<Rightarrow> 'w watch_state \<Rightarrow> 'w watch_state \<Rightarrow> bool" for E where
  world_change: "watch_step E Internal s (s\<lparr>ws_world := w\<rparr>)"
| change_noticed: "watch_step E Internal s (s\<lparr>ws_world := w, ws_pending := schemaChangeNotifier ready (ws_open s) (ws_pending s)\<rparr>)"
| cancel: "watch_step E Internal s (s\<lparr>ws_ctx_done := True\<rparr>)"
| sub_close: "ws_ctx_done s \<Longrightarrow> ws_open s \<Longrightarrow> watch_step E Internal s (s\<lparr>ws_open := False\<rparr>)"
| changes_subscribe: "ws_changes s = Fresh \<Longrightarrow> watch_step E Internal s (s\<lparr>ws_changes := Subscribed, ws_open := True\<rparr>)"
| changes_base: "ws_changes s = Subscribed \<Longrightarrow>
    watch_step E Internal s (s\<lparr>ws_changes := baseline E (ws_world s) Ready\<rparr>)"
| changes_notified: "ws_changes s = Ready b \<Longrightarrow> ws_pending s > 0 \<Longrightarrow>
    sendSchemas (we_sub E) (we_schemas E (ws_world s)) b = Some (evs, b') \<Longrightarrow>
    watch_step E Internal s (s\<lparr>ws_changes := Sending evs b', ws_pending := ws_pending s - 1\<rparr>)"
| changes_send: "ws_changes s = Sending (e # evs) b \<Longrightarrow>
    watch_step E (Receive e) s (s\<lparr>ws_changes := Sending evs b, ws_sent := ws_sent s @ [e]\<rparr>)"
| changes_sent: "ws_changes s = Sending [] b \<Longrightarrow> watch_step E Internal s (s\<lparr>ws_changes := Ready b\<rparr>)"
| changes_end: "ws_changes s = Ready b \<Longrightarrow> ws_pending s = 0 \<Longrightarrow> \<not> ws_open s \<Longrightarrow>
    watch_step E Internal s (s\<lparr>ws_changes := Finished\<rparr>)"
| users_base: "ws_users s = Fresh \<Longrightarrow> watch_step E Internal s (s\<lparr>ws_users := baseline E (ws_world s) Based\<rparr>)"
| users_access: "ws_users s = Based b \<Longrightarrow>
    watch_step E Internal s (s\<lparr>ws_users := Ready b, ws_poller := Sleeping (we_access E (ws_world s))\<rparr>)"
| poll_news: "ws_poller s = Sleeping as \<Longrightarrow> we_access E (ws_world s) \<noteq> as \<Longrightarrow>
    watch_step E Internal s (s\<lparr>ws_poller := Notifying (we_access E (ws_world s))\<rparr>)"
| poll_stop: "ws_poller s = Sleeping as \<Longrightarrow> ws_ctx_done s \<Longrightarrow> watch_step E Internal s (s\<lparr>ws_poller := Stopped\<rparr>)"
| users_notified: "ws_poller s = Notifying as \<Longrightarrow> ws_users s = Ready b \<Longrightarrow>
    sendSchemas (we_sub E) (we_schemas E (ws_world s)) b = Some (evs, b') \<Longrightarrow>
    watch_step E Internal s (s\<lparr>ws_users := Sending evs b', ws_poller := Sleeping as\<rparr>)"
| users_send: "ws_users s = Sending (e # evs) b \<Longrightarrow>
    watch_step E (Receive e) s (s\<lparr>ws_users := Sending evs b, ws_sent := ws_sent s @ [e]\<rparr>)"
| users_sent: "ws_users s = Sending [] b \<Longrightarrow> watch_step E Internal s (s\<lparr>ws_users := Ready b\<rparr>)"
| users_end: "ws_users s = Ready b \<Longrightarrow> ws_poller s = Stopped \<Longrightarrow> watch_step E Internal s (s\<lparr>ws_users := Finished\<rparr>)"
| close: "ws_changes s = Finished \<Longrightarrow> ws_users s = Finished \<Longrightarrow> \<not> ws_closed s \<Longrightarrow>
    watch_step E Internal s (s\<lparr>ws_closed := True\<rparr>)"

inductive watch_run :: "'w watch_env \<Rightarrow> watch_label list \<Rightarrow> 'w watch_state \<Rightarrow> 'w watch_state \<Rightarrow> bool" for E where
  watch_nil: "watch_run E [] s s"
| watch_cons: "watch_step E l s s' \<Longrightarrow> watch_run E ls s' s'' \<Longrightarrow> watch_run E (l # ls) s s''"

lemma watch_run_append: "watch_run E ls s s' \<Longrightarrow> watch_run E ls' s' s'' \<Longrightarrow> watch_run E (ls @ ls') s s''"
  by (induction rule: watch_run.induct) (auto intro: watch_cons)

definition reaches :: "'w watch_env \<Rightarrow> 'w watch_state \<Rightarrow> 'w watch_state \<Rightarrow> bool" where
  "reaches E s s' \<longleftrightarrow> (\<exists>ls. watch_run E ls s s')"

lemma reaches_refl [simp]: "reaches E s s"
  using watch_nil by (auto simp: reaches_def)

lemma reaches_step: "watch_step E l s s' \<Longrightarrow> reaches E s' s'' \<Longrightarrow> reaches E s s''"
  unfolding reaches_def using watch_cons by blast

lemma reaches_trans: "reaches E s s' \<Longrightarrow> reaches E s' s'' \<Longrightarrow> reaches E s s''"
  unfolding reaches_def using watch_run_append by blast

section \<open>The channel is closed when both workers are done, and only then\<close>

definition watch_env_ok :: "'w watch_env \<Rightarrow> bool" where
  "watch_env_ok E \<longleftrightarrow> sub_ok (we_sub E) \<and> (\<forall>w b. we_schemas E w = Inr b \<longrightarrow> keyed (Schemas b))"

fun worker_base :: "watch_worker \<Rightarrow> api_schemas option" where
  "worker_base (Based b) = Some b"
| "worker_base (Ready b) = Some b"
| "worker_base (Sending _ b) = Some b"
| "worker_base _ = None"

definition poller_fits :: "watch_worker \<Rightarrow> poller \<Rightarrow> bool" where
  "poller_fits u p \<longleftrightarrow> (case u of
       Fresh \<Rightarrow> p = Not_started | Based _ \<Rightarrow> p = Not_started | Subscribed \<Rightarrow> False
     | Ready _ \<Rightarrow> p \<noteq> Not_started | Sending _ _ \<Rightarrow> p \<noteq> Not_started | Finished \<Rightarrow> p = Not_started \<or> p = Stopped)"

definition watch_inv :: "'w watch_state \<Rightarrow> bool" where
  "watch_inv s \<longleftrightarrow> (ws_closed s \<longrightarrow> ws_changes s = Finished \<and> ws_users s = Finished) \<and>
     (\<forall>b. worker_base (ws_changes s) = Some b \<or> worker_base (ws_users s) = Some b \<longrightarrow> keyed (Schemas b)) \<and>
     (\<forall>b. ws_changes s \<noteq> Based b) \<and> poller_fits (ws_users s) (ws_poller s)"

lemma sendSchemas_base:
  assumes "sendSchemas sub c b = Some (evs, b')"
  shows "b' = b \<or> c = Inr b'"
  using assms by (auto simp: sendSchemas_def split: sum.splits option.splits)

lemma sendSchemas_total:
  assumes "watch_env_ok E" and "keyed (Schemas b)"
  shows "\<exists>evs b'. sendSchemas (we_sub E) (we_schemas E w) b = Some (evs, b')"
proof (cases "we_schemas E w")
  case (Inr c)
  with assms have "keyed (Schemas c)" "sub_ok (we_sub E)" by (auto simp: watch_env_ok_def)
  with FilterSchemas_total [of "Schemas c" "we_sub E"] FilterSchemas_total [OF assms(2), of "we_sub E"] Inr
  show ?thesis by (auto simp: sendSchemas_def)
qed (simp add: sendSchemas_def)

lemma worker_base_baseline: "worker_base (baseline E w Ready) = Some b \<Longrightarrow> we_schemas E w = Inr b"
  "worker_base (baseline E w Based) = Some b \<Longrightarrow> we_schemas E w = Inr b"
  by (auto simp: baseline_def split: sum.splits)

lemma baseline_cases: "baseline E w f = Finished \<or> (\<exists>b. baseline E w f = f b)"
  by (auto simp: baseline_def split: sum.splits)

lemma schema_step_inv: "watch_step E l s s' \<Longrightarrow> watch_env_ok E \<Longrightarrow> watch_inv s \<Longrightarrow> watch_inv s'"
proof (induction rule: watch_step.induct)
  case (changes_base s)
  then show ?case using baseline_cases [of E "ws_world s" Ready]
    by (auto simp: watch_inv_def watch_env_ok_def dest: worker_base_baseline)
next
  case (users_base s)
  then show ?case using baseline_cases [of E "ws_world s" Based]
    by (auto simp: watch_inv_def watch_env_ok_def poller_fits_def dest: worker_base_baseline)
next
  case (changes_notified s b evs b')
  then show ?case using sendSchemas_base [OF changes_notified(3)]
    by (auto simp: watch_inv_def watch_env_ok_def)
next
  case (users_notified s as b evs b')
  then show ?case using sendSchemas_base [OF users_notified(3)]
    by (auto simp: watch_inv_def watch_env_ok_def poller_fits_def)
qed (auto simp: watch_inv_def poller_fits_def split: watch_worker.splits)

lemma schema_run_inv: "watch_run E ls s s' \<Longrightarrow> watch_env_ok E \<Longrightarrow> watch_inv s \<Longrightarrow> watch_inv s'"
  by (induction rule: watch_run.induct) (auto intro: schema_step_inv)

lemma reaches_inv: "reaches E s s' \<Longrightarrow> watch_env_ok E \<Longrightarrow> watch_inv s \<Longrightarrow> watch_inv s'"
  unfolding reaches_def using schema_run_inv by blast

lemma watch_started: "schema_Watch op w = Inr s \<Longrightarrow> watch_inv s"
  by (auto simp: schema_Watch_def watch_inv_def poller_fits_def split: option.splits)

subsection \<open>A client that reads lets a cancelled watch end\<close>

text \<open>What finishing one worker leaves of the other.\<close>

definition same_users :: "'w watch_state \<Rightarrow> 'w watch_state \<Rightarrow> bool" where
  "same_users s s' \<longleftrightarrow> ws_users s' = ws_users s \<and> ws_poller s' = ws_poller s \<and> ws_ctx_done s' = ws_ctx_done s"

definition same_changes :: "'w watch_state \<Rightarrow> 'w watch_state \<Rightarrow> bool" where
  "same_changes s s' \<longleftrightarrow> ws_changes s' = ws_changes s \<and> ws_ctx_done s' = ws_ctx_done s"

lemma same_users_trans: "same_users s t \<Longrightarrow> same_users t u \<Longrightarrow> same_users s u"
  by (simp add: same_users_def)

lemma changes_drain:
  "ws_changes s = Sending evs b \<Longrightarrow>
     \<exists>s'. reaches E s s' \<and> ws_changes s' = Ready b \<and> ws_pending s' = ws_pending s \<and> ws_open s' = ws_open s \<and> same_users s s'"
proof (induction evs arbitrary: s)
  case Nil
  from reaches_step [OF changes_sent [OF Nil] reaches_refl] show ?case
    by (intro exI [of _ "s\<lparr>ws_changes := Ready b\<rparr>"]) (simp add: same_users_def)
next
  case (Cons e evs)
  let ?s = "s\<lparr>ws_changes := Sending evs b, ws_sent := ws_sent s @ [e]\<rparr>"
  obtain s' where "reaches E ?s s'" "ws_changes s' = Ready b" "ws_pending s' = ws_pending s" "ws_open s' = ws_open s" "same_users s s'"
    using Cons.IH [of ?s] by (auto simp: same_users_def)
  with reaches_step [OF changes_send [OF Cons.prems]] show ?case by blast
qed

lemma users_drain:
  "ws_users s = Sending evs b \<Longrightarrow>
     \<exists>s'. reaches E s s' \<and> ws_users s' = Ready b \<and> ws_poller s' = ws_poller s \<and> same_changes s s'"
proof (induction evs arbitrary: s)
  case Nil
  from reaches_step [OF users_sent [OF Nil] reaches_refl] show ?case
    by (intro exI [of _ "s\<lparr>ws_users := Ready b\<rparr>"]) (simp add: same_changes_def)
next
  case (Cons e evs)
  let ?s = "s\<lparr>ws_users := Sending evs b, ws_sent := ws_sent s @ [e]\<rparr>"
  obtain s' where "reaches E ?s s'" "ws_users s' = Ready b" "ws_poller s' = ws_poller s" "same_changes s s'"
    using Cons.IH [of ?s] by (auto simp: same_changes_def)
  with reaches_step [OF users_send [OF Cons.prems]] show ?case by blast
qed

lemma changes_finish_ready:
  assumes "watch_env_ok E"
  shows "watch_inv s \<Longrightarrow> ws_ctx_done s \<Longrightarrow> ws_changes s = Ready b \<Longrightarrow>
    \<exists>s'. reaches E s s' \<and> ws_changes s' = Finished \<and> same_users s s'"
proof (induction "ws_pending s" arbitrary: s b)
  case 0
  let ?s1 = "if ws_open s then s\<lparr>ws_open := False\<rparr> else s"
  have 1: "reaches E s ?s1" using reaches_step [OF sub_close [OF 0(3)] reaches_refl] by auto
  have "reaches E ?s1 (?s1\<lparr>ws_changes := Finished\<rparr>)"
    by (rule reaches_step [OF changes_end [where b = b] reaches_refl]) (use 0 in auto)
  with reaches_trans [OF 1] show ?case
    by (intro exI [of _ "?s1\<lparr>ws_changes := Finished\<rparr>"]) (simp add: same_users_def)
next
  case (Suc n)
  from Suc.prems have "keyed (Schemas b)" by (simp add: watch_inv_def)
  from sendSchemas_total [OF assms this] obtain evs b'
    where send: "sendSchemas (we_sub E) (we_schemas E (ws_world s)) b = Some (evs, b')" by blast
  let ?s1 = "s\<lparr>ws_changes := Sending evs b', ws_pending := ws_pending s - 1\<rparr>"
  have step: "watch_step E Internal s ?s1" using Suc.prems(3) Suc.hyps(2) send by (intro changes_notified) auto
  obtain s2 where s2: "reaches E ?s1 s2" "ws_changes s2 = Ready b'" "ws_pending s2 = n" "same_users s s2"
    using changes_drain [of ?s1 evs b' E] Suc.hyps(2) by (auto simp: same_users_def)
  have "watch_inv s2" using reaches_inv [OF s2(1) assms] schema_step_inv [OF step assms Suc.prems(1)] by blast
  moreover have "ws_ctx_done s2" using s2(4) Suc.prems(2) by (simp add: same_users_def)
  ultimately obtain s' where "reaches E s2 s'" "ws_changes s' = Finished" "same_users s2 s'"
    using Suc.hyps(1) [OF s2(3) [symmetric] _ _ s2(2)] by blast
  with reaches_step [OF step reaches_trans [OF s2(1)]] same_users_trans [OF s2(4)] show ?case by blast
qed

lemma changes_finish:
  assumes "watch_env_ok E" and "watch_inv s" and "ws_ctx_done s"
  shows "\<exists>s'. reaches E s s' \<and> ws_changes s' = Finished \<and> same_users s s'"
proof -
  have ready: "\<exists>s'. reaches E s s' \<and> ws_changes s' = Finished \<and> same_users s s'"
    if "reaches E s t" "same_users s t" "ws_changes t = Ready b \<or> ws_changes t = Finished" for t b
  proof (cases "ws_changes t = Finished")
    case False
    have "watch_inv t" "ws_ctx_done t" using reaches_inv [OF that(1) assms(1,2)] that(2) assms(3) by (simp_all add: same_users_def)
    with changes_finish_ready [OF assms(1)] False that(3) obtain s' where "reaches E t s'" "ws_changes s' = Finished" "same_users t s'"
      by blast
    with that reaches_trans same_users_trans show ?thesis by blast
  qed (use that in blast)
  have based: "\<exists>s'. reaches E s s' \<and> ws_changes s' = Finished \<and> same_users s s'"
    if t: "reaches E s t" "same_users s t" "ws_changes t = Subscribed" for t
  proof -
    let ?t = "t\<lparr>ws_changes := baseline E (ws_world t) Ready\<rparr>"
    have "reaches E s ?t" using reaches_trans [OF t(1) reaches_step [OF changes_base [OF t(3)] reaches_refl]] .
    moreover have "same_users s ?t" using t(2) by (simp add: same_users_def)
    ultimately show ?thesis using ready [of ?t] baseline_cases [of E "ws_world t" Ready] by auto
  qed
  show ?thesis
  proof (cases "ws_changes s")
    case Fresh
    let ?t = "s\<lparr>ws_changes := Subscribed, ws_open := True\<rparr>"
    have "reaches E s ?t" using reaches_step [OF changes_subscribe [OF Fresh] reaches_refl] .
    with based [of ?t] show ?thesis by (simp add: same_users_def)
  next
    case Subscribed
    with based [of s] show ?thesis by (simp add: same_users_def)
  next
    case (Based b)
    with assms(2) show ?thesis by (simp add: watch_inv_def)
  next
    case (Ready b)
    with ready [of s b] show ?thesis by (simp add: same_users_def)
  next
    case (Sending evs b)
    from changes_drain [OF this, of E] ready show ?thesis by blast
  next
    case Finished
    with ready [of s] show ?thesis by (simp add: same_users_def)
  qed
qed

lemma users_finish_ready:
  assumes "watch_env_ok E" and "watch_inv s" and "ws_ctx_done s" and "ws_users s = Ready b"
  shows "\<exists>s'. reaches E s s' \<and> ws_users s' = Finished \<and> ws_changes s' = ws_changes s"
proof -
  have stopped: "\<exists>s'. reaches E s s' \<and> ws_users s' = Finished \<and> ws_changes s' = ws_changes s"
    if "reaches E s t" "same_changes s t" "ws_users t = Ready c" "ws_poller t = Stopped" for t c
    using reaches_trans [OF that(1) reaches_step [OF users_end [OF that(3,4)] reaches_refl]] that(2)
    by (intro exI [of _ "t\<lparr>ws_users := Finished\<rparr>"]) (simp add: same_changes_def)
  have sleeping: "\<exists>s'. reaches E s s' \<and> ws_users s' = Finished \<and> ws_changes s' = ws_changes s"
    if t: "reaches E s t" "same_changes s t" "ws_users t = Ready c" "ws_poller t = Sleeping as" for t c as
  proof -
    have "watch_step E Internal t (t\<lparr>ws_poller := Stopped\<rparr>)"
      using t(2,4) assms(3) by (intro poll_stop) (auto simp: same_changes_def)
    with reaches_trans [OF t(1)] have "reaches E s (t\<lparr>ws_poller := Stopped\<rparr>)" using reaches_step reaches_refl by blast
    with stopped [of "t\<lparr>ws_poller := Stopped\<rparr>" c] t(2,3) show ?thesis by (simp add: same_changes_def)
  qed
  have fits: "ws_poller s \<noteq> Not_started" using assms(2,4) by (simp add: watch_inv_def poller_fits_def)
  show ?thesis
  proof (cases "ws_poller s")
    case (Notifying as)
    have "keyed (Schemas b)" using assms(2,4) by (simp add: watch_inv_def)
    from sendSchemas_total [OF assms(1) this] obtain evs b'
      where send: "sendSchemas (we_sub E) (we_schemas E (ws_world s)) b = Some (evs, b')" by blast
    let ?t = "s\<lparr>ws_users := Sending evs b', ws_poller := Sleeping as\<rparr>"
    obtain t where t: "reaches E ?t t" "ws_users t = Ready b'" "ws_poller t = Sleeping as" "same_changes s t"
      using users_drain [of ?t evs b' E] by (auto simp: same_changes_def)
    from sleeping [OF reaches_step [OF users_notified [OF Notifying assms(4) send] t(1)] t(4,2,3)] show ?thesis .
  qed (use fits sleeping [of s b] stopped [of s b] assms(4) in \<open>auto simp: same_changes_def\<close>)
qed

lemma users_finish:
  assumes "watch_env_ok E" and "watch_inv s" and "ws_ctx_done s"
  shows "\<exists>s'. reaches E s s' \<and> ws_users s' = Finished \<and> ws_changes s' = ws_changes s"
proof -
  have ready: "\<exists>s'. reaches E s s' \<and> ws_users s' = Finished \<and> ws_changes s' = ws_changes s"
    if t: "reaches E s t" "same_changes s t" "ws_users t = Ready b" for t b
  proof -
    have "watch_inv t" "ws_ctx_done t" using reaches_inv [OF t(1) assms(1,2)] t(2) assms(3) by (simp_all add: same_changes_def)
    from users_finish_ready [OF assms(1) this t(3)] obtain s' where "reaches E t s'" "ws_users s' = Finished" "ws_changes s' = ws_changes t"
      by blast
    with t(1,2) reaches_trans show ?thesis unfolding same_changes_def by metis
  qed
  have based: "\<exists>s'. reaches E s s' \<and> ws_users s' = Finished \<and> ws_changes s' = ws_changes s"
    if t: "reaches E s t" "same_changes s t" "ws_users t = Based b" for t b
    using ready [OF reaches_trans [OF t(1) reaches_step [OF users_access [OF t(3)] reaches_refl]], of b] t(2)
    by (simp add: same_changes_def)
  show ?thesis
  proof (cases "ws_users s")
    case Fresh
    let ?t = "s\<lparr>ws_users := baseline E (ws_world s) Based\<rparr>"
    have "reaches E s ?t" using reaches_step [OF users_base [OF Fresh] reaches_refl] .
    with based [of ?t] baseline_cases [of E "ws_world s" Based] show ?thesis
      by (auto simp: same_changes_def intro: exI [of _ ?t])
  next
    case (Sending evs b)
    from users_drain [OF this, of E] ready show ?thesis by blast
  qed (use assms(2) ready [of s] based [of s] in \<open>auto simp: watch_inv_def poller_fits_def same_changes_def intro: exI [of _ s]\<close>)
qed

text \<open>What a client that stops reading does to a worker that has more to send.\<close>

lemma stuck_step:
  "watch_step E Internal s s' \<Longrightarrow> ws_changes s = Sending (e # evs) b \<Longrightarrow> ws_changes s' = Sending (e # evs) b"
  "watch_step E Internal s s' \<Longrightarrow> ws_users s = Sending (e # evs) b \<Longrightarrow> ws_users s' = Sending (e # evs) b"
  by (auto elim: watch_step.cases)

lemma stuck_run:
  "watch_run E ls s s' \<Longrightarrow> set ls \<subseteq> {Internal} \<Longrightarrow>
     (ws_changes s = Sending (e # evs) b \<longrightarrow> ws_changes s' = Sending (e # evs) b) \<and>
     (ws_users s = Sending (e # evs) b \<longrightarrow> ws_users s' = Sending (e # evs) b)"
  by (induction rule: watch_run.induct) (auto dest: stuck_step)

lemma closed_sends_nothing: "watch_run E ls s s' \<Longrightarrow> watch_env_ok E \<Longrightarrow> watch_inv s \<Longrightarrow> ws_closed s \<Longrightarrow> ws_sent s' = ws_sent s"
proof (induction rule: watch_run.induct)
  case (watch_cons l s s' ls s'')
  have "ws_sent s' = ws_sent s" "ws_closed s'"
    using watch_cons.hyps(1) watch_cons.prems by (auto simp: watch_inv_def elim: watch_step.cases)
  with watch_cons schema_step_inv [OF watch_cons.hyps(1)] show ?case by simp
qed simp

text \<open>
  C21. The end of a schema watch. The channel is closed only when both goroutines have finished, and nothing is sent after that.
  Once the context of the request is over, the goroutines can always get there, if the consumer goes on receiving; but a
  goroutine with events to send does not look at the context, so without a receiver the channel is never closed.
\<close>

theorem schema_watch_ends:
  assumes "watch_env_ok E" and "schema_Watch op w = Inr s0" and "watch_run E ls s0 s"
  shows "(ws_closed s \<longrightarrow> ws_changes s = Finished \<and> ws_users s = Finished \<and> (\<forall>ls' s'. watch_run E ls' s s' \<longrightarrow> ws_sent s' = ws_sent s)) \<and>
    (ws_ctx_done s \<longrightarrow> (\<exists>ls' s'. watch_run E ls' s s' \<and> ws_closed s')) \<and>
    (\<forall>e evs b. ws_changes s = Sending (e # evs) b \<or> ws_users s = Sending (e # evs) b \<longrightarrow>
       (\<forall>ls' s'. watch_run E ls' s s' \<and> set ls' \<subseteq> {Internal} \<longrightarrow> \<not> ws_closed s'))"
proof (intro conjI impI allI)
  have inv: "watch_inv s" using schema_run_inv [OF assms(3,1) watch_started [OF assms(2)]] .
  show "ws_changes s = Finished" "ws_users s = Finished" if "ws_closed s" using inv that by (simp_all add: watch_inv_def)
  show "ws_sent s' = ws_sent s" if "ws_closed s" "watch_run E ls' s s'" for ls' s'
    using closed_sends_nothing [OF that(2) assms(1) inv that(1)] .
  show "\<exists>ls' s'. watch_run E ls' s s' \<and> ws_closed s'" if ctx: "ws_ctx_done s"
  proof -
    obtain s1 where s1: "reaches E s s1" "ws_changes s1 = Finished" "same_users s s1" using changes_finish [OF assms(1) inv ctx] by blast
    have "watch_inv s1" "ws_ctx_done s1" using reaches_inv [OF s1(1) assms(1) inv] s1(3) ctx by (simp_all add: same_users_def)
    from users_finish [OF assms(1) this] obtain s2 where s2: "reaches E s1 s2" "ws_users s2 = Finished" "ws_changes s2 = Finished"
      using s1(2) by auto
    have "\<exists>s3. reaches E s2 s3 \<and> ws_closed s3"
    proof (cases "ws_closed s2")
      case False
      from reaches_step [OF close [OF s2(3,2) False] reaches_refl] show ?thesis by force
    qed (use reaches_refl in blast)
    with reaches_trans [OF reaches_trans [OF s1(1) s2(1)]] show ?thesis unfolding reaches_def by blast
  qed
  show "\<not> ws_closed s'"
    if "ws_changes s = Sending (e # evs) b \<or> ws_users s = Sending (e # evs) b" "watch_run E ls' s s' \<and> set ls' \<subseteq> {Internal}" for e evs b ls' s'
  proof -
    have "watch_inv s'" using schema_run_inv that(2) assms(1) inv by blast
    with stuck_run [of E ls' s s' e evs b] that show ?thesis by (auto simp: watch_inv_def)
  qed
qed

section \<open>What a watch misses\<close>

text \<open>Nothing happens any more unless the world changes or the watch is cancelled.\<close>

definition quiet :: "'w watch_env \<Rightarrow> 'w watch_state \<Rightarrow> bool" where
  "quiet E s \<longleftrightarrow> (\<exists>b. ws_changes s = Ready b) \<and> (\<exists>b. ws_users s = Ready b) \<and> ws_pending s = 0 \<and>
     ws_poller s = Sleeping (we_access E (ws_world s)) \<and> ws_open s \<and> \<not> ws_ctx_done s"

lemma quiet_step:
  assumes "watch_step E l s s'" and "quiet E s" and "ws_world s' = ws_world s" and "\<not> ws_ctx_done s'" and "ws_pending s' = 0"
  shows "s' = s"
  using assms by (cases rule: watch_step.cases) (auto simp: quiet_def)

text \<open>
  A change of the user's access between the first look at the schemas and the first look at the access set is not
  reported, now or later: the baseline of the worker is from before it, the id that the poller compares with from after it.
\<close>

theorem access_change_missed:
  assumes "schema_Watch op w0 = Inr s0" and "we_schemas E w0 = Inr b0"
  shows "\<exists>ls s. watch_run E ls s0 s \<and> quiet E s \<and> ws_world s = w1 \<and> ws_users s = Ready b0 \<and> ws_sent s = []"
proof -
  have s0: "ws_world s0 = w0" "\<not> ws_ctx_done s0" "ws_pending s0 = 0" "ws_changes s0 = Fresh" "ws_users s0 = Fresh" "ws_sent s0 = []"
    using assms(1) by (auto simp: schema_Watch_def split: option.splits)
  let ?s1 = "s0\<lparr>ws_changes := Subscribed, ws_open := True\<rparr>"
  let ?s2 = "?s1\<lparr>ws_changes := Ready b0\<rparr>"
  let ?s3 = "?s2\<lparr>ws_users := Based b0\<rparr>"
  let ?s4 = "?s3\<lparr>ws_world := w1\<rparr>"
  let ?s5 = "?s4\<lparr>ws_users := Ready b0, ws_poller := Sleeping (we_access E w1)\<rparr>"
  have 1: "watch_step E Internal s0 ?s1" by (rule changes_subscribe [OF s0(4)])
  have 2: "watch_step E Internal ?s1 ?s2" using changes_base [of ?s1 E] by (simp add: s0 baseline_def assms(2))
  have 3: "watch_step E Internal ?s2 ?s3" using users_base [of ?s2 E] by (simp add: s0 baseline_def assms(2))
  have 4: "watch_step E Internal ?s3 ?s4" by (rule world_change)
  have 5: "watch_step E Internal ?s4 ?s5" using users_access [of ?s4 b0 E] by (simp add: s0)
  from watch_cons [OF 1 watch_cons [OF 2 watch_cons [OF 3 watch_cons [OF 4 watch_cons [OF 5 watch_nil]]]]]
  show ?thesis by (intro exI conjI) (auto simp: quiet_def s0)
qed

section \<open>Two workers, one client\<close>

lemma replay_append: "replay v (es @ es') = replay (replay v es) es'"
  by (induction es arbitrary: v) simp_all

lemma replay_kept:
  "(\<forall>e \<in> set es. ev_key e = i \<longrightarrow> ev_Name e \<noteq> RemoveAPIEvent) \<Longrightarrow> v i \<noteq> None \<or> (\<exists>e \<in> set es. ev_key e = i) \<Longrightarrow>
     replay v es i \<noteq> None"
proof (induction es arbitrary: v)
  case (Cons e es)
  let ?v = "if ev_Name e = RemoveAPIEvent then v(obj_ID (ev_Object e) := None) else v(obj_ID (ev_Object e) \<mapsto> ev_Object e)"
  have "?v i \<noteq> None \<or> (\<exists>e \<in> set es. ev_key e = i)" using Cons.prems by (auto simp: ev_key_def)
  with Cons show ?case by simp
qed simp

text \<open>A changed schema that is shown is there after the events, whatever the client knew.\<close>

lemma sends_shown:
  assumes "keyed (Schemas new)" and "keyed (Schemas old)" and "sub_ok sub"
    and "sendSchemas sub (Inr new) old = Some (evs, new')"
    and "i \<in> shown sub (Schemas new)" and "\<not> unchanged old new i"
  shows "replay v evs i \<noteq> None"
proof -
  obtain news where n: "FilterSchemas sub (Schemas new) = Some news" "obj_ID ` set news = shown sub (Schemas new)"
      "\<forall>x \<in> set news. \<exists>s. mget (Schemas new) (obj_ID x) = Some s \<and> x = schema_object s"
    using FilterSchemas_total [OF assms(1,3)] by blast
  obtain olds where o: "FilterSchemas sub (Schemas old) = Some olds" using FilterSchemas_total [OF assms(2,3)] by blast
  have evs: "evs = concat (map (shown_event old) news) @
      map (schema_event RemoveAPIEvent) (filter (\<lambda>x. obj_ID x \<notin> obj_ID ` set news) olds)"
    using assms(4) n(1) o by (simp add: sendSchemas_def)
  obtain x where x: "x \<in> set news" "obj_ID x = i" using assms(5) n(2) by (metis imageE)
  with n(3) obtain s where s: "mget (Schemas new) i = Some s" "x = schema_object s" by auto
  then have "shown_event old x \<noteq> []" using shown_event_unchanged [of new s old] assms(6) x(2) by simp
  then obtain e where e: "e \<in> set (shown_event old x)" by (cases "shown_event old x") auto
  then have "e \<in> set evs" "ev_key e = i" using x shown_event_keys [OF e] by (auto simp: evs)
  moreover have "ev_Name a \<noteq> RemoveAPIEvent" if a: "a \<in> set evs" "ev_key a = i" for a
  proof -
    from a(1) consider (told) y where "y \<in> set news" "a \<in> set (shown_event old y)"
      | (gone) y where "obj_ID y \<notin> obj_ID ` set news" "a = schema_event RemoveAPIEvent y"
      by (auto simp: evs)
    then show ?thesis
    proof cases
      case told
      with shown_event_keys show ?thesis by blast
    next
      case gone
      with a(2) x show ?thesis by (metis imageI schema_event_simps(1))
    qed
  qed
  ultimately show ?thesis by (intro replay_kept) auto
qed

lemma users_read: "ws_users s = Sending evs b \<Longrightarrow>
  watch_run E (map Receive evs) s (s\<lparr>ws_users := Sending [] b, ws_sent := ws_sent s @ evs\<rparr>)"
proof (induction evs arbitrary: s)
  case Nil
  then have "s\<lparr>ws_users := Sending [] b, ws_sent := ws_sent s @ []\<rparr> = s" by (cases s) simp
  with watch_nil show ?case by simp
next
  case (Cons e evs)
  let ?s = "s\<lparr>ws_users := Sending evs b, ws_sent := ws_sent s @ [e]\<rparr>"
  from Cons.IH [of ?s] have "watch_run E (map Receive evs) ?s (s\<lparr>ws_users := Sending [] b, ws_sent := ws_sent s @ e # evs\<rparr>)" by simp
  with users_send [OF Cons.prems] show ?case by (auto intro: watch_cons)
qed

lemma changes_read: "ws_changes s = Sending evs b \<Longrightarrow>
  watch_run E (map Receive evs) s (s\<lparr>ws_changes := Sending [] b, ws_sent := ws_sent s @ evs\<rparr>)"
proof (induction evs arbitrary: s)
  case Nil
  then have "s\<lparr>ws_changes := Sending [] b, ws_sent := ws_sent s @ []\<rparr> = s" by (cases s) simp
  with watch_nil show ?case by simp
next
  case (Cons e evs)
  let ?s = "s\<lparr>ws_changes := Sending evs b, ws_sent := ws_sent s @ [e]\<rparr>"
  from Cons.IH [of ?s] have "watch_run E (map Receive evs) ?s (s\<lparr>ws_changes := Sending [] b, ws_sent := ws_sent s @ e # evs\<rparr>)" by simp
  with changes_send [OF Cons.prems] show ?case by (auto intro: watch_cons)
qed

text \<open>
  The run: both goroutines start on the same schemas, the first notices a change and gets its events ready, the user's access changes,
  and the second is first to be received from.
\<close>

lemma order_race_run:
  assumes "schema_Watch op w0 = Inr s0" and "we_schemas E w0 = Inr b0"
    and "sendSchemas (we_sub E) (we_schemas E w1) b0 = Some (evs1, b1)"
    and "sendSchemas (we_sub E) (we_schemas E w2) b0 = Some (evs2, b2)"
    and "we_access E w2 \<noteq> we_access E w0"
  shows "\<exists>s. reaches E s0 s \<and> quiet E s \<and> ws_world s = w2 \<and> ws_sent s = evs2 @ evs1"
proof -
  let ?as = "we_access E w2"
  have s0: "ws_world s0 = w0" "\<not> ws_ctx_done s0" "ws_pending s0 = 0" "ws_changes s0 = Fresh" "ws_users s0 = Fresh" "ws_sent s0 = []"
    using assms(1) by (auto simp: schema_Watch_def split: option.splits)
  let ?s1 = "s0\<lparr>ws_changes := Subscribed, ws_open := True\<rparr>"
  let ?s2 = "?s1\<lparr>ws_changes := Ready b0\<rparr>"
  let ?s3 = "?s2\<lparr>ws_users := Based b0\<rparr>"
  let ?s4 = "?s3\<lparr>ws_users := Ready b0, ws_poller := Sleeping (we_access E w0)\<rparr>"
  let ?s5 = "?s4\<lparr>ws_world := w1, ws_pending := 1\<rparr>"
  let ?s6 = "?s5\<lparr>ws_changes := Sending evs1 b1, ws_pending := 0\<rparr>"
  let ?s7 = "?s6\<lparr>ws_world := w2\<rparr>"
  let ?s8 = "?s7\<lparr>ws_poller := Notifying ?as\<rparr>"
  let ?s9 = "?s8\<lparr>ws_users := Sending evs2 b2, ws_poller := Sleeping ?as\<rparr>"
  let ?s10 = "?s9\<lparr>ws_users := Sending [] b2, ws_sent := evs2\<rparr>"
  let ?s11 = "?s10\<lparr>ws_users := Ready b2\<rparr>"
  let ?s12 = "?s11\<lparr>ws_changes := Sending [] b1, ws_sent := evs2 @ evs1\<rparr>"
  let ?s13 = "?s12\<lparr>ws_changes := Ready b1\<rparr>"
  have 1: "watch_step E Internal s0 ?s1" by (rule changes_subscribe [OF s0(4)])
  have 2: "watch_step E Internal ?s1 ?s2" using changes_base [of ?s1 E] by (simp add: s0 baseline_def assms(2))
  have 3: "watch_step E Internal ?s2 ?s3" using users_base [of ?s2 E] by (simp add: s0 baseline_def assms(2))
  have 4: "watch_step E Internal ?s3 ?s4" using users_access [of ?s3 b0 E] by (simp add: s0)
  have 5: "watch_step E Internal ?s4 ?s5" using change_noticed [where s = ?s4 and w = w1 and ready = True and E = E] by (simp add: s0 schemaChangeNotifier_def)
  have 6: "watch_step E Internal ?s5 ?s6" using changes_notified [of ?s5 b0 E evs1 b1] assms(3) by simp
  have 7: "watch_step E Internal ?s6 ?s7" using world_change [of E ?s6 w2] by simp
  have 8: "watch_step E Internal ?s7 ?s8" using poll_news [of ?s7 "we_access E w0" E] assms(5) by simp
  have 9: "watch_step E Internal ?s8 ?s9" using users_notified [of ?s8 ?as b0 E evs2 b2] assms(4) by simp
  have 10: "watch_run E (map Receive evs2) ?s9 ?s10" using users_read [of ?s9 evs2 b2 E] by (simp add: s0)
  have 11: "watch_step E Internal ?s10 ?s11" using users_sent [of ?s10 b2 E] by simp
  have 12: "watch_run E (map Receive evs1) ?s11 ?s12" using changes_read [of ?s11 evs1 b1 E] by simp
  have 13: "watch_step E Internal ?s12 ?s13" using changes_sent [of ?s12 b1 E] by simp
  have "reaches E ?s10 ?s13" using reaches_step [OF 11] reaches_trans 12 reaches_step [OF 13 reaches_refl] unfolding reaches_def by blast
  then have "reaches E ?s9 ?s13" using reaches_trans 10 unfolding reaches_def by blast
  from reaches_step [OF 1 reaches_step [OF 2 reaches_step [OF 3 reaches_step [OF 4 reaches_step [OF 5 reaches_step [OF 6
      reaches_step [OF 7 reaches_step [OF 8 reaches_step [OF 9 this]]]]]]]]]
  have "reaches E s0 ?s13" .
  moreover have "quiet E ?s13" using s0 by (simp add: quiet_def)
  ultimately show ?thesis by (intro exI [of _ ?s13]) simp
qed

text \<open>
  A client of the schema watch can be left with a schema that is gone. Each of the two goroutines compares with its own
  last schemas. If a schema is added or changed and then taken away with the user's access, one goroutine can send the
  addition after the other has compared without it: nothing is left to be done, and what a client has put together from the
  events it got has a schema that the user's schemas no longer have.
\<close>

theorem watch_order_race:
  assumes "watch_env_ok E" and "schema_Watch op w0 = Inr s0"
    and "we_schemas E w0 = Inr b0" and "we_schemas E w1 = Inr b1" and "we_schemas E w2 = Inr b2"
    and "we_access E w2 \<noteq> we_access E w0"
    and "FilterSchemas (we_sub E) (Schemas b0) = Some olds" and "FilterSchemas (we_sub E) (Schemas b2) = Some news"
    and "i \<in> shown (we_sub E) (Schemas b1)" and "\<not> unchanged b0 b1 i" and "i \<notin> shown (we_sub E) (Schemas b2)"
  shows "\<exists>ls s. watch_run E ls s0 s \<and> quiet E s \<and> ws_world s = w2 \<and>
    replay (view olds) (ws_sent s) i \<noteq> None \<and> view news i = None"
proof -
  have ok: "sub_ok (we_sub E)" "keyed (Schemas b0)" "keyed (Schemas b1)" "keyed (Schemas b2)"
    using assms(1,3-5) by (auto simp: watch_env_ok_def)
  obtain evs1 where evs1: "sendSchemas (we_sub E) (we_schemas E w1) b0 = Some (evs1, b1)"
    using FilterSchemas_total [OF ok(2,1)] FilterSchemas_total [OF ok(3,1)] by (auto simp: sendSchemas_def assms(4))
  obtain evs2 where evs2: "sendSchemas (we_sub E) (we_schemas E w2) b0 = Some (evs2, b2)"
    using assms(7,8) by (auto simp: sendSchemas_def assms(5))
  obtain s where s: "reaches E s0 s" "quiet E s" "ws_world s = w2" "ws_sent s = evs2 @ evs1"
    using order_race_run [OF assms(2,3) evs1 evs2 assms(6)] by blast
  moreover have "replay (view olds) (ws_sent s) i \<noteq> None"
    using sends_shown [OF ok(3,2,1) _ assms(9,10)] evs1 by (simp add: replay_append assms(4) s(4))
  moreover have "view news i = None"
    using FilterSchemas_total [OF ok(4,1)] assms(8,11) by (auto simp: view_None)
  ultimately show ?thesis unfolding reaches_def by blast
qed

text \<open>A cluster schema that comes and goes.\<close>

definition ex_watch_env :: "nat watch_env" where
  "ex_watch_env = \<lparr>we_sub = (\<lambda>t. t), we_schemas = (\<lambda>w. Inr (if w = 1 then ex_new else EmptyAPISchemas)),
     we_access = (\<lambda>w. if w = 2 then ''b'' else ''a'')\<rparr>"

definition ex_watch_user :: api_request where
  "ex_watch_user = empty_request\<lparr>op_Request := Some (new_request\<lparr>rq_User := Some \<lparr>u_Name = ''u'', u_UID = [], u_Groups = [], u_Extra = []\<rparr>\<rparr>)\<rparr>"

lemma ex_watch_env_ok: "watch_env_ok ex_watch_env"
proof -
  have "keyed (Schemas EmptyAPISchemas)" by (simp add: EmptyAPISchemas_def keyed_def)
  with ex_keyed(2) have "keyed (Schemas b)" if "we_schemas ex_watch_env w = Inr b" for w b
    using that by (cases "w = 1") (auto simp: ex_watch_env_def)
  moreover have "we_sub ex_watch_env = (\<lambda>t. t)" by (simp add: ex_watch_env_def)
  ultimately show ?thesis using ex_sub_ok by (simp only: watch_env_ok_def) blast
qed

lemma ex_watch_starts: "\<exists>s0. schema_Watch ex_watch_user (0 :: nat) = Inr s0"
  by (simp add: schema_Watch_def ex_watch_user_def)

lemma schema_watch_ends_witness:
  "\<exists>s0 ls s. schema_Watch ex_watch_user 0 = Inr s0 \<and> watch_run ex_watch_env ls s0 s \<and> ws_closed s"
proof -
  obtain s0 where s0: "schema_Watch ex_watch_user (0 :: nat) = Inr s0" using ex_watch_starts by blast
  have run: "watch_run ex_watch_env [Internal] s0 (s0\<lparr>ws_ctx_done := True\<rparr>)" by (rule watch_cons [OF cancel watch_nil])
  have "ws_ctx_done (s0\<lparr>ws_ctx_done := True\<rparr>)" by simp
  with schema_watch_ends [OF ex_watch_env_ok s0 run, THEN conjunct2, THEN conjunct1]
  obtain ls' s' where "watch_run ex_watch_env ls' (s0\<lparr>ws_ctx_done := True\<rparr>) s'" "ws_closed s'" by blast
  with watch_run_append [OF run] s0 show ?thesis by blast
qed

lemma watch_order_race_witness:
  "\<exists>s0 ls s. schema_Watch ex_watch_user 0 = Inr s0 \<and> watch_run ex_watch_env ls s0 s \<and> quiet ex_watch_env s \<and>
     replay (view []) (ws_sent s) ''cluster'' \<noteq> None \<and> view [] ''cluster'' = None"
proof -
  obtain s0 where s0: "schema_Watch ex_watch_user (0 :: nat) = Inr s0" using ex_watch_starts by blast
  have w: "we_schemas ex_watch_env 0 = Inr EmptyAPISchemas" "we_schemas ex_watch_env 1 = Inr ex_new"
    "we_schemas ex_watch_env 2 = Inr EmptyAPISchemas" "we_access ex_watch_env 2 \<noteq> we_access ex_watch_env 0"
    "we_sub ex_watch_env = (\<lambda>t. t)"
    by (simp_all add: ex_watch_env_def)
  have empty: "FilterSchemas (\<lambda>t. t) (Schemas EmptyAPISchemas) = Some []"
    using FilterSchemas_total [OF _ ex_sub_ok, of "Schemas EmptyAPISchemas"]
    by (auto simp: EmptyAPISchemas_def keyed_def)
  have "''cluster'' \<in> roots (Schemas ex_new)" by (auto simp: roots_def)
  then have shown: "''cluster'' \<in> shown (\<lambda>t. t) (Schemas ex_new)" by (auto simp: shown_def)
  have none: "''cluster'' \<notin> shown (\<lambda>t. t) (Schemas EmptyAPISchemas)"
    by (auto simp: shown_def roots_def EmptyAPISchemas_def)
  have new: "\<not> unchanged EmptyAPISchemas ex_new ''cluster''"
    by (simp add: unchanged_def EmptyAPISchemas_def LookupSchema_def)
  from watch_order_race [OF ex_watch_env_ok s0 w(1,2,3,4), unfolded w(5), OF empty empty shown new none] s0
  show ?thesis by blast
qed

end
