(* ===== verification/Webhook.thy ===== *)
theory Webhook
  imports Auth_Proxy "HOL-Library.Word"
begin

section \<open>The webhook authenticator: pkg/auth/filter.go, pkg/auth/cli/webhookcli.go\<close>

text \<open>
  From the flags of the command line to a middleware: a kubeconfig for the URL of the webhook is written to a
  temporary file, read back by client-go and deleted, and the authenticator caches reviews for the time the flag says. The
  temporary files are a map from names to contents. Creating, closing and writing a file, reading a kubeconfig, the
  webhook and the cache are calls out of the repository, the fields of \<open>webhook_env\<close>. Rate limits and backoff are left out.
\<close>

record kube_cluster =
  kc_Server :: string
  kc_InsecureSkipTLSVerify :: bool

record kube_context =
  kx_Cluster :: string
  kx_AuthInfo :: string
  kx_Namespace :: string

record kubeconfig =
  kf_Clusters :: "(string, kube_cluster) gomap"
  kf_Contexts :: "(string, kube_context) gomap"
  kf_AuthInfos :: "(string, unit) gomap"
  kf_CurrentContext :: string

type_synonym files = "(string, kubeconfig option) gomap"

type_synonym review = "string \<Rightarrow> user option \<times> bool \<times> go_err option"

record webhook_env =
  wh_TempFile :: "go_err + string"
  wh_Close :: "go_err option"
  wh_WriteToFile :: "kubeconfig \<Rightarrow> go_err option"
  wh_BuildConfig :: "string \<Rightarrow> files \<Rightarrow> go_err + proxy_config"
  wh_New :: "proxy_config \<Rightarrow> go_err + review"
  wh_cache :: "review \<Rightarrow> 64 word \<Rightarrow> review"
  wh_text :: "go_err \<Rightarrow> string"

definition webhook_kubeconfig :: "string \<Rightarrow> kubeconfig" where
  "webhook_kubeconfig url =
     \<lparr>kf_Clusters = [(''local'', \<lparr>kc_Server = url, kc_InsecureSkipTLSVerify = True\<rparr>)],
      kf_Contexts = [(''Default'', \<lparr>kx_Cluster = ''local'', kx_AuthInfo = ''user'', kx_Namespace = ''default''\<rparr>)],
      kf_AuthInfos = [(''user'', ())],
      kf_CurrentContext = ''Default''\<rparr>"

text \<open>The name, an error, and the files; the last call returns both name and error.\<close>

definition WebhookConfigForURL :: "webhook_env \<Rightarrow> string \<Rightarrow> files \<Rightarrow> (string \<times> go_err option) \<times> files" where
  "WebhookConfigForURL E url fs =
     (case wh_TempFile E of
        Inl err \<Rightarrow> (([], Some err), fs)
      | Inr name \<Rightarrow>
          (let fs = mput name None fs in
           case wh_Close E of
             Some err \<Rightarrow> (([], Some err), fs)
           | None \<Rightarrow>
               (case wh_WriteToFile E (webhook_kubeconfig url) of
                  Some err \<Rightarrow> ((name, Some err), fs)
                | None \<Rightarrow> ((name, None), mput name (Some (webhook_kubeconfig url)) fs))))"

definition NewWebhookAuthenticator :: "webhook_env \<Rightarrow> 64 word \<Rightarrow> proxy_config \<Rightarrow> go_err + authenticator" where
  "NewWebhookAuthenticator E cacheTTL kubeConfig =
     (case wh_New E kubeConfig of
        Inl err \<Rightarrow> Inl err
      | Inr wh \<Rightarrow> Inr (webhookAuth_Authenticate (if sint cacheTTL > 0 then wh_cache E wh cacheTTL else wh)))"

definition NewWebhookMiddleware :: "webhook_env \<Rightarrow> 64 word \<Rightarrow> proxy_config \<Rightarrow> go_err + (http_request \<Rightarrow> http_request)" where
  "NewWebhookMiddleware E cacheTTL kubeConfig =
     (case NewWebhookAuthenticator E cacheTTL kubeConfig of Inl err \<Rightarrow> Inl err | Inr auth \<Rightarrow> Inr (ToMiddleware auth))"

subsection \<open>webhookcli.go\<close>

record webhook_config =
  wc_WebhookAuthentication :: bool
  wc_WebhookKubeconfig :: string
  wc_WebhookURL :: string
  wc_WebhookCacheTTLSeconds :: int

text \<open>\<^verbatim>\<open>time.Duration(seconds) * time.Second\<close> in nanoseconds, as a 64-bit integer.\<close>

definition cache_ttl :: "int \<Rightarrow> 64 word" where
  "cache_ttl seconds = word_of_int seconds * 1000000000"

definition WebhookMiddleware :: "webhook_env \<Rightarrow> webhook_config \<Rightarrow> files \<Rightarrow> (go_err + (http_request \<Rightarrow> http_request) option) \<times> files" where
  "WebhookMiddleware E w fs =
     (if \<not> wc_WebhookAuthentication w then (Inr None, fs)
      else
        let use = (\<lambda>config fs.
              case wh_BuildConfig E config fs of
                Inl err \<Rightarrow> Inl err
              | Inr kubeConfig \<Rightarrow>
                  (case NewWebhookMiddleware E (cache_ttl (wc_WebhookCacheTTLSeconds w)) kubeConfig of
                     Inl err \<Rightarrow> Inl err | Inr m \<Rightarrow> Inr (Some m)))
        in if wc_WebhookKubeconfig w = [] \<and> wc_WebhookURL w \<noteq> []
           then (case WebhookConfigForURL E (wc_WebhookURL w) fs of
               ((tempFile, Some err), fs) \<Rightarrow> (Inl err, fs)
             | ((tempFile, None), fs) \<Rightarrow> (use tempFile fs, mdel tempFile fs))
           else (use (wc_WebhookKubeconfig w) fs, fs))"

definition MustWebhookMiddleware :: "webhook_env \<Rightarrow> webhook_config \<Rightarrow> files \<Rightarrow> (go_err + (http_request \<Rightarrow> http_request) option) \<times> files" where
  "MustWebhookMiddleware E w fs =
     (case WebhookMiddleware E w fs of
        (Inl err, fs) \<Rightarrow> (Inl (Panic (''failed to create webhook middleware: '' @ wh_text E err)), fs)
      | (Inr m, fs) \<Rightarrow> (Inr m, fs))"

section \<open>What the middleware asks, how long it remembers, what it leaves behind\<close>

definition kubeconfig_server :: "kubeconfig \<Rightarrow> string option" where
  "kubeconfig_server f =
     (case mget (kf_Contexts f) (kf_CurrentContext f) of
        None \<Rightarrow> None
      | Some c \<Rightarrow> map_option kc_Server (mget (kf_Clusters f) (kx_Cluster c)))"

lemma webhook_kubeconfig_server: "kubeconfig_server (webhook_kubeconfig url) = Some url"
  by (simp add: kubeconfig_server_def webhook_kubeconfig_def)

text \<open>
  The middleware for a URL reviews tokens at that URL: the kubeconfig that client-go is given is in the file it is
  told, and its current context points to the URL. Afterwards the temporary file is gone, and every other file is as it was.
  If closing or writing the file fails, it is not removed.
\<close>

theorem webhook_temp_file:
  assumes "wc_WebhookAuthentication w" and "wc_WebhookKubeconfig w = []" and "wc_WebhookURL w \<noteq> []"
    and "wh_TempFile E = Inr name" and "\<not> mhas fs name"
    and "WebhookMiddleware E w fs = (r, fs')"
  shows "(\<forall>f. f \<noteq> name \<longrightarrow> mget fs' f = mget fs f) \<and>
    (mhas fs' name \<longleftrightarrow> wh_Close E \<noteq> None \<or> wh_WriteToFile E (webhook_kubeconfig (wc_WebhookURL w)) \<noteq> None) \<and>
    (\<forall>m. r = Inr m \<longrightarrow> (\<exists>fs1 cfg review. mget fs1 name = Some (Some (webhook_kubeconfig (wc_WebhookURL w))) \<and>
       wh_BuildConfig E name fs1 = Inr cfg \<and> wh_New E cfg = Inr review \<and>
       m = Some (ToMiddleware (webhookAuth_Authenticate
         (if sint (cache_ttl (wc_WebhookCacheTTLSeconds w)) > 0 then wh_cache E review (cache_ttl (wc_WebhookCacheTTLSeconds w)) else review)))))"
proof -
  let ?k = "webhook_kubeconfig (wc_WebhookURL w)"
  have gone: "mhas (mput name x fs) name" "\<not> mhas (mdel name gs) name" for x gs
    by (simp_all add: mhas_mput mhas_mdel)
  show ?thesis
  proof (cases "wh_Close E = None \<and> wh_WriteToFile E ?k = None")
    case False
    then have "WebhookMiddleware E w fs = (r, mput name None fs)" and "\<exists>err. r = Inl err"
      using assms by (auto simp: WebhookMiddleware_def WebhookConfigForURL_def Let_def split: option.splits)
    with assms(6) gone(1) False show ?thesis by (auto simp: mget_mput)
  next
    case True
    let ?fs1 = "mput name (Some ?k) (mput name None fs)"
    have r: "fs' = mdel name ?fs1"
      "r = (case wh_BuildConfig E name ?fs1 of Inl err \<Rightarrow> Inl err | Inr kubeConfig \<Rightarrow>
         (case NewWebhookMiddleware E (cache_ttl (wc_WebhookCacheTTLSeconds w)) kubeConfig of Inl err \<Rightarrow> Inl err | Inr m \<Rightarrow> Inr (Some m)))"
      using assms True by (auto simp: WebhookMiddleware_def WebhookConfigForURL_def Let_def)
    have "mget ?fs1 name = Some (Some ?k)" by (simp add: mget_mput)
    then have "\<forall>m. r = Inr m \<longrightarrow> (\<exists>fs1 cfg review. mget fs1 name = Some (Some ?k) \<and> wh_BuildConfig E name fs1 = Inr cfg \<and> wh_New E cfg = Inr review \<and>
       m = Some (ToMiddleware (webhookAuth_Authenticate
         (if sint (cache_ttl (wc_WebhookCacheTTLSeconds w)) > 0 then wh_cache E review (cache_ttl (wc_WebhookCacheTTLSeconds w)) else review))))"
      unfolding r(2) by (auto simp: NewWebhookMiddleware_def NewWebhookAuthenticator_def split: sum.splits)
    with r(1) True gone(2) show ?thesis by (auto simp: mget_mput mget_mdel)
  qed
qed

text \<open>
  The time to remember a review. The seconds of the flag are multiplied with a second in 64 bits: up to 9223372036 either way the product is the
  time in nanoseconds and its sign, which decides whether there is a cache, is right; one second more wraps to a negative
  time, and the cache is silently left out.
\<close>

theorem cache_ttl_range:
  assumes "- 9223372036 \<le> n" and "n \<le> 9223372036"
  shows "sint (cache_ttl n) = n * 1000000000 \<and> (sint (cache_ttl n) > 0 \<longleftrightarrow> n > 0) \<and> sint (cache_ttl 9223372037) < 0"
proof -
  have ttl: "sint (cache_ttl m) = signed_take_bit 63 (m * 1000000000)" for m
  proof -
    have "cache_ttl m = word_of_int (m * 1000000000)" by (simp add: cache_ttl_def)
    then show ?thesis by (simp only: sint_sbintrunc') simp
  qed
  have "signed_take_bit 63 (n * 1000000000) = n * 1000000000" using assms by (intro signed_take_bit_int_eq_self) auto
  moreover have "signed_take_bit 63 (9223372037 * 1000000000 :: int) < 0"
    by (simp add: signed_take_bit_eq_take_bit_shift take_bit_eq_mod)
  ultimately show ?thesis by (simp add: ttl)
qed

text \<open>A webhook that knows one token.\<close>

definition ex_webhook_env :: webhook_env where
  "ex_webhook_env = \<lparr>wh_TempFile = Inr ''/tmp/webhook-config1'', wh_Close = None, wh_WriteToFile = (\<lambda>k. Some (OtherError ''disk full'')),
     wh_BuildConfig = (\<lambda>f fs. Inr ex_proxy_config), wh_New = (\<lambda>c. Inr (\<lambda>t. (None, False, None))), wh_cache = (\<lambda>r t. r),
     wh_text = (\<lambda>e. ''error'')\<rparr>"

definition ex_webhook_config :: webhook_config where
  "ex_webhook_config = \<lparr>wc_WebhookAuthentication = True, wc_WebhookKubeconfig = [], wc_WebhookURL = ''https://auth'', wc_WebhookCacheTTLSeconds = 0\<rparr>"

lemma webhook_temp_file_witness:
  "mhas (snd (WebhookMiddleware ex_webhook_env ex_webhook_config [])) ''/tmp/webhook-config1''"
proof -
  obtain r fs' where r: "WebhookMiddleware ex_webhook_env ex_webhook_config [] = (r, fs')"
    by (cases "WebhookMiddleware ex_webhook_env ex_webhook_config []")
  have "wc_WebhookAuthentication ex_webhook_config" "wc_WebhookKubeconfig ex_webhook_config = []" "wc_WebhookURL ex_webhook_config \<noteq> []"
    "wh_TempFile ex_webhook_env = Inr ''/tmp/webhook-config1''" "\<not> mhas ([] :: files) ''/tmp/webhook-config1''"
    by (simp_all add: ex_webhook_config_def ex_webhook_env_def mhas_def)
  from webhook_temp_file [OF this r] r show ?thesis by (simp add: ex_webhook_env_def)
qed

lemma cache_ttl_range_witness: "sint (cache_ttl 300) = 300000000000"
  using cache_ttl_range [of 300] by simp

end
