(* ===== verification/Server_Setup.thy ===== *)
theory Server_Setup
  imports Router Webhook Client_Factory Schema_Controller
begin

section \<open>A server from its options: pkg/server/server.go, config.go, cli/clicontext.go\<close>

text \<open>
  \<open>New\<close> fills in what the caller left out, controllers, client factory, access store, handlers, and starts what it
  made. Constructors of other packages are the fields of \<open>setup_env\<close>; a value of theirs that the repository only passes on
  is a \<open>func\<close>, a nil pointer is \<open>None\<close>. The registration of the controllers' handlers in the router of the baaah package is left
  out: what the handlers do is in \<open>Policy_Rules\<close> and \<open>Schema_Controller\<close>.
\<close>

record controllers =
  ct_K8s :: func
  ct_Router :: "func option"

text \<open>What the client of the dynamic columns is configured with.\<close>

record columns_config =
  cc_AcceptContentTypes :: string
  cc_APIPath :: string
  cc_rate_limited :: bool

record 'w setup_env =
  su_kubernetes :: "go_err + func"
  su_schemes :: "go_err option list"
  su_router :: "func option \<times> go_err option"
  su_start :: "func option \<Rightarrow> go_err option"
  su_metadata :: "go_err option"
  su_dynamic :: "go_err option"
  su_access_store :: "func option \<Rightarrow> func"
  su_meta_schemes :: "go_err option list"
  su_RESTClientFor :: "columns_config \<Rightarrow> go_err option"
  su_wiring :: wiring
  su_proxy_store :: "func \<Rightarrow> func"
  su_formatter :: func
  su_group_customize :: func
  su_group_formatter :: func
  su_group_store :: "func \<Rightarrow> func"
  su_notifier :: func
  su_app :: "'w app"
  su_NotFound :: "'w http_handler"

definition Controllers_Start :: "'w setup_env \<Rightarrow> controllers \<Rightarrow> go_err option" where
  "Controllers_Start E c = su_start E (ct_Router c)"

text \<open>The first error of the schemes, in order. The error of the last call, \<^verbatim>\<open>baaah.NewRouter\<close>, is not looked at.\<close>

fun first_error :: "go_err option list \<Rightarrow> go_err option" where
  "first_error [] = None"
| "first_error (e # es) = (case e of Some err \<Rightarrow> Some err | None \<Rightarrow> first_error es)"

definition columns_newClient :: "'w setup_env \<Rightarrow> go_err option" where
  "columns_newClient E =
     (case first_error (su_meta_schemes E) of
        Some err \<Rightarrow> Some err
      | None \<Rightarrow> su_RESTClientFor E \<lparr>cc_AcceptContentTypes = table_accept, cc_APIPath = ''/'', cc_rate_limited = False\<rparr>)"

text \<open>The columns themselves are \<open>DynamicColumns_SetColumns\<close>.\<close>

definition NewDynamicColumns :: "'w setup_env \<Rightarrow> go_err option" where
  "NewDynamicColumns E = (case columns_newClient E of Some err \<Rightarrow> Some err | None \<Rightarrow> None)"

definition NewController :: "'w setup_env \<Rightarrow> go_err + controllers" where
  "NewController E =
     (case su_kubernetes E of
        Inl err \<Rightarrow> Inl err
      | Inr k8s \<Rightarrow>
          (case first_error (su_schemes E) of
             Some err \<Rightarrow> Inl err
           | None \<Rightarrow> (case su_router E of (router, err) \<Rightarrow> Inr \<lparr>ct_K8s = k8s, ct_Router = router\<rparr>)))"

subsection \<open>The templates of resources/schema.go\<close>

definition empty_template :: template where
  "empty_template = \<lparr>t_Group = [], t_Kind = [], t_ID = [], t_Customize = None, t_Formatter = None, t_Store = None, t_Start = None,
     t_StoreFactory = None\<rparr>"

definition DefaultTemplate :: "func \<Rightarrow> func \<Rightarrow> template" where
  "DefaultTemplate store formatter = empty_template\<lparr>t_Store := Some store, t_Formatter := Some (Fmt formatter)\<rparr>"

definition apigroups_Template :: "func \<Rightarrow> func \<Rightarrow> func \<Rightarrow> template" where
  "apigroups_Template customize formatter store =
     empty_template\<lparr>t_ID := ''apigroup'', t_Customize := Some customize, t_Formatter := Some (Fmt formatter), t_Store := Some store\<rparr>"

definition DefaultSchemaTemplates :: "'w setup_env \<Rightarrow> func \<Rightarrow> func \<Rightarrow> template list" where
  "DefaultSchemaTemplates E lookup discovery =
     [DefaultTemplate (su_proxy_store E lookup) (su_formatter E),
      apigroups_Template (su_group_customize E) (su_group_formatter E) (su_group_store E discovery)]"

subsection \<open>server.go\<close>

record 'w options =
  o_Controllers :: "controllers option"
  o_ClientFactory :: "factory option"
  o_AccessSetLookup :: "func option"
  o_AuthMiddleware :: "(http_request \<Rightarrow> http_request) option"
  o_Next :: "'w http_handler option"
  o_Router :: "('w http_handler Handlers \<Rightarrow> 'w http_handler) option"
  o_ServerVersion :: string

definition no_options :: "'w options" where
  "no_options = \<lparr>o_Controllers = None, o_ClientFactory = None, o_AccessSetLookup = None, o_AuthMiddleware = None, o_Next = None,
     o_Router = None, o_ServerVersion = []\<rparr>"

record 'w Server =
  sv_Handler :: "'w http_handler option"
  sv_ClientFactory :: "factory option"
  sv_SchemaFactory :: "unit collection option"
  sv_RESTConfig :: "proxy_config option"
  sv_BaseSchemas :: "api_schemas option"
  sv_AccessSetLookup :: "func option"
  sv_Version :: string
  sv_authMiddleware :: "(http_request \<Rightarrow> http_request) option"
  sv_controllers :: "controllers option"
  sv_needControllerStart :: bool
  sv_next :: "'w http_handler option"
  sv_router :: "('w http_handler Handlers \<Rightarrow> 'w http_handler) option"

definition ErrConfigRequired :: go_err where
  "ErrConfigRequired = OtherError ''rest config is required''"

definition server_setDefaults :: "'w setup_env \<Rightarrow> 'w Server \<Rightarrow> go_err + 'w Server" where
  "server_setDefaults E sv =
     (if sv_RESTConfig sv = None then Inl ErrConfigRequired
      else
        (case (case sv_controllers sv of
                 Some c \<Rightarrow> Inr sv
               | None \<Rightarrow> (case NewController E of
                     Inl err \<Rightarrow> Inl err
                   | Inr c \<Rightarrow> Inr (sv\<lparr>sv_controllers := Some c, sv_needControllerStart := True\<rparr>))) of
           Inl err \<Rightarrow> Inl err
         | Inr sv \<Rightarrow>
             let sv = (if sv_next sv = None then sv\<lparr>sv_next := Some (su_NotFound E)\<rparr> else sv)
             in Inr (if sv_BaseSchemas sv = None then sv\<lparr>sv_BaseSchemas := Some EmptyAPISchemas\<rparr> else sv)))"

text \<open>The client factory, which \<open>setup\<close> keeps, and the lookup of access sets, which it does not.\<close>

definition setup_factory :: "'w setup_env \<Rightarrow> 'w Server \<Rightarrow> go_err + factory" where
  "setup_factory E sv =
     (case sv_ClientFactory sv of
        Some cf \<Rightarrow> Inr cf
      | None \<Rightarrow> client_NewFactory (su_metadata E) (su_dynamic E) (sv_authMiddleware sv \<noteq> None))"

definition setup_lookup :: "'w setup_env \<Rightarrow> 'w Server \<Rightarrow> controllers \<Rightarrow> func" where
  "setup_lookup E sv c = (case sv_AccessSetLookup sv of Some asl \<Rightarrow> asl | None \<Rightarrow> su_access_store E (ct_Router c))"

text \<open>
  \<open>setup\<close> after its defaults: the factory of schemas is made over the base schemas and is given the templates and the notifier
  of the schema watch; the last step makes the handler. The fuel of \<open>DefaultSchemas\<close> is enough, see \<open>import_returns\<close>.
  An error of \<open>SetupWatcher\<close> is dropped.
\<close>

definition server_setup :: "'w setup_env \<Rightarrow> 'w Server \<Rightarrow> (go_err + 'w Server) option" where
  "server_setup E sv =
     (case server_setDefaults E sv of
        Inl err \<Rightarrow> Some (Inl err)
      | Inr sv \<Rightarrow>
          (case setup_factory E sv of
             Inl err \<Rightarrow> Some (Inl err)
           | Inr cf \<Rightarrow>
               (case (sv_controllers sv, sv_BaseSchemas sv, sv_RESTConfig sv, sv_next sv) of
                  (Some c, Some base, Some cfg, Some nxt) \<Rightarrow>
                    (case DefaultSchemas (su_wiring E) base of
                       None \<Rightarrow> None
                     | Some (Inl err) \<Rightarrow> Some (Inl err)
                     | Some (Inr base) \<Rightarrow>
                         (case NewDynamicColumns E of
                            Some err \<Rightarrow> Some (Inl err)
                          | None \<Rightarrow>
                              (let base = (case SetupWatcher (su_wiring E) base of Inl _ \<Rightarrow> base | Inr b \<Rightarrow> b);
                                   sf = AddTemplate (DefaultSchemaTemplates E (setup_lookup E sv c) (ct_K8s c)) (NewCollection base ());
                                   sf = snd (OnChange (su_notifier E) sf)
                               in case New_handler (su_app E) cfg (sv_authMiddleware sv) nxt (sv_router sv) of
                                    Inl err \<Rightarrow> Some (Inl err)
                                  | Inr handler \<Rightarrow>
                                      Some (Inr (sv\<lparr>sv_ClientFactory := Some cf, sv_BaseSchemas := Some base, sv_Handler := Some handler,
                                        sv_SchemaFactory := Some sf\<rparr>)))))
                | _ \<Rightarrow> Some (Inl (Panic ''nil pointer dereference'')))))"

definition server_start :: "'w setup_env \<Rightarrow> 'w Server \<Rightarrow> go_err option" where
  "server_start E sv =
     (if sv_needControllerStart sv then
        (case sv_controllers sv of None \<Rightarrow> Some (Panic ''nil pointer dereference'') | Some c \<Rightarrow> Controllers_Start E c)
      else None)"

text \<open>The server comes back also when it could not be started.\<close>

definition server_New :: "'w setup_env \<Rightarrow> proxy_config option \<Rightarrow> 'w options option \<Rightarrow> ('w Server option \<times> go_err option) option" where
  "server_New E restConfig opts =
     (let opts = (case opts of None \<Rightarrow> no_options | Some opts \<Rightarrow> opts);
          server = \<lparr>sv_Handler = None, sv_ClientFactory = o_ClientFactory opts, sv_SchemaFactory = None, sv_RESTConfig = restConfig,
            sv_BaseSchemas = None, sv_AccessSetLookup = o_AccessSetLookup opts, sv_Version = o_ServerVersion opts,
            sv_authMiddleware = o_AuthMiddleware opts, sv_controllers = o_Controllers opts, sv_needControllerStart = False,
            sv_next = o_Next opts, sv_router = o_Router opts\<rparr>
      in case server_setup E server of
           None \<Rightarrow> None
         | Some (Inl err) \<Rightarrow> Some (None, Some err)
         | Some (Inr server) \<Rightarrow> Some (Some server, server_start E server))"

subsection \<open>clicontext.go\<close>

record brent =
  br_Kubeconfig :: string
  br_Context :: string
  br_HttpListenPort :: int
  br_WebhookConfig :: webhook_config

record 'w cli_env =
  ce_InitLogging :: "go_err option"
  ce_FromFile :: "string \<Rightarrow> string \<Rightarrow> go_err + proxy_config"
  ce_webhook :: webhook_env
  ce_setup :: "'w setup_env"

text \<open>What is listened with: the address and the server, or the error \<open>Run\<close> returns before.\<close>

definition Brent_Run :: "'w cli_env \<Rightarrow> brent \<Rightarrow> files \<Rightarrow> (go_err + string \<times> 'w Server) option \<times> files" where
  "Brent_Run E b fs =
     (case ce_InitLogging E of
        Some err \<Rightarrow> (Some (Inl err), fs)
      | None \<Rightarrow>
          (case ce_FromFile E (br_Kubeconfig b) (br_Context b) of
             Inl err \<Rightarrow> (Some (Inl err), fs)
           | Inr restConfig \<Rightarrow>
               (case (if wc_WebhookAuthentication (br_WebhookConfig b) then WebhookMiddleware (ce_webhook E) (br_WebhookConfig b) fs
                      else (Inr None, fs)) of
                  (Inl err, fs) \<Rightarrow> (Some (Inl err), fs)
                | (Inr auth, fs) \<Rightarrow>
                    (case server_New (ce_setup E) (Some restConfig) (Some (no_options\<lparr>o_AuthMiddleware := auth\<rparr>)) of
                       None \<Rightarrow> (None, fs)
                     | Some (s, Some err) \<Rightarrow> (Some (Inl err), fs)
                     | Some (Some s, None) \<Rightarrow> (Some (Inr (CHR '':'' # int_string (br_HttpListenPort b), s)), fs)
                     | Some (None, None) \<Rightarrow> (Some (Inl (Panic ''nil pointer dereference'')), fs)))))"

section \<open>Who acts for whom\<close>

lemma server_setDefaults_Inr:
  assumes "server_setDefaults E sv = Inr sv'"
  shows "sv_RESTConfig sv' = sv_RESTConfig sv \<and> sv_RESTConfig sv \<noteq> None \<and> sv_ClientFactory sv' = sv_ClientFactory sv \<and>
    sv_authMiddleware sv' = sv_authMiddleware sv \<and> sv_router sv' = sv_router sv \<and>
    sv_next sv' = Some (case sv_next sv of None \<Rightarrow> su_NotFound E | Some n \<Rightarrow> n) \<and>
    (case sv_controllers sv of
       Some c \<Rightarrow> sv_controllers sv' = Some c \<and> sv_needControllerStart sv' = sv_needControllerStart sv
     | None \<Rightarrow> (\<exists>c. NewController E = Inr c \<and> sv_controllers sv' = Some c) \<and> sv_needControllerStart sv')"
  using assms by (auto simp: server_setDefaults_def Let_def split: if_splits option.splits sum.splits)

lemma server_setup_Inr:
  assumes "server_setup E sv = Some (Inr sv')"
  obtains sv1 cfg handler cf where "server_setDefaults E sv = Inr sv1" and "sv_RESTConfig sv = Some cfg"
    and "setup_factory E sv1 = Inr cf" and "sv_ClientFactory sv' = Some cf"
    and "New_handler (su_app E) cfg (sv_authMiddleware sv) (case sv_next sv of None \<Rightarrow> su_NotFound E | Some n \<Rightarrow> n) (sv_router sv) = Inr handler"
    and "sv_Handler sv' = Some handler" and "sv_controllers sv' = sv_controllers sv1" and "sv_needControllerStart sv' = sv_needControllerStart sv1"
proof -
  obtain sv1 where sv1: "server_setDefaults E sv = Inr sv1" using assms by (auto simp: server_setup_def split: sum.splits)
  note same = server_setDefaults_Inr [OF sv1]
  obtain cf where cf: "setup_factory E sv1 = Inr cf" using assms sv1 by (auto simp: server_setup_def split: sum.splits)
  obtain cfg where cfg: "sv_RESTConfig sv = Some cfg" using same by auto
  have rest: "sv_RESTConfig sv1 = Some cfg" "sv_authMiddleware sv1 = sv_authMiddleware sv" "sv_router sv1 = sv_router sv"
    "sv_next sv1 = Some (case sv_next sv of None \<Rightarrow> su_NotFound E | Some n \<Rightarrow> n)" using same cfg by simp_all
  have "\<exists>handler. New_handler (su_app E) cfg (sv_authMiddleware sv) (case sv_next sv of None \<Rightarrow> su_NotFound E | Some n \<Rightarrow> n) (sv_router sv) = Inr handler \<and>
      sv_Handler sv' = Some handler \<and> sv_ClientFactory sv' = Some cf \<and> sv_controllers sv' = sv_controllers sv1 \<and>
      sv_needControllerStart sv' = sv_needControllerStart sv1"
    using assms unfolding server_setup_def sv1 sum.case cf rest
    by (auto simp: Let_def split: option.splits sum.splits)
  with that sv1 cfg cf show thesis by blast
qed

lemma server_New_Some:
  assumes "server_New E restConfig (Some opts) = Some (Some sv, e)"
  obtains cfg handler cf where "restConfig = Some cfg"
    and "New_handler (su_app E) cfg (o_AuthMiddleware opts) (case o_Next opts of None \<Rightarrow> su_NotFound E | Some n \<Rightarrow> n) (o_Router opts) = Inr handler"
    and "sv_Handler sv = Some handler" and "sv_ClientFactory sv = Some cf"
    and "case o_ClientFactory opts of Some f \<Rightarrow> cf = f | None \<Rightarrow> cf = NewFactory (o_AuthMiddleware opts \<noteq> None)"
    and "case o_Controllers opts of Some c \<Rightarrow> e = None | None \<Rightarrow> \<exists>c. NewController E = Inr c \<and> e = Controllers_Start E c"
proof -
  let ?sv = "\<lparr>sv_Handler = None, sv_ClientFactory = o_ClientFactory opts, sv_SchemaFactory = None, sv_RESTConfig = restConfig,
            sv_BaseSchemas = None, sv_AccessSetLookup = o_AccessSetLookup opts, sv_Version = o_ServerVersion opts,
            sv_authMiddleware = o_AuthMiddleware opts, sv_controllers = o_Controllers opts, sv_needControllerStart = False,
            sv_next = o_Next opts, sv_router = o_Router opts\<rparr>"
  have made: "server_setup E ?sv = Some (Inr sv)" and started: "e = server_start E sv"
    using assms by (auto simp: server_New_def Let_def split: option.splits sum.splits)
  from made obtain sv1 cfg handler cf where parts: "server_setDefaults E ?sv = Inr sv1" "sv_RESTConfig ?sv = Some cfg"
    "setup_factory E sv1 = Inr cf" "sv_ClientFactory sv = Some cf"
    "New_handler (su_app E) cfg (sv_authMiddleware ?sv) (case sv_next ?sv of None \<Rightarrow> su_NotFound E | Some n \<Rightarrow> n) (sv_router ?sv) = Inr handler"
    "sv_Handler sv = Some handler" "sv_controllers sv = sv_controllers sv1" "sv_needControllerStart sv = sv_needControllerStart sv1"
    by (rule server_setup_Inr)
  note same = server_setDefaults_Inr [OF parts(1), simplified]
  have "case o_ClientFactory opts of Some f \<Rightarrow> cf = f | None \<Rightarrow> cf = NewFactory (o_AuthMiddleware opts \<noteq> None)"
    using parts(3) same by (auto simp: setup_factory_def client_NewFactory_def split: option.splits)
  moreover have "case o_Controllers opts of Some c \<Rightarrow> e = None | None \<Rightarrow> \<exists>c. NewController E = Inr c \<and> e = Controllers_Start E c"
    using started parts(7,8) same by (auto simp: server_start_def split: option.splits)
  ultimately show thesis using that [of cfg handler cf] parts by simp
qed

text \<open>The administrator that \<open>AlwaysAdmin\<close> stores.\<close>

definition admin_user :: user where
  "admin_user = \<lparr>u_Name = ''admin'', u_UID = ''admin'', u_Groups = [''system:masters'', ''system:authenticated''], u_Extra = []\<rparr>"

definition user_client :: "factory \<Rightarrow> convert \<Rightarrow> api_request \<Rightarrow> api_schema \<Rightarrow> string \<Rightarrow> client \<Rightarrow> bool" where
  "user_client cf C op s ns cl \<longleftrightarrow> TableClient cf C op s ns = Inr cl \<or> TableClientForWatch cf C op s ns = Inr cl"

lemma user_client_acts:
  "user_client (NewFactory True) C op s ns cl \<Longrightarrow> acts_as_user op cl"
  "user_client (NewFactory False) C op s ns cl \<Longrightarrow> cfg_Impersonate (cl_config cl) = None"
  by (auto simp: user_client_def client_defs NewFactory_def Let_def split: if_splits dest!: newClient_cases)

text \<open>
  Authentication decides for whom a server acts. Of a server made with a middleware, requests get the user that it
  finds, and every client that is made for them impersonates the user of the request. Without one every
  request is an administrator's, and no client impersonates anybody: all users act with the server's own credentials. A client
  factory of the caller is used as it is.
\<close>

theorem server_acts_for:
  assumes "server_New E restConfig (Some opts) = Some (Some sv, e)"
  shows "\<exists>cfg nxt handler cf. restConfig = Some cfg \<and> sv_Handler sv = Some handler \<and> sv_ClientFactory sv = Some cf \<and>
    New_handler (su_app E) cfg (o_AuthMiddleware opts) nxt (o_Router opts) = Inr handler \<and>
    (case o_ClientFactory opts of
       Some f \<Rightarrow> cf = f
     | None \<Rightarrow> \<forall>C op s ns cl. user_client cf C op s ns cl \<longrightarrow>
         (if o_AuthMiddleware opts = None then cfg_Impersonate (cl_config cl) = None else acts_as_user op cl)) \<and>
    (o_AuthMiddleware opts = None \<longrightarrow> (\<forall>r. finds_user None r admin_user))"
proof -
  from assms obtain cfg handler cf where parts: "restConfig = Some cfg"
    "New_handler (su_app E) cfg (o_AuthMiddleware opts) (case o_Next opts of None \<Rightarrow> su_NotFound E | Some n \<Rightarrow> n) (o_Router opts) = Inr handler"
    "sv_Handler sv = Some handler" "sv_ClientFactory sv = Some cf"
    "case o_ClientFactory opts of Some f \<Rightarrow> cf = f | None \<Rightarrow> cf = NewFactory (o_AuthMiddleware opts \<noteq> None)"
    "case o_Controllers opts of Some c \<Rightarrow> e = None | None \<Rightarrow> \<exists>c. NewController E = Inr c \<and> e = Controllers_Start E c"
    by (rule server_New_Some)
  have "case o_ClientFactory opts of
       Some f \<Rightarrow> cf = f
     | None \<Rightarrow> \<forall>C op s ns cl. user_client cf C op s ns cl \<longrightarrow>
         (if o_AuthMiddleware opts = None then cfg_Impersonate (cl_config cl) = None else acts_as_user op cl)"
    using parts(5) by (cases "o_AuthMiddleware opts") (auto split: option.splits dest: user_client_acts)
  moreover have "\<forall>r. finds_user None r admin_user" using admin_found by (simp add: admin_user_def)
  ultimately show ?thesis using parts(1-4) by blast
qed

text \<open>
  C12. A server from the command line. Whatever else goes well, a process that listens serves the port of the flag. Without
  the webhook flag it was given no middleware, so that everybody is an administrator; with it, users come from the
  review of their token, and clients impersonate them.
\<close>

theorem command_line_server:
  assumes "Brent_Run E b fs = (Some (Inr (addr, sv)), fs')"
  shows "addr = CHR '':'' # int_string (br_HttpListenPort b) \<and>
    (\<exists>cfg nxt handler cf mw. ce_FromFile E (br_Kubeconfig b) (br_Context b) = Inr cfg \<and>
       sv_Handler sv = Some handler \<and> sv_ClientFactory sv = Some cf \<and>
       New_handler (su_app (ce_setup E)) cfg mw nxt None = Inr handler \<and>
       (if wc_WebhookAuthentication (br_WebhookConfig b)
        then (\<exists>review. mw = Some (ToMiddleware (webhookAuth_Authenticate review))) \<and>
          (\<forall>C op s ns cl. user_client cf C op s ns cl \<longrightarrow> acts_as_user op cl)
        else mw = None \<and> (\<forall>r. finds_user mw r admin_user) \<and>
          (\<forall>C op s ns cl. user_client cf C op s ns cl \<longrightarrow> cfg_Impersonate (cl_config cl) = None)))"
proof -
  let ?w = "br_WebhookConfig b"
  obtain cfg auth fs1 where parts: "ce_FromFile E (br_Kubeconfig b) (br_Context b) = Inr cfg"
    "(if wc_WebhookAuthentication ?w then WebhookMiddleware (ce_webhook E) ?w fs else (Inr None, fs)) = (Inr auth, fs1)"
    "server_New (ce_setup E) (Some cfg) (Some (no_options\<lparr>o_AuthMiddleware := auth\<rparr>)) = Some (Some sv, None)"
    "addr = CHR '':'' # int_string (br_HttpListenPort b)"
    using assms by (auto simp: Brent_Run_def split: option.splits sum.splits prod.splits)
  define opts :: "'a options" where "opts = no_options\<lparr>o_AuthMiddleware := auth\<rparr>"
  have fields: "o_AuthMiddleware opts = auth" "o_Router opts = None" "o_ClientFactory opts = None" by (simp_all add: opts_def no_options_def)
  have new: "server_New (ce_setup E) (Some cfg) (Some opts) = Some (Some sv, None)" using parts(3) by (simp add: opts_def)
  from new obtain cfg' handler cf where made: "Some cfg = Some cfg'"
    "New_handler (su_app (ce_setup E)) cfg' (o_AuthMiddleware opts)
       (case o_Next opts of None \<Rightarrow> su_NotFound (ce_setup E) | Some n \<Rightarrow> n) (o_Router opts) = Inr handler"
    "sv_Handler sv = Some handler" "sv_ClientFactory sv = Some cf"
    "case o_ClientFactory opts of Some f \<Rightarrow> cf = f | None \<Rightarrow> cf = NewFactory (o_AuthMiddleware opts \<noteq> None)"
    "case o_Controllers opts of Some c \<Rightarrow> None = (None :: go_err option)
     | None \<Rightarrow> \<exists>c. NewController (ce_setup E) = Inr c \<and> None = Controllers_Start (ce_setup E) c" by (rule server_New_Some)
  obtain nxt where server: "New_handler (su_app (ce_setup E)) cfg auth nxt None = Inr handler" "sv_Handler sv = Some handler"
    "sv_ClientFactory sv = Some cf" "cf = NewFactory (auth \<noteq> None)" using made fields by simp
  have mw: "if wc_WebhookAuthentication ?w then \<exists>review. auth = Some (ToMiddleware (webhookAuth_Authenticate review)) else auth = None"
    using parts(2)
    by (auto simp: WebhookMiddleware_def NewWebhookMiddleware_def NewWebhookAuthenticator_def Let_def
        split: if_splits prod.splits option.splits sum.splits)
  have "if wc_WebhookAuthentication ?w
        then (\<exists>review. auth = Some (ToMiddleware (webhookAuth_Authenticate review))) \<and>
          (\<forall>C op s ns cl. user_client cf C op s ns cl \<longrightarrow> acts_as_user op cl)
        else auth = None \<and> (\<forall>r. finds_user auth r admin_user) \<and>
          (\<forall>C op s ns cl. user_client cf C op s ns cl \<longrightarrow> cfg_Impersonate (cl_config cl) = None)"
  proof (cases "wc_WebhookAuthentication ?w")
    case True
    with mw server(4) have "cf = NewFactory True" by auto
    with True mw user_client_acts(1) show ?thesis by auto
  next
    case False
    with mw server(4) have "auth = None" "cf = NewFactory False" by auto
    with False user_client_acts(2) admin_found show ?thesis by (auto simp: admin_user_def)
  qed
  with parts(1,4) server(1-3) show ?thesis by blast
qed

text \<open>
  The error of the router is lost. When the controllers' router cannot be made, \<open>NewController\<close> returns controllers with a
  nil router and no error; the access store is made with it, and whether the server starts is up to a nil pointer.
\<close>

theorem router_error_lost:
  assumes "su_kubernetes E = Inr k" and "first_error (su_schemes E) = None" and "su_router E = (None, Some err)"
  shows "NewController E = Inr \<lparr>ct_K8s = k, ct_Router = None\<rparr> \<and>
    (\<forall>restConfig opts sv e. server_New E restConfig (Some opts) = Some (Some sv, e) \<and> o_Controllers opts = None \<longrightarrow> e = su_start E None)"
proof (intro conjI allI impI)
  show new: "NewController E = Inr \<lparr>ct_K8s = k, ct_Router = None\<rparr>" using assms by (simp add: NewController_def)
  fix restConfig opts sv e
  assume a: "server_New E restConfig (Some opts) = Some (Some sv, e) \<and> o_Controllers opts = None"
  from a [THEN conjunct1]
  have "case o_Controllers opts of Some c \<Rightarrow> e = None | None \<Rightarrow> \<exists>c. NewController E = Inr c \<and> e = Controllers_Start E c"
    by (rule server_New_Some)
  with a new show "e = su_start E None" by (auto simp: Controllers_Start_def)
qed

section \<open>A server without a webhook\<close>

definition ex_setup :: "nat setup_env" where
  "ex_setup = \<lparr>su_kubernetes = Inr 1, su_schemes = [None, None, None], su_router = (None, Some (OtherError ''no cache'')), su_start = (\<lambda>r. None),
     su_metadata = None, su_dynamic = None, su_access_store = (\<lambda>r. 2), su_meta_schemes = [None, None, None], su_RESTClientFor = (\<lambda>c. None), su_wiring = ex_wiring,
     su_proxy_store = (\<lambda>l. 3), su_formatter = 4, su_group_customize = 5, su_group_formatter = 6, su_group_store = (\<lambda>d. 7),
     su_notifier = 8, su_app = ex_app, su_NotFound = (\<lambda>r st. st)\<rparr>"

definition ex_brent :: brent where
  "ex_brent = \<lparr>br_Kubeconfig = [], br_Context = [], br_HttpListenPort = 9080,
     br_WebhookConfig = ex_webhook_config\<lparr>wc_WebhookAuthentication := False\<rparr>\<rparr>"

definition ex_cli :: "nat cli_env" where
  "ex_cli = \<lparr>ce_InitLogging = None, ce_FromFile = (\<lambda>f c. Inr ex_proxy_config), ce_webhook = ex_webhook_env, ce_setup = ex_setup\<rparr>"

lemma ex_defaults: "\<exists>base. DefaultSchemas ex_wiring EmptyAPISchemas = Some (Inr base)"
proof -
  have "case DefaultSchemas ex_wiring EmptyAPISchemas of Some (Inr _) \<Rightarrow> True | _ \<Rightarrow> False" by code_simp
  then show ?thesis by (auto split: option.splits sum.splits)
qed

lemma ex_server_made: "\<exists>sv. server_New ex_setup (Some ex_proxy_config) (Some no_options) = Some (Some sv, None)"
proof -
  obtain base where base: "DefaultSchemas ex_wiring EmptyAPISchemas = Some (Inr base)" using ex_defaults by blast
  obtain h where h: "New_handler ex_app ex_proxy_config None (\<lambda>r st. st) None = Inr h" using ex_app_handler by blast
  show ?thesis
    using base h
    by (simp add: server_New_def server_setup_def server_setDefaults_def NewController_def setup_factory_def client_NewFactory_def
        NewDynamicColumns_def columns_newClient_def no_options_def ex_setup_def server_start_def Controllers_Start_def Let_def)
qed

lemma ex_run: "\<exists>sv. Brent_Run ex_cli ex_brent [] = (Some (Inr ('':9080'', sv)), [])"
proof -
  have options: "no_options\<lparr>o_AuthMiddleware := None\<rparr> = no_options" by (simp add: no_options_def)
  have "nat_string 9080 = ''9080''" by (simp add: nat_string.simps nat_digit_def char_of_def bit_iff_odd)
  then have port: "CHR '':'' # int_string 9080 = '':9080''" by (simp add: int_string_def)
  from ex_server_made show ?thesis
    by (auto simp: Brent_Run_def ex_cli_def ex_brent_def ex_webhook_config_def options port)
qed

lemma server_acts_for_witness:
  "\<exists>sv cf. server_New ex_setup (Some ex_proxy_config) (Some no_options) = Some (Some sv, None) \<and> sv_ClientFactory sv = Some cf \<and>
     (\<forall>C op s ns cl. user_client cf C op s ns cl \<longrightarrow> cfg_Impersonate (cl_config cl) = None)"
proof -
  obtain sv where sv: "server_New ex_setup (Some ex_proxy_config) (Some no_options) = Some (Some sv, None)" using ex_server_made by blast
  from server_acts_for [OF sv] sv show ?thesis by (auto simp: no_options_def)
qed

lemma command_line_server_witness:
  "\<exists>sv handler. Brent_Run ex_cli ex_brent [] = (Some (Inr ('':9080'', sv)), []) \<and> sv_Handler sv = Some handler \<and>
     (\<exists>nxt. New_handler ex_app ex_proxy_config None nxt None = Inr handler)"
proof -
  obtain sv where sv: "Brent_Run ex_cli ex_brent [] = (Some (Inr ('':9080'', sv)), [])" using ex_run by blast
  from command_line_server [OF sv] sv show ?thesis by (auto simp: ex_cli_def ex_brent_def ex_setup_def ex_webhook_config_def)
qed

lemma router_error_lost_witness:
  "NewController ex_setup = Inr \<lparr>ct_K8s = 1, ct_Router = None\<rparr> \<and> snd (su_router ex_setup) \<noteq> None"
  using router_error_lost [of ex_setup 1 "OtherError ''no cache''"] by (simp add: ex_setup_def)

end
