(* ===== verification/Response_Formats.thy ===== *)
theory Response_Formats
  imports Writer Middleware
begin

section \<open>The bytes of an answer: pkg/writer/encoding.go and html.go, types/encoder.go, the writers of the server\<close>

text \<open>
  Which writer answers a request, and what it sends: the calls it makes on the response, as in \<open>Middleware\<close>. The encoders of
  encoding/json and of the yaml package are arguments that give a text or an error; they write in one go, so that
  nothing is written when they fail. A getter of the user interface's settings is its value or nil.
\<close>

subsection \<open>types/encoder.go\<close>

datatype body_encoder = JSONEncoder | JSONLines | YAMLEncoder

type_synonym body_value = "api_collection + raw_resource option"

record encoders =
  en_json :: "document \<Rightarrow> go_err + string"
  en_yaml :: "body_value \<Rightarrow> go_err + string"

definition whole_document :: "body_value \<Rightarrow> document" where
  "whole_document v = (case v of Inl c \<Rightarrow> Doc_collection c | Inr r \<Rightarrow> Doc_resource r)"

definition one_write :: "go_err + string \<Rightarrow> string \<times> go_err option" where
  "one_write r = (case r of Inl e \<Rightarrow> ([], Some e) | Inr t \<Rightarrow> (t, None))"

definition encode :: "encoders \<Rightarrow> body_encoder \<Rightarrow> body_value \<Rightarrow> string \<times> go_err option" where
  "encode N enc v =
     (case enc of
        JSONEncoder \<Rightarrow> one_write (en_json N (whole_document v))
      | YAMLEncoder \<Rightarrow> one_write (en_yaml N v)
      | JSONLines \<Rightarrow> JSONLinesEncoder (en_json N) v)"

subsection \<open>EncodingResponseWriter\<close>

record encoding_writer =
  ew_ContentType :: string
  ew_Encoder :: body_encoder

datatype content = Content_object "payload api_object" | Content_list "payload api_object_list"

text \<open>The schema whose collection is the catalogue of schemas.\<close>

definition schema_schema :: "api_request \<Rightarrow> api_schema option" where
  "schema_schema op = (case op_Schemas op of None \<Rightarrow> None | Some schemas \<Rightarrow> mget (Schemas schemas) ''schema'')"

definition AddCommonResponseHeader :: "api_request \<Rightarrow> rw_call list \<times> go_err option" where
  "AddCommonResponseHeader op =
     (let expires = SetHeader ''Expires'' ''Wed 24 Feb 1982 18:42:00 GMT'' in
      if op_Schemas op = None then ([expires], Some nil_pointer)
      else case schema_schema op of
             None \<Rightarrow> ([expires], None)
           | Some s \<Rightarrow> (case op_URLBuilder op of
                 None \<Rightarrow> ([expires], Some nil_pointer)
               | Some u \<Rightarrow> ([expires, SetHeader ''X-Api-Schemas'' (CollectionURL u s)], None)))"

definition writer_start :: "string \<Rightarrow> api_request \<Rightarrow> int \<Rightarrow> rw_call list \<times> go_err option" where
  "writer_start contentType op code =
     (case AddCommonResponseHeader op of
        (calls, Some p) \<Rightarrow> (calls, Some p)
      | (calls, None) \<Rightarrow> (calls @ [SetHeader ''content-type'' contentType, WriteHeader code], None))"

definition body_value :: "writer_env \<Rightarrow> api_request \<Rightarrow> content \<Rightarrow> go_err + body_value" where
  "body_value W op d =
     (case d of
        Content_object x \<Rightarrow> (case convert_object W op x of Inl e \<Rightarrow> Inl e | Inr r \<Rightarrow> Inr (Inr r))
      | Content_list l \<Rightarrow> (case convertList W op l of Inl e \<Rightarrow> Inl e | Inr c \<Rightarrow> Inr (Inl c)))"

definition writer_Body :: "writer_env \<Rightarrow> encoders \<Rightarrow> body_encoder \<Rightarrow> api_request \<Rightarrow> content \<Rightarrow> string \<times> go_err option" where
  "writer_Body W N enc op d = (case body_value W op d of Inl e \<Rightarrow> ([], Some e) | Inr v \<Rightarrow> encode N enc v)"

text \<open>An error of the body that is not a panic is dropped by the caller.\<close>

definition only_panic :: "go_err option \<Rightarrow> go_err option" where
  "only_panic e = (case e of Some (Panic m) \<Rightarrow> Some (Panic m) | _ \<Rightarrow> None)"

definition body_calls :: "string \<Rightarrow> rw_call list" where
  "body_calls out = (if out = [] then [] else [Write out])"

definition encoding_write :: "writer_env \<Rightarrow> encoders \<Rightarrow> encoding_writer \<Rightarrow> api_request \<Rightarrow> int \<Rightarrow> content \<Rightarrow> rw_call list \<times> go_err option" where
  "encoding_write W N j op code d =
     (case writer_start (ew_ContentType j) op code of
        (calls, Some p) \<Rightarrow> (calls, Some p)
      | (calls, None) \<Rightarrow> (case writer_Body W N (ew_Encoder j) op d of (out, e) \<Rightarrow> (calls @ body_calls out, only_panic e)))"

subsection \<open>html.go\<close>

definition JSURL :: string where
  "JSURL = ''https://releases.rancher.com/api-ui/%API_UI_VERSION%/ui.min.js''"

definition CSSURL :: string where
  "CSSURL = ''https://releases.rancher.com/api-ui/%API_UI_VERSION%/ui.min.css''"

definition DefaultVersion :: string where
  "DefaultVersion = ''1.1.8''"

definition html_start :: string where
  \<open>html_start = join_with [CHR 0x0A]
     [[],
      ''<!DOCTYPE html>'',
      ''<!-- If you are reading this, there is a good chance you would prefer sending an'',
      ''"Accept: application/json" header and receiving actual JSON responses. -->'',
      ''<link rel="stylesheet" type="text/css" href="%CSSURL%" />'',
      ''<script src="%JSURL%"></script>'',
      ''<script>'',
      ''var user = "admin";'',
      ''var curlUser='' @ [CHR 0x27] @ ''${CATTLE_ACCESS_KEY}:${CATTLE_SECRET_KEY}'' @ [CHR 0x27] @ '';'',
      ''var schemas=%SCHEMAS%;'',
      ''var data ='',
      []]\<close>

definition html_end :: string where
  "html_end = ''</script>'' @ [CHR 0x0A]"

text \<open>\<^verbatim>\<open>strings.Replace(s, old, new, 1)\<close>\<close>

fun replace_first :: "string \<Rightarrow> string \<Rightarrow> string \<Rightarrow> string" where
  "replace_first old new [] = (if old = [] then new else [])"
| "replace_first old new (c # cs) =
     (if has_prefix old (c # cs) then new @ drop (length old) (c # cs) else c # replace_first old new cs)"

text \<open>
  \<^verbatim>\<open>json.Marshal\<close> of a string, which escapes the characters of HTML; bytes from 128 on stand for themselves, as in valid UTF-8
  without the two line separators of Unicode.
\<close>

definition hex_lower :: "nat \<Rightarrow> char" where
  "hex_lower n = (if n < 10 then char_of (48 + n) else char_of (87 + n))"

definition json_char :: "char \<Rightarrow> string" where
  "json_char c =
     (let n = of_char c :: nat in
      if c = CHR 0x22 \<or> c = CHR 0x5C then [CHR 0x5C, c]
      else if c = CHR 0x0A then [CHR 0x5C, CHR ''n'']
      else if c = CHR 0x0D then [CHR 0x5C, CHR ''r'']
      else if c = CHR 0x09 then [CHR 0x5C, CHR ''t'']
      else if n < 32 \<or> c = CHR ''<'' \<or> c = CHR ''>'' \<or> c = CHR ''&''
      then [CHR 0x5C, CHR ''u'', CHR ''0'', CHR ''0'', hex_lower (n div 16), hex_lower (n mod 16)]
      else [c])"

definition jsonEncodeURL :: "string \<Rightarrow> string" where
  "jsonEncodeURL str = [CHR 0x22] @ concat (map json_char str) @ [CHR 0x22]"

record html_writer =
  hr_EncodingResponseWriter :: encoding_writer
  hr_CSSURL :: "string option"
  hr_JSURL :: "string option"
  hr_APIUIVersion :: "string option"

definition ui_urls :: "html_writer \<Rightarrow> string \<times> string" where
  "ui_urls h =
     (let versioned = (\<lambda>v. (replace_first ''%API_UI_VERSION%'' v JSURL, replace_first ''%API_UI_VERSION%'' v CSSURL)) in
      case (hr_CSSURL h, hr_JSURL h) of
        (Some (c # css), Some (j # js)) \<Rightarrow> (j # js, c # css)
      | _ \<Rightarrow> (case hr_APIUIVersion h of Some (v # vs) \<Rightarrow> versioned (v # vs) | _ \<Rightarrow> versioned DefaultVersion))"

definition html_header :: "html_writer \<Rightarrow> string option \<Rightarrow> string" where
  "html_header h url =
     (let headerString = (case url of None \<Rightarrow> html_start | Some u \<Rightarrow> replace_first ''%SCHEMAS%'' (jsonEncodeURL u) html_start);
          (jsurl, cssurl) = ui_urls h;
          headerString = replace_first ''%JSURL%'' jsurl headerString
      in replace_first ''%CSSURL%'' cssurl headerString)"

definition html_write :: "writer_env \<Rightarrow> encoders \<Rightarrow> html_writer \<Rightarrow> api_request \<Rightarrow> int \<Rightarrow> content \<Rightarrow> rw_call list \<times> go_err option" where
  "html_write W N h op code d =
     (case writer_start ''text/html'' op code of
        (calls, Some p) \<Rightarrow> (calls, Some p)
      | (calls, None) \<Rightarrow>
          let url = (case (schema_schema op, op_URLBuilder op) of (Some s, Some u) \<Rightarrow> Some (CollectionURL u s) | _ \<Rightarrow> None);
              calls = calls @ [Write (html_header h url)]
          in case writer_Body W N (ew_Encoder (hr_EncodingResponseWriter h)) op d of
               (out, e) \<Rightarrow>
                 (case only_panic e of
                    Some p \<Rightarrow> (calls @ body_calls out, Some p)
                  | None \<Rightarrow> (calls @ body_calls out @ (if schema_schema op = None then [] else [Write html_end]), None)))"

subsection \<open>The writers of a server: server/handler/server.go\<close>

datatype plain_writer = EncodingResponseWriter encoding_writer | HTMLResponseWriter html_writer

datatype api_writer = Plain plain_writer | Gzipped plain_writer

definition plain_write :: "writer_env \<Rightarrow> encoders \<Rightarrow> plain_writer \<Rightarrow> api_request \<Rightarrow> int \<Rightarrow> content \<Rightarrow> rw_call list \<times> go_err option" where
  "plain_write W N p = (case p of EncodingResponseWriter j \<Rightarrow> encoding_write W N j | HTMLResponseWriter h \<Rightarrow> html_write W N h)"

definition accept_encoding :: "api_request \<Rightarrow> string" where
  "accept_encoding op = (case op_Request op of None \<Rightarrow> [] | Some r \<Rightarrow> header_get (rq_Header r) ''Accept-Encoding'')"

definition respond :: "writer_env \<Rightarrow> encoders \<Rightarrow> compressor \<Rightarrow> api_writer \<Rightarrow> api_request \<Rightarrow> int \<Rightarrow> content \<Rightarrow> response \<Rightarrow> response \<times> go_err option" where
  "respond W N Z w op code d r =
     (case w of
        Plain p \<Rightarrow> (case plain_write W N p op code d of (calls, e) \<Rightarrow> (fold base_call calls r, e))
      | Gzipped p \<Rightarrow>
          (if op_Request op = None then (r, Some nil_pointer)
           else case plain_write W N p op code d of (calls, e) \<Rightarrow> (GzipWriter Z (accept_encoding op) calls r, e)))"

definition gzipped_encoding :: "string \<Rightarrow> body_encoder \<Rightarrow> api_writer" where
  "gzipped_encoding contentType enc = Gzipped (EncodingResponseWriter \<lparr>ew_ContentType = contentType, ew_Encoder = enc\<rparr>)"

definition default_html :: html_writer where
  "default_html = \<lparr>hr_EncodingResponseWriter = \<lparr>ew_ContentType = ''application/json'', ew_Encoder = JSONEncoder\<rparr>,
     hr_CSSURL = None, hr_JSURL = None, hr_APIUIVersion = None\<rparr>"

definition default_ResponseWriters :: "(string, api_writer) gomap" where
  "default_ResponseWriters =
     [(''json'', gzipped_encoding ''application/json'' JSONEncoder),
      (''jsonl'', gzipped_encoding ''application/jsonl'' JSONLines),
      (''html'', Gzipped (HTMLResponseWriter default_html)),
      (''yaml'', gzipped_encoding ''application/yaml'' YAMLEncoder)]"

definition CustomAPIUIResponseWriter :: "string option \<Rightarrow> string option \<Rightarrow> string option \<Rightarrow> (string, api_writer) gomap \<Rightarrow> (string, api_writer) gomap" where
  "CustomAPIUIResponseWriter cssURL jsURL version ws =
     (case mget ws ''html'' of
        Some (Gzipped (HTMLResponseWriter w)) \<Rightarrow>
          mput ''html'' (Gzipped (HTMLResponseWriter (w\<lparr>hr_CSSURL := cssURL, hr_JSURL := jsURL, hr_APIUIVersion := version\<rparr>))) ws
      | _ \<Rightarrow> ws)"

text \<open>An answer of the handlers, rendered.\<close>

definition render :: "writer_env \<Rightarrow> encoders \<Rightarrow> compressor \<Rightarrow> (string, api_writer) gomap \<Rightarrow> api_request \<Rightarrow> answer \<Rightarrow> response \<Rightarrow> (response \<times> go_err option) option" where
  "render W N Z ws op a r =
     (case a of
        Body_object f code x \<Rightarrow> map_option (\<lambda>w. respond W N Z w op code (Content_object x) r) (mget ws f)
      | Body_list f code l \<Rightarrow> map_option (\<lambda>w. respond W N Z w op code (Content_list l) r) (mget ws f)
      | Header_only code \<Rightarrow> Some (base_WriteHeader code r, None)
      | _ \<Rightarrow> None)"

section \<open>What the client receives\<close>

lemma AddCommonResponseHeader_calls:
  "AddCommonResponseHeader op = (calls, None) \<Longrightarrow>
     \<exists>links. calls = SetHeader ''Expires'' ''Wed 24 Feb 1982 18:42:00 GMT'' # links \<and>
       links = (case (schema_schema op, op_URLBuilder op) of (Some s, Some u) \<Rightarrow> [SetHeader ''X-Api-Schemas'' (CollectionURL u s)] | _ \<Rightarrow> [])"
  by (auto simp: AddCommonResponseHeader_def Let_def nil_pointer_def split: if_splits option.splits)

lemma header_names: "canon_key ''content-type'' \<noteq> canon_key ''Content-Encoding''" "canon_key ''Expires'' \<noteq> canon_key ''Content-Encoding''"
  "canon_key ''X-Api-Schemas'' \<noteq> canon_key ''Content-Encoding''" "canon_key ''Expires'' \<noteq> canon_key ''content-type''"
  "canon_key ''X-Api-Schemas'' \<noteq> canon_key ''Expires''"
  by code_simp+

lemma plain_writes:
  "hw_sent r \<noteq> None \<Longrightarrow> hw_sent (fold base_call (map Write ts) r) = hw_sent r \<and> hw_body (fold base_call (map Write ts) r) = hw_body r @ concat ts"
  by (induction ts arbitrary: r) auto

lemma gzip_writes:
  "hw_sent g \<noteq> None \<Longrightarrow> gz_in g \<noteq> None \<or> hw_body g = [] \<Longrightarrow> (gz_in g \<noteq> None \<Longrightarrow> hw_body g = gz_head E) \<Longrightarrow>
   hw_sent (gz_close E (fold (api_gzip_call E) (map Write ts) g)) = hw_sent g \<and>
   hw_body (gz_close E (fold (api_gzip_call E) (map Write ts) g)) = gz_head E @ gz_rest E ((case gz_in g of None \<Rightarrow> [] | Some t \<Rightarrow> t) @ concat ts)"
proof (induction ts arbitrary: g)
  case Nil
  then show ?case by (cases "gz_in g") (auto simp: gz_close_def Let_def)
next
  case (Cons t ts)
  have "hw_sent (gz_compress E t g) \<noteq> None" "gz_in (gz_compress E t g) \<noteq> None"
    "hw_body (gz_compress E t g) = gz_head E" "hw_sent (gz_compress E t g) = hw_sent g" using Cons.prems by auto
  with Cons.IH [of "gz_compress E t g"] show ?case by simp
qed

text \<open>What a writer of the server does: its head, then some writes.\<close>

definition written_text :: "rw_call list \<Rightarrow> string" where
  "written_text calls = concat (map written calls)"

lemma started_answer:
  assumes "writer_start ct op code = (calls, None)"
  shows "\<exists>h. hw_sent (fold base_call (calls @ map Write ts) fresh) = Some (code, h) \<and> header_get h ''content-type'' = ct \<and>
      header_get h ''Expires'' = ''Wed 24 Feb 1982 18:42:00 GMT'' \<and> hw_body (fold base_call (calls @ map Write ts) fresh) = concat ts"
    and "str_contains accept ''gzip'' \<Longrightarrow> \<exists>h. hw_sent (GzipWriter Z accept (calls @ map Write ts) fresh) = Some (code, h) \<and>
      header_get h ''content-type'' = ct \<and> header_get h ''Expires'' = ''Wed 24 Feb 1982 18:42:00 GMT'' \<and>
      header_get h ''Content-Encoding'' = ''gzip'' \<and>
      hw_body (GzipWriter Z accept (calls @ map Write ts) fresh) = gz_head Z @ gz_rest Z (concat ts)"
proof -
  obtain links where hdr: "AddCommonResponseHeader op = (SetHeader ''Expires'' ''Wed 24 Feb 1982 18:42:00 GMT'' # links, None)"
    and calls: "calls = SetHeader ''Expires'' ''Wed 24 Feb 1982 18:42:00 GMT'' # links @ [SetHeader ''content-type'' ct, WriteHeader code]"
    and cases: "links = [] \<or> (\<exists>v. links = [SetHeader ''X-Api-Schemas'' v])"
  proof -
    obtain hc where hc: "AddCommonResponseHeader op = (hc, None)" "calls = hc @ [SetHeader ''content-type'' ct, WriteHeader code]"
      using assms by (auto simp: writer_start_def split: prod.splits option.splits)
    from AddCommonResponseHeader_calls [OF hc(1)] that hc show thesis by (auto split: option.splits)
  qed
  let ?r = "fold base_call calls fresh"
  from cases have r: "\<exists>h. hw_sent ?r = Some (code, h) \<and> header_get h ''content-type'' = ct \<and>
      header_get h ''Expires'' = ''Wed 24 Feb 1982 18:42:00 GMT''" "hw_body ?r = []"
    using header_names by (auto simp: calls fresh_def header_get_set)
  with plain_writes [of ?r ts] show "\<exists>h. hw_sent (fold base_call (calls @ map Write ts) fresh) = Some (code, h) \<and>
      header_get h ''content-type'' = ct \<and> header_get h ''Expires'' = ''Wed 24 Feb 1982 18:42:00 GMT'' \<and>
      hw_body (fold base_call (calls @ map Write ts) fresh) = concat ts" by auto
  assume gzip: "str_contains accept ''gzip''"
  let ?g = "fold (api_gzip_call Z) calls (new_gzip_writer (gzip_headers fresh))"
  have none: "gz_in (new_gzip_writer w) = None" "hw_header (new_gzip_writer w) = hw_header w" "hw_body (new_gzip_writer w) = hw_body w"
    "hw_sent (new_gzip_writer w) = hw_sent w" for w by (simp_all add: new_gzip_writer_def response.defs)
  from cases have g: "\<exists>h. hw_sent ?g = Some (code, h) \<and> header_get h ''content-type'' = ct \<and>
      header_get h ''Expires'' = ''Wed 24 Feb 1982 18:42:00 GMT'' \<and> header_get h ''Content-Encoding'' = ''gzip''"
    "hw_body ?g = []" "gz_in ?g = None"
    using header_names header_names [symmetric] by (auto simp: calls none fresh_def header_get_set)
  have "hw_sent (GzipWriter Z accept cs w) = hw_sent (gz_close Z (fold (api_gzip_call Z) cs (new_gzip_writer (gzip_headers w))))"
    "hw_body (GzipWriter Z accept cs w) = hw_body (gz_close Z (fold (api_gzip_call Z) cs (new_gzip_writer (gzip_headers w))))" for cs w
    using gzip by (simp_all add: GzipWriter_def response.defs)
  with gzip_writes [of ?g Z ts] g
  show "\<exists>h. hw_sent (GzipWriter Z accept (calls @ map Write ts) fresh) = Some (code, h) \<and>
      header_get h ''content-type'' = ct \<and> header_get h ''Expires'' = ''Wed 24 Feb 1982 18:42:00 GMT'' \<and>
      header_get h ''Content-Encoding'' = ''gzip'' \<and>
      hw_body (GzipWriter Z accept (calls @ map Write ts) fresh) = gz_head Z @ gz_rest Z (concat ts)" by auto
qed

text \<open>The one thing a plain writer writes after its head, and its content type.\<close>

fun plain_type :: "plain_writer \<Rightarrow> string" where
  "plain_type (EncodingResponseWriter j) = ew_ContentType j"
| "plain_type (HTMLResponseWriter h) = ''text/html''"

definition schemas_url :: "api_request \<Rightarrow> string option" where
  "schemas_url op = (case (schema_schema op, op_URLBuilder op) of (Some s, Some u) \<Rightarrow> Some (CollectionURL u s) | _ \<Rightarrow> None)"

fun plain_text :: "writer_env \<Rightarrow> encoders \<Rightarrow> api_request \<Rightarrow> content \<Rightarrow> plain_writer \<Rightarrow> string" where
  "plain_text W N op d (EncodingResponseWriter j) = fst (writer_Body W N (ew_Encoder j) op d)"
| "plain_text W N op d (HTMLResponseWriter h) =
     html_header h (schemas_url op) @ fst (writer_Body W N (ew_Encoder (hr_EncodingResponseWriter h)) op d) @
     (if schema_schema op = None then [] else html_end)"

lemma body_calls_writes: "\<exists>ts. body_calls out = map Write ts \<and> concat ts = out"
  by (rule exI [of _ "if out = [] then [] else [out]"]) (simp add: body_calls_def)

lemma plain_write_calls:
  assumes "plain_write W N p op code d = (calls, None)"
  shows "\<exists>start ts. writer_start (plain_type p) op code = (start, None) \<and> calls = start @ map Write ts \<and> concat ts = plain_text W N op d p"
proof (cases p)
  case (EncodingResponseWriter j)
  obtain start where start: "writer_start (ew_ContentType j) op code = (start, None)"
    and calls: "calls = start @ body_calls (fst (writer_Body W N (ew_Encoder j) op d))"
    using assms EncodingResponseWriter by (auto simp: plain_write_def encoding_write_def split: prod.splits option.splits)
  from body_calls_writes obtain ts where "body_calls (fst (writer_Body W N (ew_Encoder j) op d)) = map Write ts"
    "concat ts = fst (writer_Body W N (ew_Encoder j) op d)" by blast
  with start calls EncodingResponseWriter show ?thesis by auto
next
  case (HTMLResponseWriter h)
  let ?out = "fst (writer_Body W N (ew_Encoder (hr_EncodingResponseWriter h)) op d)"
  obtain start where start: "writer_start ''text/html'' op code = (start, None)"
    and calls: "calls = start @ [Write (html_header h (schemas_url op))] @ body_calls ?out @ (if schema_schema op = None then [] else [Write html_end])"
    using assms HTMLResponseWriter
    by (auto simp: plain_write_def html_write_def schemas_url_def Let_def split: prod.splits option.splits if_splits)
  from body_calls_writes obtain ts where ts: "body_calls ?out = map Write ts" "concat ts = ?out" by blast
  let ?ts = "html_header h (schemas_url op) # ts @ (if schema_schema op = None then [] else [html_end])"
  have "calls = start @ map Write ?ts" "concat ?ts = plain_text W N op d p" using calls ts HTMLResponseWriter by auto
  with start HTMLResponseWriter show ?thesis by (intro exI [of _ start] exI [of _ ?ts]) simp
qed

lemma gzipped_answers:
  assumes "op_Request op = Some q" and "respond W N Z (Gzipped p) op code d fresh = (r, None)"
  shows "\<exists>h. hw_sent r = Some (code, h) \<and> header_get h ''content-type'' = plain_type p \<and>
    header_get h ''Expires'' = ''Wed 24 Feb 1982 18:42:00 GMT'' \<and>
    (if str_contains (accept_encoding op) ''gzip''
     then header_get h ''Content-Encoding'' = ''gzip'' \<and> hw_body r = gz_head Z @ gz_rest Z (plain_text W N op d p)
     else hw_body r = plain_text W N op d p)"
proof -
  obtain calls where calls: "plain_write W N p op code d = (calls, None)" and r: "r = GzipWriter Z (accept_encoding op) calls fresh"
    using assms by (auto simp: respond_def split: prod.splits)
  from plain_write_calls [OF calls] obtain start ts where start: "writer_start (plain_type p) op code = (start, None)"
    and split: "calls = start @ map Write ts" "concat ts = plain_text W N op d p" by blast
  show ?thesis
  proof (cases "str_contains (accept_encoding op) ''gzip''")
    case True
    from started_answer(2) [OF start True, of Z ts] show ?thesis using True split r by simp
  next
    case False
    from started_answer(1) [OF start, of ts] show ?thesis using False split r by (simp add: GzipWriter_def)
  qed
qed

lemma default_writer:
  "mget default_ResponseWriters f = Some w \<Longrightarrow>
     (f = ''json'' \<and> w = gzipped_encoding ''application/json'' JSONEncoder) \<or>
     (f = ''jsonl'' \<and> w = gzipped_encoding ''application/jsonl'' JSONLines) \<or>
     (f = ''html'' \<and> w = Gzipped (HTMLResponseWriter default_html)) \<or>
     (f = ''yaml'' \<and> w = gzipped_encoding ''application/yaml'' YAMLEncoder)"
  by (simp add: default_ResponseWriters_def split: if_splits)

lemma default_html_encoder: "ew_Encoder (hr_EncodingResponseWriter default_html) = JSONEncoder"
  by (simp add: default_html_def)

text \<open>
  C22. What an answer looks like on the wire, by the format of the request. Each of the formats of the server sends its head once,
  with the status it was given, its content type and an expiry in the past, and then the encoding of the resource or
  collection, for html within the page; a request that accepts gzip gets the same text compressed and marked so.
\<close>

theorem format_answers:
  assumes "op_Request op = Some q" and "mget default_ResponseWriters f = Some w"
    and "respond W N Z w op code d fresh = (r, None)"
    and "body = fst (writer_Body W N (if f = ''jsonl'' then JSONLines else if f = ''yaml'' then YAMLEncoder else JSONEncoder) op d)"
    and "text = (if f = ''html'' then html_header default_html (schemas_url op) @ body @ (if schema_schema op = None then [] else html_end)
                 else body)"
  shows "\<exists>h. hw_sent r = Some (code, h) \<and> header_get h ''Expires'' = ''Wed 24 Feb 1982 18:42:00 GMT'' \<and>
    header_get h ''content-type'' = (if f = ''html'' then ''text/html'' else ''application/'' @ f) \<and>
    (if str_contains (accept_encoding op) ''gzip''
     then header_get h ''Content-Encoding'' = ''gzip'' \<and> hw_body r = gz_head Z @ gz_rest Z text
     else hw_body r = text)"
proof -
  obtain p where p: "w = Gzipped p" "plain_type p = (if f = ''html'' then ''text/html'' else ''application/'' @ f)"
    "plain_text W N op d p = text"
    using default_writer [OF assms(2)]
  proof (elim disjE conjE)
    assume f: "f = ''html''" and w: "w = Gzipped (HTMLResponseWriter default_html)"
    show thesis by (rule that [OF w]) (simp_all add: f assms(4,5) default_html_encoder)
  qed (rule that, simp add: gzipped_encoding_def, simp_all add: assms(4,5))+
  from gzipped_answers [OF assms(1) assms(3) [unfolded p(1)], unfolded p(2,3)] show ?thesis by (elim exE conjE) (intro exI conjI, assumption+)
qed

section \<open>The page\<close>

fun clear_of :: "string \<Rightarrow> string \<Rightarrow> bool" where
  "clear_of old [] = True"
| "clear_of old (c # cs) = (\<not> has_prefix old (c # cs @ old) \<and> clear_of old cs)"

lemma has_prefix_longer: "length old \<le> length xs \<Longrightarrow> has_prefix old (xs @ ys) = has_prefix old xs"
  by (simp add: has_prefix_def)

lemma replace_first_at:
  "old \<noteq> [] \<Longrightarrow> clear_of old pre \<Longrightarrow> replace_first old new (pre @ old @ rest) = pre @ new @ rest"
proof (induction pre)
  case Nil
  then obtain c cs where "old = c # cs" by (cases old) auto
  then show ?case by (simp add: has_prefix_def)
next
  case (Cons c pre)
  have "has_prefix old ((c # pre @ old) @ rest) = has_prefix old (c # pre @ old)" by (rule has_prefix_longer) simp
  with Cons show ?case by simp
qed

text \<open>The fixed parts of the page between what is filled in.\<close>

definition page_top :: string where
  \<open>page_top = join_with [CHR 0x0A]
     [[], ''<!DOCTYPE html>'',
      ''<!-- If you are reading this, there is a good chance you would prefer sending an'',
      ''"Accept: application/json" header and receiving actual JSON responses. -->'',
      ''<link rel="stylesheet" type="text/css" href="'']\<close>

definition page_ui :: string where
  \<open>page_ui = ''" />'' @ [CHR 0x0A] @ ''<script src="''\<close>

definition page_vars :: string where
  \<open>page_vars = join_with [CHR 0x0A]
     [''"></script>'', ''<script>'', ''var user = "admin";'',
      ''var curlUser='' @ [CHR 0x27] @ ''${CATTLE_ACCESS_KEY}:${CATTLE_SECRET_KEY}'' @ [CHR 0x27] @ '';'', ''var schemas='']\<close>

definition page_data :: string where
  "page_data = '';'' @ [CHR 0x0A] @ ''var data ='' @ [CHR 0x0A]"

lemma html_start_parts:
  "html_start = page_top @ ''%CSSURL%'' @ page_ui @ ''%JSURL%'' @ page_vars @ ''%SCHEMAS%'' @ page_data"
  by (simp add: html_start_def page_top_def page_ui_def page_vars_def page_data_def)

lemma page_clear:
  "clear_of ''%SCHEMAS%'' (page_top @ ''%CSSURL%'' @ page_ui @ ''%JSURL%'' @ page_vars)"
  "clear_of ''%JSURL%'' (page_top @ ''%CSSURL%'' @ page_ui)"
  "clear_of ''%CSSURL%'' page_top"
  by code_simp+

lemma html_header_parts:
  assumes "ui_urls h = (js, css)"
  shows "html_header h url = page_top @ css @ page_ui @ js @ page_vars @
    (case url of None \<Rightarrow> ''%SCHEMAS%'' | Some u \<Rightarrow> jsonEncodeURL u) @ page_data"
proof -
  let ?url = "case url of None \<Rightarrow> ''%SCHEMAS%'' | Some u \<Rightarrow> jsonEncodeURL u"
  have "(case url of None \<Rightarrow> html_start | Some u \<Rightarrow> replace_first ''%SCHEMAS%'' (jsonEncodeURL u) html_start) =
      (page_top @ ''%CSSURL%'' @ page_ui) @ ''%JSURL%'' @ page_vars @ ?url @ page_data"
    using replace_first_at [OF _ page_clear(1)] by (simp add: html_start_parts split: option.splits)
  moreover have "replace_first ''%JSURL%'' js ((page_top @ ''%CSSURL%'' @ page_ui) @ ''%JSURL%'' @ page_vars @ ?url @ page_data) =
      page_top @ ''%CSSURL%'' @ page_ui @ js @ page_vars @ ?url @ page_data"
    using replace_first_at [OF _ page_clear(2)] by simp
  moreover have "replace_first ''%CSSURL%'' css (page_top @ ''%CSSURL%'' @ page_ui @ js @ page_vars @ ?url @ page_data) =
      page_top @ css @ page_ui @ js @ page_vars @ ?url @ page_data"
    using replace_first_at [OF _ page_clear(3)] by simp
  ultimately show ?thesis by (simp only: html_header_def assms Let_def prod.case)
qed

lemma hex_lower_safe: "n < 16 \<Longrightarrow> CHR ''<'' \<noteq> hex_lower n"
proof -
  have "list_all (\<lambda>n. CHR ''<'' \<noteq> hex_lower n) [0..<16]" by code_simp
  then show "n < 16 \<Longrightarrow> CHR ''<'' \<noteq> hex_lower n" by (simp add: list_all_iff)
qed

lemma json_char_safe: "CHR ''<'' \<notin> set (json_char c)"
proof -
  have "(of_char c :: nat) div 16 < 16" using less_mult_imp_div_less [of "of_char c :: nat" 16 16] by simp
  then show ?thesis by (auto simp: json_char_def Let_def hex_lower_safe)
qed

lemma json_url_safe: "count_list (jsonEncodeURL u) CHR ''<'' = 0"
  by (auto simp: jsonEncodeURL_def count_list_0_iff json_char_safe)

text \<open>
  C23. The page is closed to what it shows. For a user that has the schema of schemas, the page is its fixed text with the URLs of the
  user interface, the JSON string of the schemas' URL and the encoding of the answer put in their places. The URL comes
  from the request and adds no opening bracket; so beside the seven of the page every one is in the settings or in the encoding, which
  encoding/json never gives one: nothing in a request or in an object opens or closes an element.
\<close>

theorem html_page:
  assumes "plain_write W N (HTMLResponseWriter h) op code d = (calls, None)" and "schema_schema op = Some s" and "op_URLBuilder op = Some u"
    and "ui_urls h = (js, css)"
  shows "\<exists>body. body = fst (writer_Body W N (ew_Encoder (hr_EncodingResponseWriter h)) op d) \<and>
    hw_body (fold base_call calls fresh) =
      page_top @ css @ page_ui @ js @ page_vars @ jsonEncodeURL (CollectionURL u s) @ page_data @ body @ html_end \<and>
    count_list (hw_body (fold base_call calls fresh)) CHR ''<'' =
      7 + count_list css CHR ''<'' + count_list js CHR ''<'' + count_list body CHR ''<''"
proof -
  let ?body = "fst (writer_Body W N (ew_Encoder (hr_EncodingResponseWriter h)) op d)"
  from plain_write_calls [OF assms(1)] obtain start ts where start: "writer_start ''text/html'' op code = (start, None)"
    and calls: "calls = start @ map Write ts" "concat ts = plain_text W N op d (HTMLResponseWriter h)" by auto
  have url: "schemas_url op = Some (CollectionURL u s)" using assms(2,3) by (simp add: schemas_url_def)
  have page: "hw_body (fold base_call calls fresh) =
      page_top @ css @ page_ui @ js @ page_vars @ jsonEncodeURL (CollectionURL u s) @ page_data @ ?body @ html_end"
    using started_answer(1) [OF start, of ts] calls assms(2) by (auto simp: html_header_parts [OF assms(4)] url)
  have fixed: "count_list page_top CHR ''<'' = 3" "count_list page_ui CHR ''<'' = 1" "count_list page_vars CHR ''<'' = 2"
    "count_list page_data CHR ''<'' = 0" "count_list html_end CHR ''<'' = 1"
    by code_simp+
  have "count_list (hw_body (fold base_call calls fresh)) CHR ''<'' =
      7 + count_list css CHR ''<'' + count_list js CHR ''<'' + count_list ?body CHR ''<''"
    by (simp add: page fixed json_url_safe)
  with page show ?thesis by blast
qed

text \<open>
  C35. An answer that cannot be encoded is sent as if it had been. When the encoder fails, the status has been sent and the error
  of \<open>Body\<close> is dropped: the client of a plain JSON request gets the status of success with an empty body.
\<close>

theorem encoding_error_hidden:
  assumes "mget default_ResponseWriters ''json'' = Some w" and "op_Request op = Some q" and "\<not> str_contains (accept_encoding op) ''gzip''"
    and "writer_start ''application/json'' op code = (start, None)" and "body_value W op d = Inr v"
    and "en_json N (whole_document v) = Inl (OtherError m)"
  shows "\<exists>r h. respond W N Z w op code d fresh = (r, None) \<and> hw_sent r = Some (code, h) \<and>
    header_get h ''content-type'' = ''application/json'' \<and> hw_body r = []"
proof -
  have w: "w = Gzipped (EncodingResponseWriter \<lparr>ew_ContentType = ''application/json'', ew_Encoder = JSONEncoder\<rparr>)"
    using assms(1) by (simp add: default_ResponseWriters_def gzipped_encoding_def)
  have "respond W N Z w op code d fresh = (fold base_call start fresh, None)"
    using assms(2-6)
    by (simp add: w respond_def plain_write_def encoding_write_def writer_Body_def encode_def one_write_def body_calls_def only_panic_def GzipWriter_def)
  with started_answer(1) [OF assms(4), of "[]"] show ?thesis by auto
qed

section \<open>A null object in each format\<close>

definition ex_encoders :: encoders where
  "ex_encoders = \<lparr>en_json = (\<lambda>d. Inr (''null'' @ [CHR 0x0A])), en_yaml = (\<lambda>v. Inr (''null'' @ [CHR 0x0A]))\<rparr>"

definition ex_catalogue :: api_schemas where
  "ex_catalogue = EmptyAPISchemas\<lparr>Schemas := [(''schema'', ex_schema ''schema'' ''schemas'')]\<rparr>"

definition ex_browsing :: api_request where
  "ex_browsing = empty_request\<lparr>op_Schemas := Some ex_catalogue, op_URLBuilder := Some ex_builder_v1, op_Request := Some new_request\<rparr>"

definition ex_ui :: html_writer where
  "ex_ui = default_html\<lparr>hr_CSSURL := Some ''a.css'', hr_JSURL := Some ''a.js''\<rparr>"

lemma ex_browsing_parts: "op_Request ex_browsing = Some new_request" "schema_schema ex_browsing = Some (ex_schema ''schema'' ''schemas'')"
  "op_URLBuilder ex_browsing = Some ex_builder_v1" "op_Schemas ex_browsing \<noteq> None" "accept_encoding ex_browsing = []"
  "body_value W ex_browsing (Content_object empty_object) = Inr (Inr None)"
  by (simp_all add: ex_browsing_def schema_schema_def ex_catalogue_def EmptyAPISchemas_def accept_encoding_def new_request_def header_get_def
      body_value_def convert_object_def LookupSchema_def empty_object_def empty_request_def ex_schema_def)

lemma ex_browsing_start: "\<exists>start. writer_start ct ex_browsing code = (start, None)"
  by (simp add: writer_start_def AddCommonResponseHeader_def ex_browsing_parts)

definition ex_identity :: compressor where
  "ex_identity = \<lparr>gz_head = [], gz_rest = (\<lambda>t. t)\<rparr>"

lemma format_answers_witness:
  "\<exists>r h. hw_sent r = Some (200, h) \<and> header_get h ''content-type'' = ''application/yaml'' \<and> hw_body r = ''null'' @ [CHR 0x0A] \<and>
     respond ex_writer_env ex_encoders ex_identity (gzipped_encoding ''application/yaml'' YAMLEncoder) ex_browsing 200 (Content_object empty_object) fresh = (r, None)"
proof -
  let ?w = "gzipped_encoding ''application/yaml'' YAMLEncoder"
  obtain start where start: "writer_start ''application/yaml'' ex_browsing 200 = (start, None)" using ex_browsing_start by blast
  have body: "writer_Body ex_writer_env ex_encoders YAMLEncoder ex_browsing (Content_object empty_object) = (''null'' @ [CHR 0x0A], None)"
    by (simp add: writer_Body_def ex_browsing_parts encode_def one_write_def ex_encoders_def)
  have "\<exists>r. respond ex_writer_env ex_encoders ex_identity ?w ex_browsing 200 (Content_object empty_object) fresh = (r, None)"
    using start body by (simp add: gzipped_encoding_def respond_def ex_browsing_parts plain_write_def encoding_write_def only_panic_def)
  then obtain r where r: "respond ex_writer_env ex_encoders ex_identity ?w ex_browsing 200 (Content_object empty_object) fresh = (r, None)" by blast
  have "mget default_ResponseWriters ''yaml'' = Some ?w" by (simp add: default_ResponseWriters_def)
  from format_answers [OF ex_browsing_parts(1) this r refl refl]
  obtain h where h: "hw_sent r = Some (200, h)" "header_get h ''content-type'' = ''application/yaml''" "hw_body r = ''null'' @ [CHR 0x0A]"
    by (auto simp: ex_browsing_parts body has_prefix_def)
  show ?thesis using h r by (intro exI conjI)
qed

lemma html_page_witness:
  "\<exists>calls. plain_write ex_writer_env ex_encoders (HTMLResponseWriter ex_ui) ex_browsing 200 (Content_object empty_object) = (calls, None) \<and>
     count_list (hw_body (fold base_call calls fresh)) CHR ''<'' = 7"
proof -
  obtain start where start: "writer_start ''text/html'' ex_browsing 200 = (start, None)" using ex_browsing_start by blast
  have enc: "ew_Encoder (hr_EncodingResponseWriter ex_ui) = JSONEncoder" by (simp add: ex_ui_def default_html_def)
  have body: "writer_Body ex_writer_env ex_encoders JSONEncoder ex_browsing (Content_object empty_object) = (''null'' @ [CHR 0x0A], None)"
    by (simp add: writer_Body_def ex_browsing_parts encode_def one_write_def ex_encoders_def)
  have "\<exists>calls. plain_write ex_writer_env ex_encoders (HTMLResponseWriter ex_ui) ex_browsing 200 (Content_object empty_object) = (calls, None)"
    using start body by (simp add: plain_write_def html_write_def enc only_panic_def Let_def)
  then obtain calls where calls:
    "plain_write ex_writer_env ex_encoders (HTMLResponseWriter ex_ui) ex_browsing 200 (Content_object empty_object) = (calls, None)" by blast
  have ui: "ui_urls ex_ui = (''a.js'', ''a.css'')" by (simp add: ui_urls_def ex_ui_def Let_def)
  from html_page [OF calls ex_browsing_parts(2,3) ui] calls show ?thesis by (auto simp: enc body)
qed

lemma encoding_error_hidden_witness:
  "\<exists>r h. respond ex_writer_env (ex_encoders\<lparr>en_json := (\<lambda>d. Inl (OtherError ''unsupported value''))\<rparr>) ex_identity
       (gzipped_encoding ''application/json'' JSONEncoder) ex_browsing 200 (Content_object empty_object) fresh = (r, None) \<and>
     hw_sent r = Some (200, h) \<and> hw_body r = []"
proof -
  obtain start where start: "writer_start ''application/json'' ex_browsing 200 = (start, None)" using ex_browsing_start by blast
  have "mget default_ResponseWriters ''json'' = Some (gzipped_encoding ''application/json'' JSONEncoder)"
    by (simp add: default_ResponseWriters_def)
  from encoding_error_hidden [OF this ex_browsing_parts(1) _ start ex_browsing_parts(6),
      where N = "ex_encoders\<lparr>en_json := (\<lambda>d. Inl (OtherError ''unsupported value''))\<rparr>"]
  show ?thesis by (simp add: ex_browsing_parts has_prefix_def) blast
qed

end
