(* ===== verification/Summarized.thy ===== *)
theory Summarized
  imports Formatter
begin

section \<open>Summaries as objects and their copies: pkg/summary/summarized.go, summary.go\<close>

text \<open>
  A \<open>SummarizedObject\<close> is the metadata of an object with its summary. What matters of the copies is which memory they share, so
  the slices and maps are addresses of a heap: a pointer to an object, a slice of objects, a slice of
  strings, a map of labels, and so on; \<open>hp_lim\<close> is the next free address. Times and the pointers to numbers are values. The copies of
  \<open>ObjectMeta\<close> and the accessor are functions of apimachinery, arguments here; so is what the registered
  summarizers leave in the two fields of a summary that \<open>Formatter\<close> does not have.
\<close>

type_synonym addr = nat

record relationship =
  rl_Name :: string
  rl_Namespace :: string
  rl_ControlledBy :: bool
  rl_Kind :: string
  rl_APIVersion :: string
  rl_Inbound :: bool
  rl_Type :: string
  rl_Selector :: "addr option"

record summary_struct =
  su_State :: string
  su_Error :: bool
  su_Transitioning :: bool
  su_Message :: "addr option"
  su_Attributes :: "addr option"
  su_Relationships :: "addr option"

record object_meta =
  om_Name :: string
  om_Namespace :: string
  om_Generation :: int
  om_UID :: string
  om_ResourceVersion :: string
  om_CreationTimestamp :: string
  om_DeletionTimestamp :: "string option"
  om_Labels :: "addr option"
  om_Annotations :: "addr option"

definition empty_meta :: object_meta where
  "empty_meta = \<lparr>om_Name = [], om_Namespace = [], om_Generation = 0, om_UID = [], om_ResourceVersion = [], om_CreationTimestamp = [],
     om_DeletionTimestamp = None, om_Labels = None, om_Annotations = None\<rparr>"

record summarized_object =
  so_APIVersion :: string
  so_Kind :: string
  so_ObjectMeta :: object_meta
  so_Summary :: summary_struct

record summarized_list =
  sl_APIVersion :: string
  sl_Kind :: string
  sl_ResourceVersion :: string
  sl_Continue :: string
  sl_RemainingItemCount :: "int option"
  sl_Items :: "addr option"

record heap =
  hp_objects :: "addr \<Rightarrow> summarized_object"
  hp_lists :: "addr \<Rightarrow> summarized_list"
  hp_items :: "addr \<Rightarrow> summarized_object list"
  hp_strings :: "addr \<Rightarrow> string list"
  hp_attributes :: "addr \<Rightarrow> (string, json) gomap"
  hp_labels :: "addr \<Rightarrow> (string, string) gomap"
  hp_relations :: "addr \<Rightarrow> relationship list"
  hp_lim :: addr

definition new_object :: "summarized_object \<Rightarrow> heap \<Rightarrow> addr \<times> heap" where
  "new_object v h = (hp_lim h, h\<lparr>hp_objects := (hp_objects h)(hp_lim h := v), hp_lim := Suc (hp_lim h)\<rparr>)"

definition new_list :: "summarized_list \<Rightarrow> heap \<Rightarrow> addr \<times> heap" where
  "new_list v h = (hp_lim h, h\<lparr>hp_lists := (hp_lists h)(hp_lim h := v), hp_lim := Suc (hp_lim h)\<rparr>)"

definition new_items :: "summarized_object list \<Rightarrow> heap \<Rightarrow> addr \<times> heap" where
  "new_items v h = (hp_lim h, h\<lparr>hp_items := (hp_items h)(hp_lim h := v), hp_lim := Suc (hp_lim h)\<rparr>)"

definition new_strings :: "string list \<Rightarrow> heap \<Rightarrow> addr option \<times> heap" where
  "new_strings v h =
     (if v = [] then (None, h) else (Some (hp_lim h), h\<lparr>hp_strings := (hp_strings h)(hp_lim h := v), hp_lim := Suc (hp_lim h)\<rparr>))"

subsection \<open>Summarized\<close>

text \<open>
  An object is unstructured data, possibly a nil pointer, or typed, and then it is encoded first. One that cannot be encoded has the
  zero summary, with no state at all.
\<close>

datatype raw_object = Unstructured "obj option" | Typed payload

definition toUnstructured :: "(payload \<Rightarrow> go_err + obj) \<Rightarrow> raw_object \<Rightarrow> go_err + obj option" where
  "toUnstructured enc u =
     (case u of
        Unstructured m \<Rightarrow> Inr m
      | Typed t \<Rightarrow> (case enc t of Inl err \<Rightarrow> Inl err | Inr m \<Rightarrow> Inr (Some m)))"

definition Summarize_raw :: "field_lib \<Rightarrow> (payload \<Rightarrow> go_err + obj) \<Rightarrow> raw_object \<Rightarrow> summary" where
  "Summarize_raw F enc u =
     (case toUnstructured enc u of
        Inl err \<Rightarrow> empty_summary
      | Inr None \<Rightarrow> Summarize F []
      | Inr (Some m) \<Rightarrow> Summarize F m)"

text \<open>
  The argument of \<open>Summarized\<close>: a pointer to a \<open>SummarizedObject\<close>, or another object with its version and kind, what it is, and
  its metadata if the accessor finds any.
\<close>

datatype runtime_object = Summarized_pointer addr | Other_object string string raw_object "object_meta option"

record summary_lib = field_lib +
  F_EncodeToMap :: "payload \<Rightarrow> go_err + obj"
  F_rest :: "raw_object \<Rightarrow> addr option \<times> addr option"

definition summary_of :: "summary_lib \<Rightarrow> raw_object \<Rightarrow> heap \<Rightarrow> summary_struct \<times> heap" where
  "summary_of F u h =
     (let s = Summarize_raw (field_lib.truncate F) (F_EncodeToMap F) u;
          (msg, h) = new_strings (sm_Message s) h
      in (\<lparr>su_State = sm_State s, su_Error = sm_Error s, su_Transitioning = sm_Transitioning s, su_Message = msg,
           su_Attributes = fst (F_rest F u), su_Relationships = snd (F_rest F u)\<rparr>, h))"

definition Summarized :: "summary_lib \<Rightarrow> runtime_object \<Rightarrow> heap \<Rightarrow> addr \<times> heap" where
  "Summarized F u h =
     (case u of
        Summarized_pointer a \<Rightarrow> (a, h)
      | Other_object v k m md \<Rightarrow>
          (let (sm, h) = summary_of F m h
           in new_object \<lparr>so_APIVersion = v, so_Kind = k, so_ObjectMeta = (case md of None \<Rightarrow> empty_meta | Some md \<Rightarrow> md), so_Summary = sm\<rparr> h))"

subsection \<open>The copies\<close>

text \<open>\<open>Summary.DeepCopy\<close> and \<open>DeepCopyInto\<close>: the struct is assigned.\<close>

definition Summary_DeepCopy :: "summary_struct \<Rightarrow> summary_struct" where
  "Summary_DeepCopy s = s"

type_synonym copy_meta = "object_meta \<Rightarrow> heap \<Rightarrow> object_meta \<times> heap"

text \<open>What is stored through \<open>out\<close>, and the heap after the copy of the metadata.\<close>

definition copy_object :: "copy_meta \<Rightarrow> summarized_object \<Rightarrow> heap \<Rightarrow> summarized_object \<times> heap" where
  "copy_object D v h =
     (let (md, h) = D (so_ObjectMeta v) h
      in (v\<lparr>so_ObjectMeta := md, so_Summary := Summary_DeepCopy (so_Summary v)\<rparr>, h))"

definition Object_DeepCopyInto :: "copy_meta \<Rightarrow> addr \<Rightarrow> addr \<Rightarrow> heap \<Rightarrow> heap" where
  "Object_DeepCopyInto D a out h =
     (let (v, h) = copy_object D (hp_objects h a) h in h\<lparr>hp_objects := (hp_objects h)(out := v)\<rparr>)"

definition zero_object :: summarized_object where
  "zero_object = \<lparr>so_APIVersion = [], so_Kind = [], so_ObjectMeta = empty_meta,
     so_Summary = \<lparr>su_State = [], su_Error = False, su_Transitioning = False, su_Message = None, su_Attributes = None, su_Relationships = None\<rparr>\<rparr>"

definition Object_DeepCopy :: "copy_meta \<Rightarrow> addr option \<Rightarrow> heap \<Rightarrow> addr option \<times> heap" where
  "Object_DeepCopy D a h =
     (case a of
        None \<Rightarrow> (None, h)
      | Some a \<Rightarrow> (let (out, h) = new_object zero_object h in (Some out, Object_DeepCopyInto D a out h)))"

fun copy_items :: "copy_meta \<Rightarrow> summarized_object list \<Rightarrow> heap \<Rightarrow> summarized_object list \<times> heap" where
  "copy_items D [] h = ([], h)"
| "copy_items D (v # vs) h =
     (let (v, h) = copy_object D v h; (vs, h) = copy_items D vs h in (v # vs, h))"

definition List_DeepCopyInto :: "copy_meta \<Rightarrow> addr \<Rightarrow> addr \<Rightarrow> heap \<Rightarrow> heap" where
  "List_DeepCopyInto D a out h =
     (let v = hp_lists h a;
          (v, h) = (case sl_Items v of
               None \<Rightarrow> (v, h)
             | Some i \<Rightarrow> (let (vs, h) = copy_items D (hp_items h i) h; (i, h) = new_items vs h in (v\<lparr>sl_Items := Some i\<rparr>, h)))
      in h\<lparr>hp_lists := (hp_lists h)(out := v)\<rparr>)"

definition zero_list :: summarized_list where
  "zero_list = \<lparr>sl_APIVersion = [], sl_Kind = [], sl_ResourceVersion = [], sl_Continue = [], sl_RemainingItemCount = None, sl_Items = None\<rparr>"

definition List_DeepCopy :: "copy_meta \<Rightarrow> addr option \<Rightarrow> heap \<Rightarrow> addr option \<times> heap" where
  "List_DeepCopy D a h =
     (case a of
        None \<Rightarrow> (None, h)
      | Some a \<Rightarrow> (let (out, h) = new_list zero_list h in (Some out, List_DeepCopyInto D a out h)))"

text \<open>\<open>DeepCopyObject\<close>, which keeps a nil pointer from becoming an interface that is not nil.\<close>

datatype interface_value = Nil_interface | Object_interface addr | List_interface addr

definition Object_DeepCopyObject :: "copy_meta \<Rightarrow> addr option \<Rightarrow> heap \<Rightarrow> interface_value \<times> heap" where
  "Object_DeepCopyObject D a h = (case Object_DeepCopy D a h of (None, h) \<Rightarrow> (Nil_interface, h) | (Some c, h) \<Rightarrow> (Object_interface c, h))"

definition List_DeepCopyObject :: "copy_meta \<Rightarrow> addr option \<Rightarrow> heap \<Rightarrow> interface_value \<times> heap" where
  "List_DeepCopyObject D a h = (case List_DeepCopy D a h of (None, h) \<Rightarrow> (Nil_interface, h) | (Some c, h) \<Rightarrow> (List_interface c, h))"

section \<open>What a copy shares\<close>

text \<open>What an object says, read through its addresses.\<close>

definition meta_view :: "heap \<Rightarrow> object_meta \<Rightarrow> object_meta \<times> (string, string) gomap option \<times> (string, string) gomap option" where
  "meta_view h m = (m\<lparr>om_Labels := None, om_Annotations := None\<rparr>, map_option (hp_labels h) (om_Labels m), map_option (hp_labels h) (om_Annotations m))"

definition object_view :: "heap \<Rightarrow> summarized_object \<Rightarrow> _" where
  "object_view h v =
     (so_APIVersion v, so_Kind v, meta_view h (so_ObjectMeta v), su_State (so_Summary v), su_Error (so_Summary v), su_Transitioning (so_Summary v),
      map_option (hp_strings h) (su_Message (so_Summary v)), map_option (hp_attributes h) (su_Attributes (so_Summary v)),
      map_option (hp_relations h) (su_Relationships (so_Summary v)))"

definition meta_addrs :: "object_meta \<Rightarrow> addr set" where
  "meta_addrs m = set_option (om_Labels m) \<union> set_option (om_Annotations m)"

definition summary_addrs :: "summary_struct \<Rightarrow> addr set" where
  "summary_addrs s = set_option (su_Message s) \<union> set_option (su_Attributes s) \<union> set_option (su_Relationships s)"

definition allocated :: "heap \<Rightarrow> summarized_object \<Rightarrow> bool" where
  "allocated h v \<longleftrightarrow> (\<forall>a \<in> meta_addrs (so_ObjectMeta v) \<union> summary_addrs (so_Summary v). a < hp_lim h)"

text \<open>The heap has grown: what was allocated is as it was.\<close>

definition grown :: "heap \<Rightarrow> heap \<Rightarrow> bool" where
  "grown h h' \<longleftrightarrow> hp_lim h \<le> hp_lim h' \<and>
     (\<forall>a < hp_lim h. hp_objects h' a = hp_objects h a \<and> hp_lists h' a = hp_lists h a \<and> hp_items h' a = hp_items h a \<and>
        hp_strings h' a = hp_strings h a \<and> hp_attributes h' a = hp_attributes h a \<and> hp_labels h' a = hp_labels h a \<and>
        hp_relations h' a = hp_relations h a)"

text \<open>What apimachinery documents of \<^verbatim>\<open>ObjectMeta.DeepCopy\<close>: an equal value in memory of its own.\<close>

definition copies_meta :: "copy_meta \<Rightarrow> bool" where
  "copies_meta D \<longleftrightarrow>
     (\<forall>m h m' h'. D m h = (m', h') \<longrightarrow> grown h h' \<and>
        ((\<forall>a \<in> meta_addrs m. a < hp_lim h) \<longrightarrow>
           meta_view h' m' = meta_view h m \<and> (\<forall>a \<in> meta_addrs m'. hp_lim h \<le> a \<and> a < hp_lim h')))"

lemma grown_refl [simp]: "grown h h"
  by (simp add: grown_def)

lemma grown_trans: "grown h h1 \<Longrightarrow> grown h1 h2 \<Longrightarrow> grown h h2"
  by (auto simp: grown_def)

lemma option_view: "(\<And>a. a \<in> set_option p \<Longrightarrow> f a = g a) \<Longrightarrow> map_option f p = map_option g p"
  by (cases p) auto

lemma meta_view_grown: "grown h h' \<Longrightarrow> \<forall>a \<in> meta_addrs m. a < hp_lim h \<Longrightarrow> meta_view h' m = meta_view h m"
  by (auto simp: meta_view_def meta_addrs_def grown_def intro: option_view)

lemma object_view_grown: "grown h h' \<Longrightarrow> allocated h v \<Longrightarrow> object_view h' v = object_view h v"
  using meta_view_grown [of h h' "so_ObjectMeta v"]
  by (auto simp: object_view_def allocated_def summary_addrs_def grown_def intro!: option_view)

lemma allocated_grown: "grown h h' \<Longrightarrow> allocated h v \<Longrightarrow> allocated h' v"
  by (meson allocated_def grown_def order_less_le_trans)

lemma copy_object_facts:
  assumes "copies_meta D" and "copy_object D v h = (v', h')" and "allocated h v"
  shows "grown h h' \<and> object_view h' v' = object_view h v \<and> allocated h' v' \<and> so_Summary v' = so_Summary v \<and>
    (\<forall>a \<in> meta_addrs (so_ObjectMeta v'). hp_lim h \<le> a)"
proof -
  obtain md where md: "D (so_ObjectMeta v) h = (md, h')" and v': "v' = v\<lparr>so_ObjectMeta := md, so_Summary := so_Summary v\<rparr>"
    using assms(2) by (auto simp: copy_object_def Summary_DeepCopy_def split: prod.splits)
  have old: "\<forall>a \<in> meta_addrs (so_ObjectMeta v). a < hp_lim h" using assms(3) by (auto simp: allocated_def)
  with assms(1) md have g: "grown h h'" and mv: "meta_view h' md = meta_view h (so_ObjectMeta v)"
    and fresh: "\<forall>a \<in> meta_addrs md. hp_lim h \<le> a \<and> a < hp_lim h'" by (auto simp: copies_meta_def)
  have "object_view h' v' = object_view h v"
    using object_view_grown [OF g assms(3)] meta_view_grown [OF g old] mv by (simp add: object_view_def v')
  moreover have "allocated h' v'" using allocated_grown [OF g assms(3)] fresh by (auto simp: allocated_def v')
  ultimately show ?thesis using g fresh by (simp add: v')
qed

lemma grown_new:
  "new_object v h = (b, h') \<Longrightarrow> grown h h' \<and> b = hp_lim h \<and> hp_lim h' = Suc b"
  "new_list w h = (b, h') \<Longrightarrow> grown h h' \<and> b = hp_lim h \<and> hp_lim h' = Suc b"
  "new_items vs h = (b, h') \<Longrightarrow> grown h h' \<and> b = hp_lim h \<and> hp_lim h' = Suc b \<and> hp_items h' b = vs"
  by (auto simp: new_object_def new_list_def new_items_def grown_def)

lemma grown_store:
  "grown h h' \<Longrightarrow> hp_lim h \<le> b \<Longrightarrow> grown h (h'\<lparr>hp_objects := (hp_objects h')(b := v)\<rparr>)"
  "grown h h' \<Longrightarrow> hp_lim h \<le> b \<Longrightarrow> grown h (h'\<lparr>hp_lists := (hp_lists h')(b := w)\<rparr>)"
  by (auto simp: grown_def)

lemma object_view_stored [simp]:
  "object_view (h\<lparr>hp_objects := f\<rparr>) = object_view h" "object_view (h\<lparr>hp_lists := g\<rparr>) = object_view h"
  by (simp_all add: object_view_def meta_view_def fun_eq_iff)

lemma object_view_labels:
  "k \<notin> meta_addrs (so_ObjectMeta v) \<Longrightarrow> object_view (h\<lparr>hp_labels := (hp_labels h)(k := m)\<rparr>) v = object_view h v"
  by (cases "om_Labels (so_ObjectMeta v)"; cases "om_Annotations (so_ObjectMeta v)")
    (auto simp: object_view_def meta_view_def meta_addrs_def)

text \<open>
  A deep copy of a summarized object is deep in its metadata only. The copy is new and says what the original
  says, nothing that was allocated has changed, and a change of a label of the copy is not seen in the original. But the summary
  is assigned: its messages, attributes and relationships are the same memory, and a message that is overwritten in the copy is
  overwritten in the original.
\<close>

theorem copy_shares_summary:
  assumes "copies_meta D" and "a < hp_lim h" and "allocated h (hp_objects h a)" and "Object_DeepCopy D (Some a) h = (c, h')"
  shows "\<exists>b. c = Some b \<and> hp_lim h \<le> b \<and> grown h h' \<and>
    object_view h' (hp_objects h' b) = object_view h (hp_objects h a) \<and> object_view h' (hp_objects h' a) = object_view h (hp_objects h a) \<and>
    (\<forall>k m. k \<in> meta_addrs (so_ObjectMeta (hp_objects h' b)) \<longrightarrow>
       object_view (h'\<lparr>hp_labels := (hp_labels h')(k := m)\<rparr>) (hp_objects h' a) = object_view h (hp_objects h a)) \<and>
    (\<forall>p ms. su_Message (so_Summary (hp_objects h' b)) = Some p \<longrightarrow>
       su_Message (so_Summary (hp_objects h' a)) = Some p \<and>
       hp_strings (h'\<lparr>hp_strings := (hp_strings h')(p := ms)\<rparr>) (the (su_Message (so_Summary (hp_objects h' a)))) = ms)"
proof -
  obtain b h1 where new: "new_object zero_object h = (b, h1)" by (cases "new_object zero_object h")
  obtain v h2 where copy: "copy_object D (hp_objects h1 a) h1 = (v, h2)" by (cases "copy_object D (hp_objects h1 a) h1")
  have c: "c = Some b" and h': "h' = h2\<lparr>hp_objects := (hp_objects h2)(b := v)\<rparr>"
    using assms(4) new copy by (auto simp: Object_DeepCopy_def Object_DeepCopyInto_def)
  from grown_new(1) [OF new] have g1: "grown h h1" and b: "b = hp_lim h" by simp_all
  with assms(2) have same: "hp_objects h1 a = hp_objects h a" by (simp add: grown_def)
  have alloc: "allocated h1 (hp_objects h1 a)" using allocated_grown [OF g1 assms(3)] same by simp
  from copy_object_facts [OF assms(1) copy alloc] have g2: "grown h1 h2" and view: "object_view h2 v = object_view h1 (hp_objects h1 a)"
    and summary: "so_Summary v = so_Summary (hp_objects h1 a)" and fresh: "\<forall>k \<in> meta_addrs (so_ObjectMeta v). hp_lim h1 \<le> k" by auto
  have g: "grown h h'" using grown_store(1) [OF grown_trans [OF g1 g2]] by (simp add: h' b)
  have stays: "hp_objects h' a = hp_objects h a" using g assms(2) by (simp add: grown_def)
  have va: "object_view h' (hp_objects h' a) = object_view h (hp_objects h a)" using object_view_grown [OF g assms(3)] stays by simp
  moreover have "object_view h' (hp_objects h' b) = object_view h (hp_objects h a)"
    using view object_view_grown [OF g1 assms(3)] same by (simp add: h')
  moreover have "object_view (h'\<lparr>hp_labels := (hp_labels h')(k := m)\<rparr>) (hp_objects h' a) = object_view h (hp_objects h a)"
    if "k \<in> meta_addrs (so_ObjectMeta (hp_objects h' b))" for k m
  proof -
    have "hp_lim h1 \<le> k" using that fresh by (simp add: h')
    then have "hp_lim h \<le> k" using g1 by (simp add: grown_def)
    then have "k \<notin> meta_addrs (so_ObjectMeta (hp_objects h' a))" using assms(3) stays by (auto simp: allocated_def dest: bspec)
    then show ?thesis using va by (simp add: object_view_labels)
  qed
  moreover have "so_Summary (hp_objects h' b) = so_Summary (hp_objects h' a)" using summary same stays by (simp add: h')
  ultimately show ?thesis using c g b by auto
qed

lemma copy_items_facts:
  "copies_meta D \<Longrightarrow> copy_items D vs h = (vs', h') \<Longrightarrow> list_all (allocated h) vs \<Longrightarrow>
   grown h h' \<and> map (object_view h') vs' = map (object_view h) vs \<and> map so_Summary vs' = map so_Summary vs \<and> list_all (allocated h') vs'"
proof (induction vs arbitrary: h vs')
  case (Cons v vs)
  obtain v1 h1 where v1: "copy_object D v h = (v1, h1)" by (cases "copy_object D v h")
  obtain vs2 where vs2: "copy_items D vs h1 = (vs2, h')" and vs': "vs' = v1 # vs2"
    using Cons.prems(2) v1 by (auto split: prod.splits)
  from Cons.prems(3) copy_object_facts [OF Cons.prems(1) v1] have g1: "grown h h1" and
    f1: "object_view h1 v1 = object_view h v" "allocated h1 v1" "so_Summary v1 = so_Summary v" by auto
  have alloc: "list_all (allocated h1) vs" using Cons.prems(3) allocated_grown [OF g1] by (auto simp: list_all_iff)
  from Cons.IH [OF Cons.prems(1) vs2 alloc] have g2: "grown h1 h'" and
    f2: "map (object_view h') vs2 = map (object_view h1) vs" "map so_Summary vs2 = map so_Summary vs" "list_all (allocated h') vs2" by auto
  have "map (object_view h1) vs = map (object_view h) vs"
    using Cons.prems(3) object_view_grown [OF g1] by (auto simp: list_all_iff)
  with f1 f2 object_view_grown [OF g2 f1(2)] allocated_grown [OF g2 f1(2)] grown_trans [OF g1 g2] show ?case by (simp add: vs')
qed simp

text \<open>
  The copy of a list is a new list with a slice of its own: in order, its items say what the items of the original say, and share
  the summaries with them; a nil slice stays nil, and nothing that was allocated has changed.
\<close>

theorem list_copy:
  assumes "copies_meta D" and "a < hp_lim h" and "\<forall>i. sl_Items (hp_lists h a) = Some i \<longrightarrow> i < hp_lim h \<and> list_all (allocated h) (hp_items h i)"
    and "List_DeepCopy D (Some a) h = (c, h')"
  shows "\<exists>b. c = Some b \<and> hp_lim h \<le> b \<and> grown h h' \<and> (hp_lists h' b)\<lparr>sl_Items := None\<rparr> = (hp_lists h a)\<lparr>sl_Items := None\<rparr> \<and>
    (case sl_Items (hp_lists h a) of
       None \<Rightarrow> sl_Items (hp_lists h' b) = None
     | Some i \<Rightarrow> \<exists>j. sl_Items (hp_lists h' b) = Some j \<and> hp_lim h \<le> j \<and>
         map (object_view h') (hp_items h' j) = map (object_view h) (hp_items h i) \<and>
         map so_Summary (hp_items h' j) = map so_Summary (hp_items h i))"
proof -
  obtain b h1 where new: "new_list zero_list h = (b, h1)" by (cases "new_list zero_list h")
  from grown_new(2) [OF new] have g1: "grown h h1" and b: "b = hp_lim h" by simp_all
  with assms(2) have same: "hp_lists h1 a = hp_lists h a" by (simp add: grown_def)
  show ?thesis
  proof (cases "sl_Items (hp_lists h a)")
    case None
    then have "c = Some b" "h' = h1\<lparr>hp_lists := (hp_lists h1)(b := hp_lists h a)\<rparr>"
      using assms(4) new same by (auto simp: List_DeepCopy_def List_DeepCopyInto_def)
    with None grown_store(2) [OF g1] b show ?thesis by simp
  next
    case (Some i)
    with assms(3) have i: "i < hp_lim h" "list_all (allocated h) (hp_items h i)" by simp_all
    have items: "hp_items h1 i = hp_items h i" using g1 i(1) by (simp add: grown_def)
    obtain vs h2 where copy: "copy_items D (hp_items h1 i) h1 = (vs, h2)" by (cases "copy_items D (hp_items h1 i) h1")
    obtain j h3 where slice: "new_items vs h2 = (j, h3)" by (cases "new_items vs h2")
    have c: "c = Some b" and h': "h' = h3\<lparr>hp_lists := (hp_lists h3)(b := (hp_lists h a)\<lparr>sl_Items := Some j\<rparr>)\<rparr>"
      using assms(4) new same Some copy slice by (auto simp: List_DeepCopy_def List_DeepCopyInto_def)
    have alloc: "list_all (allocated h1) (hp_items h1 i)" using i(2) allocated_grown [OF g1] by (auto simp: items list_all_iff)
    from copy_items_facts [OF assms(1) copy alloc] have g2: "grown h1 h2" and
      f: "map (object_view h2) vs = map (object_view h1) (hp_items h1 i)" "map so_Summary vs = map so_Summary (hp_items h1 i)"
        "list_all (allocated h2) vs" by auto
    from grown_new(3) [OF slice] have g3: "grown h2 h3" and j: "j = hp_lim h2" "hp_items h3 j = vs" by auto
    have g: "grown h h3" by (rule grown_trans [OF grown_trans [OF g1 g2] g3])
    have "map (object_view h3) vs = map (object_view h) (hp_items h i)"
    proof -
      have "map (object_view h3) vs = map (object_view h2) vs" using f(3) object_view_grown [OF g3] by (auto simp: list_all_iff)
      also have "\<dots> = map (object_view h1) (hp_items h i)" using f(1) by (simp add: items)
      also have "\<dots> = map (object_view h) (hp_items h i)" using i(2) object_view_grown [OF g1] by (auto simp: list_all_iff)
      finally show ?thesis .
    qed
    moreover have "hp_lim h \<le> j" using grown_trans [OF g1 g2] j(1) by (simp add: grown_def)
    ultimately show ?thesis using c g b j(2) f(2) Some grown_store(2) [OF g] by (simp add: h' items)
  qed
qed

text \<open>
  \<open>Summarized\<close> computes a summary once: of a pointer to a summarized object it returns the pointer, also of one it has made, and it
  leaves the heap alone; what it makes of another object is new, and has the summary of the object's data and the metadata that the
  accessor found, sharing the labels and annotations with it.
\<close>

theorem summarized_once:
  assumes "Summarized F u h = (a, h')"
  shows "Summarized F (Summarized_pointer a) h' = (a, h') \<and>
    (case u of
       Summarized_pointer b \<Rightarrow> a = b \<and> h' = h
     | Other_object v k m md \<Rightarrow> hp_lim h \<le> a \<and> grown h h' \<and> so_APIVersion (hp_objects h' a) = v \<and> so_Kind (hp_objects h' a) = k \<and>
         so_ObjectMeta (hp_objects h' a) = (case md of None \<Rightarrow> empty_meta | Some md \<Rightarrow> md) \<and>
         su_State (so_Summary (hp_objects h' a)) = sm_State (Summarize_raw (field_lib.truncate F) (F_EncodeToMap F) m) \<and>
         su_Error (so_Summary (hp_objects h' a)) = sm_Error (Summarize_raw (field_lib.truncate F) (F_EncodeToMap F) m) \<and>
         su_Transitioning (so_Summary (hp_objects h' a)) = sm_Transitioning (Summarize_raw (field_lib.truncate F) (F_EncodeToMap F) m) \<and>
         (case su_Message (so_Summary (hp_objects h' a)) of None \<Rightarrow> [] | Some p \<Rightarrow> hp_strings h' p) = sm_Message (Summarize_raw (field_lib.truncate F) (F_EncodeToMap F) m))"
  using assms
  by (cases u) (auto simp: Summarized_def summary_of_def new_strings_def new_object_def grown_def Let_def split: if_splits)

subsection \<open>A copy with labels\<close>

definition ex_copy_meta :: copy_meta where
  "ex_copy_meta m h =
     (let copy = (\<lambda>p h. case p of
            None \<Rightarrow> (None, h)
          | Some a \<Rightarrow> (Some (hp_lim h), h\<lparr>hp_labels := (hp_labels h)(hp_lim h := hp_labels h a), hp_lim := Suc (hp_lim h)\<rparr>));
          (l, h) = copy (om_Labels m) h;
          (n, h) = copy (om_Annotations m) h
      in (m\<lparr>om_Labels := l, om_Annotations := n\<rparr>, h))"

lemma ex_copy_meta_ok: "copies_meta ex_copy_meta"
  unfolding copies_meta_def
proof (intro allI impI)
  fix m h m' h'
  assume "ex_copy_meta m h = (m', h')"
  then show "grown h h' \<and> ((\<forall>a \<in> meta_addrs m. a < hp_lim h) \<longrightarrow>
      meta_view h' m' = meta_view h m \<and> (\<forall>a \<in> meta_addrs m'. hp_lim h \<le> a \<and> a < hp_lim h'))"
    by (cases "om_Labels m"; cases "om_Annotations m")
      (auto simp: ex_copy_meta_def Let_def grown_def meta_view_def meta_addrs_def)
qed

definition ex_summary_object :: summarized_object where
  "ex_summary_object = zero_object\<lparr>so_Summary := (so_Summary zero_object)\<lparr>su_Message := Some 1\<rparr>\<rparr>"

definition ex_heap :: heap where
  "ex_heap = \<lparr>hp_objects = (\<lambda>a. ex_summary_object), hp_lists = (\<lambda>a. zero_list\<lparr>sl_Items := Some 2\<rparr>), hp_items = (\<lambda>a. [ex_summary_object]),
     hp_strings = (\<lambda>a. [''waiting'']), hp_attributes = (\<lambda>a. []), hp_labels = (\<lambda>a. []), hp_relations = (\<lambda>a. []), hp_lim = 4\<rparr>"

lemma ex_heap_allocated: "allocated ex_heap ex_summary_object"
  by (simp add: allocated_def ex_heap_def ex_summary_object_def zero_object_def empty_meta_def meta_addrs_def summary_addrs_def)

lemma copy_shares_summary_witness:
  "\<exists>b h'. Object_DeepCopy ex_copy_meta (Some 0) ex_heap = (Some b, h') \<and>
     su_Message (so_Summary (hp_objects h' b)) = su_Message (so_Summary (hp_objects h' 0))"
proof -
  obtain c h' where c: "Object_DeepCopy ex_copy_meta (Some 0) ex_heap = (c, h')" by (cases "Object_DeepCopy ex_copy_meta (Some 0) ex_heap")
  have "0 < hp_lim ex_heap" "allocated ex_heap (hp_objects ex_heap 0)" using ex_heap_allocated by (simp_all add: ex_heap_def)
  from copy_shares_summary [OF ex_copy_meta_ok this c] obtain b where b: "c = Some b"
    "\<forall>p ms. su_Message (so_Summary (hp_objects h' b)) = Some p \<longrightarrow> su_Message (so_Summary (hp_objects h' 0)) = Some p" by auto
  have "so_Summary (hp_objects h' b) = so_Summary ex_summary_object"
    using c b by (auto simp: Object_DeepCopy_def Object_DeepCopyInto_def copy_object_def Summary_DeepCopy_def new_object_def ex_heap_def split: prod.splits)
  then have "su_Message (so_Summary (hp_objects h' b)) = Some 1" by (simp add: ex_summary_object_def)
  with b c show ?thesis by auto
qed

lemma list_copy_witness:
  "\<exists>b j h'. List_DeepCopy ex_copy_meta (Some 0) ex_heap = (Some b, h') \<and> sl_Items (hp_lists h' b) = Some j \<and> j \<noteq> 2 \<and>
     map so_Summary (hp_items h' j) = [so_Summary ex_summary_object]"
proof -
  obtain c h' where c: "List_DeepCopy ex_copy_meta (Some 0) ex_heap = (c, h')" by (cases "List_DeepCopy ex_copy_meta (Some 0) ex_heap")
  have "0 < hp_lim ex_heap" "\<forall>i. sl_Items (hp_lists ex_heap 0) = Some i \<longrightarrow> i < hp_lim ex_heap \<and> list_all (allocated ex_heap) (hp_items ex_heap i)"
    using ex_heap_allocated by (simp_all add: ex_heap_def)
  from list_copy [OF ex_copy_meta_ok this c] c show ?thesis by (auto simp: ex_heap_def)
qed

lemma summarized_once_witness:
  "\<forall>F. Summarized F (Summarized_pointer 3) ex_heap = (3, ex_heap)"
proof
  fix F
  have "Summarized F (Summarized_pointer 3) ex_heap = (3, ex_heap)" by (simp add: Summarized_def)
  from summarized_once [OF this] show "Summarized F (Summarized_pointer 3) ex_heap = (3, ex_heap)" by simp
qed

end
