(* ===== verification/Subscribe_Handler.thy ===== *)
theory Subscribe_Handler
  imports Subscribe Writer
begin

section \<open>The websocket of a subscription: pkg/subscribe/handler.go, watcher.go\<close>

text \<open>
  \<open>handler\<close> upgrades the connection, starts a watch session and then writes: the events of the session and a ping at every tick,
  until a write fails or the channel of events is closed. A goroutine, \<open>Watch\<close>, reads the messages of the client;
  when that fails it cancels the session, waits for its streams, reports the error and closes the channel. The
  deferred calls of \<open>handler\<close> run last first: what is left in the channel is drained in the background, the session is cancelled and its streams
  are waited for, the connection is closed. The model is a step relation over the session of \<open>Subscribe\<close>; whether a write works
  is up to the connection. The context of the request ends with the handler and not before: so \<open>net/http\<close> documents
  it for a connection that has been taken over.
\<close>

datatype reader = Reading | Waiting go_err | Reporting go_err | Reported | Reader_gone

datatype writer_loop = Looping | Returning | Closing | Returned

type_synonym frame = "event \<times> event_data"

record connection =
  cn_session :: session
  cn_reader :: reader
  cn_loop :: writer_loop
  cn_draining :: bool
  cn_frames :: "frame list"

record connection_env =
  ce_session :: session_env
  ce_writer :: writer_env
  ce_text :: "go_err \<Rightarrow> string"
  ce_version :: string

definition channel_closed :: "connection \<Rightarrow> bool" where
  "channel_closed c \<longleftrightarrow> cn_reader c = Reader_gone"

text \<open>\<open>handler\<close> up to its loop: without an upgrade there is no session.\<close>

definition subscribe_handler :: "go_err option \<Rightarrow> go_err + connection" where
  "subscribe_handler upgrade =
     (case upgrade of
        Some err \<Rightarrow> Inl err
      | None \<Rightarrow> Inr \<lparr>cn_session = NewWatchSession, cn_reader = Reading, cn_loop = Looping, cn_draining = False, cn_frames = []\<rparr>)"

text \<open>\<open>Handler\<close>: whatever the end, the request is complete and nothing else is written to it.\<close>

definition Handler_result :: "go_err option \<Rightarrow> go_err + payload api_object_list" where
  "Handler_result err = Inl ErrComplete"

definition ping_event :: "string \<Rightarrow> event" where
  "ping_event version = empty_event\<lparr>ev_Name := ''ping'',
     ev_Object := empty_object\<lparr>obj_Object := Some (Value (JObj [(''version'', JStr version)]))\<rparr>\<rparr>"

definition frame_of :: "connection_env \<Rightarrow> event \<Rightarrow> go_err + frame" where
  "frame_of E e = writeData (ce_writer E) (ce_text E) (se_getter (ce_session E)) (se_op (ce_session E)) e"

text \<open>A write of the loop: the frame goes out, or the loop returns; a panic runs the deferred calls too.\<close>

definition loop_write :: "connection_env \<Rightarrow> event \<Rightarrow> go_err option \<Rightarrow> connection \<Rightarrow> connection" where
  "loop_write E e outcome c =
     (case (frame_of E e, outcome) of
        (Inr f, None) \<Rightarrow> c\<lparr>cn_frames := cn_frames c @ [f]\<rparr>
      | _ \<Rightarrow> c\<lparr>cn_loop := Returning\<rparr>)"

definition in_session :: "(session \<Rightarrow> session) \<Rightarrow> connection \<Rightarrow> connection" where
  "in_session f c = c\<lparr>cn_session := f (cn_session c)\<rparr>"

fun client_move :: "move \<Rightarrow> bool" where
  "client_move (ClientStop sub) = True"
| "client_move (ClientSubscribe sub) = True"
| "client_move (ClientGarbage err) = True"
| "client_move _ = False"

datatype conn_move = Message move | Run nat | Read_error go_err | Reader_step | Event_write "go_err option" | Tick "go_err option" | Loop_step | Drain_step | Server_step

inductive conn_step :: "connection_env \<Rightarrow> conn_move \<Rightarrow> connection \<Rightarrow> connection \<Rightarrow> bool" for E where
  message: "cn_reader c = Reading \<Longrightarrow> cn_loop c \<noteq> Returned \<Longrightarrow> client_move m \<Longrightarrow> session_step (ce_session E) m (cn_session c) ss \<Longrightarrow>
    conn_step E (Message m) c (c\<lparr>cn_session := ss\<rparr>)"
| stream: "session_step (ce_session E) (Stream i) (cn_session c) ss \<Longrightarrow> conn_step E (Run i) c (c\<lparr>cn_session := ss\<rparr>)"
| read_error: "cn_reader c = Reading \<Longrightarrow>
    conn_step E (Read_error err) c (in_session (\<lambda>ss. ss\<lparr>ss_closed := True\<rparr>) (c\<lparr>cn_reader := Waiting err\<rparr>))"
| reader_waited: "cn_reader c = Waiting err \<Longrightarrow> all_gone (cn_session c) \<Longrightarrow> conn_step E Reader_step c (c\<lparr>cn_reader := Reporting err\<rparr>)"
| reader_report: "cn_reader c = Reporting err \<Longrightarrow> room (cn_session c) \<Longrightarrow>
    conn_step E Reader_step c (in_session (send (sendErr err zero_subscribe)) (c\<lparr>cn_reader := Reported\<rparr>))"
| reader_close: "cn_reader c = Reported \<Longrightarrow> conn_step E Reader_step c (c\<lparr>cn_reader := Reader_gone\<rparr>)"
| event_write: "cn_loop c = Looping \<Longrightarrow> ss_resp (cn_session c) = e # es \<Longrightarrow>
    conn_step E (Event_write outcome) c (loop_write E e outcome (in_session (\<lambda>ss. ss\<lparr>ss_resp := es\<rparr>) c))"
| tick: "cn_loop c = Looping \<Longrightarrow> conn_step E (Tick outcome) c (loop_write E (ping_event (ce_version E)) outcome c)"
| loop_end: "cn_loop c = Looping \<Longrightarrow> channel_closed c \<Longrightarrow> ss_resp (cn_session c) = [] \<Longrightarrow> conn_step E Loop_step c (c\<lparr>cn_loop := Returning\<rparr>)"
| deferred: "cn_loop c = Returning \<Longrightarrow>
    conn_step E Loop_step c (in_session (\<lambda>ss. ss\<lparr>ss_closed := True\<rparr>) (c\<lparr>cn_draining := True, cn_loop := Closing\<rparr>))"
| closed: "cn_loop c = Closing \<Longrightarrow> all_gone (cn_session c) \<Longrightarrow> conn_step E Loop_step c (c\<lparr>cn_loop := Returned\<rparr>)"
| drain: "cn_draining c \<Longrightarrow> ss_resp (cn_session c) = e # es \<Longrightarrow>
    conn_step E Drain_step c (in_session (\<lambda>ss. ss\<lparr>ss_resp := es\<rparr>) c)"
| request_over: "cn_loop c = Returned \<Longrightarrow> conn_step E Server_step c (in_session (\<lambda>ss. ss\<lparr>ss_request_done := True\<rparr>) c)"

inductive conn_run :: "connection_env \<Rightarrow> connection \<Rightarrow> conn_move list \<Rightarrow> connection \<Rightarrow> bool" for E where
  conn_nil: "conn_run E c [] c"
| conn_cons: "conn_step E m c c' \<Longrightarrow> conn_run E c' ms c'' \<Longrightarrow> conn_run E c (m # ms) c''"

inductive_cases conn_run_NilE: "conn_run E c [] c'"
inductive_cases conn_run_ConsE: "conn_run E c (m # ms) c''"

lemma conn_run_append: "conn_run E c ms c' \<Longrightarrow> conn_run E c' ms' c'' \<Longrightarrow> conn_run E c (ms @ ms') c''"
  by (induction rule: conn_run.induct) (auto intro: conn_run.intros)

lemma in_session_simps [simp]:
  "cn_session (in_session f c) = f (cn_session c)" "cn_reader (in_session f c) = cn_reader c" "cn_loop (in_session f c) = cn_loop c"
  "cn_draining (in_session f c) = cn_draining c" "cn_frames (in_session f c) = cn_frames c"
  by (simp_all add: in_session_def)

lemma loop_write_simps [simp]:
  "cn_session (loop_write E e o1 c) = cn_session c" "cn_reader (loop_write E e o1 c) = cn_reader c" "cn_draining (loop_write E e o1 c) = cn_draining c"
  by (simp_all add: loop_write_def split: sum.splits option.splits)

lemma loop_write_loop: "cn_loop c = Looping \<Longrightarrow> cn_loop (loop_write E e o1 c) \<in> {Looping, Returning}"
  by (simp add: loop_write_def split: sum.splits option.splits)

section \<open>What is written\<close>

text \<open>
  The frames and the loop go together: only the loop writes, one frame for a step, and once it has left the loop no frame follows.
\<close>

lemma frames_step:
  "conn_step E m c c' \<Longrightarrow>
     (cn_loop c \<noteq> Looping \<longrightarrow> cn_frames c' = cn_frames c \<and> cn_loop c' \<noteq> Looping) \<and>
     (cn_frames c' = cn_frames c \<or> (\<exists>f. cn_frames c' = cn_frames c @ [f] \<and>
        (frame_of E (ping_event (ce_version E)) = Inr f \<or> (\<exists>e es. ss_resp (cn_session c) = e # es \<and> frame_of E e = Inr f \<and> ss_resp (cn_session c') = es))))"
  by (induction rule: conn_step.induct) (auto simp: loop_write_def split: sum.splits option.splits)

section \<open>When the handler returns\<close>

definition conn_inv :: "connection \<Rightarrow> bool" where
  "conn_inv c \<longleftrightarrow> (cn_loop c \<in> {Closing, Returned} \<longrightarrow> cn_draining c \<and> ss_closed (cn_session c)) \<and>
     (cn_reader c \<noteq> Reading \<longrightarrow> ss_closed (cn_session c))"

lemma closed_stays: "session_step E m ss ss' \<Longrightarrow> ss_closed ss \<Longrightarrow> ss_closed ss'"
  by (induction rule: session_step.induct) (auto simp: session_stop_def session_add_def send_def split: option.splits)

lemma send_closed [simp]: "ss_closed (send e ss) = ss_closed ss"
  by (simp add: send_def)

lemma conn_inv_step: "conn_step E m c c' \<Longrightarrow> conn_inv c \<Longrightarrow> conn_inv c'"
proof (induction rule: conn_step.induct)
  case (event_write c e es outcome)
  then show ?case using loop_write_loop [of "in_session (\<lambda>ss. ss\<lparr>ss_resp := es\<rparr>) c" E e outcome] by (auto simp: conn_inv_def)
next
  case (tick c outcome)
  then show ?case using loop_write_loop [of c E "ping_event (ce_version E)" outcome] by (auto simp: conn_inv_def)
qed (auto simp: conn_inv_def dest: closed_stays)

lemma conn_inv_run: "conn_run E c ms c' \<Longrightarrow> conn_inv c \<Longrightarrow> conn_inv c'"
  by (induction rule: conn_run.induct) (auto dest: conn_inv_step)

text \<open>No stream waits, or will wait, on a nil channel; and the client is gone or the loop has been left.\<close>

definition no_nil_watch :: "connection_env \<Rightarrow> connection \<Rightarrow> bool" where
  "no_nil_watch E c \<longleftrightarrow> (\<forall>s \<in> set (ss_streams (cn_session c)). sg_phase s \<noteq> Idle \<and> stream_start (ce_session E) (sg_sub s) \<noteq> Inr None)"

definition winding_up :: "connection_env \<Rightarrow> connection \<Rightarrow> bool" where
  "winding_up E c \<longleftrightarrow> conn_inv c \<and> no_nil_watch E c \<and> (cn_reader c \<noteq> Reading \<or> cn_loop c \<noteq> Looping)"

definition all_over :: "connection \<Rightarrow> bool" where
  "all_over c \<longleftrightarrow> cn_loop c = Returned \<and> cn_reader c = Reader_gone \<and> all_gone (cn_session c) \<and> ss_resp (cn_session c) = []"

fun reader_rank :: "reader \<Rightarrow> nat" where
  "reader_rank Reading = 4"
| "reader_rank (Waiting err) = 3"
| "reader_rank (Reporting err) = 2"
| "reader_rank Reported = 1"
| "reader_rank Reader_gone = 0"

fun loop_rank :: "writer_loop \<Rightarrow> nat" where
  "loop_rank Looping = 3"
| "loop_rank Returning = 2"
| "loop_rank Closing = 1"
| "loop_rank Returned = 0"

abbreviation conn_order :: "(connection \<times> connection) set" where
  "conn_order \<equiv> measures [\<lambda>c. open_work (cn_session c) + reader_rank (cn_reader c), \<lambda>c. loop_rank (cn_loop c), \<lambda>c. length (ss_resp (cn_session c))]"

lemma work_frames [simp]:
  "open_work (ss\<lparr>ss_resp := es\<rparr>) = open_work ss" "open_work (ss\<lparr>ss_closed := b\<rparr>) = open_work ss"
  "all_gone (ss\<lparr>ss_resp := es\<rparr>) = all_gone ss" "all_gone (ss\<lparr>ss_closed := b\<rparr>) = all_gone ss" "all_gone (send e ss) = all_gone ss"
  by (simp_all add: open_work_def all_gone_def)

lemma no_nil_frames:
  "ss_streams (cn_session c') = ss_streams (cn_session c) \<Longrightarrow> no_nil_watch E c' = no_nil_watch E c"
  by (simp add: no_nil_watch_def)

text \<open>A step that takes something out of the channel, when something is in it.\<close>

lemma progress_consume:
  assumes "winding_up E c" and "ss_resp (cn_session c) = e # es" and "cn_loop c \<noteq> Returning"
  shows "\<exists>m c'. conn_step E m c c' \<and> m \<notin> range Message \<and> winding_up E c' \<and> (c', c) \<in> conn_order"
proof (cases "cn_loop c = Looping")
  case True
  let ?c = "loop_write E e None (in_session (\<lambda>ss. ss\<lparr>ss_resp := es\<rparr>) c)"
  have step: "conn_step E (Event_write None) c ?c" by (rule event_write [OF True assms(2)])
  have "cn_loop ?c \<in> {Looping, Returning}" by (rule loop_write_loop) (simp add: True)
  then have "(?c, c) \<in> conn_order" using True assms(2) by auto
  moreover have "no_nil_watch E ?c" "conn_inv ?c"
    using assms(1) conn_inv_step [OF step] no_nil_frames [of ?c c E] by (auto simp: winding_up_def)
  moreover have "cn_reader ?c \<noteq> Reading" using assms(1) True by (simp add: winding_up_def)
  ultimately show ?thesis using step unfolding winding_up_def by (intro exI conjI) auto
next
  case False
  with assms(3) have "cn_loop c \<in> {Closing, Returned}" by (cases "cn_loop c") auto
  with assms(1) have draining: "cn_draining c" by (auto simp: winding_up_def conn_inv_def)
  let ?c = "in_session (\<lambda>ss. ss\<lparr>ss_resp := es\<rparr>) c"
  have step: "conn_step E Drain_step c ?c" by (rule drain [OF draining assms(2)])
  have "(?c, c) \<in> conn_order" using assms(2) by simp
  moreover have "winding_up E ?c"
    using assms(1) conn_inv_step [OF step] no_nil_frames [of ?c c E] by (auto simp: winding_up_def)
  ultimately show ?thesis using step by (intro exI conjI) auto
qed

text \<open>A step of a stream, when one is left and the channel is empty.\<close>

lemma progress_stream:
  assumes "winding_up E c" and "ss_resp (cn_session c) = []" and "cn_loop c \<noteq> Returning" and "\<not> all_gone (cn_session c)"
  shows "\<exists>m c'. conn_step E m c c' \<and> m \<notin> range Message \<and> winding_up E c' \<and> (c', c) \<in> conn_order"
proof -
  have "ss_closed (cn_session c)"
    using assms(1,3) by (cases "cn_loop c") (auto simp: winding_up_def conn_inv_def)
  then have "closing (ce_session E) (cn_session c)" using assms(1) by (simp add: closing_def winding_up_def no_nil_watch_def)
  moreover have "room (cn_session c)" using assms(2) by (simp add: room_def channel_size_def)
  ultimately obtain i ss where i: "session_step (ce_session E) (Stream i) (cn_session c) ss" "closing (ce_session E) ss" "open_work ss < open_work (cn_session c)"
    using closing_progress [of "ce_session E" "cn_session c"] assms(4) by blast
  let ?c = "c\<lparr>cn_session := ss\<rparr>"
  have step: "conn_step E (Run i) c ?c" by (rule stream [OF i(1)])
  have "(?c, c) \<in> conn_order" using i(3) by simp
  moreover have "winding_up E ?c"
    using assms(1) conn_inv_step [OF step] i(2) by (simp add: winding_up_def no_nil_watch_def closing_def)
  ultimately show ?thesis using step by (intro exI conjI) auto
qed

text \<open>A step of the reader or of the loop, when the streams are gone and the channel is empty.\<close>

lemma progress_end:
  assumes "winding_up E c" and "ss_resp (cn_session c) = []" and "all_gone (cn_session c)" and "\<not> all_over c"
  shows "\<exists>m c'. conn_step E m c c' \<and> m \<notin> range Message \<and> winding_up E c' \<and> (c', c) \<in> conn_order"
proof -
  have room: "room (cn_session c)" using assms(2) by (simp add: room_def channel_size_def)
  have by_step: ?thesis if "conn_step E m c c'" "m \<notin> range Message" "ss_streams (cn_session c') = ss_streams (cn_session c)"
    "cn_reader c' \<noteq> Reading \<or> cn_loop c' \<noteq> Looping" "(c', c) \<in> conn_order" for m c'
    using that assms(1) conn_inv_step [OF that(1)] no_nil_frames [OF that(3), of E] by (auto simp: winding_up_def)
  show ?thesis
  proof (cases "cn_reader c")
    case Reading
    then have loop: "cn_loop c \<noteq> Looping" using assms(1) by (simp add: winding_up_def)
    show ?thesis by (rule by_step [OF read_error [OF Reading, of E "OtherError []"]]) (simp_all add: Reading image_iff open_work_def)
  next
    case (Waiting err)
    show ?thesis by (rule by_step [OF reader_waited [OF Waiting assms(3)]]) (simp_all add: Waiting image_iff)
  next
    case (Reporting err)
    show ?thesis by (rule by_step [OF reader_report [OF Reporting room]]) (simp_all add: Reporting image_iff)
  next
    case Reported
    show ?thesis by (rule by_step [OF reader_close [OF Reported]]) (simp_all add: Reported image_iff)
  next
    case Reader_gone
    show ?thesis
    proof (cases "cn_loop c")
      case Looping
      have "channel_closed c" using Reader_gone by (simp add: channel_closed_def)
      from loop_end [OF Looping this assms(2)] show ?thesis by (rule by_step) (simp_all add: Looping Reader_gone image_iff)
    next
      case Returning
      from deferred [OF Returning] show ?thesis by (rule by_step) (simp_all add: Returning Reader_gone image_iff)
    next
      case Closing
      from closed [OF Closing assms(3)] show ?thesis by (rule by_step) (simp_all add: Closing Reader_gone image_iff)
    next
      case Returned
      with Reader_gone assms(2-4) show ?thesis by (simp add: all_over_def)
    qed
  qed
qed

lemma progress:
  assumes "winding_up E c" and "\<not> all_over c"
  shows "\<exists>m c'. conn_step E m c c' \<and> m \<notin> range Message \<and> winding_up E c' \<and> (c', c) \<in> conn_order"
proof (cases "cn_loop c = Returning")
  case True
  let ?c = "in_session (\<lambda>ss. ss\<lparr>ss_closed := True\<rparr>) (c\<lparr>cn_draining := True, cn_loop := Closing\<rparr>)"
  have step: "conn_step E Loop_step c ?c" by (rule deferred [OF True])
  have "(?c, c) \<in> conn_order" by (simp add: True)
  moreover have "winding_up E ?c" using assms(1) conn_inv_step [OF step] no_nil_frames [of ?c c E] by (simp add: winding_up_def)
  ultimately show ?thesis using step by (intro exI conjI) auto
next
  case False
  show ?thesis
  proof (cases "ss_resp (cn_session c)")
    case (Cons e es)
    from progress_consume [OF assms(1) this False] show ?thesis .
  next
    case Nil
    then show ?thesis using progress_stream [OF assms(1) Nil False] progress_end [OF assms(1) Nil _ assms(2)] by blast
  qed
qed

lemma conn_order_wf: "wf conn_order"
  by simp

lemma winds_up: "winding_up E c \<Longrightarrow> \<exists>ms c'. conn_run E c ms c' \<and> set ms \<inter> range Message = {} \<and> all_over c'"
proof (induction c rule: wf_induct_rule [OF conn_order_wf])
  case (1 c)
  show ?case
  proof (cases "all_over c")
    case True
    then show ?thesis using conn_nil [of E c] by (intro exI [of _ "[]"] exI [of _ c]) simp
  next
    case False
    with progress [OF 1(2)] obtain m c' where m: "conn_step E m c c'" "m \<notin> range Message" "winding_up E c'" "(c', c) \<in> conn_order" by blast
    from 1(1) [OF m(4,3)] obtain ms c'' where "conn_run E c' ms c''" "set ms \<inter> range Message = {}" "all_over c''" by blast
    with m(1,2) conn_cons [OF m(1)] show ?thesis by (intro exI [of _ "m # ms"] exI [of _ c'']) auto
  qed
qed

text \<open>
  C24. When a subscription ends. From any state of a connection whose streams have channels, once reading has failed, because the client
  is gone, or the loop has been left, because a write failed, the goroutines that are left can bring everything to its end without
  the client: every stream, the reader and the channel, and the handler itself, whatever was still in the channel and however
  full it was.
\<close>

theorem subscription_ends:
  assumes "subscribe_handler None = Inr start" and "conn_run E start ms c" and "no_nil_watch E c"
    and "cn_reader c \<noteq> Reading \<or> cn_loop c \<noteq> Looping"
  shows "\<exists>ms' c'. conn_run E c ms' c' \<and> set ms' \<inter> range Message = {} \<and> all_over c'"
proof -
  have "conn_inv start" using assms(1) by (auto simp: subscribe_handler_def conn_inv_def)
  with conn_inv_run [OF assms(2)] assms(3,4) have "winding_up E c" by (simp add: winding_up_def)
  then show ?thesis by (rule winds_up)
qed

definition nil_waits :: "subscribe \<Rightarrow> connection \<Rightarrow> bool" where
  "nil_waits sub c \<longleftrightarrow> at_phase (cn_session c) 0 sub Idle \<and> \<not> ss_request_done (cn_session c) \<and> cn_loop c \<noteq> Returned \<and>
     (cn_reader c = Reading \<or> (\<exists>err. cn_reader c = Waiting err))"

lemma at_phase_frames:
  "at_phase (ss\<lparr>ss_resp := es\<rparr>) i sub ph = at_phase ss i sub ph" "at_phase (ss\<lparr>ss_closed := b\<rparr>) i sub ph = at_phase ss i sub ph"
  "at_phase (send e ss) i sub ph = at_phase ss i sub ph"
  by (simp_all add: at_phase_def)

lemma idle_not_gone: "at_phase ss i sub Idle \<Longrightarrow> \<not> all_gone ss"
  using nth_mem [of i "ss_streams ss"] by (force simp: all_gone_def at_phase_def)

lemma nil_waits_step: "conn_step E m c c' \<Longrightarrow> nil_waits sub c \<Longrightarrow> nil_waits sub c'"
proof (induction rule: conn_step.induct)
  case (message c m ss)
  then show ?case using idle_stays [OF message(4), of 0 sub] by (cases m) (auto simp: nil_waits_def)
next
  case (stream i c ss)
  then show ?case using idle_stays [OF stream(1), of 0 sub] by (auto simp: nil_waits_def)
next
  case (event_write c e es outcome)
  then show ?case using loop_write_loop [of "in_session (\<lambda>ss. ss\<lparr>ss_resp := es\<rparr>) c" E e outcome]
    by (auto simp: nil_waits_def at_phase_frames)
next
  case (tick c outcome)
  then show ?case using loop_write_loop [of c E "ping_event (ce_version E)" outcome] by (auto simp: nil_waits_def)
next
  case (closed c)
  then show ?case using idle_not_gone [of "cn_session c" 0 sub] by (simp add: nil_waits_def)
next
  case (reader_waited c err)
  then show ?case using idle_not_gone [of "cn_session c" 0 sub] by (simp add: nil_waits_def)
qed (auto simp: nil_waits_def at_phase_frames send_def)

lemma nil_waits_run: "conn_run E c ms c' \<Longrightarrow> nil_waits sub c \<Longrightarrow> nil_waits sub c'"
  by (induction rule: conn_run.induct) (auto dest: nil_waits_step)

text \<open>
  C33. A client can leave a handler behind. The request's context is over when the handler returns, the handler returns
  when its streams have ended, and a stream on a nil channel, which the stores of API roots and API groups give, ends with the
  request's context: after one subscription to such a type the handler never returns, whatever happens, not even when the client
  is gone, and its goroutines stay.
\<close>

theorem nil_watch_never_returns:
  assumes "subscribe_handler None = Inr start" and "stream_start (ce_session E) sub = Inr None"
  shows "\<exists>c1. conn_run E start [Message (ClientSubscribe sub), Run 0] c1 \<and>
    (\<forall>ms c2. conn_run E c1 ms c2 \<longrightarrow> cn_loop c2 \<noteq> Returned \<and> \<not> all_gone (cn_session c2) \<and> cn_reader c2 \<noteq> Reader_gone)"
proof -
  let ?c = "start\<lparr>cn_session := session_add sub NewWatchSession\<rparr>"
  let ?d = "?c\<lparr>cn_session := set_phase 0 Idle (send (start_event sub) (session_add sub NewWatchSession))\<rparr>"
  have start: "cn_session start = NewWatchSession" "cn_reader start = Reading" "cn_loop start = Looping"
    using assms(1) by (auto simp: subscribe_handler_def)
  note defs = NewWatchSession_def session_add_def at_phase_def room_def channel_size_def mhas_def
  have "session_step (ce_session E) (ClientSubscribe sub) (cn_session start) (session_add sub NewWatchSession)"
    unfolding start(1) by (rule client_add) (simp add: defs)
  then have 1: "conn_step E (Message (ClientSubscribe sub)) start ?c" by (intro message) (simp_all add: start)
  have "session_step (ce_session E) (Stream 0) (cn_session ?c) (set_phase 0 Idle (send (start_event sub) (session_add sub NewWatchSession)))"
    using stream_run [of "session_add sub NewWatchSession" 0 sub "ce_session E" None] assms(2) by (simp add: defs)
  then have 2: "conn_step E (Run 0) ?c ?d" using stream [of E 0 ?c] by simp
  have waits: "nil_waits sub ?d" by (simp add: nil_waits_def start defs set_phase_def send_def)
  have run: "conn_run E start [Message (ClientSubscribe sub), Run 0] ?d" by (intro conn_cons [OF 1] conn_cons [OF 2] conn_nil)
  have "cn_loop c2 \<noteq> Returned \<and> \<not> all_gone (cn_session c2) \<and> cn_reader c2 \<noteq> Reader_gone" if "conn_run E ?d ms c2" for ms c2
    using nil_waits_run [OF that waits] idle_not_gone [of "cn_session c2" 0 sub] by (auto simp: nil_waits_def)
  with run show ?thesis by blast
qed

definition ex_connection_env :: "event list option \<Rightarrow> connection_env" where
  "ex_connection_env c = \<lparr>ce_session = ex_session_env c, ce_writer = ex_writer_env, ce_text = (\<lambda>e. ''error''), ce_version = ''v1''\<rparr>"

definition ex_start :: connection where
  "ex_start = \<lparr>cn_session = NewWatchSession, cn_reader = Reading, cn_loop = Looping, cn_draining = False, cn_frames = []\<rparr>"

lemma ex_started: "subscribe_handler None = Inr ex_start"
  by (simp add: subscribe_handler_def ex_start_def)

lemma nil_watch_never_returns_witness:
  "\<exists>c1. conn_run (ex_connection_env None) ex_start [Message (ClientSubscribe ex_sub), Run 0] c1 \<and>
     (\<forall>ms c2. conn_run (ex_connection_env None) c1 ms c2 \<longrightarrow> cn_loop c2 \<noteq> Returned)"
  using nil_watch_never_returns [OF ex_started, of "ex_connection_env None" ex_sub] ex_starts [of None]
  by (auto simp: ex_connection_env_def)

text \<open>A client that is gone after it has subscribed.\<close>

lemma subscription_ends_witness:
  "\<exists>c ms c'. conn_run (ex_connection_env (Some [])) ex_start [Message (ClientSubscribe ex_sub), Read_error (OtherError ''EOF'')] c \<and>
     conn_run (ex_connection_env (Some [])) c ms c' \<and> cn_loop c' = Returned"
proof -
  let ?E = "ex_connection_env (Some [])"
  let ?ss = "session_add ex_sub NewWatchSession"
  let ?c = "ex_start\<lparr>cn_session := ?ss\<rparr>"
  let ?d = "in_session (\<lambda>ss. ss\<lparr>ss_closed := True\<rparr>) (?c\<lparr>cn_reader := Waiting (OtherError ''EOF'')\<rparr>)"
  have "session_step (ce_session ?E) (ClientSubscribe ex_sub) (cn_session ex_start) ?ss"
    using client_add [of NewWatchSession ex_sub "ce_session ?E"] by (simp add: ex_start_def NewWatchSession_def mhas_def)
  then have 1: "conn_step ?E (Message (ClientSubscribe ex_sub)) ex_start ?c" by (intro message) (simp_all add: ex_start_def)
  have 2: "conn_step ?E (Read_error (OtherError ''EOF'')) ?c ?d" by (rule read_error) (simp add: ex_start_def)
  have run: "conn_run ?E ex_start [Message (ClientSubscribe ex_sub), Read_error (OtherError ''EOF'')] ?d"
    by (intro conn_cons [OF 1] conn_cons [OF 2] conn_nil)
  have "no_nil_watch ?E ?d"
    by (simp add: no_nil_watch_def session_add_def NewWatchSession_def ex_connection_env_def ex_starts)
  from subscription_ends [OF ex_started run this] obtain ms c' where "conn_run ?E ?d ms c'" "all_over c'" by auto
  with run show ?thesis by (auto simp: all_over_def)
qed

end
