(* ===== verification/Served_Requests.thy ===== *)
theory Served_Requests
  imports Router Default_Store
begin

section \<open>A request through the whole server\<close>




















section \<open>A concrete deletion\<close>


definition ex_deletable :: api_schema where
  "ex_deletable = (ex_schema ''pod'' ''pods'')\<lparr>ResourceMethods := [MethodDelete], Store := Some 1\<rparr>"

definition ex_deletables :: api_schemas where
  "ex_deletables = addToIndex ex_deletable (EmptyAPISchemas\<lparr>Schemas := [(''pod'', ex_deletable)]\<rparr>)"




lemma ex_deletable:
  "LookupSchema ex_deletables ''pods'' = Some ex_deletable"
  "Namespaced convert_std (Some ex_deletable) = False" "ID ex_deletable = ''pod''" "ResourceMethods ex_deletable = [MethodDelete]"
  "Store ex_deletable = Some 1" "DeleteHandler ex_deletable = None" "RequestModifier ex_deletable = None"
  "Schemas ex_deletables = [(''pod'', ex_deletable)]"
  by code_simp+










end
