(* ===== verification/List_Run.thy ===== *)
theory List_Run
  imports Partition_Lister
begin

section \<open>What a run of the parallel lister delivers\<close>

text \<open>
  The runs of \<open>Partition_Lister\<close> from outside: where the objects of a run come from, that its objects do not depend on
  how feeder and goroutines interleave, and one schedule, in which every goroutine ends before the feeder looks again, as
  a function that computes a run of any lister.
\<close>

subsection \<open>Every object was listed\<close>

definition listed_in :: "('p, 'o) partition_lister \<Rightarrow> int \<Rightarrow> 'p \<Rightarrow> 'o api_object \<Rightarrow> bool" where
  "listed_in lister limit p x \<longleftrightarrow> (\<exists>cont revision l. lister p cont revision limit = Inr l \<and> x \<in> set (list_Objects l))"

definition adds_listed :: "('p, 'o) partition_lister \<Rightarrow> int \<Rightarrow> 'p \<Rightarrow> 'o shared \<Rightarrow> go_err + 'o shared \<Rightarrow> bool" where
  "adds_listed lister limit p sh res \<longleftrightarrow> (\<forall>sh' x. res = Inr sh' \<longrightarrow> x \<in> set (concat (sh_result sh')) \<longrightarrow>
     x \<in> set (concat (sh_result sh)) \<or> listed_in lister limit p x)"

lemma worker_loop_listed: "worker_loop nm lister limit p st sh = Some res \<Longrightarrow> adds_listed lister limit p sh res"
proof (rule worker_loop.raw_induct [of "\<lambda>nm lister limit p st sh res. adds_listed lister limit p sh res"], goal_cases)
  case (1 rec nm lister limit p st sh res)
  let ?cont = "if nm p = ls_PartitionName st then ls_Continue st else []"
  show ?case
  proof (cases "lister p ?cont (ls_Revision st) limit")
    case (Inl err)
    with 1(3) show ?thesis by (auto simp: Let_def adds_listed_def)
  next
    case (Inr l)
    then have given: "listed_in lister limit p y" if "y \<in> set (list_Objects l)" for y
      using that unfolding listed_in_def by blast
    define objects where "objects = (if ls_PartitionName st = nm p \<and> ls_Offset st > 0 \<and> ls_Offset st < int (length (list_Objects l))
      then drop (nat (ls_Offset st)) (list_Objects l) else list_Objects l)"
    have objects: "listed_in lister limit p y" if "y \<in> set objects" for y
      using that given by (auto simp: objects_def dest: in_set_dropD split: if_splits)
    show ?thesis
    proof (cases "sh_state sh")
      case (Some t)
      with 1(3) have "res = Inr sh" by (auto simp: Let_def Inr)
      then show ?thesis by (simp add: adds_listed_def)
    next
      case None
      define st1 where "st1 = (if ls_Revision st = [] then st\<lparr>ls_Revision := list_Revision l\<rparr> else st)"
      have st1: "ls_PartitionName st1 = ls_PartitionName st" "ls_Offset st1 = ls_Offset st" by (simp_all add: st1_def)
      define sh1 where "sh1 = (if sh_revision sh = [] then sh\<lparr>sh_revision := list_Revision l\<rparr> else sh)"
      have sh1: "sh_capacity sh1 = sh_capacity sh" "sh_result sh1 = sh_result sh" by (simp_all add: sh1_def)
      define sh2 where "sh2 = sh1\<lparr>sh_result := sh_result sh1 @ [objects], sh_capacity := sh_capacity sh1 - int (length objects)\<rparr>"
      define st2 where "st2 = st1\<lparr>ls_Continue := list_Continue l, ls_PartitionName := nm p, ls_Offset := 0\<rparr>"
      define full where "full = sh1\<lparr>sh_result := sh_result sh @ [take (nat (sh_capacity sh)) objects],
        sh_state := Some \<lparr>ls_Revision = list_Revision l, ls_PartitionName = nm p, ls_Continue = ?cont, ls_Offset = sh_capacity sh, ls_Limit = limit\<rparr>,
        sh_capacity := 0\<rparr>"
      have "(if int (length objects) > sh_capacity sh then Some (Inr full)
          else if list_Continue l = [] then Some (Inr sh2) else rec nm lister limit p st2 sh2) = Some res"
        using 1(3) by (simp only: Let_def Inr sum.case None sh1 st1_def [symmetric] st1 objects_def [symmetric]
            sh1_def [symmetric] sh2_def st2_def full_def HOL.simp_thms if_False if_True shared.select_convs)
      moreover have "adds_listed lister limit p sh (Inr full)" "adds_listed lister limit p sh (Inr sh2)"
        using objects by (auto simp: adds_listed_def full_def sh2_def sh1 dest: in_set_takeD)
      moreover have "adds_listed lister limit p sh res" if "rec nm lister limit p st2 sh2 = Some res"
        using 1(2) [OF that] objects by (auto simp: adds_listed_def sh2_def sh1)
      ultimately show ?thesis by (auto split: if_splits)
    qed
  qed
qed simp

lemma indexOrZero_le: "indexOrZero nm ps x \<le> length ps"
proof -
  have "index_of nm ps x = Some i \<Longrightarrow> i < length ps" for i
    by (induction ps arbitrary: i) (auto split: if_splits)
  then show ?thesis by (auto simp: indexOrZero_def intro: less_imp_le split: option.splits)
qed

text \<open>The counters of a run stay within the partitions, and its objects come from them.\<close>

definition run_within :: "('p, 'o) partition_lister \<Rightarrow> int \<Rightarrow> 'p list \<Rightarrow> 'o run \<Rightarrow> bool" where
  "run_within lister limit ps r \<longleftrightarrow>
     r_done r \<le> started r \<and> started r \<le> length ps \<and> (\<forall>n. r_feeder r = Acquiring n \<longrightarrow> n < length ps) \<and>
     (\<forall>x \<in> set (concat (sh_result (r_shared r))). \<exists>p \<in> set ps. listed_in lister limit p x)"

lemma sent_late_listed:
  "sent_late lister limit ps sh sh' \<Longrightarrow> x \<in> set (concat (sh_result sh')) \<Longrightarrow>
     x \<in> set (concat (sh_result sh)) \<or> (\<exists>p \<in> set ps. listed_in lister limit p x)"
  unfolding sent_late_def listed_in_def by fastforce

lemma run_within_step:
  "feeder_step nm lister limit ps state r r' \<Longrightarrow> run_within lister limit ps r \<Longrightarrow> run_within lister limit ps r'"
proof (induction rule: feeder_step.induct)
  case (Work r sh)
  then have "ps ! r_done r \<in> set ps" by (simp add: run_within_def)
  with worker_loop_listed [OF Work(3)] Work(1,4) show ?case
    by (fastforce simp: run_within_def adds_listed_def started_def)
next
  case (Late r sh)
  from sent_late_listed [OF Late(4)] Late show ?case by (fastforce simp: run_within_def started_def)
next
  case (Late_failed r sh err)
  from sent_late_listed [OF Late_failed(4)] Late_failed show ?case by (fastforce simp: run_within_def started_def)
qed (auto simp: run_within_def started_def)

lemma run_within_reachable:
  assumes "(feeder_step nm lister limit ps state)\<^sup>*\<^sup>* (run_start nm limit ps state) r"
  shows "run_within lister limit ps r"
  using assms
proof (induction rule: rtranclp_induct)
  case base
  show ?case using indexOrZero_le [of nm ps] by (simp add: run_within_def run_start_def started_def Let_def)
next
  case (step y z)
  then show ?case by (blast intro: run_within_step)
qed

text \<open>The end of a run: the feeder has stopped, and all its workers have, or one has failed.\<close>

definition ended :: "'o run \<Rightarrow> bool" where
  "ended r \<longleftrightarrow> (\<exists>n. r_feeder r = Stopped n) \<and> (r_err r = None \<longrightarrow> r_done r = started r)"

lemma ended_finished: "ended r \<and> r_err r = None \<and> \<not> r_cancelled r \<longleftrightarrow> finished r"
  by (auto simp: ended_def finished_def started_def)

subsection \<open>The objects of a page are a prefix\<close>

theorem page_is_prefix:
  assumes "paged lister rest limit" and "nameable nm ps" and "token_ok nm lister limit ps state" and "limit > 0"
    and "(feeder_step nm lister limit ps state)\<^sup>*\<^sup>* (run_start nm limit ps state) r" and "finished r"
  shows "concat (sh_result (r_shared r)) = take (nat limit) (remaining nm rest ps state)"
proof -
  let ?out = "concat (sh_result (r_shared r))"
  have inv: "run_inv nm lister rest limit ps state r" using run_inv_reachable [OF assms(1-3) _ assms(5)] assms(4) by simp
  have data: "run_data nm lister rest limit ps state (r_done r) (r_shared r)"
    and stop: "r_done r < length ps \<Longrightarrow> sh_capacity (r_shared r) \<le> 0"
    using inv assms(6) by (auto simp: run_inv_def finished_def)
  show ?thesis
  proof (cases "sh_state (r_shared r)")
    case (Some t)
    with data have "remaining nm rest ps state = ?out @ remaining nm rest ps t" "int (length ?out) = limit" by (simp_all add: run_data_def)
    moreover have "nat limit = length ?out" using calculation(2) by linarith
    ultimately show ?thesis by simp
  next
    case None
    with data have rem: "remaining nm rest ps state = ?out @ concat (map (left_of nm rest state) (drop (r_done r) ps))"
      and cap: "sh_capacity (r_shared r) = limit - int (length ?out)" "0 \<le> sh_capacity (r_shared r)" by (simp_all add: run_data_def)
    show ?thesis
    proof (cases "r_done r < length ps")
      case True
      with stop cap have "nat limit = length ?out" by linarith
      with rem show ?thesis by simp
    next
      case False
      with cap have "length ?out \<le> nat limit" by linarith
      with False rem show ?thesis by simp
    qed
  qed
qed

text \<open>
  Whatever the interleaving, the page is the first \<open>limit\<close> objects that the token stands for, in the order of the partitions: the schedule
  decides only whether a page that is exactly full gets a token.
\<close>

lemma page_is_prefix_witness:
  "concat (sh_result (r_shared ex_run)) = take 1 (remaining id ex_rest [''p'', ''q''] empty_list_state)"
proof -
  have "nameable id [''p'', ''q'']" by (auto simp: nameable_def nth_Cons split: nat.splits)
  moreover have "token_ok id ex_lister 1 [''p'', ''q''] empty_list_state"
    by (simp add: token_ok_def offset_ok_def empty_list_state_def)
  moreover have "finished ex_run" by (simp add: finished_def ex_run_def)
  ultimately show ?thesis using page_is_prefix [OF ex_lister_paged _ _ _ ex_run_reachable] by simp
qed

subsection \<open>One schedule, computed\<close>

text \<open>
  The step that is taken in this schedule: a worker that is started runs to its end first. Fuel counts steps; three for each
  partition and one are enough (\<open>drive_ends\<close>).
\<close>

definition next_run :: "('p \<Rightarrow> string) \<Rightarrow> ('p, 'o) partition_lister \<Rightarrow> int \<Rightarrow> 'p list \<Rightarrow> list_state \<Rightarrow> 'o run \<Rightarrow> 'o run option" where
  "next_run nm lister limit ps state r =
     (if r_done r < started r \<and> r_err r = None then
        (case worker_loop nm lister limit (ps ! r_done r) state (r_shared r) of
           None \<Rightarrow> None
         | Some (Inl err) \<Rightarrow> Some (r\<lparr>r_done := Suc (r_done r), r_err := Some err\<rparr>)
         | Some (Inr sh) \<Rightarrow> Some (r\<lparr>r_done := Suc (r_done r), r_shared := sh\<rparr>))
      else (case r_feeder r of
          Checking n \<Rightarrow>
            Some (if n < length ps \<and> sh_capacity (r_shared r) > 0 \<and> r_err r = None \<and> \<not> r_cancelled r then r\<lparr>r_feeder := Acquiring n\<rparr>
                  else r\<lparr>r_feeder := Stopped n\<rparr>)
        | Acquiring n \<Rightarrow> Some (if r_err r = None then r\<lparr>r_feeder := Checking (Suc n)\<rparr> else r\<lparr>r_feeder := Stopped n\<rparr>)
        | Stopped n \<Rightarrow> None))"

fun drive :: "nat \<Rightarrow> ('p \<Rightarrow> string) \<Rightarrow> ('p, 'o) partition_lister \<Rightarrow> int \<Rightarrow> 'p list \<Rightarrow> list_state \<Rightarrow> 'o run \<Rightarrow> 'o run" where
  "drive 0 nm lister limit ps state r = r"
| "drive (Suc k) nm lister limit ps state r =
     (case next_run nm lister limit ps state r of None \<Rightarrow> r | Some r' \<Rightarrow> drive k nm lister limit ps state r')"

lemma next_run_step:
  assumes "next_run nm lister limit ps state r = Some r'"
  shows "feeder_step nm lister limit ps state r r'"
proof (cases "r_done r < started r \<and> r_err r = None")
  case True
  with assms show ?thesis by (auto simp: next_run_def split: option.splits sum.splits intro: Work Work_failed)
next
  case False
  show ?thesis
  proof (cases "r_feeder r")
    case (Checking n)
    with assms False show ?thesis
      by (auto simp: next_run_def split: if_splits intro: Check_ok Check_stop)
  next
    case (Acquiring n)
    then have "n - r_done r < slots state" if "r_err r = None" using False that by (simp add: started_def slots_def)
    with Acquiring assms False show ?thesis by (auto simp: next_run_def split: if_splits intro: Acquire Acquire_failed)
  qed (use assms False in \<open>simp add: next_run_def\<close>)
qed

lemma drive_steps: "(feeder_step nm lister limit ps state)\<^sup>*\<^sup>* r (drive k nm lister limit ps state r)"
proof (induction k arbitrary: r)
  case (Suc k)
  show ?case
  proof (cases "next_run nm lister limit ps state r")
    case (Some r')
    with Suc [of r'] next_run_step [OF Some] show ?thesis by (auto intro: converse_rtranclp_into_rtranclp)
  qed simp
qed simp

lemma next_run_cancelled: "next_run nm lister limit ps state r = Some r' \<Longrightarrow> r_cancelled r' = r_cancelled r"
  by (auto simp: next_run_def split: if_splits option.splits sum.splits feeder.splits)

lemma drive_cancelled: "r_cancelled (drive k nm lister limit ps state r) = r_cancelled r"
  by (induction k arbitrary: r) (auto simp: next_run_cancelled split: option.splits)

definition steps_left :: "nat \<Rightarrow> 'o run \<Rightarrow> nat" where
  "steps_left len r =
     (case r_feeder r of Checking n \<Rightarrow> 3 * (len - n) + 1 | Acquiring n \<Rightarrow> 3 * (len - n) | Stopped n \<Rightarrow> 0) +
     (if r_err r = None then started r - r_done r else 0)"

lemma next_run_less:
  assumes "next_run nm lister limit ps state r = Some r'" and "run_within lister limit ps r"
  shows "steps_left (length ps) r' < steps_left (length ps) r"
  using assms
  by (auto simp: next_run_def run_within_def steps_left_def started_def split: if_splits option.splits sum.splits feeder.splits)

lemma next_run_None:
  assumes "next_run nm lister limit ps state r = None"
    and "r_done r < started r \<Longrightarrow> r_err r = None \<Longrightarrow> worker_loop nm lister limit (ps ! r_done r) state (r_shared r) \<noteq> None"
    and "run_within lister limit ps r"
  shows "ended r"
  using assms
  by (auto simp: next_run_def ended_def run_within_def started_def split: if_splits option.splits sum.splits feeder.splits)

lemma drive_ends:
  assumes returns: "\<And>r. (feeder_step nm lister limit ps state)\<^sup>*\<^sup>* (run_start nm limit ps state) r \<Longrightarrow> r_done r < started r \<Longrightarrow> r_err r = None \<Longrightarrow>
      worker_loop nm lister limit (ps ! r_done r) state (r_shared r) \<noteq> None"
    and "(feeder_step nm lister limit ps state)\<^sup>*\<^sup>* (run_start nm limit ps state) r" and "steps_left (length ps) r \<le> k"
  shows "ended (drive k nm lister limit ps state r)"
  using assms(2,3)
proof (induction k arbitrary: r)
  case 0
  have "next_run nm lister limit ps state r = None"
  proof (rule ccontr)
    assume "next_run nm lister limit ps state r \<noteq> None"
    then obtain r' where "next_run nm lister limit ps state r = Some r'" by blast
    from next_run_less [OF this run_within_reachable [OF 0(1)]] 0(2) show False by simp
  qed
  from next_run_None [OF this returns [OF 0(1)] run_within_reachable [OF 0(1)]] show ?case by simp
next
  case (Suc k)
  show ?case
  proof (cases "next_run nm lister limit ps state r")
    case None
    from next_run_None [OF this returns [OF Suc(2)] run_within_reachable [OF Suc(2)]] None show ?thesis by simp
  next
    case (Some r')
    have "steps_left (length ps) r' \<le> k" using next_run_less [OF Some run_within_reachable [OF Suc(2)]] Suc(3) by simp
    with Suc.IH [OF rtranclp.rtrancl_into_rtrancl [OF Suc(2) next_run_step [OF Some]]] Some show ?thesis by simp
  qed
qed

text \<open>A worker whose tokens come to an end returns, whatever state it is in.\<close>

lemma worker_returns_if_tokens_end:
  fixes ahead :: "'p \<Rightarrow> string \<Rightarrow> nat"
  assumes "\<And>p cont revision l. lister p cont revision limit = Inr l \<Longrightarrow> list_Continue l \<noteq> [] \<Longrightarrow> ahead p (list_Continue l) < ahead p cont"
  shows "worker_loop nm lister limit p st sh \<noteq> None"
proof (induction "ahead p (if nm p = ls_PartitionName st then ls_Continue st else [])" arbitrary: st sh rule: less_induct)
  case less
  show ?case
  proof (cases "lister p (if nm p = ls_PartitionName st then ls_Continue st else []) (ls_Revision st) limit")
    case (Inl err)
    then show ?thesis by (subst worker_loop.simps) (simp add: Let_def)
  next
    case (Inr l)
    have "worker_loop nm lister limit p st' sh' \<noteq> None"
      if "list_Continue l \<noteq> []" "ls_PartitionName st' = nm p" "ls_Continue st' = list_Continue l" for st' sh'
      using less.hyps [of st' sh'] assms [OF Inr that(1)] that(2,3) by simp
    then show ?thesis by (subst worker_loop.simps) (simp add: Let_def Inr)
  qed
qed

definition sequential_run :: "('p \<Rightarrow> string) \<Rightarrow> ('p, 'o) partition_lister \<Rightarrow> int \<Rightarrow> 'p list \<Rightarrow> list_state \<Rightarrow> 'o run" where
  "sequential_run nm lister limit ps state = drive (3 * length ps + 1) nm lister limit ps state (run_start nm limit ps state)"

lemma sequential_run_reachable:
  "(feeder_step nm lister limit ps state)\<^sup>*\<^sup>* (run_start nm limit ps state) (sequential_run nm lister limit ps state)"
  unfolding sequential_run_def by (rule drive_steps)

lemma sequential_run_cancelled: "\<not> r_cancelled (sequential_run nm lister limit ps state)"
  by (simp only: sequential_run_def drive_cancelled) (simp add: run_start_def Let_def)

lemma sequential_run_ends:
  assumes "\<And>r. (feeder_step nm lister limit ps state)\<^sup>*\<^sup>* (run_start nm limit ps state) r \<Longrightarrow> r_done r < started r \<Longrightarrow> r_err r = None \<Longrightarrow>
      worker_loop nm lister limit (ps ! r_done r) state (r_shared r) \<noteq> None"
  shows "ended (sequential_run nm lister limit ps state)"
  unfolding sequential_run_def
proof (rule drive_ends [OF assms])
  show "steps_left (length ps) (run_start nm limit ps state) \<le> 3 * length ps + 1"
    by (simp add: steps_left_def run_start_def started_def Let_def)
qed simp_all

end
