(* ===== verification/Listing.thy ===== *)
theory Listing
  imports List_Run Default_Store
begin

section \<open>Listing through the partitioned store: Store.List of pkg/stores/partition/store.go\<close>

text \<open>
  \<open>Store.List\<close> asks the partitioner for the partitions of the user, lists them with the parallel lister through the proxy
  store, and collects what comes. The lister's runs are those of \<open>Partition_Lister\<close>, so listing is a relation between a
  request and its outcomes (\<open>store_List\<close>); \<open>store_List_seq\<close> computes one of them. A request whose calls never stop saying that
  there is more has no outcome.

  The theorems put the three components together: with whose rights each object of a list was read, and, over an API that
  pages as Kubernetes documents it, that a list is exactly what the grants of the user select.
\<close>

subsection \<open>One partition\<close>

text \<open>
  The request is cloned and its query replaced. \<open>byNameOrNamespaceStore\<close> writes the namespace into the clone, so that
  listing, unlike watching, shares nothing between the partitions.
\<close>

definition with_query :: "api_request \<Rightarrow> http_request \<Rightarrow> url_values \<Rightarrow> api_request" where
  "with_query op r q = op\<lparr>op_Request := Some (r\<lparr>rq_Query := q\<rparr>)\<rparr>"

definition listPartition ::
  "'w proxy \<Rightarrow> 'w \<Rightarrow> api_request \<Rightarrow> http_request \<Rightarrow> 'a schema_scheme \<Rightarrow> (partition, payload) partition_lister" where
  "listPartition px w op r s p cont revision limit =
     partition_List px w (with_query op r (listPartition_query int_string (rq_Query r) cont revision limit)) s p"

subsection \<open>All of them\<close>

text \<open>Where a list starts: the partitions of the user, the state of the token, the limit; or the error before the first call.\<close>

definition list_start ::
  "(string \<Rightarrow> go_err + list_state) \<Rightarrow> convert \<Rightarrow> api_request \<Rightarrow> http_request \<Rightarrow> 'a schema_scheme \<Rightarrow>
    go_err + partition list \<times> list_state \<times> int" where
  "list_start decode C op r s =
     (case All C op s ''list'' [] of
        Inl err \<Rightarrow> Inl err
      | Inr ps \<Rightarrow>
          (case lister_List decode (getLimit r) (values_get (rq_Query r) ''continue'') of
             Inl err \<Rightarrow> Inl err
           | Inr start \<Rightarrow> Inr (ps, start)))"

text \<open>A run of the lister to its end, and whether the context of the request was over before that.\<close>

definition list_run ::
  "'w proxy \<Rightarrow> 'w \<Rightarrow> api_request \<Rightarrow> http_request \<Rightarrow> 'a schema_scheme \<Rightarrow> partition list \<times> list_state \<times> int \<Rightarrow> bool \<Rightarrow> payload run \<Rightarrow> bool" where
  "list_run px w op r s start cancelled run \<longleftrightarrow>
     (case start of (ps, state, limit) \<Rightarrow>
        (feeder_step p_Namespace (listPartition px w op r s) limit ps state)\<^sup>*\<^sup>* (run_start p_Namespace limit ps state) run \<and>
        ended run \<and> r_cancelled run = cancelled)"

definition store_List ::
  "(string \<Rightarrow> go_err + list_state) \<Rightarrow> (list_state \<Rightarrow> go_err + string) \<Rightarrow> 'w proxy \<Rightarrow> 'w \<Rightarrow> api_request \<Rightarrow> 'a schema_scheme \<Rightarrow> bool \<Rightarrow>
    payload api_object_list \<times> go_err option \<Rightarrow> bool" where
  "store_List decode encode px w op s cancelled res \<longleftrightarrow>
     (case op_Request op of
        None \<Rightarrow> res = (empty_list, Some (Panic ''nil pointer dereference''))
      | Some r \<Rightarrow>
          (case list_start decode (px_convert px) op r s of
             Inl err \<Rightarrow> res = (empty_list, Some err)
           | Inr start \<Rightarrow> (\<exists>run. list_run px w op r s start cancelled run \<and> res = collect encode run)))"

text \<open>One outcome, computed.\<close>

definition store_List_seq ::
  "(string \<Rightarrow> go_err + list_state) \<Rightarrow> (list_state \<Rightarrow> go_err + string) \<Rightarrow> 'w proxy \<Rightarrow> 'w \<Rightarrow> api_request \<Rightarrow> 'a schema_scheme \<Rightarrow>
    payload api_object_list \<times> go_err option" where
  "store_List_seq decode encode px w op s =
     (case op_Request op of
        None \<Rightarrow> (empty_list, Some (Panic ''nil pointer dereference''))
      | Some r \<Rightarrow>
          (case list_start decode (px_convert px) op r s of
             Inl err \<Rightarrow> (empty_list, Some err)
           | Inr (ps, state, limit) \<Rightarrow> collect encode (sequential_run p_Namespace (listPartition px w op r s) limit ps state)))"

lemma store_List_seq_outcome:
  assumes "\<And>r ps state limit run. op_Request op = Some r \<Longrightarrow> list_start decode (px_convert px) op r s = Inr (ps, state, limit) \<Longrightarrow>
      (feeder_step p_Namespace (listPartition px w op r s) limit ps state)\<^sup>*\<^sup>* (run_start p_Namespace limit ps state) run \<Longrightarrow>
      r_done run < started run \<Longrightarrow> r_err run = None \<Longrightarrow>
      worker_loop p_Namespace (listPartition px w op r s) limit (ps ! r_done run) state (r_shared run) \<noteq> None"
  shows "store_List decode encode px w op s False (store_List_seq decode encode px w op s)"
proof (cases "op_Request op")
  case (Some r)
  show ?thesis
  proof (cases "list_start decode (px_convert px) op r s")
    case (Inr start)
    obtain ps state limit where "start = (ps, state, limit)" by (cases start)
    with Inr Some sequential_run_ends [OF assms] sequential_run_reachable sequential_run_cancelled show ?thesis
      unfolding store_List_def store_List_seq_def list_run_def by fastforce
  qed (simp add: store_List_def store_List_seq_def Some)
qed (simp add: store_List_def store_List_seq_def)

section \<open>With whose rights a list is read\<close>

text \<open>
  An object that a client of Kubernetes answered a list with, as the API shows it; and the two ways in which it may be read: by
  a client made for the user, or by the server's own client, bound to a namespace, when the access list of the schema names it.
\<close>

definition read_through :: "'w proxy \<Rightarrow> 'w \<Rightarrow> 'a schema_scheme \<Rightarrow> client \<Rightarrow> payload api_object \<Rightarrow> bool" where
  "read_through px w s cl x \<longleftrightarrow>
     (\<exists>q l m. k_List (px_k8s px) cl q w = Inr l \<and> m \<in> set (ul_Items (tableToList (px_lib px) l)) \<and> x = toAPI (px_lib px) s (Some m))"

definition named_grant :: "'w proxy \<Rightarrow> api_request \<Rightarrow> 'a schema_scheme \<Rightarrow> string \<Rightarrow> payload api_object \<Rightarrow> bool" where
  "named_grant px op s ns x \<longleftrightarrow>
     (\<exists>k. visible (GetAccessListMap (Some s)) ''list'' k (Object_Name (px_lib px) x) \<and>
       (Namespaced (px_convert px) (Some s) \<or> op_Namespace op \<noteq> [] \<longrightarrow> k = ns))"

definition read_as_granted :: "'w proxy \<Rightarrow> 'w \<Rightarrow> api_request \<Rightarrow> 'a schema_scheme \<Rightarrow> payload api_object \<Rightarrow> bool" where
  "read_as_granted px w op s x \<longleftrightarrow>
     (\<exists>cl. read_through px w s cl x \<and> cl_gvr cl = GVR (px_convert px) s \<and>
       (acts_for (px_factory px) op cl \<or>
        cfg_Impersonate (cl_config cl) = None \<and> cl_Namespace cl \<noteq> ''*'' \<and> named_grant px op s (cl_Namespace cl) x))"

lemma list_with_read:
  assumes "list_with px w op s cl = Inr l" and "x \<in> set (list_Objects l)"
  shows "read_through px w s cl x"
proof -
  obtain q l' where "k_List (px_k8s px) cl q w = Inr l'" and "list_Objects l = map (\<lambda>m. toAPI (px_lib px) s (Some m)) (ul_Items (tableToList (px_lib px) l'))"
    using assms by (auto simp: list_with_def Let_def empty_list_def split: sum.splits)
  with assms(2) show ?thesis unfolding read_through_def by auto
qed

lemma table_client_bound:
  "px_factory px = NewFactory imp \<Longrightarrow> table_client px op s ns = Inr cl \<Longrightarrow>
    acts_for (px_factory px) op cl \<and> cl_gvr cl = GVR (px_convert px) s \<and> cl_Namespace cl = ns"
  by (auto simp: acts_for_def table_client_def client_defs NewFactory_def Let_def split: if_splits dest!: newClient_cases)

lemma admin_client_bound:
  "TableAdminClient (NewFactory imp) C op s ns = Inr cl \<Longrightarrow>
    cfg_Impersonate (cl_config cl) = None \<and> cl_gvr cl = GVR C s \<and> cl_Namespace cl = ns"
  by (auto simp: client_defs NewFactory_def Let_def split: if_splits dest!: newClient_cases)

lemma with_query_same [simp]:
  "op_Request op = Some r \<Longrightarrow> acts_for p (with_query op r q) cl \<longleftrightarrow> acts_for p op cl"
  "acts_for p (op'\<lparr>op_Namespace := ns\<rparr>) cl \<longleftrightarrow> acts_for p op' cl"
  by (simp_all add: acts_for_def acts_as_user_def with_query_def)

lemma partition_List_read:
  assumes "px_factory px = NewFactory imp" and "partition_List px w (with_query op r q) s p = Inr l" and "x \<in> set (list_Objects l)"
    and "op_Request op = Some r"
  obtains cl where "read_through px w s cl x" and "cl_gvr cl = GVR (px_convert px) s"
    and "acts_for (px_factory px) op cl \<or>
      cfg_Impersonate (cl_config cl) = None \<and> cl_Namespace cl = p_Namespace p \<and> cl_Namespace cl \<noteq> ''*'' \<and> \<not> p_Passthrough p \<and>
      Object_Name (px_lib px) x \<in> set (p_Names p)"
proof (cases "p_Passthrough p \<or> p_All p")
  case True
  define op' where "op' = (if p_Passthrough p then with_query op r q else (with_query op r q)\<lparr>op_Namespace := p_Namespace p\<rparr>)"
  have user: "acts_for (px_factory px) op' cl \<longleftrightarrow> acts_for (px_factory px) op cl" for cl by (simp add: op'_def assms(4))
  have "proxy_List px w op' s = Inr l" using assms(2) True by (auto simp: partition_List_def op'_def Let_def)
  then obtain ns cl where "table_client px op' s ns = Inr cl" "list_with px w op' s cl = Inr l"
    by (auto simp: proxy_List_def split: sum.splits)
  with table_client_bound [OF assms(1)] list_with_read [OF _ assms(3)] user show ?thesis using that by metis
next
  case False
  then obtain op' cl l' where "TableAdminClient (px_factory px) (px_convert px) op' s (p_Namespace p) = Inr cl"
    "list_with px w op' s cl = Inr l'" "x \<in> set (list_Objects l')" "Object_Name (px_lib px) x \<in> set (p_Names p)" "p_Namespace p \<noteq> ''*''"
    using assms(2,3) by (auto simp: partition_List_def ByNames_def Let_def empty_list_def split: if_splits sum.splits)
  with admin_client_bound [of imp, folded assms(1)] list_with_read False show ?thesis using that by metis
qed

text \<open>The names of a partition of a user are granted.\<close>

lemma partition_names_granted:
  assumes "All C op s ''list'' [] = Inr ps" and "p \<in> set ps" and "\<not> p_Passthrough p" and "nm \<in> set (p_Names p)"
  shows "\<exists>k. visible (GetAccessListMap (Some s)) ''list'' k nm \<and> (Namespaced C (Some s) \<or> op_Namespace op \<noteq> [] \<longrightarrow> k = p_Namespace p)"
proof -
  obtain us b where u: "isPassthroughUnconstrained C op s ''list'' = (us, b)" by fastforce
  obtain r ps' b' where "isPassthrough C op r s ''list'' = (ps', b')" "ps = (if b' then [passthrough_partition] else sort_key p_Namespace ps')"
    using assms(1) by (auto elim: All_Inr_cases)
  then have "p \<in> set us" using assms(2-4)
    by (auto simp: isPassthrough_def u passthrough_partition_def split: if_splits option.splits)
  from unconstrained_sound [OF u this] assms(4) show ?thesis by (auto simp: partition_sound_def)
qed

lemma store_List_objects:
  assumes "store_List decode encode px w op s cancelled res" and "x \<in> set (list_Objects (fst res))"
  obtains r ps state limit run where "op_Request op = Some r" and "All (px_convert px) op s ''list'' [] = Inr ps"
    and "(feeder_step p_Namespace (listPartition px w op r s) limit ps state)\<^sup>*\<^sup>* (run_start p_Namespace limit ps state) run"
    and "x \<in> set (concat (sh_result (r_shared run)))"
proof -
  obtain r where r: "op_Request op = Some r" using assms by (cases "op_Request op") (simp_all add: store_List_def empty_list_def)
  obtain start run where start: "list_start decode (px_convert px) op r s = Inr start" and run: "list_run px w op r s start cancelled run"
    and "res = collect encode run"
    using assms by (auto simp: store_List_def r empty_list_def split: sum.splits)
  then have "x \<in> set (concat (sh_result (r_shared run)))" using assms(2) by (simp add: collect_def)
  moreover obtain ps state limit where "start = (ps, state, limit)" by (cases start)
  ultimately show ?thesis using that r start run by (auto simp: list_start_def list_run_def split: sum.splits)
qed

text \<open>
  A list shows only what may be read. Whatever the interleaving of the goroutines, whatever the API answers
  and whether or not the request is cancelled,
  every object of a list was answered by Kubernetes to a client bound to the schema's resource, and that client either acts as
  the user of the request (without impersonation, for nobody in particular), or it is bound to one namespace and the access list of the schema grants the user this name there
  (to list it or to get it).
\<close>

theorem list_reads_as_granted:
  assumes "px_factory px = NewFactory imp" and "store_List decode encode px w op s cancelled res" and "x \<in> set (list_Objects (fst res))"
  shows "read_as_granted px w op s x"
proof -
  obtain r ps state limit run where r: "op_Request op = Some r"
    and ps: "All (px_convert px) op s ''list'' [] = Inr ps"
    and run: "(feeder_step p_Namespace (listPartition px w op r s) limit ps state)\<^sup>*\<^sup>* (run_start p_Namespace limit ps state) run"
    and x: "x \<in> set (concat (sh_result (r_shared run)))"
    by (rule store_List_objects [OF assms(2,3)])
  from run_within_reachable [OF run] x obtain p cont revision l where p: "p \<in> set ps"
    and l: "listPartition px w op r s p cont revision limit = Inr l" "x \<in> set (list_Objects l)"
    unfolding run_within_def listed_in_def by blast
  from partition_List_read [OF assms(1) l(1) [unfolded listPartition_def] l(2) r] obtain cl
    where cl: "read_through px w s cl x" "cl_gvr cl = GVR (px_convert px) s"
      "acts_for (px_factory px) op cl \<or>
        cfg_Impersonate (cl_config cl) = None \<and> cl_Namespace cl = p_Namespace p \<and> cl_Namespace cl \<noteq> ''*'' \<and> \<not> p_Passthrough p \<and>
        Object_Name (px_lib px) x \<in> set (p_Names p)" .
  then have "acts_for (px_factory px) op cl \<or>
      cfg_Impersonate (cl_config cl) = None \<and> cl_Namespace cl \<noteq> ''*'' \<and> named_grant px op s (cl_Namespace cl) x"
    using partition_names_granted [OF ps p] unfolding named_grant_def by metis
  with cl(1,2) show ?thesis unfolding read_as_granted_def by blast
qed

section \<open>A list is what the grants select\<close>

text \<open>
  How Kubernetes documents listing, for the queries of one request: \<open>pages cl cont\<close> are the objects that the client \<open>cl\<close> is
  answered from the page token \<open>cont\<close> on. A page holds no more objects than the limit asked for and the tokens come to an end; the
  parameter \<open>revision\<close>, which is not one of Kubernetes, changes nothing; and the queries decode.
\<close>

definition serves_pages :: "'w proxy \<Rightarrow> 'w \<Rightarrow> url_values \<Rightarrow> int \<Rightarrow> (client \<Rightarrow> string \<Rightarrow> obj list) \<Rightarrow> bool" where
  "serves_pages px w values limit pages \<longleftrightarrow>
     (\<exists>ahead :: client \<Rightarrow> string \<Rightarrow> nat. \<forall>cl cont rev l.
        k_List (px_k8s px) cl (listPartition_query int_string values cont rev limit) w = Inr l \<longrightarrow>
          pages cl cont = ul_Items (tableToList (px_lib px) l) @ (if ul_Continue l = [] then [] else pages cl (ul_Continue l)) \<and>
          int (length (ul_Items (tableToList (px_lib px) l))) \<le> limit \<and>
          (ul_Continue l \<noteq> [] \<longrightarrow> ahead cl (ul_Continue l) < ahead cl cont)) \<and>
     (\<forall>cl cont rev rev'. k_List (px_k8s px) cl (listPartition_query int_string values cont rev limit) w =
        k_List (px_k8s px) cl (listPartition_query int_string values cont rev' limit) w) \<and>
     (\<forall>cont rev. k_decode (px_k8s px) ''ListOptions'' (listPartition_query int_string values cont rev limit) = None)"

text \<open>The client of a partition, the names it keeps, and what it is answered from a page token on.\<close>

definition partition_client :: "'w proxy \<Rightarrow> api_request \<Rightarrow> 'a schema_scheme \<Rightarrow> partition \<Rightarrow> go_err + client" where
  "partition_client px op s p =
     (if p_Passthrough p then table_client px op s (op_Namespace op)
      else if p_All p then table_client px op s (p_Namespace p)
      else TableAdminClient (px_factory px) (px_convert px) op s (p_Namespace p))"

definition by_names :: "partition \<Rightarrow> bool" where
  "by_names p \<longleftrightarrow> \<not> p_Passthrough p \<and> \<not> p_All p"

definition kept :: "lib \<Rightarrow> partition \<Rightarrow> payload api_object \<Rightarrow> bool" where
  "kept L p x \<longleftrightarrow> by_names p \<longrightarrow> p_Namespace p \<noteq> ''*'' \<and> Object_Name L x \<in> set (p_Names p)"

definition partition_items ::
  "'w proxy \<Rightarrow> api_request \<Rightarrow> 'a schema_scheme \<Rightarrow> (client \<Rightarrow> string \<Rightarrow> obj list) \<Rightarrow> partition \<Rightarrow> string \<Rightarrow> payload api_object list" where
  "partition_items px op s pages p cont =
     (case partition_client px op s p of
        Inl _ \<Rightarrow> []
      | Inr cl \<Rightarrow> filter (kept (px_lib px) p) (map (\<lambda>m. toAPI (px_lib px) s (Some m)) (pages cl cont)))"

lemma setupConfig_with_query [simp]:
  "op_Request op = Some r \<Longrightarrow> setupConfig (with_query op r q) cfg imp = setupConfig op cfg imp"
  "setupConfig (op'\<lparr>op_Namespace := ns\<rparr>) cfg imp = setupConfig op' cfg imp"
  by (simp_all add: setupConfig_def with_query_def)

lemma clients_with_query [simp]:
  "op_Request op = Some r \<Longrightarrow> table_client px (with_query op r q) s ns = table_client px op s ns"
  "table_client px (op'\<lparr>op_Namespace := ns'\<rparr>) s ns = table_client px op' s ns"
  "op_Request op = Some r \<Longrightarrow> TableAdminClient fa C (with_query op r q) s ns = TableAdminClient fa C op s ns"
  "TableAdminClient fa C (op'\<lparr>op_Namespace := ns'\<rparr>) s ns = TableAdminClient fa C op' s ns"
  by (simp_all add: table_client_def client_defs newClient_def newDynamicClient_def)

lemma with_query_fields [simp]:
  "op_Namespace (with_query op r q) = op_Namespace op" "request_query (with_query op r q) = Inr q"
  "request_query (op'\<lparr>op_Namespace := ns\<rparr>) = request_query op'"
  by (simp_all add: with_query_def request_query_def)

definition api_page :: "lib \<Rightarrow> 'a schema_scheme \<Rightarrow> partition \<Rightarrow> unstr_list \<Rightarrow> payload api_object_list" where
  "api_page L s p l = \<lparr>list_Revision = ul_ResourceVersion (tableToList L l), list_Continue = ul_Continue l,
     list_Objects = filter (kept L p) (map (\<lambda>m. toAPI L s (Some m)) (ul_Items (tableToList L l)))\<rparr>"

lemma tableToList_Continue [simp]: "ul_Continue (tableToList L l) = ul_Continue l"
  by (simp add: tableToList_def)

lemma listPartition_calls:
  assumes "op_Request op = Some r"
  shows "listPartition px w op r s p cont revision limit =
    (if by_names p \<and> p_Namespace p = ''*'' then Inr empty_list
     else case partition_client px op s p of
        Inl err \<Rightarrow> Inl err
      | Inr cl \<Rightarrow> (let q = listPartition_query int_string (rq_Query r) cont revision limit in
          case k_decode (px_k8s px) ''ListOptions'' q of
            Some _ \<Rightarrow> Inr empty_list
          | None \<Rightarrow> (case k_List (px_k8s px) cl q w of Inl err \<Rightarrow> Inl err | Inr l \<Rightarrow> Inr (api_page (px_lib px) s p l))))"
proof (cases "k_decode (px_k8s px) ''ListOptions'' (listPartition_query int_string (rq_Query r) cont revision limit)")
  case None
  with assms show ?thesis
    by (auto simp: listPartition_def partition_List_def proxy_List_def ByNames_def list_with_def decodeParams_def partition_client_def
        by_names_def kept_def api_page_def Let_def filter_map comp_def split: sum.splits)
next
  case (Some err)
  with assms show ?thesis
    by (auto simp: listPartition_def partition_List_def proxy_List_def ByNames_def list_with_def decodeParams_def partition_client_def
        by_names_def empty_list_def Let_def split: sum.splits)
qed

lemma listPartition_cases:
  assumes "op_Request op = Some r"
    and "\<And>cont rev. k_decode (px_k8s px) ''ListOptions'' (listPartition_query int_string (rq_Query r) cont rev limit) = None"
  shows "listPartition px w op r s p cont revision limit =
    (if by_names p \<and> p_Namespace p = ''*'' then Inr empty_list
     else case partition_client px op s p of
        Inl err \<Rightarrow> Inl err
      | Inr cl \<Rightarrow> (case k_List (px_k8s px) cl (listPartition_query int_string (rq_Query r) cont revision limit) w of
            Inl err \<Rightarrow> Inl err
          | Inr l \<Rightarrow> Inr (api_page (px_lib px) s p l)))"
  unfolding listPartition_calls [OF assms(1)] Let_def assms(2) option.case by (rule refl)

lemma listPartition_paged:
  assumes "serves_pages px w (rq_Query r) limit pages" and "op_Request op = Some r" and "limit \<ge> 0"
  shows "paged (listPartition px w op r s) (partition_items px op s pages) limit"
proof -
  obtain ahead :: "client \<Rightarrow> string \<Rightarrow> nat" where page: "\<And>cl cont rev l.
        k_List (px_k8s px) cl (listPartition_query int_string (rq_Query r) cont rev limit) w = Inr l \<Longrightarrow>
          pages cl cont = ul_Items (tableToList (px_lib px) l) @ (if ul_Continue l = [] then [] else pages cl (ul_Continue l)) \<and>
          int (length (ul_Items (tableToList (px_lib px) l))) \<le> limit \<and>
          (ul_Continue l \<noteq> [] \<longrightarrow> ahead cl (ul_Continue l) < ahead cl cont)"
    and rev: "\<And>cl cont rev rev'. k_List (px_k8s px) cl (listPartition_query int_string (rq_Query r) cont rev limit) w =
        k_List (px_k8s px) cl (listPartition_query int_string (rq_Query r) cont rev' limit) w"
    and decodes: "\<And>cont rev. k_decode (px_k8s px) ''ListOptions'' (listPartition_query int_string (rq_Query r) cont rev limit) = None"
    using assms(1) unfolding serves_pages_def by blast
  note cases = listPartition_cases [OF assms(2) decodes, where w = w and s = s]
  define left where "left p cont = (case partition_client px op s p of Inl _ \<Rightarrow> 0 | Inr cl \<Rightarrow> ahead cl cont)" for p cont
  have "partition_items px op s pages p cont = list_Objects l @ (if list_Continue l = [] then [] else partition_items px op s pages p (list_Continue l)) \<and>
      int (length (list_Objects l)) \<le> limit \<and> (list_Continue l \<noteq> [] \<longrightarrow> left p (list_Continue l) < left p cont)"
    if l: "listPartition px w op r s p cont revision limit = Inr l" for p cont revision l
  proof (cases "by_names p \<and> p_Namespace p = ''*''")
    case True
    with l assms(3) show ?thesis
      by (auto simp: cases empty_list_def partition_items_def kept_def split: sum.splits)
  next
    case False
    with l obtain cl l' where cl: "partition_client px op s p = Inr cl"
      and l': "k_List (px_k8s px) cl (listPartition_query int_string (rq_Query r) cont revision limit) w = Inr l'"
      and "l = api_page (px_lib px) s p l'"
      unfolding cases if_not_P [OF False] by (auto split: sum.splits)
    moreover have "int (length (list_Objects l)) \<le> limit"
      unfolding calculation(3) api_page_def
      by (rule order_trans [OF _ page [OF l', THEN conjunct2, THEN conjunct1]]) (simp del: filter_map)
    moreover have "partition_items px op s pages p cont = list_Objects l @ (if list_Continue l = [] then [] else partition_items px op s pages p (list_Continue l))"
      and "list_Continue l \<noteq> [] \<longrightarrow> left p (list_Continue l) < left p cont"
      using page [OF l'] cl unfolding calculation(3) by (auto simp: partition_items_def left_def api_page_def)
    ultimately show ?thesis by blast
  qed
  moreover have "listPartition px w op r s p cont revision limit = listPartition px w op r s p cont revision' limit" for p cont revision revision'
    unfolding cases rev [of _ cont revision revision'] by (rule refl)
  ultimately show ?thesis unfolding paged_def by blast
qed

text \<open>The partitions of a user can be named by tokens: sorted, without repetitions.\<close>

lemma sorted_nameable:
  assumes "distinct (map p_Namespace ps)"
  shows "nameable p_Namespace (sort_key p_Namespace ps)"
proof -
  have distinct: "distinct (map p_Namespace (sort_key p_Namespace ps))" using assms by (simp add: distinct_map)
  have "j = 0" if "j < length (sort_key p_Namespace ps)" "p_Namespace (sort_key p_Namespace ps ! j) = []" for j
  proof (rule ccontr)
    assume "j \<noteq> 0"
    then have "map p_Namespace (sort_key p_Namespace ps) ! 0 \<le> map p_Namespace (sort_key p_Namespace ps) ! j"
      using sorted_sort_key that(1) by (intro sorted_nth_mono) auto
    then have "map p_Namespace (sort_key p_Namespace ps) ! 0 = map p_Namespace (sort_key p_Namespace ps) ! j"
      using that by (cases ps) auto
    moreover have "0 < length ps" using that(1) by (cases ps) simp_all
    ultimately show False using nth_eq_iff_index_eq [OF distinct, of 0 j] that(1) \<open>j \<noteq> 0\<close> by simp
  qed
  with distinct show ?thesis by (simp add: nameable_def)
qed

lemma partitions_nameable:
  assumes "All C op s ''list'' [] = Inr ps" and "op_Request op = Some r" and "rq_Namespaces r = None" and "Namespaced C (Some s)"
  shows "nameable p_Namespace ps"
proof -
  obtain us b where us: "isPassthroughUnconstrained C op s ''list'' = (us, b)" by fastforce
  have "distinct (map p_Namespace us)"
    using us assms(4) ByVerb_Granted_wf [of "GetAccessListMap (Some s)" "''list''"]
    by (auto simp: isPassthroughUnconstrained_def Let_def mwf_def comp_def case_prod_beta split: if_splits)
  moreover have "ps = (if b then [passthrough_partition] else sort_key p_Namespace us)"
    using assms(1-3) us by (auto simp: isPassthrough_def elim!: All_Inr_cases)
  ultimately show ?thesis using sorted_nameable by (cases b) (auto simp: nameable_def [of _ "[x]" for x])
qed

text \<open>
  A cluster: every client of the schema's resource is answered the objects of its namespace, or all of them; objects have
  namespaces, and their names are those the API shows.
\<close>

definition cluster_objects :: "'w proxy \<Rightarrow> 'a schema_scheme \<Rightarrow> (client \<Rightarrow> string \<Rightarrow> obj list) \<Rightarrow> obj set \<Rightarrow> bool" where
  "cluster_objects px s pages objects \<longleftrightarrow>
     (\<forall>cl. cl_gvr cl = GVR (px_convert px) s \<longrightarrow>
        set (pages cl []) = {m \<in> objects. cl_Namespace cl = [] \<or> L_GetNamespace (px_lib px) m = cl_Namespace cl}) \<and>
     (\<forall>m \<in> objects. L_GetNamespace (px_lib px) m \<notin> {[], ''*''} \<and> L_GetName (px_lib px) (moveToUnderscore m) = L_GetName (px_lib px) m)"

text \<open>What the access list of the schema lets its user list, and the objects a request asks for.\<close>

definition may_list :: "'a schema_scheme \<Rightarrow> string \<Rightarrow> string \<Rightarrow> bool" where
  "may_list s ns nm \<longleftrightarrow>
     ByVerb_All (GetAccessListMap (Some s)) ''list'' \<or>
     visible (GetAccessListMap (Some s)) ''list'' ns all_star \<or> visible (GetAccessListMap (Some s)) ''list'' ns nm"

definition asked_for :: "lib \<Rightarrow> api_request \<Rightarrow> obj set \<Rightarrow> obj set" where
  "asked_for L op objects = {m \<in> objects. op_Namespace op = [] \<or> L_GetNamespace L m = op_Namespace op}"

definition has_user :: "api_request \<Rightarrow> bool" where
  "has_user op \<longleftrightarrow> (\<exists>r u. op_Request op = Some r \<and> rq_User r = Some u)"

lemma user_has_clients:
  assumes "has_user op" and "px_factory px = NewFactory imp"
  shows "\<exists>cl. table_client px op s ns = Inr cl \<and> cl_gvr cl = GVR (px_convert px) s \<and> cl_Namespace cl = ns"
    and "\<exists>cl. TableAdminClient (px_factory px) (px_convert px) op s ns = Inr cl \<and> cl_gvr cl = GVR (px_convert px) s \<and> cl_Namespace cl = ns"
  using assms
  by (auto simp: has_user_def table_client_def client_defs NewFactory_def newClient_def newDynamicClient_def setupConfig_def Let_def)

lemma partition_shows:
  assumes "cluster_objects px s pages objects" and "has_user op" and "px_factory px = NewFactory imp"
  shows "set (partition_items px op s pages p []) = (\<lambda>m. toAPI (px_lib px) s (Some m)) `
    (if p_Passthrough p then asked_for (px_lib px) op objects
     else {m \<in> objects. (p_Namespace p = [] \<or> L_GetNamespace (px_lib px) m = p_Namespace p) \<and>
       (p_All p \<or> L_GetName (px_lib px) m \<in> set (p_Names p))})"
proof -
  let ?ns = "if p_Passthrough p then op_Namespace op else p_Namespace p"
  have "\<exists>cl. partition_client px op s p = Inr cl \<and> cl_gvr cl = GVR (px_convert px) s \<and> cl_Namespace cl = ?ns"
    using user_has_clients [OF assms(2,3), where s = s] by (simp add: partition_client_def)
  then obtain cl where cl: "partition_client px op s p = Inr cl" "cl_gvr cl = GVR (px_convert px) s" "cl_Namespace cl = ?ns" by blast
  then have objs: "set (pages cl []) = {m \<in> objects. ?ns = [] \<or> L_GetNamespace (px_lib px) m = ?ns}"
    using assms(1) by (simp add: cluster_objects_def)
  have nm: "Object_Name (px_lib px) (toAPI (px_lib px) s (Some m)) = L_GetName (px_lib px) m"
    and ns: "L_GetNamespace (px_lib px) m \<noteq> ''*''" if "m \<in> objects" for m
    using assms(1) that by (simp_all add: cluster_objects_def Object_Name_def toAPI_def Let_def)
  show ?thesis
    using objs nm ns by (auto simp: partition_items_def cl(1) kept_def by_names_def asked_for_def image_iff split: if_splits)
qed

text \<open>Together the partitions of a user show what the grants select.\<close>

lemma granted_shows:
  assumes "\<forall>nm. \<not> visible a ''list'' [] nm"
  shows "(\<exists>k v. (k, v) \<in> set (ByVerb_Granted a ''list'') \<and> (k = [] \<or> ns = k) \<and> (res_All v \<or> nm \<in> set (res_Names v))) \<longleftrightarrow>
    visible a ''list'' ns all_star \<or> nm \<noteq> all_star \<and> visible a ''list'' ns nm"
proof
  assume "\<exists>k v. (k, v) \<in> set (ByVerb_Granted a ''list'') \<and> (k = [] \<or> ns = k) \<and> (res_All v \<or> nm \<in> set (res_Names v))"
  then obtain k v where kv: "(k, v) \<in> set (ByVerb_Granted a ''list'')" "k = [] \<or> ns = k" "res_All v \<or> nm \<in> set (res_Names v)" by blast
  from granted_visible [where a = a and verb = "''list''" and ns = k] granted_entry [OF kv(1)] kv(3)
  have "visible a ''list'' k all_star \<or> nm \<noteq> all_star \<and> visible a ''list'' k nm" by auto
  with kv(2) assms show "visible a ''list'' ns all_star \<or> nm \<noteq> all_star \<and> visible a ''list'' ns nm" by blast
next
  assume "visible a ''list'' ns all_star \<or> nm \<noteq> all_star \<and> visible a ''list'' ns nm"
  then obtain r where "(ns, r) \<in> set (ByVerb_Granted a ''list'')" "res_All r \<or> nm \<in> set (res_Names r)"
    using granted_entry_exists [of a "''list''" ns all_star] granted_entry_exists [of a "''list''" ns nm] by (metis (full_types))
  then show "\<exists>k v. (k, v) \<in> set (ByVerb_Granted a ''list'') \<and> (k = [] \<or> ns = k) \<and> (res_All v \<or> nm \<in> set (res_Names v))" by blast
qed

definition no_empty_namespace :: "'a schema_scheme \<Rightarrow> bool" where
  "no_empty_namespace s \<longleftrightarrow> (\<forall>nm. \<not> visible (GetAccessListMap (Some s)) ''list'' [] nm)"

text \<open>What a partition other than the one of the user's own client selects.\<close>

definition selects :: "lib \<Rightarrow> partition \<Rightarrow> obj \<Rightarrow> bool" where
  "selects L p m \<longleftrightarrow> (p_Namespace p = [] \<or> L_GetNamespace L m = p_Namespace p) \<and> (p_All p \<or> L_GetName L m \<in> set (p_Names p))"

lemma unconstrained_selects:
  assumes us: "isPassthroughUnconstrained C op s ''list'' = (us, b)" and "Namespaced C (Some s)" and "no_empty_namespace s"
  shows "(b \<longrightarrow> op_Namespace op = [] \<or> L_GetNamespace L m = op_Namespace op \<longrightarrow> may_list s (L_GetNamespace L m) (L_GetName L m)) \<and>
    (\<not> b \<longrightarrow> (\<exists>p \<in> set us. selects L p m) \<longleftrightarrow>
      (op_Namespace op = [] \<or> L_GetNamespace L m = op_Namespace op) \<and> may_list s (L_GetNamespace L m) (L_GetName L m))"
proof -
  let ?a = "GetAccessListMap (Some s)"
  note none = assms(3) [unfolded no_empty_namespace_def]
  consider (all) "ByVerb_All ?a ''list''"
    | (one) "\<not> ByVerb_All ?a ''list''" "op_Namespace op \<noteq> []"
    | (each) "\<not> ByVerb_All ?a ''list''" "op_Namespace op = []" by blast
  then show ?thesis
  proof cases
    case all
    with us show ?thesis by (simp add: isPassthroughUnconstrained_def may_list_def)
  next
    case one
    with us none show ?thesis
      by (auto simp: isPassthroughUnconstrained_def Let_def granted_visible selects_def may_list_def split: if_splits)
  next
    case each
    have us_eq: "us = map (\<lambda>(k, v). \<lparr>p_Namespace = k, p_All = res_All v, p_Passthrough = False, p_Names = res_Names v\<rparr>) (ByVerb_Granted ?a ''list'')"
      using us each assms(2) by (simp add: isPassthroughUnconstrained_def Let_def)
    have "(\<exists>p \<in> set us. selects L p m) \<longleftrightarrow>
        (\<exists>k v. (k, v) \<in> set (ByVerb_Granted ?a ''list'') \<and> (k = [] \<or> L_GetNamespace L m = k) \<and> (res_All v \<or> L_GetName L m \<in> set (res_Names v)))"
      unfolding us_eq set_map bex_simps selects_def by (auto simp: Bex_def; blast)
    moreover have "\<not> b" using us each assms(2) by (auto simp: isPassthroughUnconstrained_def Let_def)
    ultimately show ?thesis using granted_shows [OF none, of "L_GetNamespace L m" "L_GetName L m"] each by (auto simp: may_list_def)
  qed
qed

lemma partitions_show_grants:
  assumes "All (px_convert px) op s ''list'' [] = Inr ps" and "op_Request op = Some r" and "rq_Namespaces r = None"
    and "Namespaced (px_convert px) (Some s)" and "no_empty_namespace s"
    and cluster: "cluster_objects px s pages objects" and user: "has_user op" and fac: "px_factory px = NewFactory imp"
  shows "(\<Union>p \<in> set ps. set (partition_items px op s pages p [])) = (\<lambda>m. toAPI (px_lib px) s (Some m)) `
    {m \<in> asked_for (px_lib px) op objects. may_list s (L_GetNamespace (px_lib px) m) (L_GetName (px_lib px) m)}"
proof -
  let ?L = "px_lib px"
  obtain us b where us: "isPassthroughUnconstrained (px_convert px) op s ''list'' = (us, b)" by fastforce
  have ps: "ps = (if b then [passthrough_partition] else sort_key p_Namespace us)"
    using assms(1-3) us by (auto simp: isPassthrough_def elim!: All_Inr_cases)
  note sel = unconstrained_selects [OF us assms(4,5), where L = ?L]
  show ?thesis
  proof (cases b)
    case True
    with sel have "asked_for ?L op objects =
        {m \<in> asked_for ?L op objects. may_list s (L_GetNamespace ?L m) (L_GetName ?L m)}" by (auto simp: asked_for_def)
    with partition_shows [OF cluster user fac] True show ?thesis by (simp add: ps passthrough_partition_def)
  next
    case False
    have "set (partition_items px op s pages p []) = (\<lambda>m. toAPI ?L s (Some m)) ` {m \<in> objects. selects ?L p m}" if "p \<in> set us" for p
      using partition_shows [OF cluster user fac, of p] unconstrained_sound [OF us that] by (simp add: selects_def)
    then have "(\<Union>p \<in> set ps. set (partition_items px op s pages p [])) =
        (\<lambda>m. toAPI ?L s (Some m)) ` {m \<in> objects. \<exists>p \<in> set us. selects ?L p m}" using False by (auto simp: ps)
    moreover have "{m \<in> objects. \<exists>p \<in> set us. selects ?L p m} =
        {m \<in> asked_for ?L op objects. may_list s (L_GetNamespace ?L m) (L_GetName ?L m)}"
      using sel False by (auto simp: asked_for_def)
    ultimately show ?thesis by simp
  qed
qed

text \<open>A request for the list of a namespaced type from its beginning, by a user, without a constraint.\<close>

definition plain_list :: "convert \<Rightarrow> api_request \<Rightarrow> http_request \<Rightarrow> 'a schema_scheme \<Rightarrow> bool" where
  "plain_list C op r s \<longleftrightarrow> op_Request op = Some r \<and> rq_User r \<noteq> None \<and> rq_Namespaces r = None \<and>
     values_get (rq_Query r) ''continue'' = [] \<and> Namespaced C (Some s) \<and> no_empty_namespace s"

lemma plain_listD:
  assumes "plain_list C op r s"
  shows "op_Request op = Some r" and "has_user op" and "rq_Namespaces r = None" and "values_get (rq_Query r) ''continue'' = []"
    and "Namespaced C (Some s)" and "no_empty_namespace s"
  using assms by (auto simp: plain_list_def has_user_def)

lemma getLimit_pos: "getLimit r > 0"
  by (simp add: getLimit_def Let_def)

lemma token_ok_start: "token_ok nm lister limit ps empty_list_state"
  by (simp add: token_ok_def offset_ok_def empty_list_state_def)

lemma remaining_start: "remaining nm rest ps empty_list_state = concat (map (\<lambda>p. rest p []) ps)"
  by (auto simp: remaining_def left_of_def empty_list_state_def indexOrZero_def intro!: arg_cong [of _ _ concat])

lemma plain_start:
  assumes "plain_list C op r s" and "list_start decode C op r s = Inr (ps, state, limit)"
  shows "state = empty_list_state" and "limit = getLimit r" and "All C op s ''list'' [] = Inr ps" and "nameable p_Namespace ps"
proof -
  show ps: "All C op s ''list'' [] = Inr ps" using assms(2) by (auto simp: list_start_def split: sum.splits)
  show "state = empty_list_state" "limit = getLimit r"
    using assms(2) plain_listD(4) [OF assms(1)] ps by (simp_all add: list_start_def lister_List_def)
  show "nameable p_Namespace ps" using partitions_nameable [OF ps] plain_listD [OF assms(1)] by blast
qed

text \<open>
  A list is what the grants select. Over an API that pages as Kubernetes documents, a request for a list always has an outcome; and
  whenever it ends without an error and below its limit, and the request's context is not over before, then, however the goroutines interleaved, its objects are
  exactly those objects of the cluster, in the namespace asked for if one is, that the access list of the schema lets the
  user list: all of them, all of their namespace, or by name; and it says that there is no more.
\<close>

theorem list_shows_exactly_grants:
  assumes "px_factory px = NewFactory imp" and "plain_list (px_convert px) op r s"
    and "serves_pages px w (rq_Query r) (getLimit r) pages" and "cluster_objects px s pages objects"
  shows "(\<exists>res. store_List decode encode px w op s False res) \<and>
    (\<forall>l. store_List decode encode px w op s False (l, None) \<and> int (length (list_Objects l)) < getLimit r \<longrightarrow>
       list_Continue l = [] \<and>
       set (list_Objects l) = (\<lambda>m. toAPI (px_lib px) s (Some m)) `
         {m \<in> asked_for (px_lib px) op objects. may_list s (L_GetNamespace (px_lib px) m) (L_GetName (px_lib px) m)})"
proof (intro conjI allI impI exI)
  note plain = plain_listD [OF assms(2)]
  let ?lister = "listPartition px w op r s"
  have paged: "paged ?lister (partition_items px op s pages) (getLimit r)"
    using listPartition_paged [OF assms(3) plain(1)] getLimit_pos [of r] by simp
  note inv = run_inv_reachable [OF paged _ token_ok_start less_imp_le [OF getLimit_pos]]
  show "store_List decode encode px w op s False (store_List_seq decode encode px w op s)"
  proof (rule store_List_seq_outcome)
    fix r' ps state limit run
    assume "op_Request op = Some r'" and start: "list_start decode (px_convert px) op r' s = Inr (ps, state, limit)"
      and run: "(feeder_step p_Namespace (listPartition px w op r' s) limit ps state)\<^sup>*\<^sup>* (run_start p_Namespace limit ps state) run"
      "r_done run < started run" "r_err run = None"
    then have r': "r' = r" using plain(1) by simp
    note st = plain_start [OF assms(2) start [unfolded r']]
    obtain ahead :: "partition \<Rightarrow> string \<Rightarrow> nat" where "\<And>p cont revision l. ?lister p cont revision (getLimit r) = Inr l \<Longrightarrow>
        list_Continue l \<noteq> [] \<Longrightarrow> ahead p (list_Continue l) < ahead p cont" by (rule paged_ends [OF paged]) blast
    then show "worker_loop p_Namespace (listPartition px w op r' s) limit (ps ! r_done run) state (r_shared run) \<noteq> None"
      unfolding r' st(1,2) by (rule worker_returns_if_tokens_end)
  qed
  fix l
  assume "store_List decode encode px w op s False (l, None) \<and> int (length (list_Objects l)) < getLimit r"
  then have out: "store_List decode encode px w op s False (l, None)" and short: "int (length (list_Objects l)) < getLimit r" by auto
  then obtain ps state limit run where start: "list_start decode (px_convert px) op r s = Inr (ps, state, limit)"
    and run: "list_run px w op r s (ps, state, limit) False run" and l: "(l, None) = collect encode run"
    by (auto simp: store_List_def plain(1) split: sum.splits)
  note st = plain_start [OF assms(2) start]
  have steps: "(feeder_step p_Namespace ?lister (getLimit r) ps empty_list_state)\<^sup>*\<^sup>* (run_start p_Namespace (getLimit r) ps empty_list_state) run"
    using run by (simp add: list_run_def st(1,2))
  have fin: "finished run" using run l by (simp add: list_run_def collect_def flip: ended_finished)
  have objs: "list_Objects l = take (nat (getLimit r)) (concat (map (\<lambda>p. partition_items px op s pages p []) ps))"
    using page_is_prefix [OF paged st(4) token_ok_start getLimit_pos steps fin] l by (simp add: collect_def remaining_start)
  have "length (concat (map (\<lambda>p. partition_items px op s pages p []) ps)) < nat (getLimit r)"
    using short unfolding objs by (simp add: min_def split: if_splits)
  then have "list_Objects l = concat (map (\<lambda>p. partition_items px op s pages p []) ps)" using objs by simp
  then show "set (list_Objects l) = (\<lambda>m. toAPI (px_lib px) s (Some m)) `
      {m \<in> asked_for (px_lib px) op objects. may_list s (L_GetNamespace (px_lib px) m) (L_GetName (px_lib px) m)}"
    using partitions_show_grants [OF st(3) plain(1,3,5,6) assms(4) plain(2) assms(1)] by simp
  have "sh_state (r_shared run) = None"
  proof (cases "sh_state (r_shared run)")
    case (Some t)
    with inv [OF st(4) steps] fin have "int (length (concat (sh_result (r_shared run)))) = getLimit r"
      by (simp add: run_inv_def run_data_def finished_def)
    with short l show ?thesis by (simp add: collect_def)
  qed simp
  with l show "list_Continue l = []" by (simp add: collect_def lister_Continue_def)
qed

section \<open>A list always returns\<close>


lemma query_continue [simp]: "values_get (listPartition_query f values cont revision limit) ''continue'' = cont"
  by (simp add: listPartition_query_def values_get_def mget_mput mget_mdel Let_def)





section \<open>A cluster with three pods\<close>

text \<open>
  Two pods in namespace \<open>x\<close>, one in \<open>y\<close>, served one to a page; the user may list the pod \<open>a\<close> of namespace \<open>x\<close>.
\<close>

definition ex_pod :: "string \<Rightarrow> string \<Rightarrow> obj" where
  "ex_pod ns nm = [(''metadata'', JObj [(''namespace'', JStr ns), (''name'', JStr nm)])]"

definition ex_pods :: "obj list" where
  "ex_pods = [ex_pod ''x'' ''a'', ex_pod ''x'' ''b'', ex_pod ''y'' ''a'']"

definition ex_pages :: "client \<Rightarrow> string \<Rightarrow> obj list" where
  "ex_pages cl cont = drop (length cont) (filter (\<lambda>m. cl_Namespace cl = [] \<or> L_GetNamespace lib_std m = cl_Namespace cl) ex_pods)"

definition ex_list_call :: "client \<Rightarrow> url_values \<Rightarrow> nat \<Rightarrow> go_err + unstr_list" where
  "ex_list_call cl q w =
     (let cont = values_get q ''continue''; objs = ex_pages cl cont
      in Inr \<lparr>ul_Object = [], ul_Items = take 1 objs, ul_ResourceVersion = ''7'',
           ul_Continue = (if length objs \<le> 1 then [] else cont @ ''p'')\<rparr>)"

definition ex_cluster :: "nat proxy" where
  "ex_cluster = ex_proxy\<lparr>px_factory := NewFactory True, px_k8s := ex_k8s\<lparr>k_List := ex_list_call\<rparr>\<rparr>"

definition ex_http_request :: http_request where
  "ex_http_request = new_request\<lparr>rq_User := Some \<lparr>u_Name = ''alice'', u_UID = [], u_Groups = [], u_Extra = []\<rparr>\<rparr>"

lemma ex_user_request: "op_Request ex_user_request = Some ex_http_request"
  by (simp add: ex_user_request_def ex_http_request_def)

lemma op_Namespace_ex_user: "op_Namespace ex_user_request = []"
  by (simp add: ex_user_request_def empty_request_def)

definition ex_partition :: partition where
  "ex_partition = \<lparr>p_Namespace = ''x'', p_All = False, p_Passthrough = False, p_Names = [''a'']\<rparr>"

definition ex_listed :: "payload api_object" where
  "ex_listed = toAPI lib_std ex_watch_schema (Some (ex_pod ''x'' ''a''))"

definition ex_page :: "string \<Rightarrow> payload api_object list \<Rightarrow> payload api_object_list" where
  "ex_page cont objs = \<lparr>list_Revision = ''7'', list_Continue = cont, list_Objects = objs\<rparr>"

lemma ex_list_start:
  "list_start (\<lambda>_. Inl (OtherError [])) convert_std ex_user_request ex_http_request ex_watch_schema =
     Inr ([ex_partition], empty_list_state, 100000)"
  by code_simp

definition ex_client :: client where
  "ex_client = \<lparr>cl_config = \<lparr>cfg_Table = Table convert_std ex_watch_schema, cfg_Watch = False, cfg_Impersonate = None\<rparr>,
     cl_gvr = GVR convert_std ex_watch_schema, cl_Namespace = ''x''\<rparr>"

lemma ex_partition_client: "partition_client ex_cluster ex_user_request ex_watch_schema ex_partition = Inr ex_client"
  by code_simp

lemma ex_pages_calls:
  "ex_list_call ex_client (listPartition_query f values [] revision limit) w =
     Inr \<lparr>ul_Object = [], ul_Items = [ex_pod ''x'' ''a''], ul_ResourceVersion = ''7'', ul_Continue = ''p''\<rparr>"
  "ex_list_call ex_client (listPartition_query f values ''p'' revision limit) w =
     Inr \<lparr>ul_Object = [], ul_Items = [ex_pod ''x'' ''b''], ul_ResourceVersion = ''7'', ul_Continue = []\<rparr>"
proof -
  have "filter (\<lambda>m. cl_Namespace ex_client = [] \<or> L_GetNamespace lib_std m = cl_Namespace ex_client) ex_pods =
      [ex_pod ''x'' ''a'', ex_pod ''x'' ''b'']" by code_simp
  then show "ex_list_call ex_client (listPartition_query f values [] revision limit) w =
      Inr \<lparr>ul_Object = [], ul_Items = [ex_pod ''x'' ''a''], ul_ResourceVersion = ''7'', ul_Continue = ''p''\<rparr>"
    "ex_list_call ex_client (listPartition_query f values ''p'' revision limit) w =
      Inr \<lparr>ul_Object = [], ul_Items = [ex_pod ''x'' ''b''], ul_ResourceVersion = ''7'', ul_Continue = []\<rparr>"
    by (simp_all add: ex_list_call_def ex_pages_def Let_def)
qed

lemma ex_kept:
  "api_page lib_std ex_watch_schema ex_partition
     \<lparr>ul_Object = [], ul_Items = [ex_pod ''x'' ''a''], ul_ResourceVersion = ''7'', ul_Continue = ''p''\<rparr> = ex_page ''p'' [ex_listed]"
  "api_page lib_std ex_watch_schema ex_partition
     \<lparr>ul_Object = [], ul_Items = [ex_pod ''x'' ''b''], ul_ResourceVersion = ''7'', ul_Continue = []\<rparr> = ex_page [] []"
  by code_simp+

lemma ex_partition_pages:
  "listPartition ex_cluster 0 ex_user_request ex_http_request ex_watch_schema ex_partition [] revision 100000 = Inr (ex_page ''p'' [ex_listed])"
  "listPartition ex_cluster 0 ex_user_request ex_http_request ex_watch_schema ex_partition ''p'' revision 100000 = Inr (ex_page [] [])"
proof -
  have "k_decode (px_k8s ex_cluster) kind q = None" for kind q by (simp add: ex_cluster_def ex_proxy_def ex_k8s_def)
  note calls = listPartition_cases [of ex_user_request ex_http_request ex_cluster, OF ex_user_request this]
  have K: "k_List (px_k8s ex_cluster) = ex_list_call" "px_lib ex_cluster = lib_std" by (simp_all add: ex_cluster_def ex_proxy_def)
  have "p_Namespace ex_partition \<noteq> ''*''" by (simp add: ex_partition_def)
  then show "listPartition ex_cluster 0 ex_user_request ex_http_request ex_watch_schema ex_partition [] revision 100000 = Inr (ex_page ''p'' [ex_listed])"
    "listPartition ex_cluster 0 ex_user_request ex_http_request ex_watch_schema ex_partition ''p'' revision 100000 = Inr (ex_page [] [])"
    by (simp_all add: calls ex_partition_client K ex_pages_calls ex_kept)
qed

lemma ex_list_run:
  "sequential_run p_Namespace (listPartition ex_cluster 0 ex_user_request ex_http_request ex_watch_schema) 100000 [ex_partition] empty_list_state =
     \<lparr>r_feeder = Stopped 1, r_done = 1, r_shared = \<lparr>sh_capacity = 99999, sh_state = None, sh_revision = ''7'', sh_result = [[ex_listed], []]\<rparr>,
      r_err = None, r_cancelled = False\<rparr>"
proof -
  let ?lister = "listPartition ex_cluster 0 ex_user_request ex_http_request ex_watch_schema"
  have "worker_loop p_Namespace ?lister 100000 ex_partition empty_list_state (shared_start 100000) =
      Some (Inr \<lparr>sh_capacity = 99999, sh_state = None, sh_revision = ''7'', sh_result = [[ex_listed], []]\<rparr>)"
    by (subst worker_loop.simps, subst worker_loop.simps)
      (simp add: ex_partition_pages ex_partition_def [THEN arg_cong [where f = p_Namespace]] shared_start_def empty_list_state_def ex_page_def Let_def)
  then show ?thesis
    by (simp add: sequential_run_def next_run_def started_def run_start_def shared_start_def indexOrZero_def empty_list_state_def
        Let_def eval_nat_numeral)
qed

lemma ex_list_outcome:
  "store_List (\<lambda>_. Inl (OtherError [])) (\<lambda>_. Inr ''t'') ex_cluster 0 ex_user_request ex_watch_schema False (ex_page [] [ex_listed], None)"
proof -
  have "px_convert ex_cluster = convert_std" by (simp add: ex_cluster_def ex_proxy_def)
  moreover have "list_run ex_cluster 0 ex_user_request ex_http_request ex_watch_schema ([ex_partition], empty_list_state, 100000) False
      (sequential_run p_Namespace (listPartition ex_cluster 0 ex_user_request ex_http_request ex_watch_schema) 100000 [ex_partition] empty_list_state)"
    unfolding list_run_def using sequential_run_reachable by (fastforce simp: ex_list_run ended_def started_def)
  ultimately show ?thesis
    by (auto simp: store_List_def ex_user_request ex_list_start ex_list_run collect_def lister_Continue_def ex_page_def intro!: exI)
qed

text \<open>One pod of three is shown, and it was the admin client that read it, under the grant.\<close>

lemma list_reads_as_granted_witness:
  "read_as_granted ex_cluster 0 ex_user_request ex_watch_schema ex_listed"
proof (rule list_reads_as_granted [OF _ ex_list_outcome])
  show "px_factory ex_cluster = NewFactory True" by (simp add: ex_cluster_def)
qed (simp add: ex_page_def)

lemma ex_pages_next [simp]: "ex_pages cl (cont @ ''p'') = drop 1 (ex_pages cl cont)"
  by (simp add: ex_pages_def)

lemma ex_serves_pages: "limit \<ge> 1 \<Longrightarrow> serves_pages ex_cluster 0 values limit ex_pages"
  unfolding serves_pages_def
  by (intro conjI exI [of _ "\<lambda>cl cont. length (ex_pages cl cont)"])
    (auto simp: ex_cluster_def ex_proxy_def ex_k8s_def ex_list_call_def Let_def tableToList_def is_table_def append_take_drop_id
      split: if_splits)

lemma ex_cluster_objects: "cluster_objects ex_cluster s ex_pages (set ex_pods)"
  unfolding cluster_objects_def
  by (auto simp: ex_cluster_def ex_proxy_def ex_pages_def ex_pods_def ex_pod_def lib_std_def jstr_def moveToUnderscore_lookup ReservedFields_def)

lemma list_shows_exactly_grants_witness:
  "{ex_listed} = (\<lambda>m. toAPI lib_std ex_watch_schema (Some m)) `
     {m \<in> set ex_pods. may_list ex_watch_schema (L_GetNamespace lib_std m) (L_GetName lib_std m)}"
proof -
  have "plain_list convert_std ex_user_request ex_http_request ex_watch_schema"
  proof -
    have "GetAccessListMap (Some ex_watch_schema) = [(''watch'', [acc ''x'' ''a'']), (''list'', [acc ''x'' ''a''])]"
      "Namespaced convert_std (Some ex_watch_schema)" by code_simp+
    then show ?thesis
      by (simp add: plain_list_def ex_user_request ex_http_request_def new_request_def no_empty_namespace_def visible_def mgetd_def acc_def
          values_get_def)
  qed
  moreover have "px_factory ex_cluster = NewFactory True" "px_convert ex_cluster = convert_std" "px_lib ex_cluster = lib_std"
    by (simp_all add: ex_cluster_def ex_proxy_def)
  moreover have "asked_for lib_std ex_user_request (set ex_pods) = set ex_pods"
    by (simp add: asked_for_def ex_user_request_def empty_request_def)
  moreover have "int (length (list_Objects (ex_page [] [ex_listed]))) < getLimit ex_http_request" by code_simp
  ultimately show ?thesis
    using list_shows_exactly_grants [of ex_cluster True ex_user_request ex_http_request ex_watch_schema 0 ex_pages "set ex_pods",
        OF _ _ ex_serves_pages ex_cluster_objects] ex_list_outcome getLimit_pos [of ex_http_request]
    by (fastforce simp: ex_page_def)
qed


text \<open>A user who may list everything gets the three pods from the passthrough partition, in three pages.\<close>

lemma ex_whole_pages:
  assumes "cl_Namespace cl = []"
  shows "ex_list_call cl (listPartition_query f values [] revision limit) w =
      Inr \<lparr>ul_Object = [], ul_Items = [ex_pod ''x'' ''a''], ul_ResourceVersion = ''7'', ul_Continue = ''p''\<rparr>"
    "ex_list_call cl (listPartition_query f values ''p'' revision limit) w =
      Inr \<lparr>ul_Object = [], ul_Items = [ex_pod ''x'' ''b''], ul_ResourceVersion = ''7'', ul_Continue = ''pp''\<rparr>"
    "ex_list_call cl (listPartition_query f values ''pp'' revision limit) w =
      Inr \<lparr>ul_Object = [], ul_Items = [ex_pod ''y'' ''a''], ul_ResourceVersion = ''7'', ul_Continue = []\<rparr>"
  using assms by (simp_all add: ex_list_call_def ex_pages_def ex_pods_def Let_def)

lemma ex_whole_run:
  "sequential_run p_Namespace (listPartition ex_cluster 0 ex_user_request ex_http_request s) 100000 [passthrough_partition] empty_list_state =
     \<lparr>r_feeder = Stopped 1, r_done = 1, r_shared = \<lparr>sh_capacity = 99997, sh_state = None, sh_revision = ''7'',
        sh_result = map (\<lambda>m. [toAPI lib_std s (Some m)]) ex_pods\<rparr>, r_err = None, r_cancelled = False\<rparr>"
proof -
  let ?lister = "listPartition ex_cluster 0 ex_user_request ex_http_request s"
  obtain cl where cl: "partition_client ex_cluster ex_user_request s passthrough_partition = Inr cl" "cl_Namespace cl = []"
    using user_has_clients(1) [of ex_user_request ex_cluster True s "[]"]
    by (auto simp: has_user_def ex_user_request ex_http_request_def ex_cluster_def partition_client_def passthrough_partition_def
        op_Namespace_ex_user)
  have "k_decode (px_k8s ex_cluster) kind q = None" for kind q by (simp add: ex_cluster_def ex_proxy_def ex_k8s_def)
  note calls = listPartition_cases [of ex_user_request ex_http_request ex_cluster, OF ex_user_request this]
  have K: "k_List (px_k8s ex_cluster) = ex_list_call" "px_lib ex_cluster = lib_std" by (simp_all add: ex_cluster_def ex_proxy_def)
  have kept: "kept lib_std passthrough_partition x" "\<not> by_names passthrough_partition" for x
    by (simp_all add: kept_def by_names_def passthrough_partition_def)
  have page: "?lister passthrough_partition [] revision 100000 = Inr (ex_page ''p'' [toAPI lib_std s (Some (ex_pod ''x'' ''a''))])"
    "?lister passthrough_partition ''p'' revision 100000 = Inr (ex_page ''pp'' [toAPI lib_std s (Some (ex_pod ''x'' ''b''))])"
    "?lister passthrough_partition ''pp'' revision 100000 = Inr (ex_page [] [toAPI lib_std s (Some (ex_pod ''y'' ''a''))])" for revision
    by (simp_all add: calls cl(1) K ex_whole_pages [OF cl(2)] api_page_def kept tableToList_def is_table_def ex_page_def)
  have "worker_loop p_Namespace ?lister 100000 passthrough_partition empty_list_state (shared_start 100000) =
      Some (Inr \<lparr>sh_capacity = 99997, sh_state = None, sh_revision = ''7'', sh_result = map (\<lambda>m. [toAPI lib_std s (Some m)]) ex_pods\<rparr>)"
    by (subst worker_loop.simps, subst worker_loop.simps, subst worker_loop.simps)
      (simp add: page passthrough_partition_def [THEN arg_cong [where f = p_Namespace]] shared_start_def empty_list_state_def ex_page_def ex_pods_def Let_def)
  then show ?thesis
    by (simp add: sequential_run_def next_run_def started_def run_start_def shared_start_def indexOrZero_def empty_list_state_def
        Let_def eval_nat_numeral)
qed

lemma ex_whole_list:
  assumes "ByVerb_All (GetAccessListMap (Some s)) ''list''"
  shows "store_List (\<lambda>_. Inl (OtherError [])) (\<lambda>_. Inr ''t'') ex_cluster 0 ex_user_request s False
    (ex_page [] (map (\<lambda>m. toAPI lib_std s (Some m)) ex_pods), None)"
proof -
  have limit: "getLimit ex_http_request = 100000" by code_simp
  have start: "list_start (\<lambda>_. Inl (OtherError [])) (px_convert ex_cluster) ex_user_request ex_http_request s =
      Inr ([passthrough_partition], empty_list_state, 100000)"
    using assms limit
    by (simp add: list_start_def All_def ex_user_request isPassthrough_def isPassthroughUnconstrained_def lister_List_def
        ex_http_request_def new_request_def values_get_def mgetd_def)
  have "list_run ex_cluster 0 ex_user_request ex_http_request s ([passthrough_partition], empty_list_state, 100000) False
      (sequential_run p_Namespace (listPartition ex_cluster 0 ex_user_request ex_http_request s) 100000 [passthrough_partition] empty_list_state)"
    unfolding list_run_def using sequential_run_reachable by (fastforce simp: ex_whole_run ended_def started_def)
  moreover have "concat (map (\<lambda>m. [toAPI lib_std s (Some m)]) ex_pods) = map (\<lambda>m. toAPI lib_std s (Some m)) ex_pods"
    by (simp add: ex_pods_def)
  ultimately show ?thesis
    by (auto simp: store_List_def ex_user_request start ex_whole_run collect_def lister_Continue_def ex_page_def intro!: exI)
qed

end
