(* ===== verification/Served_Reads.thy ===== *)
theory Served_Reads
  imports Served_Requests Listing
begin

section \<open>What a request lets its user see\<close>

text \<open>
  The other half of \<open>Served_Requests\<close>: not what a request changes but what its answer shows. An object of the cluster can be in
  an answer only because Kubernetes gave it to a client of the user, or because the server's own client listed it under a grant for its name.
  Nothing is defined here that the repository has.
\<close>

text \<open>An object of the cluster, as opposed to schemas, errors and other values of the server itself.\<close>

definition unstructured :: "payload api_object \<Rightarrow> bool" where
  "unstructured x \<longleftrightarrow> (\<exists>m. obj_Object x = Some (Unstr m))"

fun shown_by :: "answer \<Rightarrow> payload api_object set" where
  "shown_by (Body_object _ _ x) = {x}"
| "shown_by (Body_list _ _ l) = set (list_Objects l)"
| "shown_by _ = {}"




lemma rowToObject_None [simp]: "rowToObject L None = None"
  by (simp add: rowToObject_def)

lemma empty_not_unstructured [simp]: "\<not> unstructured empty_object"
  by (simp add: unstructured_def empty_object_def)







section \<open>Stores, handlers, requests\<close>




text \<open>Handlers of the schemas that neither return nor answer objects of the cluster.\<close>

definition answers_private :: "'w rstate \<Rightarrow> 'w rstate \<Rightarrow> bool" where
  "answers_private st st' \<longleftrightarrow> (\<forall>a \<in> set (rs_out st'). a \<in> set (rs_out st) \<or> (\<forall>x \<in> shown_by a. \<not> unstructured x))"











text \<open>Whatever is answered on the way to the result shows nothing of the cluster.\<close>

lemma answers_private_refl [simp]: "rs_out st' = rs_out st \<Longrightarrow> answers_private st st'"
  by (simp add: answers_private_def)

lemma answers_private_add: "rs_out st' = rs_out st @ [a] \<Longrightarrow> (\<And>x. x \<in> shown_by a \<Longrightarrow> \<not> unstructured x) \<Longrightarrow> answers_private st st'"
  by (auto simp: answers_private_def)

lemma serve_private [simp]: "answers_private st (serve E h op st)"
  by (rule answers_private_add [where a = "Handled h"]) simp_all













section \<open>A concrete read\<close>

definition ex_readable :: api_schema where
  "ex_readable = (ex_schema ''pod'' ''pods'')\<lparr>ResourceMethods := [MethodGet], Store := Some 1\<rparr>"

definition ex_readables :: api_schemas where
  "ex_readables = addToIndex ex_readable (EmptyAPISchemas\<lparr>Schemas := [(''pod'', ex_readable)]\<rparr>)"








lemma ex_readable:
  "LookupSchema ex_readables ''pods'' = Some ex_readable"
  "Namespaced convert_std (Some ex_readable) = False" "ID ex_readable = ''pod''" "ResourceMethods ex_readable = [MethodGet]"
  "Store ex_readable = Some 1" "ByIDHandler ex_readable = None" "RequestModifier ex_readable = None"
  "Schemas ex_readables = [(''pod'', ex_readable)]" "CanGet ex_readable = None"
  by code_simp+





end
