(* ===== verification/Partition_Watch.thy ===== *)
theory Partition_Watch
  imports Rbac_Partition "HOL-Library.Sublist"
begin

section \<open>Watching through the partitioned store: Store.Watch of pkg/stores/partition/store.go\<close>

text \<open>
  \<open>Store.Watch\<close> starts a goroutine for each partition. Each opens the watch of its partition and passes its events on to one unbuffered
  channel; whichever is done first cancels the context they share. One more goroutine waits for the cancel and for all of them,
  and then closes the channel. What a goroutine returns is dropped.

  The state is that of the goroutines, the request they share, the context and the channel; a step is one goroutine's, or the end of the
  request. The events of a watch are the list its channel delivers until it is closed; after the cancel the
  source may close at any event. The receiver is always ready: the subscriptions read until the channel is closed. A send on a closed channel is
  the panic it is in Go.
\<close>

type_synonym events = "payload api_event list"

datatype position =
    Waiting
  | Named
  | Streaming events
  | Sending "payload api_event" events
  | Ended "go_err option"

record pwatch =
  pw_Namespace :: string
  pw_goroutines :: "(partition \<times> position) list"
  pw_cancelled :: bool
  pw_closed :: bool
  pw_panic :: bool
  pw_sent :: "(nat \<times> payload api_event) list"

text \<open>The watch that a goroutine opens: the namespace is that of the shared request at the time.\<close>

definition open_watch ::
  "'w proxy \<Rightarrow> 'w \<Rightarrow> api_request \<Rightarrow> 'a schema_scheme \<Rightarrow> watch_request \<Rightarrow> partition \<Rightarrow> string \<Rightarrow> go_err + events" where
  "open_watch px w op s wr p ns =
     (let op = op\<lparr>op_Namespace := ns\<rparr>
      in if p_Passthrough p \<or> p_All p then proxy_Watch px w op s wr else WatchNames px w op s wr (p_Names p))"

definition pw_at :: "pwatch \<Rightarrow> nat \<Rightarrow> partition \<Rightarrow> position \<Rightarrow> bool" where
  "pw_at st i p g \<longleftrightarrow> i < length (pw_goroutines st) \<and> pw_goroutines st ! i = (p, g)"

definition pw_go :: "nat \<Rightarrow> partition \<Rightarrow> position \<Rightarrow> pwatch \<Rightarrow> pwatch" where
  "pw_go i p g st = st\<lparr>pw_goroutines := (pw_goroutines st)[i := (p, g)]\<rparr>"

definition all_ended :: "pwatch \<Rightarrow> bool" where
  "all_ended st \<longleftrightarrow> (\<forall>(p, g) \<in> set (pw_goroutines st). \<exists>err. g = Ended err)"

inductive pw_step :: "(partition \<Rightarrow> string \<Rightarrow> go_err + events) \<Rightarrow> pwatch \<Rightarrow> pwatch \<Rightarrow> bool" for opn where
  Assign: "pw_at st i p Waiting \<Longrightarrow> \<not> p_Passthrough p \<Longrightarrow>
      pw_step opn st (pw_go i p Named (st\<lparr>pw_Namespace := p_Namespace p\<rparr>))"
| Open: "pw_at st i p g \<Longrightarrow> g = Named \<or> g = Waiting \<and> p_Passthrough p \<Longrightarrow> opn p (pw_Namespace st) = Inr es \<Longrightarrow>
      pw_step opn st (pw_go i p (Streaming es) st)"
| Open_failed: "pw_at st i p g \<Longrightarrow> g = Named \<or> g = Waiting \<and> p_Passthrough p \<Longrightarrow> opn p (pw_Namespace st) = Inl err \<Longrightarrow>
      pw_step opn st (pw_go i p (Ended (Some err)) (st\<lparr>pw_cancelled := True\<rparr>))"
| Receive: "pw_at st i p (Streaming (e # es)) \<Longrightarrow> pw_step opn st (pw_go i p (Sending e es) st)"
| Send: "pw_at st i p (Sending e es) \<Longrightarrow> \<not> pw_closed st \<Longrightarrow>
      pw_step opn st (pw_go i p (Streaming es) (st\<lparr>pw_sent := pw_sent st @ [(i, e)]\<rparr>))"
| Send_closed: "pw_at st i p (Sending e es) \<Longrightarrow> pw_closed st \<Longrightarrow> pw_step opn st (st\<lparr>pw_panic := True\<rparr>)"
| Source_ends: "pw_at st i p (Streaming es) \<Longrightarrow> es = [] \<or> pw_cancelled st \<Longrightarrow>
      pw_step opn st (pw_go i p (Ended None) (st\<lparr>pw_cancelled := True\<rparr>))"
| Close: "pw_cancelled st \<Longrightarrow> all_ended st \<Longrightarrow> \<not> pw_closed st \<Longrightarrow> pw_step opn st (st\<lparr>pw_closed := True\<rparr>)"
| Request_ends: "pw_step opn st (st\<lparr>pw_cancelled := True\<rparr>)"

inductive_cases pw_stepE: "pw_step opn st st'"

definition pw_start :: "string \<Rightarrow> partition list \<Rightarrow> pwatch" where
  "pw_start ns ps = \<lparr>pw_Namespace = ns, pw_goroutines = map (\<lambda>p. (p, Waiting)) ps, pw_cancelled = False, pw_closed = False,
     pw_panic = False, pw_sent = []\<rparr>"

definition store_Watch :: "convert \<Rightarrow> api_request \<Rightarrow> 'a schema_scheme \<Rightarrow> watch_request \<Rightarrow> go_err + pwatch" where
  "store_Watch C op s wr =
     (case All C op s ''watch'' (wr_ID wr) of
        Inl err \<Rightarrow> Inl err
      | Inr ps \<Rightarrow> Inr (pw_start (op_Namespace op) ps))"

section \<open>What the channel delivers\<close>

definition sent_by :: "pwatch \<Rightarrow> nat \<Rightarrow> events" where
  "sent_by st i = map snd (filter (\<lambda>x. fst x = i) (pw_sent st))"

text \<open>A namespace that the shared request can have, and the progress of one goroutine.\<close>

definition pw_namespaces :: "string \<Rightarrow> partition list \<Rightarrow> string set" where
  "pw_namespaces ns ps = insert ns (p_Namespace ` set ps)"

definition progress :: "(partition \<Rightarrow> string \<Rightarrow> go_err + events) \<Rightarrow> string set \<Rightarrow> partition \<Rightarrow> position \<Rightarrow> events \<Rightarrow> bool" where
  "progress opn nss p g sent \<longleftrightarrow>
     (case g of
        Waiting \<Rightarrow> sent = []
      | Named \<Rightarrow> sent = [] \<and> p_Namespace p \<in> nss
      | Streaming es \<Rightarrow> \<exists>ns \<in> nss. opn p ns = Inr (sent @ es)
      | Sending e es \<Rightarrow> \<exists>ns \<in> nss. opn p ns = Inr (sent @ e # es)
      | Ended _ \<Rightarrow> sent = [] \<or> (\<exists>ns \<in> nss. \<exists>es. opn p ns = Inr (sent @ es)))"

definition pw_inv :: "(partition \<Rightarrow> string \<Rightarrow> go_err + events) \<Rightarrow> string \<Rightarrow> partition list \<Rightarrow> pwatch \<Rightarrow> bool" where
  "pw_inv opn ns ps st \<longleftrightarrow>
     \<not> pw_panic st \<and> map fst (pw_goroutines st) = ps \<and> pw_Namespace st \<in> pw_namespaces ns ps \<and>
     (pw_closed st \<longrightarrow> pw_cancelled st \<and> all_ended st) \<and>
     (\<forall>i p err. pw_at st i p (Ended err) \<longrightarrow> pw_cancelled st) \<and>
     (\<forall>x \<in> set (pw_sent st). fst x < length ps) \<and>
     (\<forall>i p g. pw_at st i p g \<longrightarrow> progress opn (pw_namespaces ns ps) p g (sent_by st i))"

lemma pw_at_go: "pw_at (pw_go i p g st) j q h \<longleftrightarrow>
    (if i = j then i < length (pw_goroutines st) \<and> q = p \<and> h = g else pw_at st j q h)"
  by (auto simp: pw_at_def pw_go_def nth_list_update)

lemma pw_go_fields [simp]:
  "pw_Namespace (pw_go i p g st) = pw_Namespace st" "pw_cancelled (pw_go i p g st) = pw_cancelled st"
  "pw_closed (pw_go i p g st) = pw_closed st" "pw_panic (pw_go i p g st) = pw_panic st" "pw_sent (pw_go i p g st) = pw_sent st"
  "sent_by (pw_go i p g st) = sent_by st"
  by (simp_all add: pw_go_def sent_by_def fun_eq_iff)

lemma pw_at_update [simp]:
  "pw_at (st\<lparr>pw_Namespace := ns\<rparr>) = pw_at st" "pw_at (st\<lparr>pw_cancelled := b\<rparr>) = pw_at st" "pw_at (st\<lparr>pw_closed := b\<rparr>) = pw_at st"
  "pw_at (st\<lparr>pw_sent := ss\<rparr>) = pw_at st"
  by (simp_all add: pw_at_def fun_eq_iff)

lemma sent_by_update [simp]:
  "sent_by (st\<lparr>pw_Namespace := ns\<rparr>) = sent_by st" "sent_by (st\<lparr>pw_cancelled := b\<rparr>) = sent_by st" "sent_by (st\<lparr>pw_closed := b\<rparr>) = sent_by st"
  by (simp_all add: sent_by_def fun_eq_iff)

lemma sent_by_more: "sent_by (st\<lparr>pw_sent := pw_sent st @ [(i, e)]\<rparr>) j = (if i = j then sent_by st j @ [e] else sent_by st j)"
  by (simp add: sent_by_def)

lemma pw_at_partition: "pw_at st i p g \<Longrightarrow> map fst (pw_goroutines (pw_go i p h st)) = map fst (pw_goroutines st)"
  by (simp add: pw_at_def pw_go_def map_update list_update_same_conv)

lemma goroutines_at: "(p, g) \<in> set (pw_goroutines st) \<longleftrightarrow> (\<exists>i. pw_at st i p g)"
  by (auto simp: pw_at_def in_set_conv_nth)

lemma all_ended_at: "all_ended st \<longleftrightarrow> (\<forall>i p g. pw_at st i p g \<longrightarrow> (\<exists>err. g = Ended err))"
  unfolding all_ended_def using goroutines_at by blast

lemma pw_invD:
  assumes "pw_inv opn ns ps st"
  shows "\<not> pw_panic st" and "map fst (pw_goroutines st) = ps" and "pw_Namespace st \<in> pw_namespaces ns ps"
    and "pw_closed st \<Longrightarrow> pw_cancelled st" and "pw_closed st \<Longrightarrow> pw_at st i p g \<Longrightarrow> \<exists>err. g = Ended err"
    and "pw_at st i p (Ended err) \<Longrightarrow> pw_cancelled st" and "x \<in> set (pw_sent st) \<Longrightarrow> fst x < length ps"
    and "pw_at st i p g \<Longrightarrow> progress opn (pw_namespaces ns ps) p g (sent_by st i)"
  using assms unfolding pw_inv_def all_ended_at by blast+

lemma pw_at_namespace:
  assumes "pw_inv opn ns ps st" and "pw_at st i p g"
  shows "p_Namespace p \<in> pw_namespaces ns ps" and "i < length ps"
proof -
  have "(p, g) \<in> set (pw_goroutines st)" and i: "i < length (pw_goroutines st)" using assms(2) goroutines_at by (auto simp: pw_at_def)
  then have "p \<in> set (map fst (pw_goroutines st))" by force
  then show "p_Namespace p \<in> pw_namespaces ns ps" using pw_invD(2) [OF assms(1)] by (simp add: pw_namespaces_def)
  show "i < length ps" using i pw_invD(2) [OF assms(1)] by auto
qed

text \<open>A step of one goroutine keeps the invariant when it keeps its own progress; the channel must be open.\<close>

lemma pw_inv_go:
  assumes inv: "pw_inv opn ns ps st" and at_i: "pw_at st i p g" and g: "\<And>err. g \<noteq> Ended err"
    and same: "pw_goroutines st' = pw_goroutines st" "pw_closed st' = pw_closed st" "\<not> pw_panic st'"
    and nss: "pw_Namespace st' \<in> pw_namespaces ns ps"
    and cancel: "pw_cancelled st \<Longrightarrow> pw_cancelled st'" "\<And>err. h = Ended err \<Longrightarrow> pw_cancelled st'"
    and sent: "\<And>x. x \<in> set (pw_sent st') \<Longrightarrow> x \<in> set (pw_sent st) \<or> fst x = i" "\<And>j. j \<noteq> i \<Longrightarrow> sent_by st' j = sent_by st j"
    and own: "progress opn (pw_namespaces ns ps) p h (sent_by st' i)"
  shows "pw_inv opn ns ps (pw_go i p h st')"
proof -
  have at: "pw_at st' = pw_at st" using same(1) by (simp add: pw_at_def fun_eq_iff)
  have closed: "\<not> pw_closed st'" using pw_invD(5) [OF inv _ at_i] g same(2) by blast
  have parts: "map fst (pw_goroutines (pw_go i p h st')) = ps"
    using pw_at_partition [of st' i p g] at_i at same(1) pw_invD(2) [OF inv] by simp
  have "pw_at (pw_go i p h st') j q k \<Longrightarrow> progress opn (pw_namespaces ns ps) q k (sent_by st' j)" for j q k
    using pw_invD(8) [OF inv, of j q k] own sent(2) [of j] by (auto simp: pw_at_go at split: if_splits)
  moreover have "pw_at (pw_go i p h st') j q (Ended err) \<Longrightarrow> pw_cancelled st'" for j q err
    using pw_invD(6) [OF inv, of j q err] cancel by (auto simp: pw_at_go at split: if_splits)
  moreover have "x \<in> set (pw_sent st') \<Longrightarrow> fst x < length ps" for x
    using sent(1) [of x] pw_invD(7) [OF inv, of x] pw_at_namespace(2) [OF inv at_i] by auto
  ultimately show ?thesis unfolding pw_inv_def using same(3) nss parts closed by simp
qed

lemma pw_inv_step: "pw_step opn st st' \<Longrightarrow> pw_inv opn ns ps st \<Longrightarrow> pw_inv opn ns ps st'"
proof (induction rule: pw_step.induct)
  case (Assign st i p)
  note d = pw_invD [OF Assign(3)]
  show ?case
    by (rule pw_inv_go [OF Assign(3,1)]) (use d(1,3) d(8) [OF Assign(1)] pw_at_namespace [OF Assign(3,1)] in \<open>auto simp: progress_def\<close>)
next
  case (Open st i p g es)
  note d = pw_invD [OF Open(4)]
  have "sent_by st i = []" using d(8) [OF Open(1)] Open(2) by (auto simp: progress_def)
  with Open(2,3) d(1,3) show ?case by (intro pw_inv_go [OF Open(4,1)]) (auto simp: progress_def)
next
  case (Open_failed st i p g err)
  note d = pw_invD [OF Open_failed(4)]
  have "sent_by st i = []" using d(8) [OF Open_failed(1)] Open_failed(2) by (auto simp: progress_def)
  with Open_failed(2) d(1,3) show ?case by (intro pw_inv_go [OF Open_failed(4,1)]) (auto simp: progress_def)
next
  case (Receive st i p e es)
  note d = pw_invD [OF Receive(2)]
  show ?case by (rule pw_inv_go [OF Receive(2,1)]) (use d(1,3) d(8) [OF Receive(1)] in \<open>auto simp: progress_def\<close>)
next
  case (Send st i p e es)
  note d = pw_invD [OF Send(3)]
  have "progress opn (pw_namespaces ns ps) p (Streaming es) (sent_by st i @ [e])" using d(8) [OF Send(1)] by (simp add: progress_def)
  with d(1,3) show ?case by (intro pw_inv_go [OF Send(3,1)]) (auto simp: sent_by_more)
next
  case (Send_closed st i p e es)
  with pw_invD(5) [OF Send_closed(3) Send_closed(2,1)] show ?case by simp
next
  case (Source_ends st i p es)
  note d = pw_invD [OF Source_ends(3)]
  have "progress opn (pw_namespaces ns ps) p (Ended None) (sent_by st i)" using d(8) [OF Source_ends(1)] by (auto simp: progress_def)
  with d(1,3) show ?case by (intro pw_inv_go [OF Source_ends(3,1)]) auto
next
  case (Close st)
  then show ?case by (simp add: pw_inv_def all_ended_def)
next
  case (Request_ends st)
  then show ?case by (auto simp: pw_inv_def all_ended_def)
qed

lemma pw_inv_start: "pw_inv opn ns ps (pw_start ns ps)"
  by (auto simp: pw_inv_def pw_start_def pw_namespaces_def comp_def pw_at_def progress_def sent_by_def)

lemma pw_reachable: "(pw_step opn)\<^sup>*\<^sup>* (pw_start ns ps) st \<Longrightarrow> pw_inv opn ns ps st"
  by (induction rule: rtranclp_induct) (auto intro: pw_inv_start pw_inv_step)

subsection \<open>A cancelled watch can be closed\<close>

definition pos_left :: "position \<Rightarrow> nat" where
  "pos_left g = (case g of Waiting \<Rightarrow> 4 | Named \<Rightarrow> 3 | Sending e es \<Rightarrow> 3 | Streaming es \<Rightarrow> 2 | Ended err \<Rightarrow> 0)"

definition pw_left :: "pwatch \<Rightarrow> nat" where
  "pw_left st = sum_list (map (\<lambda>(p, g). pos_left g) (pw_goroutines st))"

lemma pw_left_go:
  assumes "pw_at st i p g" and "pos_left h < pos_left g"
  shows "pw_left (pw_go i p h st) < pw_left st"
proof -
  have i: "i < length (map (\<lambda>(p, g). pos_left g) (pw_goroutines st))" and g: "map (\<lambda>(p, g). pos_left g) (pw_goroutines st) ! i = pos_left g"
    using assms(1) by (auto simp: pw_at_def)
  have "pos_left g \<le> pw_left st" unfolding pw_left_def g [symmetric] by (rule elem_le_sum_list [OF i])
  moreover have "pw_left (pw_go i p h st) = pw_left st + pos_left h - pos_left g"
    unfolding pw_left_def pw_go_def by (simp add: map_update sum_list_update [OF i] g [symmetric])
  ultimately show ?thesis using assms(2) by linarith
qed

lemma pw_left_update [simp]:
  "pw_left (st\<lparr>pw_Namespace := ns\<rparr>) = pw_left st" "pw_left (st\<lparr>pw_cancelled := b\<rparr>) = pw_left st" "pw_left (st\<lparr>pw_sent := ss\<rparr>) = pw_left st"
  by (simp_all add: pw_left_def)

lemma pw_go_cong: "pw_left (pw_go i p h (st\<lparr>pw_Namespace := ns\<rparr>)) = pw_left (pw_go i p h st)"
    "pw_left (pw_go i p h (st\<lparr>pw_cancelled := b\<rparr>)) = pw_left (pw_go i p h st)"
    "pw_left (pw_go i p h (st\<lparr>pw_sent := ss\<rparr>)) = pw_left (pw_go i p h st)"
  by (simp_all add: pw_go_def pw_left_def)

lemma pw_progress:
  assumes "pw_cancelled st" and "\<not> pw_closed st" and "\<not> all_ended st"
  shows "\<exists>st'. pw_step opn st st' \<and> pw_left st' < pw_left st \<and> pw_cancelled st' \<and> \<not> pw_closed st'"
proof -
  obtain i p g where at: "pw_at st i p g" and g: "\<forall>err. g \<noteq> Ended err" using assms(3) by (auto simp: all_ended_at)
  have left: "pw_left (pw_go i p h st) < pw_left st" if "pos_left h < pos_left g" for h by (rule pw_left_go [OF at that])
  have opens: ?thesis if "g = Named \<or> g = Waiting \<and> p_Passthrough p"
  proof (cases "opn p (pw_Namespace st)")
    case (Inl err)
    from pw_step.Open_failed [where opn = opn, OF at that Inl] left [of "Ended (Some err)"] that assms(1,2) show ?thesis
      by (intro exI [of _ "pw_go i p (Ended (Some err)) (st\<lparr>pw_cancelled := True\<rparr>)"]) (auto simp: pos_left_def pw_go_cong)
  next
    case (Inr es)
    from pw_step.Open [where opn = opn, OF at that Inr] left [of "Streaming es"] that assms(1,2) show ?thesis
      by (intro exI [of _ "pw_go i p (Streaming es) st"]) (auto simp: pos_left_def)
  qed
  show ?thesis
  proof (cases g)
    case Waiting
    with opens pw_step.Assign [of st i p opn] at left [of Named] assms(1,2) show ?thesis
      by (cases "p_Passthrough p") (auto simp: pos_left_def pw_go_cong intro!: exI [of _ "pw_go i p Named (st\<lparr>pw_Namespace := p_Namespace p\<rparr>)"])
  next
    case (Streaming es)
    with pw_step.Source_ends [of st i p es opn] at left [of "Ended None"] assms(1,2) show ?thesis
      by (auto simp: pos_left_def pw_go_cong intro!: exI [of _ "pw_go i p (Ended None) (st\<lparr>pw_cancelled := True\<rparr>)"])
  next
    case (Sending e es)
    with pw_step.Send [of st i p e es opn] at left [of "Streaming es"] assms(1,2) show ?thesis
      by (auto simp: pos_left_def pw_go_cong intro!: exI [of _ "pw_go i p (Streaming es) (st\<lparr>pw_sent := pw_sent st @ [(i, e)]\<rparr>)"])
  qed (use opens g in auto)
qed

lemma pw_can_close: "pw_cancelled st \<Longrightarrow> \<exists>st'. (pw_step opn)\<^sup>*\<^sup>* st st' \<and> pw_closed st'"
proof (induction "pw_left st" arbitrary: st rule: less_induct)
  case less
  show ?case
  proof (cases "pw_closed st \<or> all_ended st")
    case True
    then have "pw_closed st \<or> pw_step opn st (st\<lparr>pw_closed := True\<rparr>)" using less.prems pw_step.Close by blast
    then show ?thesis by (metis (no_types, lifting) pwatch.select_convs(4) pwatch.surjective pwatch.update_convs(4) r_into_rtranclp rtranclp.rtrancl_refl)
  next
    case False
    then obtain st1 where st1: "pw_step opn st st1" "pw_left st1 < pw_left st" "pw_cancelled st1"
      using pw_progress [OF less.prems] by blast
    from less.hyps [OF st1(2,3)] show ?thesis using converse_rtranclp_into_rtranclp [of "pw_step opn", OF st1(1)] by blast
  qed
qed

text \<open>
  C34. The channel of a watch is used as Go demands, and it ends. In every state that the goroutines of a watch can reach: nothing is ever sent on the closed
  channel; it is closed only when the context is cancelled and every goroutine has ended; the first goroutine to end cancels the others;
  what a goroutine has sent is a prefix of one watch of its partition, opened in the request's namespace or that of
  some partition, in order and without repetition; and a cancelled watch can always be brought to its end.
\<close>

theorem watch_channel:
  assumes "(pw_step opn)\<^sup>*\<^sup>* (pw_start ns ps) st"
  shows "\<not> pw_panic st \<and> (pw_closed st \<longrightarrow> pw_cancelled st \<and> all_ended st) \<and>
    (\<forall>i p err. pw_at st i p (Ended err) \<longrightarrow> pw_cancelled st) \<and>
    (\<forall>i p g. pw_at st i p g \<longrightarrow> sent_by st i = [] \<or>
       (\<exists>ns' \<in> pw_namespaces ns ps. \<exists>es. opn p ns' = Inr es \<and> prefix (sent_by st i) es)) \<and>
    (pw_cancelled st \<longrightarrow> (\<exists>st'. (pw_step opn)\<^sup>*\<^sup>* st st' \<and> pw_closed st'))"
proof (intro conjI allI impI)
  note inv = pw_reachable [OF assms]
  note d = pw_invD [OF inv]
  show "\<not> pw_panic st" "pw_closed st \<Longrightarrow> pw_cancelled st" using d by blast+
  show "pw_closed st \<Longrightarrow> all_ended st" using d(5) by (auto simp: all_ended_at)
  show "pw_cancelled st" if "pw_at st i p (Ended err)" for i p err using d(6) [OF that] .
  show "sent_by st i = [] \<or> (\<exists>ns' \<in> pw_namespaces ns ps. \<exists>es. opn p ns' = Inr es \<and> prefix (sent_by st i) es)"
    if "pw_at st i p g" for i p g
    using d(8) [OF that] by (cases g) (auto simp: progress_def prefix_def)
  show "\<exists>st'. (pw_step opn)\<^sup>*\<^sup>* st st' \<and> pw_closed st'" if "pw_cancelled st" using pw_can_close [OF that] .
qed

section \<open>The race for the namespace, refined\<close>

text \<open>
  \<open>Rbac_Partition.watch_step\<close> looks only at the namespace and at which goroutines have opened their watch. The runs here refine it: a step
  of the watch is a step there or none.
\<close>

fun same_phase :: "position \<Rightarrow> watcher \<Rightarrow> bool" where
  "same_phase Waiting h \<longleftrightarrow> h = Ready"
| "same_phase Named h \<longleftrightarrow> h = Assigned"
| "same_phase _ h \<longleftrightarrow> (\<exists>ns. h = Opened ns)"

definition refines_watch :: "pwatch \<Rightarrow> watch_state \<Rightarrow> bool" where
  "refines_watch st ws \<longleftrightarrow> fst ws = pw_Namespace st \<and>
     list_all2 (\<lambda>(p, g) (q, h). p = q \<and> same_phase g h) (pw_goroutines st) (snd ws)"

lemma refines_at:
  assumes "refines_watch st ws" and "pw_at st i p g"
  obtains h where "i < length (snd ws)" and "snd ws ! i = (p, h)" and "same_phase g h"
  using assms by (cases "snd ws ! i") (auto simp: refines_watch_def pw_at_def list_all2_conv_all_nth)

lemma refines_go:
  assumes "refines_watch st (ns, gs)" and "pw_goroutines st' = pw_goroutines st" and "same_phase g h"
  shows "refines_watch (pw_go i p g st') (pw_Namespace st', gs[i := (p, h)])"
  using assms by (auto simp: refines_watch_def pw_go_def intro: list_all2_update_cong)

lemma refines_stay:
  assumes "refines_watch st ws" and "pw_at st i p g" and "pw_goroutines st' = pw_goroutines st" and "pw_Namespace st' = pw_Namespace st"
    and "\<And>h. same_phase g h \<Longrightarrow> same_phase g' h"
  shows "refines_watch (pw_go i p g' st') ws"
proof -
  obtain h where h: "i < length (snd ws)" "snd ws ! i = (p, h)" "same_phase g h" by (rule refines_at [OF assms(1,2)])
  have "refines_watch (pw_go i p g' st') (pw_Namespace st', (snd ws)[i := (p, h)])"
    using assms(1,3) assms(5) [OF h(3)] by (intro refines_go [of st "fst ws"]) auto
  moreover have "(pw_Namespace st', (snd ws)[i := (p, h)]) = ws"
    using assms(1,4) h(2) list_update_id [of "snd ws" i] by (auto simp: refines_watch_def intro: prod_eqI)
  ultimately show ?thesis by simp
qed

lemma pw_step_refines:
  assumes "pw_step opn st st'" and "refines_watch st ws"
  shows "\<exists>ws'. watch_step\<^sup>=\<^sup>= ws ws' \<and> refines_watch st' ws'"
proof -
  obtain ns gs where ws: "ws = (ns, gs)" by (cases ws)
  have opened: "\<exists>ws'. watch_step\<^sup>=\<^sup>= ws ws' \<and> refines_watch (pw_go i p g' st1) ws'"
    if at: "pw_at st i p g" and g: "g = Named \<or> g = Waiting \<and> p_Passthrough p" and g': "\<And>n. same_phase g' (Opened n)"
      and st1: "pw_goroutines st1 = pw_goroutines st" "pw_Namespace st1 = pw_Namespace st" for i p g g' st1
  proof -
    obtain h where h: "i < length gs" "gs ! i = (p, h)" "same_phase g h" using refines_at [OF assms(2) at] unfolding ws by auto
    have "watch_step (ns, gs) (ns, gs[i := (p, Opened ns)])"
      using g h watch_step.Open [OF h(1)] watch_step.Open_passthrough [OF h(1)] by auto
    moreover have "refines_watch (pw_go i p g' st1) (pw_Namespace st1, gs[i := (p, Opened ns)])"
      using assms(2) st1(1) g' unfolding ws by (intro refines_go) auto
    moreover have "ns = pw_Namespace st1" using assms(2) st1(2) by (simp add: ws refines_watch_def)
    ultimately show ?thesis unfolding ws by auto
  qed
  from assms(1) show ?thesis
  proof (cases rule: pw_step.cases)
    case (Assign i p)
    obtain h where h: "i < length gs" "gs ! i = (p, h)" "h = Ready" using refines_at [OF assms(2) Assign(2)] unfolding ws by auto
    have "watch_step (ns, gs) (p_Namespace p, gs[i := (p, Assigned)])" using h Assign(3) by (auto intro: watch_step.Assign)
    moreover have "refines_watch st' (p_Namespace p, gs[i := (p, Assigned)])"
      using refines_go [of st ns gs "st\<lparr>pw_Namespace := p_Namespace p\<rparr>" Named Assigned i p] assms(2) by (simp add: Assign(1) ws)
    ultimately show ?thesis unfolding ws by auto
  next
    case (Open i p g es)
    with opened [OF Open(2,3)] show ?thesis by simp
  next
    case (Open_failed i p g err)
    with opened [OF Open_failed(2,3)] show ?thesis by simp
  next
    case (Receive i p e es)
    with refines_stay [OF assms(2) Receive(2), of st "Sending e es"] show ?thesis by (intro exI [of _ ws]) simp
  next
    case (Send i p e es)
    with refines_stay [OF assms(2) Send(2), of "st\<lparr>pw_sent := pw_sent st @ [(i, e)]\<rparr>" "Streaming es"] show ?thesis by (intro exI [of _ ws]) simp
  next
    case (Source_ends i p es)
    with refines_stay [OF assms(2) Source_ends(2), of "st\<lparr>pw_cancelled := True\<rparr>" "Ended None"] show ?thesis by (intro exI [of _ ws]) simp
  next
    case (Send_closed i p e es)
    with assms(2) show ?thesis by (intro exI [of _ ws]) (simp add: refines_watch_def)
  next
    case Close
    with assms(2) show ?thesis by (intro exI [of _ ws]) (simp add: refines_watch_def)
  next
    case Request_ends
    with assms(2) show ?thesis by (intro exI [of _ ws]) (simp add: refines_watch_def)
  qed
qed

section \<open>What the shared namespace discloses\<close>

lemma pw_go_length [simp]: "length (pw_goroutines (pw_go i p g st)) = length (pw_goroutines st)"
  by (simp add: pw_go_def)

lemma pw_at_less: "pw_at st i p g \<Longrightarrow> i < length (pw_goroutines st)"
  by (simp add: pw_at_def)

text \<open>A goroutine delivers what its watch has, when the others wait.\<close>

lemma pw_deliver:
  assumes "pw_at st i p (Streaming es)" and "\<not> pw_closed st"
  shows "\<exists>st'. (pw_step opn)\<^sup>*\<^sup>* st st' \<and> set (pw_sent st') = set (pw_sent st) \<union> Pair i ` set es"
  using assms
proof (induction es arbitrary: st)
  case Nil
  then show ?case by auto
next
  case (Cons e es)
  let ?r = "pw_go i p (Sending e es) st"
  let ?s = "pw_go i p (Streaming es) (?r\<lparr>pw_sent := pw_sent ?r @ [(i, e)]\<rparr>)"
  have i: "i < length (pw_goroutines st)" using Cons.prems(1) by (rule pw_at_less)
  have s1: "pw_step opn st ?r" using Cons.prems(1) by (rule pw_step.Receive)
  have s2: "pw_step opn ?r ?s" using i Cons.prems(2) by (intro pw_step.Send) (simp_all add: pw_at_go)
  have "pw_at ?s i p (Streaming es)" "\<not> pw_closed ?s" using i Cons.prems(2) by (simp_all add: pw_at_go)
  from Cons.IH [OF this] obtain st' where "(pw_step opn)\<^sup>*\<^sup>* ?s st'" "set (pw_sent st') = set (pw_sent ?s) \<union> Pair i ` set es" by blast
  moreover from this(2) have "set (pw_sent st') = set (pw_sent st) \<union> Pair i ` set (e # es)" by auto
  ultimately show ?case
    using converse_rtranclp_into_rtranclp [of "pw_step opn", OF s1 converse_rtranclp_into_rtranclp [of "pw_step opn", OF s2]] by blast
qed

text \<open>Two goroutines write their namespaces before the first of them opens its watch.\<close>

lemma pw_race:
  assumes "i < length ps" and "j < length ps" and "i \<noteq> j" and "\<not> p_Passthrough (ps ! i)" and "\<not> p_Passthrough (ps ! j)"
    and "opn (ps ! i) (p_Namespace (ps ! j)) = Inr es"
  shows "\<exists>st. (pw_step opn)\<^sup>*\<^sup>* (pw_start ns ps) st \<and> Pair i ` set es \<subseteq> set (pw_sent st)"
proof -
  let ?p = "ps ! i" and ?q = "ps ! j"
  define s0 where "s0 = pw_start ns ps"
  define s1 where "s1 = pw_go i ?p Named (s0\<lparr>pw_Namespace := p_Namespace ?p\<rparr>)"
  define s2 where "s2 = pw_go j ?q Named (s1\<lparr>pw_Namespace := p_Namespace ?q\<rparr>)"
  define s3 where "s3 = pw_go i ?p (Streaming es) s2"
  have at0: "pw_at s0 i ?p Waiting" "pw_at s0 j ?q Waiting" "\<not> pw_closed s0" using assms(1,2) by (simp_all add: s0_def pw_start_def pw_at_def)
  then have len: "i < length (pw_goroutines s0)" "j < length (pw_goroutines s0)" by (simp_all add: pw_at_def)
  have t1: "pw_step opn s0 s1" unfolding s1_def using at0(1) assms(4) by (rule pw_step.Assign)
  have at1: "pw_at s1 i ?p Named" "pw_at s1 j ?q Waiting" using at0 len assms(3) by (simp_all add: s1_def pw_at_go)
  have t2: "pw_step opn s1 s2" unfolding s2_def using at1(2) assms(5) by (rule pw_step.Assign)
  have len1: "j < length (pw_goroutines s1)" using pw_at_less [OF at1(2)] .
  have at2: "pw_at s2 i ?p Named" using at1 assms(3) by (simp add: s2_def pw_at_go)
  have t3: "pw_step opn s2 s3" unfolding s3_def using at2 assms(6) by (intro pw_step.Open [OF at2]) (simp_all add: s2_def)
  have "pw_at s3 i ?p (Streaming es)" "\<not> pw_closed s3"
    using pw_at_less [OF at2] at0(3) by (simp_all add: s3_def s2_def s1_def pw_at_go)
  from pw_deliver [OF this] obtain st where st: "(pw_step opn)\<^sup>*\<^sup>* s3 st" "set (pw_sent st) = set (pw_sent s3) \<union> Pair i ` set es" by blast
  have "(pw_step opn)\<^sup>*\<^sup>* s0 st"
    by (rule converse_rtranclp_into_rtranclp [OF t1 converse_rtranclp_into_rtranclp [OF t2 converse_rtranclp_into_rtranclp [OF t3 st(1)]]])
  with st(2) show ?thesis unfolding s0_def by blast
qed

lemma admin_watch_client:
  "\<exists>cl. TableAdminClientForWatch (NewFactory imp) C op s ns = Inr cl \<and> cfg_Impersonate (cl_config cl) = None \<and>
     cl_gvr cl = GVR C s \<and> cl_Namespace cl = ns"
  by (simp add: client_defs NewFactory_def newClient_def newDynamicClient_def setupConfig_def Let_def)

text \<open>
  C9. The shared namespace discloses objects that nothing grants. A watch of several partitions has a run in which the names granted in
  one namespace select objects of another: for any two partitions \<open>p\<close> and \<open>q\<close> of a watch, where \<open>p\<close> is one of single names, everything that the server's own
  client is told about objects of these names in the namespace of \<open>q\<close> can be delivered.
\<close>

theorem watch_race_discloses:
  assumes "All (px_convert px) op s ''watch'' (wr_ID wr) = Inr ps" and "i < length ps" and "j < length ps" and "i \<noteq> j"
    and "\<not> p_Passthrough (ps ! i)" and "\<not> p_All (ps ! i)" and "\<not> p_Passthrough (ps ! j)" and "px_factory px = NewFactory imp"
  shows "\<exists>st admin run. store_Watch (px_convert px) op s wr = Inr st \<and> cfg_Impersonate (cl_config admin) = None \<and>
    cl_gvr admin = GVR (px_convert px) s \<and> cl_Namespace admin = p_Namespace (ps ! j) \<and>
    (pw_step (open_watch px w op s wr))\<^sup>*\<^sup>* st run \<and>
    Pair i ` {e \<in> set (listAndWatch px w s admin wr). ev_Error e = None \<and> Object_Name (px_lib px) (ev_Object e) \<in> set (p_Names (ps ! i))}
      \<subseteq> set (pw_sent run)"
proof -
  let ?ns = "p_Namespace (ps ! j)"
  obtain admin where admin: "TableAdminClientForWatch (px_factory px) (px_convert px) (op\<lparr>op_Namespace := ?ns\<rparr>) s ?ns = Inr admin"
    "cfg_Impersonate (cl_config admin) = None" "cl_gvr admin = GVR (px_convert px) s" "cl_Namespace admin = ?ns"
    using admin_watch_client unfolding assms(8) by blast
  have "open_watch px w op s wr (ps ! i) ?ns =
      Inr (filter (\<lambda>e. ev_Error e = None \<and> Object_Name (px_lib px) (ev_Object e) \<in> set (p_Names (ps ! i))) (listAndWatch px w s admin wr))"
    using assms(5,6) admin(1) by (simp add: open_watch_def WatchNames_def Let_def)
  from pw_race [where opn = "open_watch px w op s wr", OF assms(2-5,7) this, of "op_Namespace op"] obtain run where
    "(pw_step (open_watch px w op s wr))\<^sup>*\<^sup>* (pw_start (op_Namespace op) ps) run"
    "Pair i ` {e \<in> set (listAndWatch px w s admin wr). ev_Error e = None \<and> Object_Name (px_lib px) (ev_Object e) \<in> set (p_Names (ps ! i))}
      \<subseteq> set (pw_sent run)" by auto
  with admin(2-4) show ?thesis
    by (intro exI [of _ "pw_start (op_Namespace op) ps"] exI [of _ admin] exI [of _ run]) (simp add: store_Watch_def assms(1))
qed

text \<open>A user who may watch the pod \<open>a\<close> of namespace \<open>x\<close> and the pod \<open>b\<close> of namespace \<open>y\<close> is told of the pod \<open>a\<close> of namespace \<open>y\<close>.\<close>

definition ex_two_names :: api_schema where
  "ex_two_names = SetAccess [(''watch'', [acc ''x'' ''a'', acc ''y'' ''b''])] ex_pod_schema"

definition ex_told :: "client \<Rightarrow> watch_opts \<Rightarrow> nat \<Rightarrow> go_err + watch_event list" where
  "ex_told cl opts w = Inr [\<lparr>we_Type = ''ADDED'', we_Object = WUnstr [(''metadata'', JObj [(''namespace'', JStr (cl_Namespace cl)), (''name'', JStr ''a'')])]\<rparr>]"

definition ex_watch_proxy :: "nat proxy" where
  "ex_watch_proxy = ex_proxy\<lparr>px_factory := NewFactory True, px_k8s := ex_k8s\<lparr>k_Watch := ex_told\<rparr>\<rparr>"

definition ex_watch_all :: watch_request where
  "ex_watch_all = \<lparr>wr_Revision = [], wr_ID = [], wr_Selector = []\<rparr>"

lemma watch_race_discloses_witness:
  "\<exists>st run e. store_Watch convert_std (empty_request\<lparr>op_Request := Some new_request\<rparr>) ex_two_names ex_watch_all = Inr st \<and>
     (pw_step (open_watch ex_watch_proxy 0 (empty_request\<lparr>op_Request := Some new_request\<rparr>) ex_two_names ex_watch_all))\<^sup>*\<^sup>* st run \<and>
     (0, e) \<in> set (pw_sent run) \<and> obj_ID (ev_Object e) = ''y/a'' \<and> \<not> visible (GetAccessListMap (Some ex_two_names)) ''watch'' ''y'' ''a''"
proof -
  let ?op = "empty_request\<lparr>op_Request := Some new_request\<rparr>"
  let ?p = "\<lparr>p_Namespace = ''x'', p_All = False, p_Passthrough = False, p_Names = [''a'']\<rparr>"
  let ?q = "\<lparr>p_Namespace = ''y'', p_All = False, p_Passthrough = False, p_Names = [''b'']\<rparr>"
  have px: "px_convert ex_watch_proxy = convert_std" "px_factory ex_watch_proxy = NewFactory True" "px_lib ex_watch_proxy = lib_std"
    by (simp_all add: ex_watch_proxy_def ex_proxy_def)
  have all: "All (px_convert ex_watch_proxy) ?op ex_two_names ''watch'' (wr_ID ex_watch_all) = Inr [?p, ?q]" unfolding px by code_simp
  obtain st admin run where run: "store_Watch convert_std ?op ex_two_names ex_watch_all = Inr st" "cl_Namespace admin = ''y''"
    "(pw_step (open_watch ex_watch_proxy 0 ?op ex_two_names ex_watch_all))\<^sup>*\<^sup>* st run"
    "Pair 0 ` {e \<in> set (listAndWatch ex_watch_proxy 0 ex_two_names admin ex_watch_all). ev_Error e = None \<and> Object_Name lib_std (ev_Object e) \<in> {''a''}}
      \<subseteq> set (pw_sent run)"
    using watch_race_discloses [OF all, of 0 1 True 0] px by auto
  let ?m = "[(''metadata'', JObj [(''namespace'', JStr ''y''), (''name'', JStr ''a'')])]"
  let ?e = "toAPIEvent lib_std ex_two_names ''ADDED'' (WUnstr ?m)"
  have "listAndWatch ex_watch_proxy 0 ex_two_names admin ex_watch_all = [?e]"
    by (simp add: listAndWatch_def ex_watch_all_def ex_watch_proxy_def ex_proxy_def ex_told_def run(2))
  moreover have "ev_Error ?e = None \<and> Object_Name lib_std (ev_Object ?e) = ''a'' \<and> obj_ID (ev_Object ?e) = ''y/a''" by code_simp
  moreover have "\<not> visible (GetAccessListMap (Some ex_two_names)) ''watch'' ''y'' ''a''" by code_simp
  ultimately show ?thesis using run(1,3,4) by (intro exI [of _ st] exI [of _ run] exI [of _ ?e]) auto
qed

text \<open>The same watch, cancelled before anything else happens.\<close>

lemma watch_channel_witness:
  "\<exists>st'. (pw_step (open_watch ex_watch_proxy 0 empty_request ex_two_names ex_watch_all))\<^sup>*\<^sup>*
     ((pw_start [] [passthrough_partition])\<lparr>pw_cancelled := True\<rparr>) st' \<and> pw_closed st'"
proof -
  have "(pw_step (open_watch ex_watch_proxy 0 empty_request ex_two_names ex_watch_all))\<^sup>*\<^sup>*
      (pw_start [] [passthrough_partition]) ((pw_start [] [passthrough_partition])\<lparr>pw_cancelled := True\<rparr>)"
    by (rule r_into_rtranclp [of "pw_step _", OF pw_step.Request_ends])
  from watch_channel [OF this] show ?thesis by simp
qed

end
