(* ===== verification/Spec2Isabelle.thy ===== *)
theory Spec2Isabelle
  imports Access_Set Api_Types Http Url_Builder Requests Access_Control Lru Policy_Rules Schema_Factory
    Client_Factory Proxy_Store Rbac_Partition Partition_Lister Request_Parse Server_Handler
    Simple_Stores Schema_Store Subscribe Writer Auth_Proxy Schema_Controller Middleware Formatter Wiring Default_Store
    Router Schema_Watch Webhook Server_Setup Response_Formats Summarized Subscribe_Handler Served_Requests List_Run Listing Served_Reads
    Partition_Watch
begin

text \<open>
  A verification of brent, an API server in Go that serves the resources of a Kubernetes cluster as schemas,
  collections and objects to users with limited permissions (directory \<^verbatim>\<open>src/pkg\<close>).

  How the program works. The command line makes a server: controllers, a client factory, an access store, a collection of
  schemas, and a router with an authenticating middleware. A controller discovers what the cluster serves and resets the collection of
  schemas with it. For a request the access set of its user is computed from the cluster role bindings (the code looks for role bindings, too, but finds none), and from
  the access set the schemas the user may see, with the methods the user may call. The request is routed and parsed,
  the handler of its method checks the permission on the schema and calls the schema's store, and the
  result is written with links in the format that was asked for. The default store talks to Kubernetes as the user, or, for partitions of
  named objects, as an administrator with a filter. Clients can also subscribe to changes on a websocket, and a proxy forwards raw
  Kubernetes requests.

  Theories, in the order of their imports:

  \<^item> \<open>Prelude\<close>: Go maps as association lists, strings; \<open>Http\<close>: requests, header maps, \<^verbatim>\<open>Sprintf\<close>, \<^verbatim>\<open>Atoi\<close>.
  \<^item> \<open>Access_Set\<close> (accesscontrol/access\_set.go): grants, wildcards, lists by verb; a locale for access sets.
  \<^item> \<open>Api_Types\<close>, \<open>Requests\<close> (types, attributes, apierror): schemas and their attributes, the collection
    \<open>api_schemas\<close>, requests, objects, events, errors.
  \<^item> \<open>Url_Builder\<close> (urlbuilder): base URL and links. \<open>Access_Control\<close>: the permission checks, a locale for their interface.
  \<^item> \<open>Lru\<close>, \<open>Policy_Rules\<close> (accesscontrol): role indexes, revisions, \<open>AccessFor\<close> with its cache.
  \<^item> \<open>Schema_Factory\<close> (schema): \<open>Reset\<close>, templates, the schemas of a subject and their cache.
  \<^item> \<open>Client_Factory\<close>, \<open>Proxy_Store\<close>, \<open>Rbac_Partition\<close>, \<open>Partition_Lister\<close>, \<open>List_Run\<close>, \<open>Default_Store\<close>, \<open>Listing\<close>, \<open>Partition_Watch\<close>
    (client, stores/proxy, stores/partition): clients, the Kubernetes store, partitions by permission, the parallel lister and what its runs
    deliver, the store assembled of them, \<^verbatim>\<open>Store.List\<close> through all of these, and the goroutines and the channel of \<^verbatim>\<open>Store.Watch\<close>.
  \<^item> \<open>Request_Parse\<close>, \<open>Server_Handler\<close> (parse, server/handler, handlers): parsing, CSRF, dispatch, answers.
  \<^item> \<open>Simple_Stores\<close>, \<open>Schema_Store\<close>, \<open>Schema_Watch\<close> (stores/apiroot, stores/empty, stores/schema, resources): stores of fixed or
    computed objects, the search through schemas, the events of a change of schemas, and the goroutines of a schema watch.
  \<^item> \<open>Subscribe\<close>, \<open>Subscribe_Handler\<close> (subscribe): a watch session, and the handler of a connection around it.
  \<^item> \<open>Writer\<close>, \<open>Response_Formats\<close> (writer, types/encoder.go): resources with links, collections; the writers of each format and
    the HTML page. \<open>Formatter\<close>, \<open>Summarized\<close> (resources/common, summary): field filters, links by permission, summaries and the objects
    that carry them. \<open>Middleware\<close> (urlbuilder/redirect.go, middleware, writer/gzip.go): response writers.
  \<^item> \<open>Auth_Proxy\<close>, \<open>Webhook\<close> (auth, proxy): users of requests, the review of tokens and its configuration, and the forwarded request.
  \<^item> \<open>Schema_Controller\<close> (controllers/schema, schema/converter): discovery and refresh.
  \<^item> \<open>Wiring\<close>, \<open>Router\<close>, \<open>Server_Setup\<close> (server, builtin, subscribe/register.go): what the server is put together from, the
    routes and the handlers behind them, the command line. \<open>Served_Requests\<close>, \<open>Served_Reads\<close>: a request through all of it, what
    it changes and what it shows.

  How code is modelled. A struct is a record with the source's fields, a value of an interface or a function value
  the name of a function (\<open>func\<close>) that a record of functions gives a meaning, an error a value of \<open>go_err\<close>; a
  call that returns a value and an error returns a sum, or a pair where the code uses both. A nil
  dereference is the error \<open>Panic\<close>. Goroutines are step relations, with one step for each critical section: the
  lister's feeder and workers, the streams of a session, the reader and the loop of a connection, the refreshes of the controller, the
  cache of the factory, the partitions of a watch, the two senders of a schema watch and its poller. Objects that share memory are on an
  explicit heap (\<open>Summarized\<close>). What is not in the repository, the Kubernetes API, the schemer and data packages, \<^verbatim>\<open>url.Parse\<close>,
  the mux package, websockets, encoders, the digest, is an argument; what a property needs of it is a predicate whose name ends in \<open>_ok\<close>.

  Fuel and termination. The search \<open>addSchema\<close> gets as much fuel as there are schemas, the import as much as there
  are internal schemas and one more; \<open>filter_schemas_exact\<close> and \<open>import_returns\<close> show that this is always enough. The loop
  that unwraps a field type is a \<open>while_option\<close>, total under \<open>sub_ok\<close>. A channel of a session holds 100 events. For the step
  relations that a run can come to its end is a theorem of each (\<open>list_always_returns\<close>, \<open>schema_watch_ends\<close>, \<open>subscription_ends\<close>). A page loop that the API
  keeps going for ever is a \<open>partial_function\<close> without a value; \<open>tokens_end\<close> says that it does not. \<open>sequential_run\<close> computes one run of the
  lister, with three steps for each partition and one more, which \<open>sequential_run_ends\<close> shows to be enough.

  What the lemmas show. Each theory proves its operations on every branch and the invariants of its state; some
  theorems span components: from cluster role bindings to the methods of a schema
  (\<open>offered_methods_are_rbac\<close>) and to the objects of a list (\<open>lists_are_rbac\<close>, over \<open>list_shows_exactly_grants\<close>), from the factory to the listing of schemas (\<open>subject_schemas_listed\<close>), what a
  server offers before anything is discovered (\<open>base_server_schemas\<close>), from an HTTP request to the one call that a cluster gets
  as its user (\<open>http_writes_as_user\<close>) and to the objects in its answer (\<open>http_shows_as_granted\<close>), from the links in an answer back through the routes (\<open>links_lead_back\<close>), from the flags to who
  clients act for (\<open>command_line_server\<close>). The two theorems about HTTP requests hold with an
  authenticating middleware and without one, where no client acts for a user. Several theorems state what the code does where
  it does not do what it means to: role bindings grant nothing, a watch of several partitions
  can disclose in one namespace what is granted in another, a page may lose the rest of its partitions or come again for ever, an old
  stream stops its successor, a subscription to a type without events keeps its handler, redirects without a path lose their body,
  an answer that cannot be encoded is an empty success.

  The routes of mux are modelled for paths of nonempty segments of unreserved characters, with or without a slash at the end, which \<^verbatim>\<open>StrictSlash\<close>
  redirects; paths with an encoded form are not. The lister's runs include those whose request is cancelled, at every point where the code looks at the context; the theorems
  about what a list holds are about lists whose request was not.

  Not modelled: the function main, the parse of flags and the version, which are calls of a library; the accessors of request
  contexts, which are fields of the request here; \<^verbatim>\<open>Hijack\<close>, which passes a connection on; types that nothing in the repository uses; logging;
  the time of polls and pings, which are steps that may happen; what the summarizers and printers of libraries compute.
  Descriptions of schemas and fields are left out.
\<close>

section \<open>From cluster role bindings to the methods of a schema\<close>

text \<open>
  What a user may do with the resource of a schema: the resource has the verb, and a cluster role bound to the user allows it for some name.
  Role bindings do not count: the store of access sets finds none (\<open>role_bindings_grant_nothing\<close>).
\<close>

definition allowed_some :: "rbac_world \<Rightarrow> cluster_role_binding list \<Rightarrow> user \<Rightarrow> convert \<Rightarrow> api_schema \<Rightarrow> string \<Rightarrow> bool" where
  "allowed_some w crbs u C s verb \<longleftrightarrow> verb \<in> set (Verbs C s) \<and> (\<exists>nm. cluster_allows (w_client w) crbs u verb (GR C s) nm)"

lemma grants_on_bindings:
  assumes "Namespaced C (Some s)" and "store_reads crbs rbs l w"
  shows "grants_on C (compute_access w l u) s verb ns nm \<longleftrightarrow>
    verb \<in> set (Verbs C s) \<and> cluster_allows (w_client w) crbs u verb (GR C s) nm"
proof -
  have "grants_on C (compute_access w l u) s verb ns nm \<longleftrightarrow>
      verb \<in> set (Verbs C s) \<and> AccessSet_Grants (compute_access w l u) verb (GR C s) ns nm"
    using assms(1) by (simp add: grants_on_def Grants_wild_keys)
  then show ?thesis by (simp add: compute_access_cluster [OF assms(2)])
qed

lemma permitted_allowed_some:
  assumes "Namespaced C (Some s)" and "store_reads crbs rbs l w"
  shows "Schema_Factory.permitted C (compute_access w l u) s verb \<longleftrightarrow> allowed_some w crbs u C s verb"
  by (simp add: Schema_Factory.permitted_def grants_on_bindings [OF assms] allowed_some_def)

text \<open>The schema of a subject and the access list it carries.\<close>

lemma subject_schema_is:
  assumes "\<not> is_namespaces C s" and "snd (subject_schema C access s) = Some t"
  shows "t = add_methods (verb_access C access s) (SetAccess (verb_access C access s) (DeepCopy s))"
  using assms(2) by (simp add: subject_schema_plain [OF assms(1)] Let_def split: if_splits)

lemma subject_access_list:
  assumes "Namespaced C (Some s)" and "\<not> is_namespaces C s" and "store_reads crbs rbs l w"
    and "snd (subject_schema C (compute_access w l u) s) = Some t"
  shows "ByVerb_Grants (GetAccessListMap (Some t)) verb ns nm \<longleftrightarrow>
    verb \<in> set (Verbs C s) \<and> cluster_allows (w_client w) crbs u verb (GR C s) nm"
  by (simp add: subject_schema_is [OF assms(2,4)] ByVerb_Grants_def verb_access_lookup trimmed_grants grants_on_bindings [OF assms(1,3)])

text \<open>C1. From the cluster role bindings of a cluster to what a request may do. The access set of a user is computed by a store that \<open>NewAccessStore\<close> made for
  the cluster. On the schema that the user is then given for a namespaced resource without methods of its own, \<open>CanGet\<close>, \<open>CanDelete\<close>, \<open>CanUpdate\<close>
  and \<open>CanCreate\<close> pass exactly when the resource has the verb (list or get for the first) and some cluster role binding that names the user, or one of the user's
  groups, binds a cluster role with a rule for it, for some name; and the access list in the schema answers every question
  about a verb, a namespace and a name exactly as the rules of these cluster roles do, in every namespace alike. Role bindings, whatever the cluster
  holds of them, make no difference.\<close>

theorem offered_methods_are_rbac:
  assumes "store_reads crbs rbs l w"
    and "Namespaced C (Some s)" and "\<not> is_namespaces C s" and "CollectionMethods s = []" and "ResourceMethods s = []"
    and "snd (subject_schema C (compute_access w l u) s) = Some t"
  shows "(CanGet t = None \<longleftrightarrow> allowed_some w crbs u C s ''get'' \<or> allowed_some w crbs u C s ''list'') \<and>
    (CanDelete t = None \<longleftrightarrow> allowed_some w crbs u C s ''delete'') \<and>
    (CanUpdate t = None \<longleftrightarrow> allowed_some w crbs u C s ''update'') \<and>
    (CanCreate t = None \<longleftrightarrow> allowed_some w crbs u C s ''create'') \<and>
    (\<forall>verb ns nm. ByVerb_Grants (GetAccessListMap (Some t)) verb ns nm \<longleftrightarrow>
      verb \<in> set (Verbs C s) \<and> cluster_allows (w_client w) crbs u verb (GR C s) nm)"
proof -
  define va where "va = verb_access C (compute_access w l u) s"
  have t: "t = add_methods va (SetAccess va (DeepCopy s))"
    using subject_schema_is [OF assms(3,6)] by (simp add: va_def)
  have any: "ByVerb_AnyVerb va vs \<longleftrightarrow> (\<exists>v \<in> set vs. allowed_some w crbs u C s v)" for vs
    by (simp add: any_verb va_def verb_access_lookup trimmed_permitted permitted_allowed_some [OF assms(2,1)])
  note subject_access_list [OF assms(2,3,1,6)]
  moreover have none: "CollectionMethods (DeepCopy s) = []" "ResourceMethods (DeepCopy s) = []"
    using assms(4,5) by (simp_all add: DeepCopy_def)
  ultimately show ?thesis
    by (auto simp: CanGet_def CanDelete_def CanUpdate_def CanCreate_def t add_methods_set any none assms(4,5)
      MethodGet_def MethodDelete_def MethodPut_def MethodPatch_def MethodPost_def denied_def simp del: ByVerb_AnyVerb.simps)
qed

text \<open>The cluster of the example has a role binding for the user, which counts for nothing, and a cluster role binding for a group of the user.\<close>

lemma ex_world_reads: "store_reads [ex_crb] [ex_rb] (fst (ex_world [ex_crb])) (snd (ex_world [ex_crb]))"
  unfolding store_reads_def ex_world_store(2) using fixed_client_ok ex_world_store(1) by blast

lemma offered_methods_are_rbac_witness:
  "\<exists>t. snd (subject_schema convert_std (compute_access (snd (ex_world [ex_crb])) (fst (ex_world [ex_crb])) ex_user) ex_pod_schema) = Some t \<and>
     CanGet t = None \<and> CanDelete t \<noteq> None \<and>
     allowed_some (snd (ex_world [ex_crb])) [ex_crb] ex_user convert_std ex_pod_schema ''get'' \<and>
     \<not> allowed_some (snd (ex_world [ex_crb])) [ex_crb] ex_user convert_std ex_pod_schema ''delete''"
proof -
  have s: "Namespaced convert_std (Some ex_pod_schema)" "\<not> is_namespaces convert_std ex_pod_schema"
    "CollectionMethods ex_pod_schema = []" "ResourceMethods ex_pod_schema = []" by code_simp+
  have "case snd (subject_schema convert_std (compute_access (snd (ex_world [ex_crb])) (fst (ex_world [ex_crb])) ex_user) ex_pod_schema) of
      None \<Rightarrow> False | Some t \<Rightarrow> CanGet t = None \<and> CanDelete t \<noteq> None \<and> \<not> ByVerb_AnyVerb (GetAccessListMap (Some t)) [''list'']"
    by code_simp
  then obtain t where t: "snd (subject_schema convert_std (compute_access (snd (ex_world [ex_crb])) (fst (ex_world [ex_crb])) ex_user) ex_pod_schema) = Some t"
    "CanGet t = None" "CanDelete t \<noteq> None" "\<not> ByVerb_AnyVerb (GetAccessListMap (Some t)) [''list'']"
    by (auto split: option.splits)
  note all = offered_methods_are_rbac [OF ex_world_reads s t(1)]
  have "ByVerb_Grants (GetAccessListMap (Some t)) ''list'' ns nm = False" for ns nm
    using t(4) by (auto simp: ByVerb_Grants_def AccessList_Grants_iff split: if_splits)
  with all have "\<not> allowed_some (snd (ex_world [ex_crb])) [ex_crb] ex_user convert_std ex_pod_schema ''list''"
    unfolding allowed_some_def by blast
  with all t(1-3) show ?thesis by blast
qed

section \<open>From cluster role bindings to what a list shows\<close>

text \<open>All grants of the list are for every namespace, so that listing is a matter of all or nothing.\<close>

lemma subject_access_everywhere:
  assumes "\<not> is_namespaces C s" and "store_reads crbs rbs l w" and "snd (subject_schema C (compute_access w l u) s) = Some t"
    and "ac \<in> set (mgetd [] (GetAccessListMap (Some t)) verb)"
  shows "acc_Namespace ac = all_star"
  using assms(4) compute_access_everywhere [OF assms(2)]
  by (auto simp: subject_schema_is [OF assms(1,3)] verb_access_lookup trimmed_def AccessListFor_set split: if_splits)

lemma subject_visible_everywhere:
  assumes "\<not> is_namespaces C s" and "store_reads crbs rbs l w" and "snd (subject_schema C (compute_access w l u) s) = Some t"
    and "visible (GetAccessListMap (Some t)) verb ns nm"
  shows "ns = all_star"
  using assms(4) subject_access_everywhere [OF assms(1-3)] by (auto simp: visible_def dest!: subject_access_everywhere [OF assms(1-3)])

lemma subject_schema_namespaced:
  assumes "\<not> is_namespaces C s" and "snd (subject_schema C access s) = Some t"
  shows "Namespaced C (Some t) = Namespaced C (Some s)"
  by (simp add: subject_schema_is [OF assms] Namespaced_def get_attr_def SetAccess_def setVal_def mgetd_mput)

text \<open>C2. From the cluster role bindings of a cluster to what a list shows. A user lists a namespaced type through the schema made for the user, whose access set a store
  made by \<open>NewAccessStore\<close> computed. The request asks from the beginning (it has no continue token), for one namespace or for all, without a constraint on its
  namespaces and with its context not over before the end; the API pages as Kubernetes documents, and every
  client of the resource is answered the objects of its namespace. When the list ends without an error and below its limit, then, however its goroutines interleaved,
  it shows exactly the objects asked for, if the resource has the verb list and some cluster role binding that names the user or one of the user's
  groups binds a cluster role with a rule that lists all names of the resource; and otherwise nothing. Rules for single names (which a list would need in a namespace) and role
  bindings add nothing.\<close>

theorem lists_are_rbac:
  assumes "store_reads crbs rbs l w" and "Namespaced C (Some s)" and "\<not> is_namespaces C s"
    and "snd (subject_schema C (compute_access w l u) s) = Some t"
    and "px_convert px = C" and "px_factory px = NewFactory imp"
    and "op_Request op = Some r" and "rq_User r = Some u" and "rq_Namespaces r = None" and "values_get (rq_Query r) ''continue'' = []"
    and "serves_pages px k (rq_Query r) (getLimit r) pages" and "cluster_objects px t pages objects"
    and "store_List dec enc px k op t False (res, None)" and "int (length (list_Objects res)) < getLimit r"
  shows "set (list_Objects res) =
    (if ''list'' \<in> set (Verbs C s) \<and> cluster_allows (w_client w) crbs u ''list'' (GR C s) ''*''
     then (\<lambda>m. toAPI (px_lib px) t (Some m)) ` {m \<in> objects. op_Namespace op = [] \<or> L_GetNamespace (px_lib px) m = op_Namespace op}
     else {})"
proof -
  let ?L = "px_lib px" and ?a = "GetAccessListMap (Some t)"
  note everywhere = subject_visible_everywhere [OF assms(3,1,4)]
  have "plain_list C op r t"
    using assms(2,7-10) everywhere subject_schema_namespaced [OF assms(3,4)]
    by (auto simp: plain_list_def no_empty_namespace_def all_star_def)
  then have res: "set (list_Objects res) = (\<lambda>m. toAPI ?L t (Some m)) ` {m \<in> asked_for ?L op objects. may_list t (L_GetNamespace ?L m) (L_GetName ?L m)}"
    using list_shows_exactly_grants [OF assms(6) _ assms(11,12), where op = op] assms(5,13,14) by blast
  have "may_list t (L_GetNamespace ?L m) (L_GetName ?L m) \<longleftrightarrow> ByVerb_All ?a ''list''" if "m \<in> objects" for m
  proof -
    have "L_GetNamespace ?L m \<noteq> all_star" using assms(12) that unfolding cluster_objects_def all_star_def by blast
    with everywhere show ?thesis by (auto simp: may_list_def)
  qed
  moreover have "ByVerb_All ?a ''list'' \<longleftrightarrow> ''list'' \<in> set (Verbs C s) \<and> cluster_allows (w_client w) crbs u ''list'' (GR C s) ''*''"
    by (simp add: all_star_def ByVerb_All_def subject_access_list [OF assms(2,3,1,4)])
  ultimately show ?thesis unfolding res asked_for_def by auto
qed

text \<open>A cluster role that may list pods, bound to the user alice, and the cluster with three pods. The list of them goes through the store and
  shows them all.\<close>

definition ex_list_user :: user where
  "ex_list_user = \<lparr>u_Name = ''alice'', u_UID = [], u_Groups = [], u_Extra = []\<rparr>"

definition ex_list_binding :: cluster_role_binding where
  "ex_list_binding = ex_crb\<lparr>crb_Subjects := [user_subject ''User'' ''alice'']\<rparr>"

definition ex_list_client :: cluster where
  "ex_list_client = fixed_client [ex_list_binding] [] [(''view'', [ex_rule\<lparr>pr_Verbs := [''list'']\<rparr>])] []"

definition ex_list_world :: "unit access_store \<times> rbac_world" where
  "ex_list_world =
     (let (l, idx) = NewAccessStore ex_list_client no_indexes None
      in (l, \<lparr>w_client = ex_list_client, w_indexes = idx, w_revisions = []\<rparr>))"

lemma ex_list_world_reads: "store_reads [ex_list_binding] [] (fst ex_list_world) (snd ex_list_world)"
  unfolding store_reads_def by (auto simp: ex_list_world_def Let_def split_beta ex_list_client_def fixed_client_ok intro!: exI [of _ None])

lemma lists_are_rbac_witness:
  "\<exists>t res. snd (subject_schema convert_std (compute_access (snd ex_list_world) (fst ex_list_world) ex_list_user) ex_pod_schema) = Some t \<and>
     store_List (\<lambda>_. Inl (OtherError [])) (\<lambda>_. Inr ''t'') ex_cluster 0 Default_Store.ex_user_request t False (res, None) \<and>
     length (list_Objects res) = 3 \<and>
     set (list_Objects res) = (\<lambda>m. toAPI lib_std t (Some m)) ` set Listing.ex_pods \<and>
     cluster_allows (w_client (snd ex_list_world)) [ex_list_binding] ex_list_user ''list'' (GR convert_std ex_pod_schema) ''*''"
proof -
  have s: "Namespaced convert_std (Some ex_pod_schema)" "\<not> is_namespaces convert_std ex_pod_schema" by code_simp+
  have "case snd (subject_schema convert_std (compute_access (snd ex_list_world) (fst ex_list_world) ex_list_user) ex_pod_schema) of
      None \<Rightarrow> False | Some t \<Rightarrow> GetAccessListMap (Some t) = [(''list'', [acc ''*'' ''*''])]"
    by code_simp
  then obtain t where t: "snd (subject_schema convert_std (compute_access (snd ex_list_world) (fst ex_list_world) ex_list_user) ex_pod_schema) = Some t"
    "GetAccessListMap (Some t) = [(''list'', [acc ''*'' ''*''])]" by (auto split: option.splits)
  let ?objs = "map (\<lambda>m. toAPI lib_std t (Some m)) Listing.ex_pods"
  have px: "px_convert ex_cluster = convert_std" "px_factory ex_cluster = NewFactory True" "px_lib ex_cluster = lib_std"
    by (simp_all add: ex_cluster_def ex_proxy_def)
  have r: "rq_User ex_http_request = Some ex_list_user" "rq_Namespaces ex_http_request = None" "values_get (rq_Query ex_http_request) ''continue'' = []"
    "getLimit ex_http_request = 100000" "1 \<le> getLimit ex_http_request" by code_simp+
  have "ByVerb_All (GetAccessListMap (Some t)) ''list''" unfolding t(2) by code_simp
  note list = ex_whole_list [OF this]
  have short: "int (length (list_Objects (ex_page [] ?objs))) < getLimit ex_http_request"
    by (simp add: r(4) ex_page_def Listing.ex_pods_def)
  note rbac = lists_are_rbac [OF ex_list_world_reads s t(1) px(1,2) Listing.ex_user_request r(1-3) ex_serves_pages [OF r(5)] ex_cluster_objects list short,
      unfolded px(3) op_Namespace_ex_user]
  have objs: "length (list_Objects (ex_page [] ?objs)) = 3" "list_Objects (ex_page [] ?objs) \<noteq> []"
    by (simp_all add: ex_page_def Listing.ex_pods_def)
  with rbac have allows: "cluster_allows (w_client (snd ex_list_world)) [ex_list_binding] ex_list_user ''list'' (GR convert_std ex_pod_schema) ''*''"
    by (auto split: if_splits)
  moreover have "''list'' \<in> set (Verbs convert_std ex_pod_schema)" by code_simp
  ultimately have "set (list_Objects (ex_page [] ?objs)) = (\<lambda>m. toAPI lib_std t (Some m)) ` set Listing.ex_pods"
    using rbac by simp
  with t(1) list objs(1) allows show ?thesis by blast
qed

section \<open>The schemas of a subject can be listed\<close>

lemma AddSchema_keyed: "keyed (Schemas a) \<Longrightarrow> AddSchema add a s = Inr a' \<Longrightarrow> keyed (Schemas a')"
  by (erule AddSchema_Inr) (auto simp: keyed_def addToIndex_def set_embedded_def schema.defs mget_mput mwf_mput split: if_splits)

lemma AddSchemas_keyed: "keyed (Schemas a) \<Longrightarrow> AddSchemas_loop add a m = Inr a' \<Longrightarrow> keyed (Schemas a')"
proof (induction m arbitrary: a)
  case (Cons e m)
  then show ?case by (cases e) (auto split: sum.splits dest: AddSchema_keyed)
qed simp

lemma subject_loop_keyed: "keyed (Schemas a) \<Longrightarrow> subject_loop add C access m a = (Inr a', m') \<Longrightarrow> keyed (Schemas a')"
proof (induction m arbitrary: a m')
  case (Cons e m)
  obtain k s where e: "e = (k, s)" by (cases e)
  obtain a1 m1 where "keyed (Schemas a1)" "subject_loop add C access m a1 = (Inr a', m1)"
  proof (cases "gr_Resource (GR C s) = []")
    case True
    with Cons.prems e that show thesis by (auto split: sum.splits prod.splits dest: AddSchema_keyed)
  next
    case False
    obtain sh t where sub: "subject_schema C access s = (sh, t)" by (cases "subject_schema C access s")
    show thesis
    proof (cases t)
      case None
      with False Cons.prems e sub that show thesis by (auto split: prod.splits)
    next
      case (Some x)
      with False Cons.prems e sub that show thesis by (auto split: sum.splits prod.splits dest: AddSchema_keyed)
    qed
  qed
  then show ?case by (rule Cons.IH)
qed simp

text \<open>C15. The schemas computed for a subject are a collection keyed by ids, whatever the discovered schemas and
  grants are, so that the store of schemas can always list them: its depth-first search returns, lists no schema
  twice and only schemas of the subject, each by the id under which \<open>ByID\<close> finds it.\<close>

theorem subject_schemas_listed:
  assumes "schemasForSubject add builtin C access c = (Inr r, c')" and "sub_ok sub"
  shows "keyed (Schemas r) \<and> (\<exists>objs. FilterSchemas sub (Schemas r) = Some objs \<and> distinct (map obj_ID objs) \<and>
    (\<forall>x \<in> set objs. schema_ByID r (obj_ID x) = Inr x))"
proof -
  from assms(1) obtain a0 a1 a2 m where loops: "AddSchemas_loop add EmptyAPISchemas (Schemas builtin) = Inr a0"
    "AddSchemas_loop add a0 (Schemas (c_baseSchema c)) = Inr a1" "subject_loop add C access (c_schemas c) a1 = (Inr a2, m)"
    and r: "r = a2\<lparr>schemas_Attributes := [(''accessSet'', AAccessSet access)]\<rparr>"
    by (auto elim!: schemasForSubject_Inr simp: AddSchemas_def)
  have "keyed (Schemas EmptyAPISchemas)" by (simp add: keyed_def EmptyAPISchemas_def)
  from subject_loop_keyed [OF AddSchemas_keyed [OF AddSchemas_keyed [OF this loops(1)] loops(2)] loops(3)]
  have keyed: "keyed (Schemas r)" by (simp add: r)
  from FilterSchemas_total [OF keyed assms(2)] obtain objs where objs: "FilterSchemas sub (Schemas r) = Some objs"
    "distinct (map obj_ID objs)" "\<forall>x \<in> set objs. \<exists>s. mget (Schemas r) (obj_ID x) = Some s \<and> x = schema_object s" by blast
  have "\<forall>x \<in> set objs. schema_ByID r (obj_ID x) = Inr x"
    using objs(3) by (fastforce simp: schema_ByID_def LookupSchema_def)
  with keyed objs show ?thesis by blast
qed

lemma subject_schemas_listed_witness:
  "\<exists>r c' objs. schemasForSubject add_plain EmptyAPISchemas convert_std ex_deleter ex_collection = (Inr r, c') \<and>
     FilterSchemas (\<lambda>t. t) (Schemas r) = Some objs"
proof -
  have "case fst (schemasForSubject add_plain EmptyAPISchemas convert_std ex_deleter ex_collection) of Inl _ \<Rightarrow> False | Inr _ \<Rightarrow> True"
    by code_simp
  then obtain r c' where r: "schemasForSubject add_plain EmptyAPISchemas convert_std ex_deleter ex_collection = (Inr r, c')"
    by (cases "schemasForSubject add_plain EmptyAPISchemas convert_std ex_deleter ex_collection") (auto split: sum.splits)
  from subject_schemas_listed [OF r ex_sub_ok] r show ?thesis by blast
qed

section \<open>The schemas every server has\<close>

text \<open>What the server's own functions hang on a schema.\<close>

definition serves_with :: "api_schema \<Rightarrow> func option \<times> func option" where
  "serves_with s = (Store s, ListHandler s)"

lemma AddSchema_entry:
  assumes "add_ok add" and "AddSchema add a s = Inr a'"
  shows "map_option serves_with (mget (Schemas a') i) =
    (if i = ID s then Some (serves_with s) else map_option serves_with (mget (Schemas a) i))"
proof -
  from assms(2) obtain ints sc where add: "add (InternalSchemas a) (schema.truncate s) = Inr ints" "mget ints (ID s) = Some sc"
    and a': "a' = addToIndex (set_embedded s sc)
      (a\<lparr>InternalSchemas := ints, Schemas := mput (ID sc) (set_embedded s sc) (Schemas a)\<rparr>)" by (rule AddSchema_Inr)
  have "ID (schema.truncate s) = ID s" by (simp add: schema.defs)
  with assms(1) add have "ID sc = ID s" unfolding add_ok_def by fastforce
  then show ?thesis by (auto simp: a' addToIndex_def mget_mput serves_with_def)
qed

lemma AddSchemas_entry:
  assumes "add_ok add"
  shows "AddSchemas_loop add a m = Inr a' \<Longrightarrow> mwf m \<Longrightarrow> (\<forall>(k, s) \<in> set m. ID s = k) \<Longrightarrow>
    map_option serves_with (mget (Schemas a') i) =
      (case mget m i of Some s \<Rightarrow> Some (serves_with s) | None \<Rightarrow> map_option serves_with (mget (Schemas a) i))"
proof (induction m arbitrary: a)
  case (Cons e m)
  obtain k s where e: "e = (k, s)" by (cases e)
  with Cons.prems obtain a1 where a1: "AddSchema add a s = Inr a1" "AddSchemas_loop add a1 m = Inr a'"
    by (auto split: sum.splits)
  have m: "mwf m" "\<forall>(k, s) \<in> set m. ID s = k" "ID s = k" "mget m k = None"
    using Cons.prems e by (auto simp: mwf_def map_of_eq_None_iff)
  from Cons.IH [OF a1(2) m(1,2)] AddSchema_entry [OF assms a1(1), of i] m(3,4) e show ?case
    by (cases "i = k") (auto split: option.splits)
qed simp

lemma keyed_entries: "keyed m \<Longrightarrow> \<forall>(k, s) \<in> set m. ID s = k"
  by (auto simp: keyed_def mwf_mget_iff)

lemma builtin_entries:
  assumes "add_ok add" and "builtin_Schemas add fm st = Inr b"
  shows "keyed (Schemas b)" and "map_option serves_with (mget (Schemas b) i) =
    (if i = ''schema'' then Some (Some st, None) else if i = ''error'' \<or> i = ''collection'' then Some (None, None) else None)"
proof -
  obtain b1 b2 where adds: "AddSchema add EmptyAPISchemas (builtin_Schema fm st) = Inr b1" "AddSchema add b1 builtin_Error = Inr b2"
    "AddSchema add b2 builtin_Collection = Inr b"
    using assms(2) by (auto simp: builtin_Schemas_def split: sum.splits)
  have "keyed (Schemas EmptyAPISchemas)" by (simp add: keyed_def EmptyAPISchemas_def)
  from AddSchema_keyed [OF AddSchema_keyed [OF AddSchema_keyed [OF this adds(1)] adds(2)] adds(3)]
  show "keyed (Schemas b)" .
  have ids: "ID (builtin_Schema fm st) = ''schema''" "ID builtin_Error = ''error''" "ID builtin_Collection = ''collection''"
    "serves_with (builtin_Schema fm st) = (Some st, None)" "serves_with builtin_Error = (None, None)"
    "serves_with builtin_Collection = (None, None)"
    by (simp_all add: builtin_Schema_def builtin_Error_def builtin_Collection_def mk_api_schema_def empty_schema_def
        schema.defs serves_with_def)
  have "mget (Schemas EmptyAPISchemas) i = None" by (simp add: EmptyAPISchemas_def)
  then show "map_option serves_with (mget (Schemas b) i) =
    (if i = ''schema'' then Some (Some st, None) else if i = ''error'' \<or> i = ''collection'' then Some (None, None) else None)"
    by (simp add: AddSchema_entry [OF assms(1) adds(1)] AddSchema_entry [OF assms(1) adds(2)] AddSchema_entry [OF assms(1) adds(3)] ids)
qed

lemma base_entries:
  assumes "add_ok (wi_add W)" and "wi_imp W [] = Inr (sub, ints)" and "ID sub = ''subscribe''"
    and "\<forall>(n, f) \<in> set (ResourceFields sub). mget ints (f_Type f) = None"
    and "setup_base W EmptyAPISchemas = Some (Inr base)"
  shows "keyed (Schemas base)" and "map_option serves_with (mget (Schemas base) i) =
    (if i = ''schema'' then Some (Some (wi_schema_watch_store W), None)
     else if i = ''apiRoot'' then Some (Some (wi_root_store W), None)
     else if i = ''subscribe'' then Some (None, Some (wi_subscribe_handler W)) else None)"
proof -
  let ?f = "\<lambda>s. s\<lparr>CollectionMethods := [MethodGet], ResourceMethods := [], ListHandler := Some (wi_subscribe_handler W), PluralName := ''subscribe''\<rparr>"
  let ?a = "addToIndex (mk_api_schema sub) (EmptyAPISchemas\<lparr>InternalSchemas := ints, Schemas := [(''subscribe'', mk_api_schema sub)]\<rparr>)"
  have fields: "add_fields add fs a = Some a" if "InternalSchemas a = ints" "\<forall>(n, f) \<in> set fs. mget ints (f_Type f) = None" for add fs a
    using that by (induction fs) auto
  have "addInternalSchema (import_fuel ints) sub (EmptyAPISchemas\<lparr>InternalSchemas := ints\<rparr>) = Some ?a"
    using assms(3,4) by (simp add: import_fuel_def fields addToIndex_def EmptyAPISchemas_def)
  then have reg: "subscribe_Register (wi_imp W) (wi_subscribe_handler W) EmptyAPISchemas = Some (Inr (customize_entry ''subscribe'' ?f ?a))"
    using assms(2,3) by (simp add: subscribe_Register_def MustImportAndCustomize_def EmptyAPISchemas_def)
  let ?s = "customize_entry ''subscribe'' ?f ?a"
  have s: "Schemas ?s = [(''subscribe'', ?f (mk_api_schema sub))]" by (simp add: customize_entry_def addToIndex_def)
  have sub: "ID (?f (mk_api_schema sub)) = ''subscribe''" "serves_with (?f (mk_api_schema sub)) = (None, Some (wi_subscribe_handler W))"
    using assms(3) by (cases sub; simp add: mk_api_schema_def schema.defs serves_with_def)+
  obtain a1 where adds: "AddSchema (wi_add W) ?s (api_root_schema\<lparr>Formatter := Some (Fmt (wi_root_formatter W)), Store := Some (wi_root_store W)\<rparr>) = Inr a1"
    "AddSchema (wi_add W) a1 ((builtin_Schema (wi_schema_formatter W) (wi_schema_store W))\<lparr>Store := Some (wi_schema_watch_store W)\<rparr>) = Inr base"
    using assms(5) by (auto simp: setup_base_def DefaultSchemas_def SetupWatcher_def reg split: sum.splits)
  have "keyed (Schemas ?s)" unfolding s using sub(1) by (simp add: keyed_def mwf_def)
  from AddSchema_keyed [OF AddSchema_keyed [OF this adds(1)] adds(2)] show "keyed (Schemas base)" .
  have ids: "ID (api_root_schema\<lparr>Formatter := x, Store := y\<rparr>) = ''apiRoot''" "serves_with (api_root_schema\<lparr>Formatter := x, Store := y\<rparr>) = (y, None)"
    "ID ((builtin_Schema fm st)\<lparr>Store := y\<rparr>) = ''schema''" "serves_with ((builtin_Schema fm st)\<lparr>Store := y\<rparr>) = (y, None)" for x y fm st
    by (simp_all add: builtin_Schema_def api_root_schema_def mk_api_schema_def empty_schema_def schema.defs serves_with_def)
  show "map_option serves_with (mget (Schemas base) i) =
    (if i = ''schema'' then Some (Some (wi_schema_watch_store W), None)
     else if i = ''apiRoot'' then Some (Some (wi_root_store W), None)
     else if i = ''subscribe'' then Some (None, Some (wi_subscribe_handler W)) else None)"
    using AddSchema_entry [OF assms(1) adds(1), of i] AddSchema_entry [OF assms(1) adds(2), of i] sub(2) unfolding s ids by auto
qed

text \<open>What the server offers before anything is discovered. The schemas of any subject are then exactly
  \<open>schema\<close>, \<open>error\<close>, \<open>collection\<close>, \<open>subscribe\<close> and \<open>apiRoot\<close>: the schema of schemas is served by the
  store that can watch, which replaces the plain built-in one, the subscription by its handler, the roots by
  their store, and errors and collections by nothing.\<close>

theorem base_server_schemas:
  assumes "add_ok (wi_add W)" and "wi_imp W [] = Inr (sub, ints)" and "ID sub = ''subscribe''"
    and "\<forall>(n, f) \<in> set (ResourceFields sub). mget ints (f_Type f) = None"
    and "setup_base W EmptyAPISchemas = Some (Inr base)"
    and "builtin_Schemas (wi_add W) (wi_schema_formatter W) (wi_schema_store W) = Inr b"
    and "schemasForSubject (wi_add W) b C access (NewCollection base cache) = (Inr r, c')"
  shows "map_option (\<lambda>s. (Store s, ListHandler s)) (mget (Schemas r) i) =
    (if i = ''schema'' then Some (Some (wi_schema_watch_store W), None)
     else if i = ''apiRoot'' then Some (Some (wi_root_store W), None)
     else if i = ''subscribe'' then Some (None, Some (wi_subscribe_handler W))
     else if i = ''error'' \<or> i = ''collection'' then Some (None, None)
     else None)"
proof -
  note base = base_entries [OF assms(1-5)]
  note builtin = builtin_entries [OF assms(1,6)]
  from assms(7) obtain a0 a1 where a0: "AddSchemas_loop (wi_add W) EmptyAPISchemas (Schemas b) = Inr a0"
    and a1: "AddSchemas_loop (wi_add W) a0 (Schemas base) = Inr a1"
    and r: "Schemas r = Schemas a1"
    by (auto elim!: schemasForSubject_Inr simp: AddSchemas_def NewCollection_def)
  have wf: "mwf (Schemas b)" "mwf (Schemas base)" using base(1) builtin(1) by (simp_all add: keyed_def)
  have "mget (Schemas EmptyAPISchemas) i = None" by (simp add: EmptyAPISchemas_def)
  then have "map_option serves_with (mget (Schemas a0) i) = map_option serves_with (mget (Schemas b) i)"
    using AddSchemas_entry [OF assms(1) a0 wf(1) keyed_entries [OF builtin(1)], of i] by (simp split: option.splits)
  with AddSchemas_entry [OF assms(1) a1 wf(2) keyed_entries [OF base(1)], of i] base(2) [of i] builtin(2) [of i]
  have "map_option serves_with (mget (Schemas r) i) =
    (if i = ''schema'' then Some (Some (wi_schema_watch_store W), None)
     else if i = ''apiRoot'' then Some (Some (wi_root_store W), None)
     else if i = ''subscribe'' then Some (None, Some (wi_subscribe_handler W))
     else if i = ''error'' \<or> i = ''collection'' then Some (None, None)
     else None)"
    unfolding r by (cases "mget (Schemas base) i") (auto split: if_splits)
  then show ?thesis by (simp add: serves_with_def [abs_def])
qed

lemma base_server_schemas_witness:
  "\<exists>base b r c'. setup_base ex_wiring EmptyAPISchemas = Some (Inr base) \<and>
     schemasForSubject add_plain b convert_std empty_access_set (NewCollection base ()) = (Inr r, c') \<and>
     map_option (\<lambda>s. (Store s, ListHandler s)) (mget (Schemas r) ''schema'') = Some (Some 5, None)"
proof -
  have "case setup_base ex_wiring EmptyAPISchemas of Some (Inr base) \<Rightarrow>
      (case builtin_Schemas add_plain 3 4 of Inr b \<Rightarrow>
        (case fst (schemasForSubject add_plain b convert_std empty_access_set (NewCollection base ())) of Inr _ \<Rightarrow> True | Inl _ \<Rightarrow> False)
      | Inl _ \<Rightarrow> False) | _ \<Rightarrow> False" by code_simp
  then obtain base b r c' where run: "setup_base ex_wiring EmptyAPISchemas = Some (Inr base)" "builtin_Schemas add_plain 3 4 = Inr b"
    "schemasForSubject add_plain b convert_std empty_access_set (NewCollection base ()) = (Inr r, c')"
    by (auto split: option.splits sum.splits) (metis prod.collapse)
  from base_server_schemas [of ex_wiring ex_subscribe_type "[(''subscribe'', ex_subscribe_type)]" base b convert_std empty_access_set "()" r c' "''schema''"]
    run add_plain_ok
  have "map_option (\<lambda>s. (Store s, ListHandler s)) (mget (Schemas r) ''schema'') = Some (Some 5, None)"
    by (simp add: ex_wiring_def ex_subscribe_type_def empty_schema_def)
  with run show ?thesis by blast
qed

end
